(* ===== verification/Prelude.thy ===== *)
theory Prelude
  imports Main "HOL-Library.Word" "HOL-Library.Signed_Division"
begin

text \<open>
  What every component shares: the machine integers of the C sources, byte order conversion,
  the \<open>struct timeval\<close> arithmetic of \<open>src/utils/timer_queue.h\<close>, sequence numbers
  (\<open>src/routing/routing_table.h\<close>), the protocol constants of \<open>src/core/params.h\<close> and
  \<open>src/core/defs.h\<close>, and a few lemmas on lists and options.

  The target is the default build of \<open>aodvd\<close> on a 64-bit little-endian Linux (no
  \<open>NS_PORT\<close>, no \<open>CONFIG_GATEWAY\<close>).  Unsigned fields of fixed width are words.  \<open>long\<close>,
  \<open>time_t\<close> and \<open>int\<close> values that hold times, sizes and counters are HOL integers: the code
  never brings them near their 64-bit (32-bit) limits.  Where the code mixes signed and
  unsigned operands or may wrap around, the conversion is written out.
\<close>

unbundle bit_operations_syntax

section \<open>Machine integers\<close>

type_synonym u8 = "8 word"
type_synonym u16 = "16 word"
type_synonym u32 = "32 word"

text \<open>An IPv4 address, as the \<open>s_addr\<close> of a \<open>struct in_addr\<close> (network byte order).\<close>

type_synonym addr = u32

text \<open>Objects returned by \<open>malloc\<close> are numbered in the order of allocation.\<close>

type_synonym ptr = nat

text \<open>Byte swapping, on a little-endian host both \<open>htonl\<close> and \<open>ntohl\<close>.\<close>

definition htonl :: "u32 \<Rightarrow> u32" where
  "htonl x =
     push_bit 24 (take_bit 8 x) OR push_bit 16 (take_bit 8 (drop_bit 8 x)) OR
     push_bit 8 (take_bit 8 (drop_bit 16 x)) OR take_bit 8 (drop_bit 24 x)"

abbreviation ntohl :: "u32 \<Rightarrow> u32" where
  "ntohl \<equiv> htonl"

definition htons :: "u16 \<Rightarrow> u16" where
  "htons x = push_bit 8 (take_bit 8 x) OR take_bit 8 (drop_bit 8 x)"

abbreviation ntohs :: "u16 \<Rightarrow> u16" where
  "ntohs \<equiv> htons"

lemma bit_shifted_byte:
  "bit (push_bit k (take_bit 8 (drop_bit j (x :: 'a::len word)))) n \<longleftrightarrow>
     k \<le> n \<and> n < k + 8 \<and> n < LENGTH('a) \<and> bit x (j + (n - k))"
  by (auto simp: bit_simps)

lemmas bit_shifted_byte0 =
  bit_shifted_byte [where k = 0, simplified] bit_shifted_byte [where j = 0, simplified]

lemma bit_htonl:
  assumes "n < 32"
  shows "bit (htonl x) n \<longleftrightarrow> bit x (24 - 8 * (n div 8) + n mod 8)"
proof -
  consider "n div 8 = 0" | "n div 8 = 1" | "n div 8 = 2" | "n div 8 = 3"
    using assms by linarith
  then show ?thesis
  proof cases
    case 1 then have "n < 8" by linarith
    then show ?thesis
      by (simp add: htonl_def bit_or_iff bit_shifted_byte bit_shifted_byte0 bit_drop_bit_eq add.commute)
  next
    case 2 then have n: "8 \<le> n" "n < 16" by linarith+
    have "n mod 8 = n - 8" using n by (simp add: mod_if)
    then show ?thesis using n 2
      by (simp add: htonl_def bit_or_iff bit_shifted_byte bit_shifted_byte0 bit_drop_bit_eq)
  next
    case 3 then have n: "16 \<le> n" "n < 24" by linarith+
    have "n mod 8 = n - 16" using n by (simp add: mod_if)
    then show ?thesis using n 3
      by (simp add: htonl_def bit_or_iff bit_shifted_byte bit_shifted_byte0 bit_drop_bit_eq)
  next
    case 4 then have n: "24 \<le> n" "n < 32" using assms by linarith+
    have "n mod 8 = n - 24" using n by (simp add: mod_if)
    then show ?thesis using n 4
      by (simp add: htonl_def bit_or_iff bit_shifted_byte bit_shifted_byte0 bit_drop_bit_eq)
  qed
qed

lemma htonl_htonl [simp]: "htonl (htonl x) = x"
proof (rule bit_word_eqI)
  fix n :: nat
  assume "n < LENGTH(32)"
  then have n: "n < 32" by simp
  let ?m = "24 - 8 * (n div 8) + n mod 8"
  have le: "n div 8 \<le> 3" using n by linarith
  have "?m = 8 * (3 - n div 8) + n mod 8" by linarith
  moreover have "n mod 8 < 8" by simp
  ultimately have d: "?m div 8 = 3 - n div 8" and m: "?m mod 8 = n mod 8"
    by simp_all
  have lt: "?m < 32" using le \<open>n mod 8 < 8\<close> by linarith
  have "24 - 8 * (?m div 8) + ?m mod 8 = 8 * (n div 8) + n mod 8"
    unfolding d m using le by linarith
  then show "bit (htonl (htonl x)) n = bit x n"
    by (simp only: bit_htonl [OF n] bit_htonl [OF lt] mult_div_mod_eq)
qed

lemma htons_htons [simp]: "htons (htons x) = x"
proof (rule bit_word_eqI)
  fix n :: nat
  assume "n < LENGTH(16)"
  then consider "n < 8" | "8 \<le> n" "n < 16" by fastforce
  then show "bit (htons (htons x)) n = bit x n"
    by cases
      (auto simp: htons_def bit_or_iff bit_push_bit_iff bit_take_bit_iff bit_drop_bit_eq)
qed

lemma htonl_inj [simp]: "htonl x = htonl y \<longleftrightarrow> x = y"
  by (metis htonl_htonl)

section \<open>Time values (\<open>struct timeval\<close>)\<close>

record timeval =
  tv_sec :: int
  tv_usec :: int

definition tv_zero :: timeval where
  "tv_zero = \<lparr>tv_sec = 0, tv_usec = 0\<rparr>"

text \<open>
  \<open>timeval_diff\<close>: the difference in milliseconds; the division is C's, which truncates.
  Every caller passes the addresses of two objects, never \<open>NULL\<close>.
\<close>

definition timeval_diff :: "timeval \<Rightarrow> timeval \<Rightarrow> int" where
  "timeval_diff t1 t2 =
     ((tv_sec t1 - tv_sec t2) * 1000000 + tv_usec t1 - tv_usec t2) sdiv 1000"

text \<open>\<open>timeval_add_msec\<close>: the sum is formed in an \<open>unsigned long long\<close>.\<close>

definition timeval_add_msec :: "timeval \<Rightarrow> int \<Rightarrow> timeval" where
  "timeval_add_msec t msec =
     (let add = (tv_usec t + msec * 1000) mod 2 ^ 64
      in \<lparr>tv_sec = tv_sec t + add div 1000000, tv_usec = add mod 1000000\<rparr>)"

text \<open>The same instant as one number of microseconds, and what makes the two fields normal.\<close>

definition usecs :: "timeval \<Rightarrow> int" where
  "usecs t = tv_sec t * 1000000 + tv_usec t"

definition tv_normal :: "timeval \<Rightarrow> bool" where
  "tv_normal t \<longleftrightarrow> 0 \<le> tv_usec t \<and> tv_usec t < 1000000"

lemma sdiv_pos_iff: "0 < (a::int) sdiv 1000 \<longleftrightarrow> 1000 \<le> a"
proof (cases "0 \<le> a")
  case True
  then have "a sdiv 1000 = a div 1000" by (simp add: signed_divide_int_def sgn_if)
  then show ?thesis by linarith
next
  case False
  then have "a sdiv 1000 = - ((- a) div 1000)" by (simp add: signed_divide_int_def sgn_if)
  then show ?thesis using False by linarith
qed

lemma sdiv_neg_iff: "(a::int) sdiv 1000 < 0 \<longleftrightarrow> a \<le> - 1000"
proof (cases "0 \<le> a")
  case True
  then have "a sdiv 1000 = a div 1000" by (simp add: signed_divide_int_def sgn_if)
  then show ?thesis using True by linarith
next
  case False
  then have "a sdiv 1000 = - ((- a) div 1000)" by (simp add: signed_divide_int_def sgn_if)
  then show ?thesis by linarith
qed

lemma timeval_diff_usecs: "timeval_diff t1 t2 = (usecs t1 - usecs t2) sdiv 1000"
  by (simp add: timeval_diff_def usecs_def algebra_simps)

lemma timeval_diff_pos: "0 < timeval_diff t1 t2 \<longleftrightarrow> usecs t2 + 1000 \<le> usecs t1"
  by (simp add: timeval_diff_usecs sdiv_pos_iff algebra_simps)

lemma timeval_diff_neg: "timeval_diff t1 t2 < 0 \<longleftrightarrow> usecs t1 + 1000 \<le> usecs t2"
  by (simp add: timeval_diff_usecs sdiv_neg_iff algebra_simps)

lemma usecs_add_msec:
  assumes "tv_normal t" and "0 \<le> msec" and "msec < 2 ^ 32"
  shows "usecs (timeval_add_msec t msec) = usecs t + 1000 * msec"
proof -
  have "tv_usec t + msec * 1000 < 2 ^ 64" and "0 \<le> tv_usec t + msec * 1000"
    using assms by (simp_all add: tv_normal_def)
  then have "(tv_usec t + msec * 1000) mod 2 ^ 64 = tv_usec t + msec * 1000" by simp
  then show ?thesis
    by (simp add: timeval_add_msec_def usecs_def Let_def algebra_simps)
qed

section \<open>Sequence numbers\<close>

text \<open>The macro \<open>seqno_incr\<close>: zero means ``unknown'' and stays, the largest value wraps to one.\<close>

definition seqno_incr :: "u32 \<Rightarrow> u32" where
  "seqno_incr s = (if s = 0 then 0 else if s = 0xFFFFFFFF then 1 else s + 1)"

text \<open>
  The comparison \<open>(int32_t) a > (int32_t) b\<close> that decides freshness in \<open>rreq_process\<close> and
  \<open>rrep_process\<close>: each operand is reinterpreted as a signed number.
\<close>

definition seqno_newer :: "u32 \<Rightarrow> u32 \<Rightarrow> bool" where
  "seqno_newer a b \<longleftrightarrow> sint a > sint b"

lemma seqno_newer_irrefl [simp]: "\<not> seqno_newer a a"
  by (simp add: seqno_newer_def)

lemma seqno_newer_trans: "seqno_newer a b \<Longrightarrow> seqno_newer b c \<Longrightarrow> seqno_newer a c"
  by (simp add: seqno_newer_def)

lemma seqno_newer_total: "a \<noteq> b \<Longrightarrow> seqno_newer a b \<or> seqno_newer b a"
  by (metis linorder_neqE seqno_newer_def signed_word_eqI)

lemma seqno_incr_zero_iff [simp]: "seqno_incr s = 0 \<longleftrightarrow> s = 0"
proof
  assume zero: "seqno_incr s = 0"
  have "s + 1 = 0 \<Longrightarrow> s = 0xFFFFFFFF"
    by (simp add: eq_neg_iff_add_eq_0 [symmetric])
  with zero show "s = 0"
    by (auto simp: seqno_incr_def split: if_splits)
qed (simp add: seqno_incr_def)

section \<open>Protocol constants\<close>

text \<open>
  \<open>src/core/params.h\<close>, each macro with its value.  \<open>ACTIVE_ROUTE_TIMEOUT\<close>, \<open>TTL_START\<close> and
  \<open>DELETE_PERIOD\<close> are run-time variables and live in the configuration of the node.
\<close>

definition ACTIVE_ROUTE_TIMEOUT_HELLO :: int where [simp]: "ACTIVE_ROUTE_TIMEOUT_HELLO = 3000"
definition ACTIVE_ROUTE_TIMEOUT_LLF :: int where [simp]: "ACTIVE_ROUTE_TIMEOUT_LLF = 10000"
definition TTL_START_HELLO :: int where [simp]: "TTL_START_HELLO = 2"
definition ALLOWED_HELLO_LOSS :: int where [simp]: "ALLOWED_HELLO_LOSS = 2"
definition HELLO_INTERVAL :: int where [simp]: "HELLO_INTERVAL = 1000"
definition DELETE_PERIOD_HELLO :: int where
  [simp]: "DELETE_PERIOD_HELLO =
     5 * max ACTIVE_ROUTE_TIMEOUT_HELLO (ALLOWED_HELLO_LOSS * HELLO_INTERVAL)"
definition LOCAL_ADD_TTL :: int where [simp]: "LOCAL_ADD_TTL = 2"
definition NET_DIAMETER :: int where [simp]: "NET_DIAMETER = 35"
definition MAX_REPAIR_TTL :: int where [simp]: "MAX_REPAIR_TTL = 3 * NET_DIAMETER div 10"
definition NODE_TRAVERSAL_TIME :: int where [simp]: "NODE_TRAVERSAL_TIME = 40"
definition NET_TRAVERSAL_TIME :: int where
  [simp]: "NET_TRAVERSAL_TIME = 2 * NODE_TRAVERSAL_TIME * NET_DIAMETER"
definition NEXT_HOP_WAIT :: int where [simp]: "NEXT_HOP_WAIT = NODE_TRAVERSAL_TIME + 10"
definition PATH_DISCOVERY_TIME :: int where [simp]: "PATH_DISCOVERY_TIME = 2 * NET_TRAVERSAL_TIME"
definition RERR_RATELIMIT :: nat where [simp]: "RERR_RATELIMIT = 10"
definition RREQ_RETRIES :: int where [simp]: "RREQ_RETRIES = 2"
definition RREQ_RATELIMIT :: nat where [simp]: "RREQ_RATELIMIT = 10"
definition TIMEOUT_BUFFER :: int where [simp]: "TIMEOUT_BUFFER = 2"
definition TTL_INCREMENT :: int where [simp]: "TTL_INCREMENT = 2"
definition TTL_THRESHOLD :: int where [simp]: "TTL_THRESHOLD = 7"

definition RING_TRAVERSAL_TIME :: "int \<Rightarrow> int" where
  "RING_TRAVERSAL_TIME ttl = 2 * NODE_TRAVERSAL_TIME * (ttl + TIMEOUT_BUFFER)"

definition BLACKLIST_TIMEOUT :: "int \<Rightarrow> int" where
  "BLACKLIST_TIMEOUT ttl_start =
     RREQ_RETRIES * NET_TRAVERSAL_TIME + (TTL_THRESHOLD - ttl_start) sdiv TTL_INCREMENT + 1
       + RREQ_RETRIES"

text \<open>\<open>src/core/defs.h\<close>.\<close>

definition MAX_NR_INTERFACES :: nat where [simp]: "MAX_NR_INTERFACES = 10"
definition AODV_BROADCAST :: addr where [simp]: "AODV_BROADCAST = 0xFFFFFFFF"
definition AODV_PORT :: u16 where [simp]: "AODV_PORT = 654"
definition AODV_RREQ :: u8 where [simp]: "AODV_RREQ = 1"
definition AODV_RREP :: u8 where [simp]: "AODV_RREP = 2"
definition AODV_RERR :: u8 where [simp]: "AODV_RERR = 3"
definition AODV_RREP_ACK :: u8 where [simp]: "AODV_RREP_ACK = 4"
definition MAXTTL :: u8 where [simp]: "MAXTTL = 255"

section \<open>Lists\<close>

lemma distinct_remove1_set: "distinct xs \<Longrightarrow> set (remove1 x xs) = set xs - {x}"
  by simp

lemma find_Some_iff_unique:
  assumes "\<And>x y. x \<in> set xs \<Longrightarrow> y \<in> set xs \<Longrightarrow> P x \<Longrightarrow> P y \<Longrightarrow> x = y"
  shows "List.find P xs = Some x \<longleftrightarrow> x \<in> set xs \<and> P x"
  using assms by (induction xs) auto

lemma find_SomeD: "List.find P xs = Some x \<Longrightarrow> x \<in> set xs \<and> P x"
  by (auto simp: find_Some_iff)

lemma sorted_wrt_remove1: "sorted_wrt P xs \<Longrightarrow> sorted_wrt P (remove1 x xs)"
  by (induction xs) (auto dest: notin_set_remove1 [THEN contrapos_nn])

lemma map_filter_append: "List.map_filter f (xs @ ys) = List.map_filter f xs @ List.map_filter f ys"
  by (simp add: List.map_filter_def)

end
