(* ===== verification/Linked_List.thy ===== *)
theory Linked_List
  imports Prelude
begin

text \<open>
  The intrusive doubly linked lists of \<open>src/utils/list.h\<close> and \<open>src/utils/list.c\<close>, on an
  explicit heap: every node has a \<open>next\<close> and a \<open>prev\<close> field, each a node or \<open>NULL\<close>
  (\<open>None\<close>).  Following a \<open>NULL\<close> pointer makes an operation return \<open>None\<close>.  The operations
  are shown to implement insertion and deletion on the sequence of nodes between a list head
  and itself, which is how the other theories model every list of the daemon.
\<close>

section \<open>Nodes, heap and operations\<close>

record 'n lheap =
  lprev :: "'n \<Rightarrow> 'n option"
  lnext :: "'n \<Rightarrow> 'n option"

definition LIST_NULL :: int where [simp]: "LIST_NULL = -1"
definition LIST_SUCCESS :: int where [simp]: "LIST_SUCCESS = 1"

definition set_prev :: "'n \<Rightarrow> 'n option \<Rightarrow> 'n lheap \<Rightarrow> 'n lheap" where
  "set_prev n v h = h\<lparr>lprev := (lprev h)(n := v)\<rparr>"

definition set_next :: "'n \<Rightarrow> 'n option \<Rightarrow> 'n lheap \<Rightarrow> 'n lheap" where
  "set_next n v h = h\<lparr>lnext := (lnext h)(n := v)\<rparr>"

definition INIT_LIST_HEAD :: "'n \<Rightarrow> 'n lheap \<Rightarrow> 'n lheap" where
  "INIT_LIST_HEAD head h = set_prev head (Some head) (set_next head (Some head) h)"

definition INIT_LIST_ELM :: "'n \<Rightarrow> 'n lheap \<Rightarrow> 'n lheap" where
  "INIT_LIST_ELM le h = set_prev le None (set_next le None h)"

definition listelm_detach :: "'n \<Rightarrow> 'n \<Rightarrow> 'n lheap \<Rightarrow> 'n lheap" where
  "listelm_detach prev next h = set_next prev (Some next) (set_prev next (Some prev) h)"

definition listelm_add :: "'n \<Rightarrow> 'n \<Rightarrow> 'n \<Rightarrow> 'n lheap \<Rightarrow> 'n lheap" where
  "listelm_add le prev next h =
     set_prev next (Some le) (set_next le (Some next)
       (set_prev le (Some prev) (set_next prev (Some le) h)))"

fun list_add :: "'n option \<Rightarrow> 'n option \<Rightarrow> 'n lheap \<Rightarrow> (int \<times> 'n lheap) option" where
  "list_add (Some head) (Some le) h =
     (case lnext h head of
        None \<Rightarrow> None
      | Some next \<Rightarrow> Some (LIST_SUCCESS, listelm_add le head next h))"
| "list_add _ _ h = Some (LIST_NULL, h)"

fun list_add_tail :: "'n option \<Rightarrow> 'n option \<Rightarrow> 'n lheap \<Rightarrow> (int \<times> 'n lheap) option" where
  "list_add_tail (Some head) (Some le) h =
     (case lprev h head of
        None \<Rightarrow> None
      | Some prev \<Rightarrow> Some (LIST_SUCCESS, listelm_add le prev head h))"
| "list_add_tail _ _ h = Some (LIST_NULL, h)"

fun list_detach :: "'n option \<Rightarrow> 'n lheap \<Rightarrow> (int \<times> 'n lheap) option" where
  "list_detach (Some le) h =
     (case (lprev h le, lnext h le) of
        (Some prev, Some next) \<Rightarrow>
          Some (LIST_SUCCESS, set_prev le None (set_next le None (listelm_detach prev next h)))
      | _ \<Rightarrow> None)"
| "list_detach None h = Some (LIST_NULL, h)"

definition list_empty :: "'n \<Rightarrow> 'n lheap \<Rightarrow> bool" where
  "list_empty head h \<longleftrightarrow> lnext h head = Some head"

definition list_first :: "'n \<Rightarrow> 'n lheap \<Rightarrow> 'n option" where
  "list_first head h = lnext h head"

definition list_unattached :: "'n \<Rightarrow> 'n lheap \<Rightarrow> bool" where
  "list_unattached le h \<longleftrightarrow> lnext h le = None \<and> lprev h le = None"

text \<open>
  The traversal \<open>list_foreach\<close>: the nodes visited from \<open>pos\<close> on, up to the head.  It need not
  stop on an arbitrary heap, so not returning, like following \<open>NULL\<close>, is \<open>None\<close>.
\<close>

partial_function (option) list_foreach_from ::
  "'n lheap \<Rightarrow> 'n \<Rightarrow> 'n option \<Rightarrow> 'n list option" where
  "list_foreach_from h head pos =
     (case pos of
        None \<Rightarrow> None
      | Some c \<Rightarrow>
          if c = head then Some []
          else Option.bind (list_foreach_from h head (lnext h c)) (\<lambda>ns. Some (c # ns)))"

definition list_foreach :: "'n \<Rightarrow> 'n lheap \<Rightarrow> 'n list option" where
  "list_foreach head h = list_foreach_from h head (lnext h head)"

section \<open>The sequence a heap represents\<close>

text \<open>\<open>dseg h a xs b\<close>: from \<open>a\<close> the links lead through \<open>xs\<close> to \<open>b\<close>, and back.\<close>

fun dseg :: "'n lheap \<Rightarrow> 'n \<Rightarrow> 'n list \<Rightarrow> 'n \<Rightarrow> bool" where
  "dseg h a [] b \<longleftrightarrow> lnext h a = Some b \<and> lprev h b = Some a"
| "dseg h a (x # xs) b \<longleftrightarrow> lnext h a = Some x \<and> lprev h x = Some a \<and> dseg h x xs b"

definition dlist :: "'n lheap \<Rightarrow> 'n \<Rightarrow> 'n list \<Rightarrow> bool" where
  "dlist h a xs \<longleftrightarrow> distinct (a # xs) \<and> dseg h a xs a"

lemma heap_fields [simp]:
  "lnext (set_prev n v h) = lnext h" "lprev (set_prev n v h) = (lprev h)(n := v)"
  "lprev (set_next n v h) = lprev h" "lnext (set_next n v h) = (lnext h)(n := v)"
  by (simp_all add: set_prev_def set_next_def)

lemma dseg_append: "dseg h a (xs @ y # ys) b \<longleftrightarrow> dseg h a xs y \<and> dseg h y ys b"
  by (induction xs arbitrary: a) auto

lemma dseg_lnext_last: "dseg h a xs b \<Longrightarrow> lnext h (last (a # xs)) = Some b"
  by (induction xs arbitrary: a) auto

lemma dseg_lprev_last: "dseg h a xs b \<Longrightarrow> lprev h b = Some (last (a # xs))"
  by (induction xs arbitrary: a) auto

lemma dseg_lnext_first: "dseg h a xs b \<Longrightarrow> lnext h a = Some (hd (xs @ [b]))"
  by (cases xs) auto

text \<open>A segment only depends on the \<open>next\<close> of its first nodes and the \<open>prev\<close> of its last.\<close>

lemma dseg_cong:
  assumes "\<And>n. n \<in> set (a # xs) \<Longrightarrow> lnext h' n = lnext h n"
    and "\<And>n. n \<in> set (xs @ [b]) \<Longrightarrow> lprev h' n = lprev h n"
  shows "dseg h' a xs b = dseg h a xs b"
  using assms by (induction xs arbitrary: a) auto

text \<open>The same, leaving open the last \<open>next\<close> (the last \<open>prev\<close> of the segment before).\<close>

lemma dseg_relink_last:
  assumes "dseg h a xs b"
    and "\<And>n. n \<in> set (butlast (a # xs)) \<Longrightarrow> lnext h' n = lnext h n"
    and "\<And>n. n \<in> set xs \<Longrightarrow> lprev h' n = lprev h n"
    and "lnext h' (last (a # xs)) = Some c" and "lprev h' c = Some (last (a # xs))"
  shows "dseg h' a xs c"
  using assms
proof (induction xs arbitrary: a)
  case (Cons x xs)
  have "dseg h' x xs c"
    by (rule Cons.IH) (use Cons.prems in \<open>auto split: if_splits\<close>)
  with Cons.prems show ?case by auto
qed auto

lemma dseg_relink_first:
  assumes "dseg h a xs b"
    and "\<And>n. n \<in> set xs \<Longrightarrow> lnext h' n = lnext h n"
    and "\<And>n. n \<in> set (tl (xs @ [b])) \<Longrightarrow> lprev h' n = lprev h n"
    and "lnext h' c = Some (hd (xs @ [b]))" and "lprev h' (hd (xs @ [b])) = Some c"
  shows "dseg h' c xs b"
proof (cases xs)
  case Nil
  with assms show ?thesis by simp
next
  case (Cons y ys)
  have "dseg h' y ys b = dseg h y ys b"
    by (rule dseg_cong) (use assms Cons in auto)
  with assms Cons show ?thesis by simp
qed

section \<open>The operations on represented sequences\<close>

text \<open>
  Linking a fresh node between two neighbours: the common core of \<open>list_add\<close>,
  \<open>list_add_tail\<close> and of the insertion in front of \<open>pos\<close> in \<open>timer_add\<close>.
\<close>

lemma dlist_listelm_add:
  assumes "dlist h a (xs @ ys)" and "le \<notin> set (a # xs @ ys)"
  shows "dlist (listelm_add le (last (a # xs)) (hd (ys @ [a])) h) a (xs @ le # ys)"
proof -
  define p where "p = last (a # xs)"
  define n where "n = hd (ys @ [a])"
  define h' where "h' = listelm_add le p n h"
  have dist: "distinct (a # xs @ ys)" and seg: "dseg h a (xs @ ys) a"
    using assms(1) by (auto simp: dlist_def)
  have "p \<in> set (a # xs)" and "n \<in> set (ys @ [a])"
    unfolding p_def n_def by (simp, cases ys, auto)
  then have le: "le \<noteq> p" "le \<noteq> n" using assms(2) by auto
  then have nxt: "lnext h' = (lnext h)(p := Some le, le := Some n)"
    and prv: "lprev h' = (lprev h)(le := Some p, n := Some le)"
    by (simp_all add: h'_def listelm_add_def fun_upd_twist)
  have p_fresh: "p \<notin> set (butlast (a # xs)) \<union> set ys"
    using dist unfolding p_def by (cases xs rule: rev_cases) (auto simp: butlast_append)
  have n_fresh: "n \<notin> set xs \<union> set (tl (ys @ [a]))"
    using dist unfolding n_def by (cases ys) auto
  have seg1: "dseg h a xs n"
    using seg unfolding n_def by (cases ys) (auto simp: dseg_append)
  have seg2: "dseg h p ys a"
    using seg unfolding p_def by (cases xs rule: rev_cases) (auto simp: dseg_append)
  have 1: "dseg h' a xs le"
  proof (rule dseg_relink_last [OF seg1, folded p_def])
    fix m assume m: "m \<in> set (butlast (a # xs))"
    then have "m \<in> set (a # xs)" by (rule in_set_butlastD)
    with m show "lnext h' m = lnext h m" using p_fresh assms(2) by (auto simp: nxt)
  next
    fix m assume "m \<in> set xs"
    then show "lprev h' m = lprev h m" using n_fresh assms(2) by (auto simp: prv)
  qed (use le in \<open>auto simp: nxt prv\<close>)
  have 2: "dseg h' le ys a"
  proof (rule dseg_relink_first [OF seg2, folded n_def])
    fix m assume "m \<in> set ys"
    then show "lnext h' m = lnext h m" using p_fresh assms(2) by (auto simp: nxt)
  next
    fix m assume m: "m \<in> set (tl (ys @ [a]))"
    then have "m \<in> set (ys @ [a])" by (cases ys) auto
    with m show "lprev h' m = lprev h m" using n_fresh assms(2) by (auto simp: prv)
  qed (use le in \<open>auto simp: nxt prv\<close>)
  from 1 2 dist assms(2) have "dlist h' a (xs @ le # ys)"
    by (auto simp: dlist_def dseg_append)
  then show ?thesis by (simp only: h'_def p_def n_def)
qed

lemma dlist_listelm_detach:
  assumes "dlist h a (xs @ le # ys)"
  shows "dlist (listelm_detach (last (a # xs)) (hd (ys @ [a])) h) a (xs @ ys)"
proof -
  define p where "p = last (a # xs)"
  define n where "n = hd (ys @ [a])"
  define h' where "h' = listelm_detach p n h"
  have dist: "distinct (a # xs @ le # ys)"
    and seg1: "dseg h a xs le" and seg2: "dseg h le ys a"
    using assms by (auto simp: dlist_def dseg_append)
  have nxt: "lnext h' = (lnext h)(p := Some n)" and prv: "lprev h' = (lprev h)(n := Some p)"
    by (simp_all add: h'_def listelm_detach_def)
  have p_fresh: "p \<notin> set (butlast (a # xs)) \<union> set ys"
    using dist unfolding p_def by (cases xs rule: rev_cases) (auto simp: butlast_append)
  have n_fresh: "n \<notin> set xs \<union> set (tl (ys @ [a]))"
    using dist unfolding n_def by (cases ys) auto
  have 1: "dseg h' a xs n"
  proof (rule dseg_relink_last [OF seg1, folded p_def])
    fix m assume "m \<in> set (butlast (a # xs))"
    then show "lnext h' m = lnext h m" using p_fresh by (auto simp: nxt)
  qed (use n_fresh in \<open>auto simp: nxt prv\<close>)
  have 2: "dseg h' p ys a"
  proof (rule dseg_relink_first [OF seg2, folded n_def])
    fix m assume "m \<in> set (tl (ys @ [a]))"
    then show "lprev h' m = lprev h m" using n_fresh by (auto simp: prv)
  qed (use p_fresh in \<open>auto simp: nxt prv\<close>)
  have "dseg h' a (xs @ ys) a"
  proof (cases ys)
    case Nil
    with 1 show ?thesis by (simp add: n_def)
  next
    case (Cons y zs)
    with 1 2 show ?thesis by (simp add: n_def dseg_append)
  qed
  with dist have "dlist h' a (xs @ ys)" by (simp add: dlist_def)
  then show ?thesis by (simp only: h'_def p_def n_def)
qed

lemma dlist_unlinked_field:
  assumes "dlist h a xs" and "le \<notin> set (a # xs)"
  shows "dlist (set_prev le None (set_next le None h)) a xs"
proof -
  have "dseg (set_prev le None (set_next le None h)) a xs a = dseg h a xs a"
    by (rule dseg_cong) (use assms(2) in auto)
  with assms show ?thesis by (simp add: dlist_def)
qed

text \<open>Each operation returns, reports success and has its effect on the sequence.\<close>

lemma dlist_list_add:
  assumes "dlist h a xs" and "le \<notin> set (a # xs)"
  shows "\<exists>h'. list_add (Some a) (Some le) h = Some (LIST_SUCCESS, h') \<and> dlist h' a (le # xs)"
proof -
  have "lnext h a = Some (hd (xs @ [a]))"
    using assms(1) by (auto simp: dlist_def dest: dseg_lnext_first)
  with dlist_listelm_add [of h a "[]" xs le] assms show ?thesis by simp
qed

lemma dlist_list_add_tail:
  assumes "dlist h a xs" and "le \<notin> set (a # xs)"
  shows "\<exists>h'. list_add_tail (Some a) (Some le) h = Some (LIST_SUCCESS, h') \<and>
              dlist h' a (xs @ [le])"
proof -
  have "lprev h a = Some (last (a # xs))"
    using assms(1) by (auto simp: dlist_def dest: dseg_lprev_last)
  with dlist_listelm_add [of h a xs "[]" le] assms show ?thesis by simp
qed

text \<open>\<open>list_add(pos->prev, le)\<close> inserts in front of \<open>pos\<close>, also when \<open>pos\<close> is the head.\<close>

lemma dlist_insert_before:
  assumes "dlist h a (xs @ ys)" and "le \<notin> set (a # xs @ ys)"
  shows "\<exists>q h'. lprev h (hd (ys @ [a])) = Some q \<and>
                list_add (Some q) (Some le) h = Some (LIST_SUCCESS, h') \<and>
                dlist h' a (xs @ le # ys)"
proof -
  have seg: "dseg h a (xs @ ys) a" using assms(1) by (simp add: dlist_def)
  have "dseg h a xs (hd (ys @ [a]))"
    using seg by (cases ys) (auto simp: dseg_append)
  then have "lprev h (hd (ys @ [a])) = Some (last (a # xs))"
    and "lnext h (last (a # xs)) = Some (hd (ys @ [a]))"
    by (rule dseg_lprev_last, rule dseg_lnext_last)
  with dlist_listelm_add [OF assms] show ?thesis by simp
qed

lemma dlist_list_detach:
  assumes "dlist h a (xs @ le # ys)"
  shows "\<exists>h'. list_detach (Some le) h = Some (LIST_SUCCESS, h') \<and>
              dlist h' a (xs @ ys) \<and> list_unattached le h'"
proof -
  have seg: "dseg h a xs le" "dseg h le ys a" and le: "le \<notin> set (a # xs @ ys)"
    using assms by (auto simp: dlist_def dseg_append)
  have "lprev h le = Some (last (a # xs))" and "lnext h le = Some (hd (ys @ [a]))"
    using dseg_lprev_last [OF seg(1)] dseg_lnext_first [OF seg(2)] by simp_all
  with dlist_unlinked_field [OF dlist_listelm_detach [OF assms] le] show ?thesis
    by (simp add: list_unattached_def)
qed

lemma list_foreach_from_dseg:
  assumes "dseg h b xs a" and "a \<notin> set xs"
  shows "list_foreach_from h a (lnext h b) = Some xs"
  using assms
proof (induction xs arbitrary: b)
  case Nil
  then show ?case by (simp add: list_foreach_from.simps)
next
  case (Cons x xs)
  then have "list_foreach_from h a (lnext h x) = Some xs" by simp
  with Cons.prems show ?case by (auto simp: list_foreach_from.simps [of h a "Some x"])
qed

lemma dlist_foreach: "dlist h a xs \<Longrightarrow> list_foreach a h = Some xs"
  by (auto simp: dlist_def list_foreach_def intro: list_foreach_from_dseg)

lemma dlist_INIT_LIST_HEAD: "dlist (INIT_LIST_HEAD a h) a []"
  by (simp add: dlist_def INIT_LIST_HEAD_def)

lemma dlist_empty_iff: "dlist h a xs \<Longrightarrow> list_empty a h \<longleftrightarrow> xs = []"
  by (cases xs) (auto simp: dlist_def list_empty_def)

lemma dlist_first: "dlist h a (x # xs) \<Longrightarrow> list_first a h = Some x"
  by (simp add: dlist_def list_first_def)

lemma dlist_attached:
  assumes "dlist h a xs" and "x \<in> set xs"
  shows "\<not> list_unattached x h"
proof -
  obtain ys zs where "xs = ys @ x # zs" using split_list [OF assms(2)] by blast
  with assms(1) have "dseg h x zs a" by (simp add: dlist_def dseg_append)
  from dseg_lnext_first [OF this] show ?thesis by (simp add: list_unattached_def)
qed

section \<open>The interface\<close>

text \<open>
  What the daemon's queues rely on: a representation of sequences with insertion at both ends,
  deletion anywhere, and a traversal.
\<close>

locale sequence =
  fixes rep :: "'h \<Rightarrow> 'n \<Rightarrow> 'n list \<Rightarrow> bool"
    and add :: "'n option \<Rightarrow> 'n option \<Rightarrow> 'h \<Rightarrow> (int \<times> 'h) option"
    and add_tail :: "'n option \<Rightarrow> 'n option \<Rightarrow> 'h \<Rightarrow> (int \<times> 'h) option"
    and detach :: "'n option \<Rightarrow> 'h \<Rightarrow> (int \<times> 'h) option"
    and is_empty :: "'n \<Rightarrow> 'h \<Rightarrow> bool"
    and first :: "'n \<Rightarrow> 'h \<Rightarrow> 'n option"
    and foreach :: "'n \<Rightarrow> 'h \<Rightarrow> 'n list option"
  assumes rep_distinct: "rep h a xs \<Longrightarrow> distinct (a # xs)"
    and add: "rep h a xs \<Longrightarrow> le \<notin> set (a # xs) \<Longrightarrow>
      \<exists>h'. add (Some a) (Some le) h = Some (LIST_SUCCESS, h') \<and> rep h' a (le # xs)"
    and add_tail: "rep h a xs \<Longrightarrow> le \<notin> set (a # xs) \<Longrightarrow>
      \<exists>h'. add_tail (Some a) (Some le) h = Some (LIST_SUCCESS, h') \<and> rep h' a (xs @ [le])"
    and detach: "rep h a (xs @ le # ys) \<Longrightarrow>
      \<exists>h'. detach (Some le) h = Some (LIST_SUCCESS, h') \<and> rep h' a (xs @ ys)"
    and is_empty: "rep h a xs \<Longrightarrow> is_empty a h \<longleftrightarrow> xs = []"
    and first: "rep h a (x # xs) \<Longrightarrow> first a h = Some x"
    and foreach: "rep h a xs \<Longrightarrow> foreach a h = Some xs"
begin

text \<open>Taking the first node off, as \<open>timer_timeout\<close> and \<open>packet_queue_add\<close> do.\<close>

lemma pop_first:
  assumes "rep h a (x # xs)"
  shows "\<exists>h'. Option.bind (first a h) (\<lambda>n. detach (Some n) h) = Some (LIST_SUCCESS, h') \<and>
              rep h' a xs"
  using detach [of h a "[]" x xs] first [OF assms] assms by simp

text \<open>Nodes leave in the order in which they were added at the tail.\<close>

lemma fifo:
  assumes "rep h a (x # xs)" and "le \<notin> set (a # x # xs)"
  shows "\<exists>h1 h2. add_tail (Some a) (Some le) h = Some (LIST_SUCCESS, h1) \<and>
                 first a h1 = Some x \<and>
                 detach (Some x) h1 = Some (LIST_SUCCESS, h2) \<and> rep h2 a (xs @ [le])"
proof -
  obtain h1 where h1: "add_tail (Some a) (Some le) h = Some (LIST_SUCCESS, h1)"
    and r1: "rep h1 a (x # (xs @ [le]))"
    using add_tail [OF assms] by auto
  obtain h2 where "detach (Some x) h1 = Some (LIST_SUCCESS, h2)" "rep h2 a (xs @ [le])"
    using detach [of h1 a "[]" x "xs @ [le]"] r1 by auto
  with h1 first [OF r1] show ?thesis by blast
qed

lemma remove_is_remove1:
  assumes "rep h a xs" and "le \<in> set xs"
  shows "\<exists>h'. detach (Some le) h = Some (LIST_SUCCESS, h') \<and> rep h' a (remove1 le xs)"
proof -
  obtain ys zs where xs: "xs = ys @ le # zs" and "le \<notin> set ys"
    using split_list_first [OF assms(2)] by blast
  then have "remove1 le xs = ys @ zs" by (simp add: remove1_append)
  with detach [of h a ys le zs] assms(1) xs show ?thesis by simp
qed

end

interpretation dl: sequence dlist list_add list_add_tail list_detach list_empty list_first
  list_foreach
proof unfold_locales
  fix h :: "'a lheap" and a xs le ys
  show "dlist h a xs \<Longrightarrow> distinct (a # xs)" by (simp add: dlist_def)
  show "dlist h a (xs @ le # ys) \<Longrightarrow>
      \<exists>h'. list_detach (Some le) h = Some (LIST_SUCCESS, h') \<and> dlist h' a (xs @ ys)"
    using dlist_list_detach by fastforce
qed (rule dlist_list_add dlist_list_add_tail dlist_empty_iff dlist_first dlist_foreach; assumption)+

section \<open>Properties\<close>

text \<open>
  C20: the linked list operations implement insertion and deletion on the sequence a list
  represents.  On a well-formed list with nodes \<open>xs @ ys\<close>, \<open>list_add(pos->prev, le)\<close> (the call of
  \<open>timer_add\<close>, where \<open>pos\<close> is the first node of \<open>ys\<close> or the head itself) follows no \<open>NULL\<close>
  pointer and a traversal then visits \<open>xs\<close>, \<open>le\<close>, \<open>ys\<close>; \<open>list_detach(le)\<close> then restores the
  sequence \<open>xs @ ys\<close> and leaves \<open>le\<close> unattached.
\<close>

theorem list_insert_detach:
  assumes "dlist h a (xs @ ys)" and "le \<notin> set (a # xs @ ys)"
  shows "\<exists>q h1 h2.
      lprev h (hd (ys @ [a])) = Some q \<and>
      list_add (Some q) (Some le) h = Some (LIST_SUCCESS, h1) \<and>
      list_foreach a h1 = Some (xs @ le # ys) \<and>
      list_detach (Some le) h1 = Some (LIST_SUCCESS, h2) \<and>
      list_foreach a h2 = Some (xs @ ys) \<and> list_unattached le h2"
proof -
  obtain q h1 where 1: "lprev h (hd (ys @ [a])) = Some q"
      "list_add (Some q) (Some le) h = Some (LIST_SUCCESS, h1)" "dlist h1 a (xs @ le # ys)"
    using dlist_insert_before [OF assms] by blast
  obtain h2 where 2: "list_detach (Some le) h1 = Some (LIST_SUCCESS, h2)"
      "dlist h2 a (xs @ ys)" "list_unattached le h2"
    using dlist_list_detach [OF 1(3)] by blast
  from 1 2 dl.foreach [OF 1(3)] dl.foreach [OF 2(2)] show ?thesis by blast
qed

definition two_node_heap :: "nat lheap" where
  "two_node_heap =
     \<lparr>lprev = (\<lambda>_. None)(0 := Some 2, 1 := Some 0, 2 := Some 1),
      lnext = (\<lambda>_. None)(0 := Some 1, 1 := Some 2, 2 := Some 0)\<rparr>"

theorem list_insert_detach_witness:
  "dlist two_node_heap 0 ([1] @ [2]) \<and>
   (\<exists>q h1 h2.
      lprev two_node_heap 2 = Some q \<and>
      list_add (Some q) (Some 5) two_node_heap = Some (LIST_SUCCESS, h1) \<and>
      list_foreach 0 h1 = Some [1, 5, 2] \<and>
      list_detach (Some 5) h1 = Some (LIST_SUCCESS, h2) \<and>
      list_foreach 0 h2 = Some [1, 2] \<and> list_unattached 5 h2)"
proof -
  have d: "dlist two_node_heap 0 ([1] @ [2])"
    by (simp add: dlist_def two_node_heap_def)
  have "(5::nat) \<notin> set (0 # [1] @ [2])" by simp
  from list_insert_detach [OF d this] d show ?thesis by simp
qed

end
