(* ===== verification/Timer_Queue.thy ===== *)
theory Timer_Queue
  imports Linked_List
begin

text \<open>
  The timer queue of \<open>src/utils/timer_queue.c\<close>.  A timer is named by an identifier \<open>'i\<close> (which
  structure it is embedded in); \<open>'h\<close> is the type of handler functions and \<open>'d\<close> the type of the
  \<open>data\<close> argument.  \<open>TQ\<close> is the global list of pending timers, \<open>expTQ\<close> the local list of
  \<open>timer_timeout\<close> that holds the expired timers not yet run; both are sequences of nodes in the
  sense of \<open>Linked_List\<close>, so a timer is unattached when it is in neither.

  The main results: the queue stays ordered up to the one millisecond resolution of
  \<open>timeval_diff\<close>, expiry moves exactly the due timers, and a timer is marked \<open>used\<close> exactly while
  it is attached.
\<close>

section \<open>State and operations\<close>

record ('h, 'd) timer =
  used :: bool
  timeout :: timeval
  handler :: "'h option"
  tdata :: 'd

record ('i, 'h, 'd) tqueue =
  TQ :: "'i list"
  expTQ :: "'i list"
  timers :: "'i \<Rightarrow> ('h, 'd) timer"

definition attached :: "('i, 'h, 'd) tqueue \<Rightarrow> 'i set" where
  "attached q = set (TQ q) \<union> set (expTQ q)"

definition upd_timer ::
  "'i \<Rightarrow> (('h, 'd) timer \<Rightarrow> ('h, 'd) timer) \<Rightarrow> ('i, 'h, 'd) tqueue \<Rightarrow> ('i, 'h, 'd) tqueue" where
  "upd_timer t f q = q\<lparr>timers := (timers q)(t := f (timers q t))\<rparr>"

definition timer_init ::
  "'i \<Rightarrow> 'h \<Rightarrow> 'd \<Rightarrow> ('i, 'h, 'd) tqueue \<Rightarrow> ('i, 'h, 'd) tqueue" where
  "timer_init t f d q =
     upd_timer t (\<lambda>_. \<lparr>used = False, timeout = tv_zero, handler = Some f, tdata = d\<rparr>) q"

text \<open>\<open>list_detach(&t->l)\<close> takes the node out of whichever list it is in.\<close>

definition timer_remove ::
  "'i \<Rightarrow> ('i, 'h, 'd) tqueue \<Rightarrow> int \<times> ('i, 'h, 'd) tqueue" where
  "timer_remove t q =
     (if t \<notin> attached q then (0, upd_timer t (\<lambda>r. r\<lparr>used := False\<rparr>) q)
      else (1, upd_timer t (\<lambda>r. r\<lparr>used := False\<rparr>)
                 (q\<lparr>TQ := remove1 t (TQ q), expTQ := remove1 t (expTQ q)\<rparr>)))"

text \<open>The search loop of \<open>timer_add\<close> and the insertion in front of the node it stops at.\<close>

fun tq_insert :: "('i \<Rightarrow> ('h, 'd) timer) \<Rightarrow> 'i \<Rightarrow> 'i list \<Rightarrow> 'i list" where
  "tq_insert f t [] = [t]"
| "tq_insert f t (c # cs) =
     (if timeval_diff (timeout (f t)) (timeout (f c)) < 0 then t # c # cs
      else c # tq_insert f t cs)"

text \<open>\<open>timer_add\<close>: a timer without handler makes the process exit, here \<open>None\<close>.\<close>

definition timer_add ::
  "'i \<Rightarrow> ('i, 'h, 'd) tqueue \<Rightarrow> ('i, 'h, 'd) tqueue option" where
  "timer_add t q =
     (if handler (timers q t) = None then None
      else
        let q1 = (if used (timers q t) then snd (timer_remove t q) else q);
            q2 = upd_timer t (\<lambda>r. r\<lparr>used := True\<rparr>) q1
        in Some (q2\<lparr>TQ := tq_insert (timers q2) t (TQ q2)\<rparr>))"

definition timer_set_timeout ::
  "timeval \<Rightarrow> 'i \<Rightarrow> int \<Rightarrow> ('i, 'h, 'd) tqueue \<Rightarrow> ('i, 'h, 'd) tqueue option" where
  "timer_set_timeout now t msec q =
     (let q1 = (if used (timers q t) then snd (timer_remove t q) else q);
          usec = tv_usec now + msec * 1000;
          v = \<lparr>tv_sec = tv_sec now + usec sdiv 1000000, tv_usec = usec smod 1000000\<rparr>
      in timer_add t (upd_timer t (\<lambda>r. r\<lparr>timeout := v\<rparr>) q1))"

definition timer_left :: "timeval \<Rightarrow> 'i \<Rightarrow> ('i, 'h, 'd) tqueue \<Rightarrow> int" where
  "timer_left now t q = timeval_diff now (timeout (timers q t))"

text \<open>
  The first loop of \<open>timer_timeout\<close>: expired timers move from the front of \<open>TQ\<close> to the tail of
  \<open>expTQ\<close>; the loop stops at the first timer that is not due.
\<close>

fun tq_expire ::
  "timeval \<Rightarrow> ('i \<Rightarrow> ('h, 'd) timer) \<Rightarrow> 'i list \<Rightarrow> 'i list \<Rightarrow> 'i list \<times> 'i list" where
  "tq_expire now f [] ex = ([], ex)"
| "tq_expire now f (t # ts) ex =
     (if timeval_diff (timeout (f t)) now > 0 then (t # ts, ex)
      else tq_expire now f ts (ex @ [t]))"

definition timer_expire :: "timeval \<Rightarrow> ('i, 'h, 'd) tqueue \<Rightarrow> ('i, 'h, 'd) tqueue" where
  "timer_expire now q =
     (let (tq', ex) = tq_expire now (timers q) (TQ q) []
      in q\<lparr>TQ := tq', expTQ := ex\<rparr>)"

text \<open>
  One turn of the second loop, up to the call of the handler: the first expired timer is
  detached and marked unused.
\<close>

definition timer_pop ::
  "('i, 'h, 'd) tqueue \<Rightarrow> ('i \<times> ('i, 'h, 'd) tqueue) option" where
  "timer_pop q =
     (case expTQ q of
        [] \<Rightarrow> None
      | t # ts \<Rightarrow> Some (t, upd_timer t (\<lambda>r. r\<lparr>used := False\<rparr>) (q\<lparr>expTQ := ts\<rparr>)))"

text \<open>
  The end of \<open>timer_age_queue\<close>: the time until the first pending timer, \<open>NULL\<close> when the queue
  is empty.
\<close>

definition timer_remaining ::
  "timeval \<Rightarrow> ('i, 'h, 'd) tqueue \<Rightarrow> timeval option" where
  "timer_remaining now q =
     (case TQ q of
        [] \<Rightarrow> None
      | t # _ \<Rightarrow>
          let usec = tv_usec (timeout (timers q t)) - tv_usec now;
              sec = tv_sec (timeout (timers q t)) - tv_sec now
          in Some (if usec < 0 then \<lparr>tv_sec = sec - 1, tv_usec = usec + 1000000\<rparr>
                   else \<lparr>tv_sec = sec, tv_usec = usec\<rparr>))"

section \<open>Well-formed queues\<close>

text \<open>
  Two neighbours of the queue may be out of order by less than a millisecond, since
  \<open>timer_add\<close> compares whole milliseconds.  This relation is not transitive; that it still
  holds between any two positions is what insertion has to keep.
\<close>

definition ms_before :: "('i \<Rightarrow> ('h, 'd) timer) \<Rightarrow> 'i \<Rightarrow> 'i \<Rightarrow> bool" where
  "ms_before f a b \<longleftrightarrow> usecs (timeout (f a)) < usecs (timeout (f b)) + 1000"

definition ms_sorted :: "('i \<Rightarrow> ('h, 'd) timer) \<Rightarrow> 'i list \<Rightarrow> bool" where
  "ms_sorted f ts \<longleftrightarrow> sorted_wrt (ms_before f) ts"

definition tq_wf :: "('i, 'h, 'd) tqueue \<Rightarrow> bool" where
  "tq_wf q \<longleftrightarrow>
     distinct (TQ q @ expTQ q) \<and>
     (\<forall>t. used (timers q t) \<longleftrightarrow> t \<in> attached q) \<and>
     (\<forall>t \<in> attached q. handler (timers q t) \<noteq> None) \<and>
     ms_sorted (timers q) (TQ q)"

lemma upd_timer_simps [simp]:
  "TQ (upd_timer t f q) = TQ q" "expTQ (upd_timer t f q) = expTQ q"
  "timers (upd_timer t f q) = (timers q)(t := f (timers q t))"
  by (simp_all add: upd_timer_def)

lemma attached_upd_timer [simp]: "attached (upd_timer t f q) = attached q"
  by (simp add: attached_def)

lemma set_tq_insert [simp]: "set (tq_insert f t ts) = insert t (set ts)"
  by (induction ts) auto

lemma distinct_tq_insert [simp]: "distinct (tq_insert f t ts) \<longleftrightarrow> t \<notin> set ts \<and> distinct ts"
  by (induction ts) auto

lemma ms_sorted_tq_insert:
  assumes "ms_sorted f ts"
  shows "ms_sorted f (tq_insert f t ts)"
  using assms
proof (induction ts)
  case Nil
  then show ?case by (simp add: ms_sorted_def)
next
  case (Cons c cs)
  show ?case
  proof (cases "timeval_diff (timeout (f t)) (timeout (f c)) < 0")
    case True
    then have lt: "usecs (timeout (f t)) + 1000 \<le> usecs (timeout (f c))"
      by (simp add: timeval_diff_neg)
    have "ms_before f t x" if "x \<in> set (c # cs)" for x
      using that Cons.prems lt by (auto simp: ms_sorted_def ms_before_def)
    with Cons.prems True show ?thesis by (simp add: ms_sorted_def)
  next
    case False
    then have "ms_before f c t" by (simp add: timeval_diff_neg ms_before_def)
    with Cons False show ?thesis by (auto simp: ms_sorted_def)
  qed
qed

lemma ms_sorted_cong:
  assumes "\<And>t. t \<in> set ts \<Longrightarrow> timeout (f t) = timeout (g t)"
  shows "ms_sorted f ts = ms_sorted g ts"
proof -
  have "ms_sorted f ts \<Longrightarrow> ms_sorted g ts"
    unfolding ms_sorted_def
    by (erule sorted_wrt_mono_rel [rotated]) (simp add: ms_before_def assms)
  moreover have "ms_sorted g ts \<Longrightarrow> ms_sorted f ts"
    unfolding ms_sorted_def
    by (erule sorted_wrt_mono_rel [rotated]) (simp add: ms_before_def assms)
  ultimately show ?thesis by blast
qed

lemma ms_sorted_remove1: "ms_sorted f ts \<Longrightarrow> ms_sorted f (remove1 t ts)"
  by (simp add: ms_sorted_def sorted_wrt_remove1)

lemma tq_wfD:
  assumes "tq_wf q"
  shows "distinct (TQ q)" "distinct (expTQ q)" "set (TQ q) \<inter> set (expTQ q) = {}"
    "used (timers q t) \<longleftrightarrow> t \<in> attached q" "ms_sorted (timers q) (TQ q)"
    "t \<in> attached q \<Longrightarrow> handler (timers q t) \<noteq> None"
  using assms by (auto simp: tq_wf_def)

section \<open>Each operation keeps the queue well formed\<close>

lemma timer_init_wf:
  assumes "tq_wf q" "t \<notin> attached q"
  shows "tq_wf (timer_init t f d q)" "attached (timer_init t f d q) = attached q"
proof -
  have "ms_sorted ((timers q)(t := v)) (TQ q) = ms_sorted (timers q) (TQ q)" for v
    by (rule ms_sorted_cong) (use assms(2) in \<open>auto simp: attached_def\<close>)
  with assms show "tq_wf (timer_init t f d q)"
    by (auto simp: tq_wf_def timer_init_def)
qed (simp add: timer_init_def)

lemma timer_remove_simps:
  "timeout (timers (snd (timer_remove t q)) u) = timeout (timers q u)"
  "handler (timers (snd (timer_remove t q)) u) = handler (timers q u)"
  "tdata (timers (snd (timer_remove t q)) u) = tdata (timers q u)"
  "used (timers (snd (timer_remove t q)) u) \<longleftrightarrow> u \<noteq> t \<and> used (timers q u)"
  "u \<noteq> t \<Longrightarrow> timers (snd (timer_remove t q)) u = timers q u"
  "TQ (snd (timer_remove t q)) = remove1 t (TQ q)"
  "expTQ (snd (timer_remove t q)) = remove1 t (expTQ q)"
  by (auto simp: timer_remove_def attached_def remove1_idem)

lemma attached_timer_remove:
  assumes "tq_wf q"
  shows "attached (snd (timer_remove t q)) = attached q - {t}"
  using tq_wfD [OF assms] by (auto simp: attached_def timer_remove_simps)

lemma timer_remove_wf:
  assumes "tq_wf q"
  shows "tq_wf (snd (timer_remove t q))"
proof -
  let ?q = "snd (timer_remove t q)"
  note wf = tq_wfD [OF assms]
  have "ms_sorted (timers ?q) (remove1 t (TQ q)) = ms_sorted (timers q) (remove1 t (TQ q))"
    by (rule ms_sorted_cong) (simp add: timer_remove_simps)
  with wf(5) have "ms_sorted (timers ?q) (remove1 t (TQ q))" by (simp add: ms_sorted_remove1)
  moreover have "distinct (TQ ?q @ expTQ ?q)"
    using wf(1-3) by (auto simp: timer_remove_simps)
  moreover have "used (timers ?q u) \<longleftrightarrow> u \<in> attached ?q" for u
    by (auto simp: attached_timer_remove [OF assms] timer_remove_simps(4) wf(4))
  moreover have "handler (timers ?q u) \<noteq> None" if "u \<in> attached ?q" for u
    using wf(6) that attached_timer_remove [OF assms, of t] by (simp add: timer_remove_simps)
  ultimately show ?thesis by (auto simp: tq_wf_def timer_remove_simps)
qed

text \<open>Removing a timer first, when it is in use, is the common start of the two setters.\<close>

lemma remove_if_used:
  assumes "tq_wf q"
  shows "(if used (timers q t) then snd (timer_remove t q) else q) = snd (timer_remove t q)"
proof (cases "t \<in> attached q")
  case False
  with tq_wfD(4) [OF assms, of t] show ?thesis
    by (simp add: timer_remove_def upd_timer_def fun_upd_idem)
qed (use tq_wfD(4) [OF assms, of t] in simp)

lemma timer_add_wf:
  assumes wf: "tq_wf q" and h: "handler (timers q t) \<noteq> None"
  obtains q' where "timer_add t q = Some q'" "tq_wf q'"
    "set (TQ q') = insert t (set (TQ q))" "set (expTQ q') = set (expTQ q) - {t}"
    "timers q' = (timers q)(t := (timers q t)\<lparr>used := True\<rparr>)"
proof -
  let ?q1 = "snd (timer_remove t q)"
  let ?q2 = "upd_timer t (\<lambda>r. r\<lparr>used := True\<rparr>) ?q1"
  let ?q3 = "?q2\<lparr>TQ := tq_insert (timers ?q2) t (TQ ?q2)\<rparr>"
  note wf1 = tq_wfD [OF timer_remove_wf [OF wf, of t]]
  have q3: "timer_add t q = Some ?q3"
    using h by (simp add: timer_add_def remove_if_used [OF wf] Let_def)
  have t1: "t \<notin> attached ?q1" by (simp add: attached_timer_remove [OF wf])
  have att: "attached ?q3 = insert t (attached ?q1)" by (auto simp: attached_def)
  have "ms_sorted (timers ?q2) (TQ ?q1) = ms_sorted (timers ?q1) (TQ ?q1)"
    by (rule ms_sorted_cong) simp
  with wf1(5) have "ms_sorted (timers ?q3) (TQ ?q3)" by (simp add: ms_sorted_tq_insert)
  moreover have "distinct (TQ ?q3 @ expTQ ?q3)"
    using wf1(1-3) t1 by (auto simp: attached_def)
  moreover have "used (timers ?q3 u) \<longleftrightarrow> u \<in> attached ?q3" for u
    using wf1(4) unfolding att by auto
  moreover have "handler (timers ?q3 u) \<noteq> None" if "u \<in> attached ?q3" for u
    using wf1(6) h that unfolding att by (auto simp: timer_remove_simps)
  ultimately have "tq_wf ?q3" unfolding tq_wf_def by blast
  moreover have "timers ?q3 = (timers q)(t := (timers q t)\<lparr>used := True\<rparr>)"
    by (rule ext) (auto simp: timer_remove_simps timer_remove_def)
  ultimately show ?thesis
    using q3 tq_wfD(1,2) [OF wf] by (intro that) (auto simp: timer_remove_simps)
qed

lemma upd_timeout_wf:
  assumes "tq_wf q" "t \<notin> attached q"
  shows "tq_wf (upd_timer t (\<lambda>r. r\<lparr>timeout := v\<rparr>) q)"
proof -
  let ?f = "(timers q)(t := (timers q t)\<lparr>timeout := v\<rparr>)"
  have "ms_sorted ?f (TQ q) = ms_sorted (timers q) (TQ q)"
    by (rule ms_sorted_cong) (use assms(2) in \<open>auto simp: attached_def\<close>)
  with assms show ?thesis by (auto simp: tq_wf_def)
qed

definition due_at :: "timeval \<Rightarrow> int \<Rightarrow> timeval" where
  "due_at now msec =
     (let usec = tv_usec now + msec * 1000
      in \<lparr>tv_sec = tv_sec now + usec sdiv 1000000, tv_usec = usec smod 1000000\<rparr>)"

lemma usecs_due_at [simp]: "usecs (due_at now msec) = usecs now + msec * 1000"
  using mult_sdiv_smod_eq [of 1000000 "tv_usec now + msec * 1000"]
  by (simp add: due_at_def usecs_def Let_def algebra_simps)

lemma timer_set_timeout_wf:
  assumes wf: "tq_wf q" and h: "handler (timers q t) \<noteq> None"
  obtains q' where "timer_set_timeout now t msec q = Some q'" "tq_wf q'"
    "set (TQ q') = insert t (set (TQ q))" "set (expTQ q') = set (expTQ q) - {t}"
    "timers q' = (timers q)(t := (timers q t)\<lparr>used := True, timeout := due_at now msec\<rparr>)"
proof -
  let ?q1 = "snd (timer_remove t q)"
  let ?q2 = "upd_timer t (\<lambda>r. r\<lparr>timeout := due_at now msec\<rparr>) ?q1"
  have "tq_wf ?q2"
    by (rule upd_timeout_wf [OF timer_remove_wf [OF wf]]) (simp add: attached_timer_remove [OF wf])
  moreover have "handler (timers ?q2 t) \<noteq> None" using h by (simp add: timer_remove_simps)
  ultimately obtain q' where q': "timer_add t ?q2 = Some q'" "tq_wf q'"
    "set (TQ q') = insert t (set (TQ ?q2))" "set (expTQ q') = set (expTQ ?q2) - {t}"
    "timers q' = (timers ?q2)(t := (timers ?q2 t)\<lparr>used := True\<rparr>)"
    by (rule timer_add_wf)
  have "timer_set_timeout now t msec q = Some q'"
    using q'(1) by (simp add: timer_set_timeout_def remove_if_used [OF wf] Let_def due_at_def)
  moreover have "timers q' = (timers q)(t := (timers q t)\<lparr>used := True, timeout := due_at now msec\<rparr>)"
    unfolding q'(5) by (rule ext) (auto simp: timer_remove_simps timer_remove_def)
  ultimately show ?thesis
    using q'(2-4) tq_wfD(1,2) [OF wf] by (intro that) (auto simp: timer_remove_simps)
qed

section \<open>Expiry\<close>

lemma tq_expire_spec:
  assumes "tq_expire now f ts ex = (ts', ex')"
  shows "ex @ ts = ex' @ ts'" "\<exists>ys. ex' = ex @ ys"
    "\<forall>t \<in> set ex' - set ex. timeval_diff (timeout (f t)) now \<le> 0"
    "ts' \<noteq> [] \<Longrightarrow> timeval_diff (timeout (f (hd ts'))) now > 0"
  using assms by (induction ts arbitrary: ex) (force split: if_splits)+

lemma timer_expire_split:
  assumes "tq_wf q" "expTQ q = []"
  shows "TQ q = expTQ (timer_expire now q) @ TQ (timer_expire now q)"
    and "timers (timer_expire now q) = timers q"
    and "attached (timer_expire now q) = attached q"
    and "tq_wf (timer_expire now q)"
proof -
  obtain ts ex where e: "tq_expire now (timers q) (TQ q) [] = (ts, ex)" by force
  note sp = tq_expire_spec [OF e]
  have q': "timer_expire now q = q\<lparr>TQ := ts, expTQ := ex\<rparr>" by (simp add: timer_expire_def e)
  then show 1: "TQ q = expTQ (timer_expire now q) @ TQ (timer_expire now q)"
    and 2: "timers (timer_expire now q) = timers q"
    using sp(1) by simp_all
  show 3: "attached (timer_expire now q) = attached q"
    using sp(1) assms(2) by (auto simp: q' attached_def)
  have "ms_sorted (timers q) ts"
    using tq_wfD(5) [OF assms(1)] sp(1) by (simp add: ms_sorted_def sorted_wrt_append)
  moreover have "distinct (ts @ ex)" using tq_wfD(1) [OF assms(1)] sp(1) by auto
  ultimately show "tq_wf (timer_expire now q)"
    using assms(1) 3 unfolding tq_wf_def 2 by (simp add: q')
qed

lemma timer_expire_due:
  assumes "tq_wf q" "expTQ q = []" "t \<in> set (expTQ (timer_expire now q))"
  shows "usecs (timeout (timers q t)) < usecs now + 1000"
proof -
  obtain ts ex where e: "tq_expire now (timers q) (TQ q) [] = (ts, ex)" by force
  from assms(3) tq_expire_spec(3) [OF e] have "timeval_diff (timeout (timers q t)) now \<le> 0"
    by (simp add: timer_expire_def e)
  then have "\<not> timeval_diff (timeout (timers q t)) now > 0" by simp
  then show ?thesis unfolding timeval_diff_pos by simp
qed

lemma timer_expire_not_due:
  assumes "tq_wf q" "expTQ q = []" "t \<in> set (TQ (timer_expire now q))"
  shows "usecs now < usecs (timeout (timers q t))"
proof -
  obtain ts ex where e: "tq_expire now (timers q) (TQ q) [] = (ts, ex)" by force
  have ts: "TQ (timer_expire now q) = ts" by (simp add: timer_expire_def e)
  with assms(3) obtain c cs where cs: "ts = c # cs" by (cases ts) auto
  have "timeval_diff (timeout (timers q c)) now > 0"
    using tq_expire_spec(4) [OF e] cs by simp
  then have "usecs now + 1000 \<le> usecs (timeout (timers q c))" by (simp add: timeval_diff_pos)
  moreover have "ms_sorted (timers q) (c # cs)"
    using tq_wfD(5) [OF timer_expire_split(4) [OF assms(1,2), of now]]
    by (simp add: timer_expire_split(2) [OF assms(1,2)] ts cs)
  ultimately show ?thesis
    using assms(3) by (auto simp: ts cs ms_sorted_def ms_before_def)
qed

lemma timer_pop_wf:
  assumes "tq_wf q" "timer_pop q = Some (t, q')"
  shows "tq_wf q'" "attached q' = attached q - {t}" "t \<in> attached q"
    "\<exists>ts. expTQ q = t # ts \<and> expTQ q' = ts" "TQ q' = TQ q"
proof -
  obtain ts where ts: "expTQ q = t # ts"
    and q': "q' = upd_timer t (\<lambda>r. r\<lparr>used := False\<rparr>) (q\<lparr>expTQ := ts\<rparr>)"
    using assms(2) by (auto simp: timer_pop_def split: list.splits)
  note wf = tq_wfD [OF assms(1)]
  show att: "attached q' = attached q - {t}"
    using wf(2,3) by (auto simp: q' ts attached_def)
  show "t \<in> attached q" by (simp add: attached_def ts)
  show "\<exists>ts. expTQ q = t # ts \<and> expTQ q' = ts" "TQ q' = TQ q" by (auto simp: ts q')
  have "ms_sorted (timers q') (TQ q) = ms_sorted (timers q) (TQ q)"
    by (rule ms_sorted_cong) (simp add: q')
  moreover have "distinct (TQ q @ ts)" using wf(1-3) by (auto simp: ts)
  moreover have "used (timers q' u) \<longleftrightarrow> u \<in> attached q'" for u
    unfolding att using wf(4) by (auto simp: q')
  moreover have "handler (timers q' u) \<noteq> None" if "u \<in> attached q'" for u
    using that wf(6) unfolding att by (auto simp: q')
  ultimately show "tq_wf q'" using wf(5) unfolding tq_wf_def by (simp add: q')
qed

section \<open>Running the expired timers\<close>

text \<open>
  The second loop of \<open>timer_timeout\<close>.  \<open>q_of\<close> reads the queue of the surrounding state and
  \<open>fire t\<close> is one turn: detach \<open>t\<close>, then call its handler, which may set and remove timers
  (of either list).
\<close>

partial_function (option) timer_fire_loop ::
  "('s \<Rightarrow> ('i, 'h, 'd) tqueue) \<Rightarrow> ('i \<Rightarrow> 's \<Rightarrow> 's) \<Rightarrow> 's \<Rightarrow> 's option" where
  "timer_fire_loop q_of fire s =
     (case expTQ (q_of s) of
        [] \<Rightarrow> Some s
      | t # _ \<Rightarrow> timer_fire_loop q_of fire (fire t s))"

text \<open>
  What a program has to promise of its handlers: they keep its invariant, and the list of
  expired timers loses at least the one that fired.
\<close>

locale timer_host =
  fixes q_of :: "'s \<Rightarrow> ('i, 'h, 'd) tqueue"
    and fire :: "'i \<Rightarrow> 's \<Rightarrow> 's"
    and inv :: "'s \<Rightarrow> bool"
  assumes fire_inv: "inv s \<Longrightarrow> expTQ (q_of s) = t # ts \<Longrightarrow> inv (fire t s)"
    and fire_shrinks:
      "inv s \<Longrightarrow> expTQ (q_of s) = t # ts \<Longrightarrow> set (expTQ (q_of (fire t s))) \<subseteq> set ts"
    and queue_wf: "inv s \<Longrightarrow> tq_wf (q_of s)"
begin

lemma fire_length:
  assumes "inv s" "expTQ (q_of s) = t # ts"
  shows "length (expTQ (q_of (fire t s))) < length (expTQ (q_of s))"
proof -
  have "distinct (expTQ (q_of (fire t s)))"
    using queue_wf [OF fire_inv [OF assms]] by (rule tq_wfD)
  then have "length (expTQ (q_of (fire t s))) = card (set (expTQ (q_of (fire t s))))"
    by (simp add: distinct_card)
  also have "\<dots> \<le> card (set ts)" by (rule card_mono) (simp_all add: fire_shrinks [OF assms])
  also have "\<dots> \<le> length ts" by (rule card_length)
  finally show ?thesis by (simp add: assms(2))
qed

theorem fire_loop_terminates:
  assumes "inv s"
  shows "\<exists>s'. timer_fire_loop q_of fire s = Some s' \<and> inv s' \<and> expTQ (q_of s') = []"
  using assms
proof (induction "length (expTQ (q_of s))" arbitrary: s rule: less_induct)
  case less
  show ?case
  proof (cases "expTQ (q_of s)")
    case Nil
    then show ?thesis using less.prems by (simp add: timer_fire_loop.simps)
  next
    case (Cons t ts)
    from less.hyps [OF fire_length [OF less.prems Cons] fire_inv [OF less.prems Cons]]
    show ?thesis by (subst timer_fire_loop.simps) (simp add: Cons)
  qed
qed

end

section \<open>Properties\<close>

definition demo_queue :: "(nat, nat, unit) tqueue" where
  "demo_queue =
     \<lparr>TQ = [1, 2], expTQ = [],
      timers = (\<lambda>i. \<lparr>used = i = 1 \<or> i = 2,
                     timeout = \<lparr>tv_sec = (if i = 1 then 10 else 30), tv_usec = 250\<rparr>,
                     handler = Some 7, tdata = ()\<rparr>)\<rparr>"

lemma demo_queue_wf: "tq_wf demo_queue"
  by (auto simp: tq_wf_def demo_queue_def attached_def ms_sorted_def ms_before_def usecs_def)

text \<open>
  Setting a timer that has a handler never exits: it yields a well-formed queue (still
  ordered to the millisecond, every timer attached at most once and marked \<open>used\<close> exactly when
  attached) in which the timer is pending at \<open>now + msec\<close>, whether it was unused, pending or
  expired before, and no other timer has changed.
\<close>

theorem timer_set_timeout_ok:
  assumes "tq_wf q" and "handler (timers q t) \<noteq> None"
  shows "\<exists>q'. timer_set_timeout now t msec q = Some q' \<and> tq_wf q' \<and>
           set (TQ q') = insert t (set (TQ q)) \<and> set (expTQ q') = set (expTQ q) - {t} \<and>
           usecs (timeout (timers q' t)) = usecs now + msec * 1000 \<and>
           (\<forall>u. u \<noteq> t \<longrightarrow> timers q' u = timers q u)"
  by (rule timer_set_timeout_wf [OF assms, of now msec]) (simp add: exI)

text \<open>
  C16. \<open>timer_timeout\<close> collects a prefix of the queue, in order: every timer it collects was due
  within the next millisecond, and no timer due at or before \<open>now\<close> stays in the queue.
\<close>

theorem timer_expire_exact:
  assumes "tq_wf q" and "expTQ q = []"
  shows "TQ q = expTQ (timer_expire now q) @ TQ (timer_expire now q) \<and>
         tq_wf (timer_expire now q) \<and>
         (\<forall>t \<in> set (expTQ (timer_expire now q)). usecs (timeout (timers q t)) < usecs now + 1000) \<and>
         (\<forall>t \<in> set (TQ (timer_expire now q)). usecs now < usecs (timeout (timers q t)))"
  using timer_expire_split(1,4) [OF assms] timer_expire_due [OF assms]
    timer_expire_not_due [OF assms] by blast

theorem timer_expire_exact_witness:
  "TQ demo_queue = expTQ (timer_expire \<lparr>tv_sec = 20, tv_usec = 0\<rparr> demo_queue)
     @ TQ (timer_expire \<lparr>tv_sec = 20, tv_usec = 0\<rparr> demo_queue) \<and>
   expTQ (timer_expire \<lparr>tv_sec = 20, tv_usec = 0\<rparr> demo_queue) = [1]"
proof -
  have "expTQ demo_queue = []" by (simp add: demo_queue_def)
  from timer_expire_exact [OF demo_queue_wf this, of "\<lparr>tv_sec = 20, tv_usec = 0\<rparr>"]
  show ?thesis by (simp add: demo_queue_def timer_expire_def timeval_diff_def)
qed

text \<open>
  The time \<open>timer_age_queue\<close> returns for \<open>select\<close>: with a pending timer it is a normalised
  \<open>timeval\<close>, and sleeping for it overshoots no pending timer by a millisecond or more.
\<close>

theorem timer_remaining_ok:
  assumes "tq_wf q" and "TQ q \<noteq> []" and "tv_normal now"
    and "\<forall>t \<in> set (TQ q). tv_normal (timeout (timers q t))"
  shows "\<exists>r. timer_remaining now q = Some r \<and> tv_normal r \<and>
           (\<forall>t \<in> set (TQ q). usecs now + usecs r < usecs (timeout (timers q t)) + 1000)"
proof -
  from assms(2) obtain c cs where cs: "TQ q = c # cs" by (cases "TQ q") auto
  let ?u = "tv_usec (timeout (timers q c)) - tv_usec now"
  let ?s = "tv_sec (timeout (timers q c)) - tv_sec now"
  define r where
    "r = (if ?u < 0 then \<lparr>tv_sec = ?s - 1, tv_usec = ?u + 1000000\<rparr> else \<lparr>tv_sec = ?s, tv_usec = ?u\<rparr>)"
  have "timer_remaining now q = Some r" by (simp add: timer_remaining_def cs r_def Let_def)
  moreover have "tv_normal r" using assms(3,4) by (auto simp: cs r_def tv_normal_def)
  moreover have "usecs now + usecs r = usecs (timeout (timers q c))"
    by (simp add: r_def usecs_def algebra_simps)
  moreover have "ms_sorted (timers q) (c # cs)" using tq_wfD(5) [OF assms(1)] by (simp add: cs)
  ultimately show ?thesis by (auto simp: cs ms_sorted_def ms_before_def)
qed

theorem timer_remaining_ok_witness:
  "\<exists>r. timer_remaining \<lparr>tv_sec = 2, tv_usec = 300\<rparr> demo_queue = Some r \<and> tv_normal r"
proof -
  have "\<forall>t \<in> set (TQ demo_queue). tv_normal (timeout (timers demo_queue t))"
    "TQ demo_queue \<noteq> []" "tv_normal \<lparr>tv_sec = 2, tv_usec = 300\<rparr>"
    by (simp_all add: demo_queue_def tv_normal_def)
  with timer_remaining_ok [OF demo_queue_wf, of "\<lparr>tv_sec = 2, tv_usec = 300\<rparr>"]
  show ?thesis by blast
qed

theorem timer_set_timeout_ok_witness:
  "\<exists>q'. timer_set_timeout \<lparr>tv_sec = 2, tv_usec = 300\<rparr> 1 9000 demo_queue = Some q' \<and> tq_wf q' \<and>
     usecs (timeout (timers q' 1)) = usecs \<lparr>tv_sec = 2, tv_usec = 300\<rparr> + 9000000"
proof -
  have "handler (timers demo_queue 1) \<noteq> None" by (simp add: demo_queue_def)
  from timer_set_timeout_ok [OF demo_queue_wf this, of "\<lparr>tv_sec = 2, tv_usec = 300\<rparr>" 9000]
  show ?thesis by auto
qed

end
