(* ===== verification/Messages.thy ===== *)
theory Messages
  imports Prelude
begin

text \<open>
  The AODV messages as they lie in memory (\<open>src/protocol/aodv_rreq.h\<close>, \<open>aodv_rrep.h\<close>,
  \<open>aodv_rerr.h\<close>, and \<open>AODV_ext\<close> of \<open>src/core/defs.h\<close>).  A buffer is a list of bytes.  A cast of
  the buffer to a message structure is a \<open>get\<close> function into a record with the fields of the
  structure, a store through the casted pointer a \<open>put\<close> function.  Fields of 32 bits are kept
  raw, in network byte order, exactly as the structure has them; the handlers call \<open>htonl\<close> and
  \<open>ntohl\<close> where the code does.

  The layout is the one of the little-endian branch of the headers.  The main results are the
  round trips in both directions, including the bit fields.
\<close>

type_synonym bytes = "u8 list"

section \<open>Integers in memory\<close>

definition get32 :: "bytes \<Rightarrow> nat \<Rightarrow> u32" where
  "get32 b i =
     ucast (b ! i) OR push_bit 8 (ucast (b ! (i + 1))) OR
     push_bit 16 (ucast (b ! (i + 2))) OR push_bit 24 (ucast (b ! (i + 3)))"

definition put32 :: "u32 \<Rightarrow> bytes" where
  "put32 w = [ucast w, ucast (drop_bit 8 w), ucast (drop_bit 16 w), ucast (drop_bit 24 w)]"

lemma length_put32 [simp]: "length (put32 w) = 4"
  by (simp add: put32_def)

lemma word32_bytes:
  "(ucast (ucast w :: u8) OR push_bit 8 (ucast (ucast (drop_bit 8 w) :: u8)) OR
    push_bit 16 (ucast (ucast (drop_bit 16 w) :: u8)) OR
    push_bit 24 (ucast (ucast (drop_bit 24 w) :: u8)) :: u32) = w"
proof (rule bit_word_eqI)
  fix n :: nat
  assume "n < LENGTH(32)"
  then consider "n < 8" | "8 \<le> n" "n < 16" | "16 \<le> n" "n < 24" | "24 \<le> n" "n < 32"
    by fastforce
  then show "bit (ucast (ucast w :: u8) OR push_bit 8 (ucast (ucast (drop_bit 8 w) :: u8)) OR
    push_bit 16 (ucast (ucast (drop_bit 16 w) :: u8)) OR
    push_bit 24 (ucast (ucast (drop_bit 24 w) :: u8)) :: u32) n = bit w n"
    by cases (auto simp: bit_or_iff bit_push_bit_iff bit_ucast_iff bit_drop_bit_eq)
qed

lemma get32_append:
  "length xs = i \<Longrightarrow> get32 (xs @ put32 w @ ys) i = w"
  by (simp add: get32_def put32_def nth_append word32_bytes)

lemma bit_u8_high [simp]: "8 \<le> n \<Longrightarrow> \<not> bit (x :: u8) n"
  using bit_imp_le_length [of x n] by auto

lemma bytes_word32:
  fixes a b c d :: u8
  defines "w \<equiv> ucast a OR push_bit 8 (ucast b) OR push_bit 16 (ucast c) OR push_bit 24 (ucast d) :: u32"
  shows "ucast w = a" "ucast (drop_bit 8 w) = b" "ucast (drop_bit 16 w) = c"
    "ucast (drop_bit 24 w) = d"
  unfolding w_def
  by (rule bit_word_eqI;
      simp add: bit_or_iff bit_push_bit_iff bit_ucast_iff bit_drop_bit_eq)+

lemma put32_get32:
  assumes "i + 4 \<le> length b"
  shows "put32 (get32 b i) = take 4 (drop i b)"
proof -
  have "take 4 (drop i b) = [b ! i, b ! (i + 1), b ! (i + 2), b ! (i + 3)]"
    using assms by (simp add: list_eq_iff_nth_eq less_Suc_eq numeral_eq_Suc nth_Cons')
  then show ?thesis by (simp only: put32_def get32_def bytes_word32)
qed

section \<open>Route requests\<close>

record RREQ =
  rq_type :: u8
  rq_res1 :: u8
  rq_d :: bool
  rq_g :: bool
  rq_r :: bool
  rq_j :: bool
  rq_res2 :: u8
  rq_hcnt :: u8
  rq_rreq_id :: u32
  rq_dest_addr :: u32
  rq_dest_seqno :: u32
  rq_orig_addr :: u32
  rq_orig_seqno :: u32

definition RREQ_SIZE :: nat where [simp]: "RREQ_SIZE = 24"

definition RREQ_JOIN :: u8 where "RREQ_JOIN = 1"
definition RREQ_REPAIR :: u8 where "RREQ_REPAIR = 2"
definition RREQ_GRATUITOUS :: u8 where "RREQ_GRATUITOUS = 4"
definition RREQ_DEST_ONLY :: u8 where "RREQ_DEST_ONLY = 8"

text \<open>A one-bit field at bit \<open>n\<close> of a byte.\<close>

definition bitf :: "nat \<Rightarrow> bool \<Rightarrow> u8" where
  "bitf n v = (if v then push_bit n 1 else 0)"

definition get_RREQ :: "bytes \<Rightarrow> RREQ" where
  "get_RREQ b =
     \<lparr>rq_type = b ! 0, rq_res1 = take_bit 4 (b ! 1), rq_d = bit (b ! 1) 4, rq_g = bit (b ! 1) 5,
      rq_r = bit (b ! 1) 6, rq_j = bit (b ! 1) 7, rq_res2 = b ! 2, rq_hcnt = b ! 3,
      rq_rreq_id = get32 b 4, rq_dest_addr = get32 b 8, rq_dest_seqno = get32 b 12,
      rq_orig_addr = get32 b 16, rq_orig_seqno = get32 b 20\<rparr>"

definition rreq_bytes :: "RREQ \<Rightarrow> bytes" where
  "rreq_bytes r =
     [rq_type r,
      take_bit 4 (rq_res1 r) OR bitf 4 (rq_d r) OR bitf 5 (rq_g r) OR bitf 6 (rq_r r) OR bitf 7 (rq_j r),
      rq_res2 r, rq_hcnt r]
     @ put32 (rq_rreq_id r) @ put32 (rq_dest_addr r) @ put32 (rq_dest_seqno r)
     @ put32 (rq_orig_addr r) @ put32 (rq_orig_seqno r)"

text \<open>Stores through a \<open>RREQ *\<close> at the start of a buffer.\<close>

definition put_RREQ :: "RREQ \<Rightarrow> bytes \<Rightarrow> bytes" where
  "put_RREQ r b = rreq_bytes r @ drop RREQ_SIZE b"

section \<open>Route replies\<close>

record RREP =
  rp_type :: u8
  rp_res1 :: u8
  rp_a :: bool
  rp_r :: bool
  rp_prefix :: u8
  rp_res2 :: u8
  rp_hcnt :: u8
  rp_dest_addr :: u32
  rp_dest_seqno :: u32
  rp_orig_addr :: u32
  rp_lifetime :: u32

definition RREP_SIZE :: nat where [simp]: "RREP_SIZE = 20"
definition RREP_ACK_SIZE :: nat where [simp]: "RREP_ACK_SIZE = 2"

definition RREP_ACK :: u8 where "RREP_ACK = 1"
definition RREP_REPAIR :: u8 where "RREP_REPAIR = 2"

definition get_RREP :: "bytes \<Rightarrow> RREP" where
  "get_RREP b =
     \<lparr>rp_type = b ! 0, rp_res1 = take_bit 6 (b ! 1), rp_a = bit (b ! 1) 6, rp_r = bit (b ! 1) 7,
      rp_prefix = take_bit 5 (b ! 2), rp_res2 = drop_bit 5 (b ! 2), rp_hcnt = b ! 3,
      rp_dest_addr = get32 b 4, rp_dest_seqno = get32 b 8, rp_orig_addr = get32 b 12,
      rp_lifetime = get32 b 16\<rparr>"

definition rrep_bytes :: "RREP \<Rightarrow> bytes" where
  "rrep_bytes r =
     [rp_type r, take_bit 6 (rp_res1 r) OR bitf 6 (rp_a r) OR bitf 7 (rp_r r),
      take_bit 5 (rp_prefix r) OR push_bit 5 (take_bit 3 (rp_res2 r)), rp_hcnt r]
     @ put32 (rp_dest_addr r) @ put32 (rp_dest_seqno r) @ put32 (rp_orig_addr r)
     @ put32 (rp_lifetime r)"

definition put_RREP :: "RREP \<Rightarrow> bytes \<Rightarrow> bytes" where
  "put_RREP r b = rrep_bytes r @ drop RREP_SIZE b"

section \<open>Route errors\<close>

record RERR =
  re_type :: u8
  re_res1 :: u8
  re_n :: bool
  re_res2 :: u8
  re_dest_count :: u8

definition RERR_SIZE :: nat where [simp]: "RERR_SIZE = 12"
definition RERR_UDEST_SIZE :: nat where [simp]: "RERR_UDEST_SIZE = 8"
definition RERR_NODELETE :: u8 where "RERR_NODELETE = 1"

text \<open>
  \<open>RERR_CALC_SIZE\<close>, of type \<open>size_t\<close>: for a destination count of zero the product with \<open>-1\<close>
  wraps around and the sum comes back to 4.
\<close>

definition RERR_CALC_SIZE :: "u8 \<Rightarrow> nat" where
  "RERR_CALC_SIZE c = nat ((12 + ((uint c - 1) mod 2 ^ 64) * 8) mod 2 ^ 64)"

text \<open>The four header bytes; the destinations are an array of pairs from offset 4 on.\<close>

definition get_RERR :: "bytes \<Rightarrow> RERR" where
  "get_RERR b =
     \<lparr>re_type = b ! 0, re_res1 = take_bit 7 (b ! 1), re_n = bit (b ! 1) 7, re_res2 = b ! 2,
      re_dest_count = b ! 3\<rparr>"

definition rerr_bytes :: "RERR \<Rightarrow> bytes" where
  "rerr_bytes r = [re_type r, take_bit 7 (re_res1 r) OR bitf 7 (re_n r), re_res2 r, re_dest_count r]"

definition put_RERR :: "RERR \<Rightarrow> bytes \<Rightarrow> bytes" where
  "put_RERR r b = rerr_bytes r @ drop 4 b"

text \<open>The \<open>i\<close>-th \<open>RERR_udest\<close> behind \<open>RERR_UDEST_FIRST\<close>: address and sequence number.\<close>

definition get_udest :: "bytes \<Rightarrow> nat \<Rightarrow> u32 \<times> u32" where
  "get_udest b i = (get32 b (4 + 8 * i), get32 b (8 + 8 * i))"

definition udest_bytes :: "u32 \<times> u32 \<Rightarrow> bytes" where
  "udest_bytes u = put32 (fst u) @ put32 (snd u)"

definition put_udest :: "nat \<Rightarrow> u32 \<times> u32 \<Rightarrow> bytes \<Rightarrow> bytes" where
  "put_udest i u b = take (4 + 8 * i) b @ udest_bytes u @ drop (12 + 8 * i) b"

text \<open>A whole message and its reading: the view of a receiver of \<open>RERR_CALC_SIZE\<close> bytes.\<close>

definition rerr_msg_bytes :: "RERR \<Rightarrow> (u32 \<times> u32) list \<Rightarrow> bytes" where
  "rerr_msg_bytes r us = rerr_bytes r @ concat (map udest_bytes us)"

definition rerr_dests :: "bytes \<Rightarrow> (u32 \<times> u32) list" where
  "rerr_dests b = map (get_udest b) [0..<unat (re_dest_count (get_RERR b))]"

section \<open>Round trips\<close>

lemma bit_bitf [simp]: "bit (bitf k v) n \<longleftrightarrow> v \<and> n = k \<and> k < 8"
  by (auto simp: bitf_def bit_simps)

lemma length_bytes [simp]:
  "length (rreq_bytes r) = 24" "length (rrep_bytes p) = 20" "length (rerr_bytes e) = 4"
  "length (udest_bytes u) = 8"
  by (simp_all add: rreq_bytes_def rrep_bytes_def rerr_bytes_def udest_bytes_def)

lemma get32_skip:
  "i \<ge> length xs \<Longrightarrow> get32 (xs @ ys) i = get32 ys (i - length xs)"
  by (simp add: get32_def nth_append Suc_diff_le)

lemma get32_Cons: "0 < i \<Longrightarrow> get32 (x # ys) i = get32 ys (i - 1)"
  using get32_skip [of "[x]" i ys] by simp

lemma get32_put32 [simp]: "get32 (put32 w @ ys) 0 = w"
  using get32_append [of "[]" 0] by simp

text \<open>A bit field of a byte survives being packed with the other fields.\<close>

lemma take_bit_bitf [simp]: "k \<le> n \<Longrightarrow> take_bit k (bitf n v) = 0"
  by (rule bit_word_eqI) (simp add: bit_take_bit_iff)

lemma bit_high: "k \<le> n \<Longrightarrow> bit (take_bit k (x :: u8) OR y) n = bit y n"
  by (auto simp: bit_simps)

lemmas get_simps = get32_skip get32_Cons or.assoc bit_high bit_or_iff bit_take_bit_iff

lemma pack_prefix:
  "take_bit 5 (push_bit 5 x) = (0 :: u8)" "drop_bit 5 (take_bit 5 x) = (0 :: u8)"
  "drop_bit 5 (push_bit 5 (take_bit 3 x)) = (take_bit 3 x :: u8)"
  by (rule bit_word_eqI, auto simp: bit_simps)+

lemma get_put_RREQ:
  "get_RREQ (put_RREQ r b) = r\<lparr>rq_res1 := take_bit 4 (rq_res1 r)\<rparr>"
  by (simp add: get_RREQ_def put_RREQ_def rreq_bytes_def get_simps)

lemma get_put_RREP:
  "get_RREP (put_RREP r b) =
     r\<lparr>rp_res1 := take_bit 6 (rp_res1 r), rp_prefix := take_bit 5 (rp_prefix r),
       rp_res2 := take_bit 3 (rp_res2 r)\<rparr>"
  by (simp add: get_RREP_def put_RREP_def rrep_bytes_def get_simps pack_prefix)

lemma get_put_RERR:
  "get_RERR (put_RERR r b) = r\<lparr>re_res1 := take_bit 7 (re_res1 r)\<rparr>"
  by (simp add: get_RERR_def put_RERR_def rerr_bytes_def get_simps)

text \<open>In the other direction nothing is lost: the bytes of the structure are all there.\<close>

lemma take_24_split:
  "24 \<le> length b \<Longrightarrow>
     take 24 b = take 4 b @ take 4 (drop 4 b) @ take 4 (drop 8 b) @ take 4 (drop 12 b)
       @ take 4 (drop 16 b) @ take 4 (drop 20 b)"
  by (simp add: take_add [symmetric] flip: append_assoc)

lemma unpack_flags:
  fixes x :: u8
  shows "take_bit 4 x OR bitf 4 (bit x 4) OR bitf 5 (bit x 5) OR bitf 6 (bit x 6) OR bitf 7 (bit x 7) = x"
    and "take_bit 6 x OR bitf 6 (bit x 6) OR bitf 7 (bit x 7) = x"
    and "take_bit 7 x OR bitf 7 (bit x 7) = x"
  by (rule bit_word_eqI; auto simp: bit_simps less_Suc_eq numeral_eq_Suc)+

lemma unpack_prefix: "take_bit 5 x OR push_bit 5 (take_bit 3 (drop_bit 5 x)) = (x :: u8)"
  by (rule bit_word_eqI) (auto simp: bit_simps)

lemma take_4_nth: "4 \<le> length b \<Longrightarrow> take 4 b = [b ! 0, b ! 1, b ! 2, b ! 3]"
  by (simp add: list_eq_iff_nth_eq less_Suc_eq numeral_eq_Suc nth_Cons')

lemma put_get_RREQ:
  assumes "24 \<le> length b"
  shows "put_RREQ (get_RREQ b) b = b"
proof -
  have "rreq_bytes (get_RREQ b) = take 24 b"
    using assms
    by (simp add: take_24_split rreq_bytes_def get_RREQ_def unpack_flags(1) put32_get32 take_4_nth)
  then show ?thesis by (simp add: put_RREQ_def)
qed

lemma put_get_RREP:
  assumes "20 \<le> length b"
  shows "put_RREP (get_RREP b) b = b"
proof -
  have "take 20 b = take 4 b @ take 4 (drop 4 b) @ take 4 (drop 8 b) @ take 4 (drop 12 b)
       @ take 4 (drop 16 b)"
    using assms by (simp add: take_add [symmetric] flip: append_assoc)
  then have "rrep_bytes (get_RREP b) = take 20 b"
    using assms
    by (simp add: rrep_bytes_def get_RREP_def unpack_flags(2) unpack_prefix put32_get32 take_4_nth)
  then show ?thesis by (simp add: put_RREP_def)
qed

lemma put_get_RERR:
  assumes "4 \<le> length b"
  shows "put_RERR (get_RERR b) b = b"
  using assms append_take_drop_id [of 4 b]
  by (simp add: put_RERR_def rerr_bytes_def get_RERR_def unpack_flags(3) take_4_nth)

lemma get_udest_put:
  assumes "12 + 8 * i \<le> length b"
  shows "get_udest (put_udest i u b) j = (if i = j then u else get_udest b j)"
proof -
  have l: "length (take (4 + 8 * i) b) = 4 + 8 * i" using assms by simp
  show ?thesis
  proof (cases "i = j")
    case True
    then show ?thesis using l
      by (simp add: get_udest_def put_udest_def udest_bytes_def get32_skip)
  next
    case False
    then consider "j < i" | "i < j" by linarith
    then show ?thesis
    proof cases
      case 1
      then show ?thesis using l by (simp add: get_udest_def put_udest_def get32_def nth_append)
    next
      case 2
      have "get32 (drop (12 + 8 * i) b) m = get32 b (12 + 8 * i + m)" for m
        using get32_skip [of "take (12 + 8 * i) b" "12 + 8 * i + m" "drop (12 + 8 * i) b"] assms
        by simp
      with 2 l show ?thesis
        by (simp add: get_udest_def put_udest_def udest_bytes_def get32_skip)
    qed
  qed
qed

lemma RERR_CALC_SIZE_eq: "RERR_CALC_SIZE c = 4 + 8 * unat c"
proof -
  have u: "0 \<le> uint c" "uint c < 256" using uint_lt2p [of c] by simp_all
  have "(12 + (uint c - 1) mod 2 ^ 64 * 8) mod 2 ^ 64 = (12 + (uint c - 1) * 8) mod (2 ^ 64 :: int)"
    by (subst mod_add_right_eq [symmetric], subst mod_mult_left_eq, subst mod_add_right_eq) simp
  also have "\<dots> = 4 + 8 * uint c" using u by simp
  finally show ?thesis by (simp add: RERR_CALC_SIZE_def nat_add_distrib nat_mult_distrib u)
qed

end
