(* ===== verification/Node_State.thy ===== *)
theory Node_State
  imports Timer_Queue Messages
begin

text \<open>
  The global state of the daemon: every global and static variable of the sources that the
  protocol reads or writes, as one record \<open>node\<close> with a sub-record per component, and the
  elementary operations on it (timers of the node, interface lookup of \<open>src/core/defs.h\<close>, the
  trace of effects).

  A heap of objects with its list is a \<open>pool\<close>: objects are allocated at increasing addresses,
  the list holds the addresses of the live ones.  A pointer that may be \<open>NULL\<close> is an option.
  What the daemon does to the outside (\<open>sendto\<close>, \<open>sendmsg\<close> on the netlink socket,
  \<open>nfq_set_verdict\<close>) is appended to the trace \<open>out\<close>.  \<open>gettimeofday\<close> returns \<open>clock\<close>, which stays
  fixed while one handler runs.  The field \<open>status\<close> leaves \<open>Running\<close> when the code calls \<open>exit\<close>,
  dereferences \<open>NULL\<close>, or reads or writes behind the end of a message buffer (\<open>Overrun\<close>); it keeps
  the first such event, and what the model computes after it has no meaning for the program.

  Allocation is taken to succeed, except in \<open>rt_table_insert\<close>, where memory holds at most
  \<open>rt_heap_limit\<close> entries and the daemon gives up with status \<open>No_memory\<close> when it is full.
\<close>

section \<open>Timers of the node\<close>

text \<open>Which structure a timer is embedded in.\<close>

datatype timer_id =
    Rt_timer ptr | Ack_timer ptr | Hello_timer ptr
  | Seek_timer ptr | Rec_timer ptr | Bl_timer ptr
  | Hello_send_timer | Worb_timer | Gc_timer | Rt_log_timer

text \<open>The functions used as timer handlers.\<close>

datatype thandler =
    Route_expire_timeout | Route_delete_timeout | Local_repair_timeout
  | Rrep_ack_timeout | Hello_timeout | Route_discovery_timeout
  | Rreq_record_timeout | Rreq_blacklist_timeout
  | Hello_send | Wait_on_reboot_timeout | Packet_queue_timeout | Print_rt_table

text \<open>The \<open>data\<close> argument: a typed address.\<close>

datatype targ = A_rt ptr | A_seek ptr | A_rec ptr | A_bl ptr | A_worb | A_PQ | A_NULL

section \<open>Hosts and interfaces\<close>

record dev_info =
  enabled :: bool
  dev_sock :: int
  dev_ifindex :: u32
  ifname :: string
  ipaddr :: addr
  netmask :: addr
  broadcast :: addr

record host_info =
  seqno :: u32
  bcast_time :: timeval
  fwd_time :: timeval
  host_rreq_id :: u32
  nif :: nat
  devs :: "dev_info list"

text \<open>The command line options and run-time parameters of \<open>src/core/main.c\<close>.\<close>

record config =
  unidir_hack :: bool
  rreq_gratuitous :: bool
  expanding_ring_search :: bool
  local_repair :: bool
  receive_n_hellos :: int
  hello_jittering :: bool
  optimized_hellos :: bool
  ratelimit :: bool
  llfeedback :: bool
  active_route_timeout :: int
  ttl_start :: int
  delete_period :: int
  rt_log_interval :: int

section \<open>Pools\<close>

record 'a pool =
  pheap :: "ptr \<Rightarrow> 'a"
  pnext :: ptr
  plist :: "ptr list"

section \<open>Routing table\<close>

datatype rt_state = INVALID | VALID

record rt_table =
  rt_dest_addr :: addr
  rt_dest_seqno :: u32
  rt_ifindex :: u32
  rt_next_hop :: addr
  rt_hcnt :: u8
  rt_flags :: u16
  rt_state :: rt_state
  rt_last_hello_time :: timeval
  rt_hello_cnt :: u8
  rt_hash :: u32
  rt_nprec :: int
  rt_precursors :: "addr list"

definition RT_UNIDIR :: u16 where "RT_UNIDIR = 1"
definition RT_REPAIR :: u16 where "RT_REPAIR = 2"
definition RT_INV_SEQNO :: u16 where "RT_INV_SEQNO = 4"
definition RT_INET_DEST :: u16 where "RT_INET_DEST = 8"
definition RT_GATEWAY :: u16 where "RT_GATEWAY = 16"
definition RT_TABLESIZE :: nat where [simp]: "RT_TABLESIZE = 64"

record routing_table =
  num_entries :: u32
  num_active :: u32
  tbl :: "ptr list list"
  rt_heap :: "ptr \<Rightarrow> rt_table"
  rt_next :: ptr

section \<open>Seek list, request records, blacklist, packet queue\<close>

record seek_list =
  seek_dest_addr :: addr
  seek_dest_seqno :: u32
  seek_flags :: u8
  seek_reqs :: int
  seek_ttl :: int
  seek_ipd :: "ptr option"

record rreq_record =
  rec_orig_addr :: addr
  rec_rreq_id :: u32

record blacklist =
  bl_dest_addr :: addr

record q_pkt =
  qp_dest_addr :: addr
  qp_q_time :: timeval
  qp_packet_id :: u32

record packet_queue =
  pq_head :: "q_pkt list"
  pq_len :: u32

section \<open>Socket state and effects\<close>

record socket =
  recv_buf :: bytes
  send_buf :: bytes
  rreq_ratel :: "timeval list"
  rerr_ratel :: "timeval list"
  num_rreq :: nat
  num_rerr :: nat

definition AODV_MSG_MAX_SIZE :: nat where [simp]: "AODV_MSG_MAX_SIZE = RERR_SIZE + 100 * RERR_UDEST_SIZE"

text \<open>A request on the routing netlink socket.\<close>

record nl_req =
  nlmsg_len :: nat
  nlmsg_type :: nat
  nlmsg_flags :: nat
  nlmsg_seq :: int
  rtm_family :: nat
  rtm_dst_len :: nat
  rtm_table :: nat
  rtm_protocol :: nat
  rtm_scope :: nat
  rtm_type :: nat
  rta :: "(nat \<times> u32) list"

datatype event =
    Ev_send bytes addr u8 int
  | Ev_netlink nl_req
  | Ev_verdict u32 u32

datatype status = Running | Exited | Null_deref | Overrun | No_memory

record node =
  clock :: timeval
  this_host :: host_info
  dev_indices :: "u32 list"
  conf :: config
  wait_on_reboot :: bool
  tq :: "(timer_id, thandler, targ) tqueue"
  rt_tbl :: routing_table
  rt_heap_limit :: nat
  seekhead :: "seek_list pool"
  rreq_records :: "rreq_record pool"
  rreq_blacklist :: "blacklist pool"
  PQ :: packet_queue
  sk :: socket
  nl_seq :: int
  nfq_open :: bool
  ttl_ok :: "int \<Rightarrow> u8 \<Rightarrow> bool"
  random :: "nat \<Rightarrow> int"
  random_pos :: nat
  out :: "event list"
  status :: status

section \<open>Elementary operations\<close>

definition abort :: "status \<Rightarrow> node \<Rightarrow> node" where
  "abort st s = (if status s = Running then s\<lparr>status := st\<rparr> else s)"

definition emit :: "event \<Rightarrow> node \<Rightarrow> node" where
  "emit e s = s\<lparr>out := out s @ [e]\<rparr>"

text \<open>Timers of the node.  A timer without handler makes \<open>timer_add\<close> exit.\<close>

definition tm_init :: "timer_id \<Rightarrow> thandler \<Rightarrow> targ \<Rightarrow> node \<Rightarrow> node" where
  "tm_init t f d s = s\<lparr>tq := timer_init t f d (tq s)\<rparr>"

definition tm_set :: "timer_id \<Rightarrow> int \<Rightarrow> node \<Rightarrow> node" where
  "tm_set t msec s =
     (case timer_set_timeout (clock s) t msec (tq s) of
        None \<Rightarrow> abort Exited s
      | Some q \<Rightarrow> s\<lparr>tq := q\<rparr>)"

definition tm_remove :: "timer_id \<Rightarrow> node \<Rightarrow> node" where
  "tm_remove t s = s\<lparr>tq := snd (timer_remove t (tq s))\<rparr>"

definition tm_handler :: "timer_id \<Rightarrow> thandler \<Rightarrow> node \<Rightarrow> node" where
  "tm_handler t f s = s\<lparr>tq := upd_timer t (\<lambda>r. r\<lparr>handler := Some f\<rparr>) (tq s)\<rparr>"

definition tm_used :: "timer_id \<Rightarrow> node \<Rightarrow> bool" where
  "tm_used t s = used (timers (tq s) t)"

definition tm_timeout :: "timer_id \<Rightarrow> node \<Rightarrow> timeval" where
  "tm_timeout t s = timeout (timers (tq s) t)"

text \<open>Routing table entries.\<close>

abbreviation rt :: "node \<Rightarrow> ptr \<Rightarrow> rt_table" where
  "rt s p \<equiv> rt_heap (rt_tbl s) p"

definition upd_rt :: "ptr \<Rightarrow> (rt_table \<Rightarrow> rt_table) \<Rightarrow> node \<Rightarrow> node" where
  "upd_rt p f s =
     s\<lparr>rt_tbl := (rt_tbl s)\<lparr>rt_heap := (rt_heap (rt_tbl s))(p := f (rt s p))\<rparr>\<rparr>"

definition flag :: "u16 \<Rightarrow> u16 \<Rightarrow> bool" where
  "flag f m \<longleftrightarrow> f AND m \<noteq> 0"

text \<open>\<open>ifindex2devindex\<close> and the macros \<open>DEV_IFINDEX\<close> and \<open>DEV_NR\<close>.\<close>

definition ifindex2devindex :: "node \<Rightarrow> u32 \<Rightarrow> nat" where
  "ifindex2devindex s i =
     (case List.find (\<lambda>k. dev_indices s ! k = i) [0..<nif (this_host s)] of
        None \<Rightarrow> MAX_NR_INTERFACES
      | Some k \<Rightarrow> k)"

definition DEV_NR :: "node \<Rightarrow> nat \<Rightarrow> dev_info" where
  "DEV_NR s n = devs (this_host s) ! n"

definition DEV_IFINDEX :: "node \<Rightarrow> u32 \<Rightarrow> dev_info" where
  "DEV_IFINDEX s i = DEV_NR s (ifindex2devindex s i)"

definition devfromsock :: "node \<Rightarrow> int \<Rightarrow> dev_info option" where
  "devfromsock s fd =
     map_option (DEV_NR s) (List.find (\<lambda>k. dev_sock (DEV_NR s k) = fd) [0..<nif (this_host s)])"

text \<open>The loop \<open>for (i = 0; i < MAX_NR_INTERFACES; i++) if (DEV_NR(i).enabled) f(i)\<close>.\<close>

definition for_enabled_devs :: "(dev_info \<Rightarrow> node \<Rightarrow> node) \<Rightarrow> node \<Rightarrow> node" where
  "for_enabled_devs f s =
     fold (\<lambda>i s. if enabled (DEV_NR s i) then f (DEV_NR s i) s else s) [0..<MAX_NR_INTERFACES] s"

end
