(* ===== verification/Invariant.thy ===== *)
theory Invariant
  imports Node_State
begin

text \<open>
  The well-formedness invariant of a node and the relation \<open>ok s s'\<close> between the states before
  and after an operation: the invariant holds afterwards, no route entry has been freed or
  renamed, no timer has joined the expired ones, the effects only grow.  Each component proves
  \<open>ok\<close> of its operations from the lemmas here.

  A well-formed node has not called \<open>exit\<close> (other than for lack of memory) and has not dereferenced
  \<open>NULL\<close>.  Reading or writing
  behind a message buffer is not excluded here: malformed extensions and very long route errors
  can cause it, and the components say when they do not.

  The invariant is a conjunction of predicates that look at one part of the state each, so that
  a part an operation does not touch needs no proof.
\<close>

section \<open>Well-formed parts\<close>

definition bucket :: "addr \<Rightarrow> nat" where
  "bucket a = unat (a AND 63)"

lemma bucket_lt [simp]: "bucket a < 64"
proof -
  have "a AND 63 = take_bit 6 a" by (simp add: take_bit_eq_mask mask_numeral)
  then have "unat (a AND 63) = take_bit 6 (unat a)" by (simp add: unsigned_take_bit_eq)
  then show ?thesis by (simp add: bucket_def take_bit_eq_mod)
qed

definition entry_wf :: "rt_table \<Rightarrow> bool" where
  "entry_wf e \<longleftrightarrow>
     rt_hash e = rt_dest_addr e \<and>
     rt_nprec e = int (length (rt_precursors e)) \<and> distinct (rt_precursors e)"

definition entries :: "routing_table \<Rightarrow> ptr list" where
  "entries r = concat (tbl r)"

definition table_wf :: "routing_table \<Rightarrow> nat \<Rightarrow> bool" where
  "table_wf r lim \<longleftrightarrow>
     length (tbl r) = RT_TABLESIZE \<and> distinct (entries r) \<and>
     (\<forall>i < RT_TABLESIZE. \<forall>p \<in> set (tbl r ! i). bucket (rt_dest_addr (rt_heap r p)) = i) \<and>
     (\<forall>p \<in> set (entries r). entry_wf (rt_heap r p) \<and> p < rt_next r) \<and>
     inj_on (\<lambda>p. rt_dest_addr (rt_heap r p)) (set (entries r)) \<and>
     num_entries r = of_nat (length (entries r)) \<and>
     length (entries r) \<le> lim \<and> lim < 2 ^ 32"

definition pool_wf :: "('a \<Rightarrow> 'k) \<Rightarrow> 'a pool \<Rightarrow> bool" where
  "pool_wf key q \<longleftrightarrow>
     distinct (plist q) \<and> (\<forall>p \<in> set (plist q). p < pnext q) \<and>
     inj_on (\<lambda>p. key (pheap q p)) (set (plist q))"

fun timer_typed :: "timer_id \<Rightarrow> (thandler, targ) timer \<Rightarrow> bool" where
  "timer_typed (Rt_timer p) t \<longleftrightarrow>
     handler t \<in> Some ` {Route_expire_timeout, Route_delete_timeout, Local_repair_timeout} \<and>
     tdata t = A_rt p"
| "timer_typed (Ack_timer p) t \<longleftrightarrow> handler t = Some Rrep_ack_timeout \<and> tdata t = A_rt p"
| "timer_typed (Hello_timer p) t \<longleftrightarrow> handler t = Some Hello_timeout \<and> tdata t = A_rt p"
| "timer_typed (Seek_timer p) t \<longleftrightarrow> handler t = Some Route_discovery_timeout \<and> tdata t = A_seek p"
| "timer_typed (Rec_timer p) t \<longleftrightarrow> handler t = Some Rreq_record_timeout \<and> tdata t = A_rec p"
| "timer_typed (Bl_timer p) t \<longleftrightarrow> handler t = Some Rreq_blacklist_timeout \<and> tdata t = A_bl p"
| "timer_typed Hello_send_timer t \<longleftrightarrow> handler t = Some Hello_send \<and> tdata t = A_NULL"
| "timer_typed Worb_timer t \<longleftrightarrow> handler t = Some Wait_on_reboot_timeout \<and> tdata t = A_worb"
| "timer_typed Gc_timer t \<longleftrightarrow> handler t = Some Packet_queue_timeout \<and> tdata t = A_PQ"
| "timer_typed Rt_log_timer t \<longleftrightarrow> handler t = Some Print_rt_table \<and> tdata t = A_NULL"

text \<open>The timers that live in allocated objects, and the static ones.\<close>

fun owned :: "ptr set \<Rightarrow> ptr set \<Rightarrow> ptr set \<Rightarrow> ptr set \<Rightarrow> timer_id \<Rightarrow> bool" where
  "owned R S C B (Rt_timer p) = (p \<in> R)"
| "owned R S C B (Ack_timer p) = (p \<in> R)"
| "owned R S C B (Hello_timer p) = (p \<in> R)"
| "owned R S C B (Seek_timer p) = (p \<in> S)"
| "owned R S C B (Rec_timer p) = (p \<in> C)"
| "owned R S C B (Bl_timer p) = (p \<in> B)"
| "owned R S C B _ = False"

definition static_timer :: "timer_id \<Rightarrow> bool" where
  "static_timer t \<longleftrightarrow> t \<in> {Hello_send_timer, Worb_timer, Gc_timer, Rt_log_timer}"

definition timers_wf ::
  "(timer_id, thandler, targ) tqueue \<Rightarrow> ptr set \<Rightarrow> ptr set \<Rightarrow> ptr set \<Rightarrow> ptr set \<Rightarrow> bool" where
  "timers_wf q R S C B \<longleftrightarrow>
     tq_wf q \<and>
     (\<forall>t \<in> attached q. owned R S C B t \<or> static_timer t) \<and>
     (\<forall>t. owned R S C B t \<longrightarrow> timer_typed t (timers q t)) \<and>
     (\<forall>t. static_timer t \<longrightarrow> handler (timers q t) \<noteq> None \<longrightarrow> timer_typed t (timers q t))"

definition pq_wf :: "packet_queue \<Rightarrow> bool" where
  "pq_wf q \<longleftrightarrow> pq_len q = of_nat (length (pq_head q)) \<and> length (pq_head q) \<le> 512"

definition sock_wf :: "socket \<Rightarrow> bool" where
  "sock_wf k \<longleftrightarrow>
     length (recv_buf k) = AODV_MSG_MAX_SIZE \<and> length (send_buf k) = AODV_MSG_MAX_SIZE \<and>
     length (rreq_ratel k) = RREQ_RATELIMIT - 1 \<and> length (rerr_ratel k) = RERR_RATELIMIT - 1 \<and>
     num_rreq k \<le> RREQ_RATELIMIT - 1 \<and> num_rerr k \<le> RERR_RATELIMIT - 1"

definition host_wf :: "host_info \<Rightarrow> u32 list \<Rightarrow> bool" where
  "host_wf h ix \<longleftrightarrow>
     length (devs h) = MAX_NR_INTERFACES + 1 \<and> length ix = MAX_NR_INTERFACES \<and>
     nif h \<le> MAX_NR_INTERFACES"

definition static_ready :: "(timer_id, thandler, targ) tqueue \<Rightarrow> bool \<Rightarrow> bool" where
  "static_ready q worb \<longleftrightarrow>
     handler (timers q Gc_timer) \<noteq> None \<and> (worb \<longrightarrow> handler (timers q Worb_timer) \<noteq> None)"

abbreviation live :: "node \<Rightarrow> ptr set" where
  "live s \<equiv> set (entries (rt_tbl s))"

abbreviation seeking :: "node \<Rightarrow> ptr set" where
  "seeking s \<equiv> set (plist (seekhead s))"

definition record_key :: "rreq_record \<Rightarrow> addr \<times> u32" where
  "record_key r = (rec_orig_addr r, rec_rreq_id r)"

definition wf_node :: "node \<Rightarrow> bool" where
  "wf_node s \<longleftrightarrow>
     status s \<in> {Running, Overrun, No_memory} \<and>
     table_wf (rt_tbl s) (rt_heap_limit s) \<and>
     timers_wf (tq s) (live s) (seeking s) (set (plist (rreq_records s))) (set (plist (rreq_blacklist s))) \<and>
     static_ready (tq s) (wait_on_reboot s) \<and>
     pool_wf seek_dest_addr (seekhead s) \<and>
     pool_wf record_key (rreq_records s) \<and>
     pool_wf bl_dest_addr (rreq_blacklist s) \<and>
     pq_wf (PQ s) \<and> sock_wf (sk s) \<and> host_wf (this_host s) (dev_indices s)"

section \<open>Operations that keep a node in order\<close>

text \<open>What no handler changes.\<close>

definition statics :: "node \<Rightarrow> timeval \<times> dev_info list \<times> nat \<times> u32 list \<times> config \<times> nat" where
  "statics s =
     (clock s, devs (this_host s), nif (this_host s), dev_indices s, conf s, rt_heap_limit s)"

definition ok :: "node \<Rightarrow> node \<Rightarrow> bool" where
  "ok s s' \<longleftrightarrow>
     wf_node s' \<and> live s \<subseteq> live s' \<and>
     (\<forall>p \<in> live s. rt_dest_addr (rt s' p) = rt_dest_addr (rt s p)) \<and>
     set (expTQ (tq s')) \<subseteq> set (expTQ (tq s)) \<and>
     (Gc_timer \<in> attached (tq s) \<longrightarrow> Gc_timer \<in> attached (tq s')) \<and>
     (\<forall>t. static_timer t \<longrightarrow> handler (timers (tq s) t) \<noteq> None \<longrightarrow> handler (timers (tq s') t) \<noteq> None) \<and>
     statics s' = statics s \<and> (\<exists>evs. out s' = out s @ evs)"

lemma ok_refl: "wf_node s \<Longrightarrow> ok s s"
  by (simp add: ok_def)

lemma ok_trans [trans]: "ok s s' \<Longrightarrow> ok s' s'' \<Longrightarrow> ok s s''"
  unfolding ok_def by (auto simp: subset_iff)

lemma ok_inv: "ok s s' \<Longrightarrow> wf_node s'"
  by (simp add: ok_def)

lemma ok_live: "ok s s' \<Longrightarrow> p \<in> live s \<Longrightarrow> p \<in> live s'"
  by (auto simp: ok_def)

lemma ok_dest: "ok s s' \<Longrightarrow> p \<in> live s \<Longrightarrow> rt_dest_addr (rt s' p) = rt_dest_addr (rt s p)"
  by (auto simp: ok_def)

lemma ok_statics:
  assumes "ok s s'"
  shows "clock s' = clock s" "devs (this_host s') = devs (this_host s)"
    "nif (this_host s') = nif (this_host s)" "dev_indices s' = dev_indices s"
    "conf s' = conf s" "rt_heap_limit s' = rt_heap_limit s"
  using assms by (simp_all add: ok_def statics_def)

section \<open>Timers\<close>

lemma timers_wfD:
  assumes "timers_wf q R S C B"
  shows "tq_wf q" "t \<in> attached q \<Longrightarrow> owned R S C B t \<or> static_timer t"
    "owned R S C B t \<Longrightarrow> timer_typed t (timers q t)"
    "static_timer t \<Longrightarrow> handler (timers q t) \<noteq> None \<Longrightarrow> timer_typed t (timers q t)"
  using assms unfolding timers_wf_def by blast+

lemma timer_typed_handler: "timer_typed t r \<Longrightarrow> handler r \<noteq> None"
  by (cases t) auto

lemma timer_typed_cong:
  "handler r' = handler r \<Longrightarrow> tdata r' = tdata r \<Longrightarrow> timer_typed t r' = timer_typed t r"
  by (cases t) auto

lemma timers_wf_same_handlers:
  assumes "timers_wf q R S C B" "tq_wf q'"
    and "attached q' \<subseteq> insert t (attached q)" "owned R S C B t \<or> static_timer t"
    and "\<And>u. handler (timers q' u) = handler (timers q u) \<and> tdata (timers q' u) = tdata (timers q u)"
  shows "timers_wf q' R S C B"
  unfolding timers_wf_def
proof (intro conjI allI impI ballI)
  show "owned R S C B u \<or> static_timer u" if "u \<in> attached q'" for u
    using that assms(3,4) timers_wfD(2) [OF assms(1)] by blast
  show "timer_typed u (timers q' u)" if "owned R S C B u" for u
    using timers_wfD(3) [OF assms(1) that] assms(5) timer_typed_cong by blast
  show "timer_typed u (timers q' u)" if "static_timer u" "handler (timers q' u) \<noteq> None" for u
    using timers_wfD(4) [OF assms(1) that(1)] assms(5) that(2) timer_typed_cong by metis
qed (rule assms(2))

lemma attached_cong: "TQ q' = TQ q \<Longrightarrow> expTQ q' = expTQ q \<Longrightarrow> attached q' = attached q"
  by (simp add: attached_def)

lemma invD:
  assumes "wf_node s"
  shows "status s \<in> {Running, Overrun, No_memory}" "table_wf (rt_tbl s) (rt_heap_limit s)"
    "timers_wf (tq s) (live s) (seeking s) (set (plist (rreq_records s)))
       (set (plist (rreq_blacklist s)))"
    "static_ready (tq s) (wait_on_reboot s)" "pool_wf seek_dest_addr (seekhead s)"
    "pool_wf record_key (rreq_records s)" "pool_wf bl_dest_addr (rreq_blacklist s)"
    "pq_wf (PQ s)" "sock_wf (sk s)" "host_wf (this_host s) (dev_indices s)" "tq_wf (tq s)"
  using assms unfolding wf_node_def timers_wf_def by blast+

abbreviation node_timer :: "node \<Rightarrow> timer_id \<Rightarrow> bool" where
  "node_timer s t \<equiv>
     owned (live s) (seeking s) (set (plist (rreq_records s))) (set (plist (rreq_blacklist s))) t \<or>
     static_timer t"

lemma tm_set_ok:
  assumes "wf_node s" "node_timer s t" "handler (timers (tq s) t) \<noteq> None"
  shows "ok s (tm_set t msec s)"
proof -
  note wf = invD [OF assms(1)]
  obtain q' where q': "timer_set_timeout (clock s) t msec (tq s) = Some q'" "tq_wf q'"
    "set (TQ q') = insert t (set (TQ (tq s)))" "set (expTQ q') = set (expTQ (tq s)) - {t}"
    "timers q' = (timers (tq s))
       (t := (timers (tq s) t)\<lparr>used := True, timeout := due_at (clock s) msec\<rparr>)"
    by (rule timer_set_timeout_wf [OF wf(11) assms(3)])
  have "timers_wf q' (live s) (seeking s) (set (plist (rreq_records s)))
       (set (plist (rreq_blacklist s)))"
    by (rule timers_wf_same_handlers [OF wf(3) q'(2) _ assms(2)])
      (auto simp: attached_def q'(3-5))
  moreover have "static_ready q' (wait_on_reboot s)" using wf(4) by (simp add: static_ready_def q'(5))
  ultimately have "wf_node (s\<lparr>tq := q'\<rparr>)" using assms(1) by (simp add: wf_node_def)
  then show ?thesis by (auto simp: tm_set_def q' ok_def statics_def attached_def)
qed

lemma tm_set_owned_ok:
  assumes "wf_node s"
    "owned (live s) (seeking s) (set (plist (rreq_records s))) (set (plist (rreq_blacklist s))) t"
  shows "ok s (tm_set t msec s)"
  using assms timers_wfD(3) [OF invD(3) [OF assms(1)] assms(2)]
  by (blast intro: tm_set_ok dest: timer_typed_handler)

lemma tm_set_rt_ok:
  assumes "wf_node s" "p \<in> live s"
  shows "ok s (tm_set (Rt_timer p) msec s)" "ok s (tm_set (Ack_timer p) msec s)"
    "ok s (tm_set (Hello_timer p) msec s)"
  by (rule tm_set_owned_ok [OF assms(1)]; simp add: assms(2))+

lemma tm_remove_ok:
  assumes "wf_node s" "t \<noteq> Gc_timer"
  shows "ok s (tm_remove t s)"
proof -
  note wf = invD [OF assms(1)]
  let ?q = "snd (timer_remove t (tq s))"
  have "timers_wf ?q (live s) (seeking s) (set (plist (rreq_records s)))
       (set (plist (rreq_blacklist s)))"
    by (rule timers_wf_same_handlers [OF wf(3) timer_remove_wf [OF wf(11)], of _ Gc_timer])
      (auto simp: attached_timer_remove [OF wf(11)] timer_remove_simps static_timer_def)
  moreover have "static_ready ?q (wait_on_reboot s)"
    using wf(4) by (simp add: static_ready_def timer_remove_simps)
  ultimately have "wf_node (s\<lparr>tq := ?q\<rparr>)" using assms(1) by (simp add: wf_node_def)
  moreover have "set (expTQ ?q) \<subseteq> set (expTQ (tq s))"
    by (simp add: timer_remove_simps set_remove1_subset)
  ultimately show ?thesis using assms(2)
    by (auto simp: tm_remove_def ok_def statics_def timer_remove_simps attached_timer_remove [OF wf(11)])
qed

lemma tm_handler_ok:
  assumes "wf_node s" "f \<in> {Route_expire_timeout, Route_delete_timeout, Local_repair_timeout}"
  shows "ok s (tm_handler (Rt_timer p) f s)"
proof -
  note wf = invD [OF assms(1)]
  let ?q = "upd_timer (Rt_timer p) (\<lambda>r. r\<lparr>handler := Some f\<rparr>) (tq s)"
  have "ms_sorted (timers ?q) (TQ (tq s)) = ms_sorted (timers (tq s)) (TQ (tq s))"
    by (rule ms_sorted_cong) simp
  then have "tq_wf ?q" using wf(11) by (auto simp: tq_wf_def)
  moreover have "timer_typed u (timers ?q u)" if "timer_typed u (timers (tq s) u)" for u
    using that assms(2) by (cases "u = Rt_timer p") auto
  moreover have "handler (timers ?q u) = handler (timers (tq s) u)" if "static_timer u" for u
    using that by (auto simp: static_timer_def)
  ultimately have "timers_wf ?q (live s) (seeking s) (set (plist (rreq_records s)))
       (set (plist (rreq_blacklist s)))"
    using wf(3) unfolding timers_wf_def attached_upd_timer by metis
  moreover have "static_ready ?q (wait_on_reboot s)"
    using wf(4) by (simp add: static_ready_def)
  ultimately have "wf_node (s\<lparr>tq := ?q\<rparr>)" using assms(1) by (simp add: wf_node_def)
  then show ?thesis by (simp add: tm_handler_def ok_def statics_def)
qed

section \<open>Other parts of the state\<close>

lemma abort_overrun_ok: "wf_node s \<Longrightarrow> ok s (abort Overrun s)"
  by (auto simp: ok_def wf_node_def abort_def statics_def)

lemma abort_no_memory_ok: "wf_node s \<Longrightarrow> ok s (abort No_memory s)"
  by (auto simp: ok_def wf_node_def abort_def statics_def)

lemma emit_ok: "wf_node s \<Longrightarrow> ok s (emit e s)"
  by (simp add: ok_def wf_node_def emit_def statics_def)

lemma upd_sk_ok: "wf_node s \<Longrightarrow> sock_wf k \<Longrightarrow> ok s (s\<lparr>sk := k\<rparr>)"
  by (simp add: ok_def wf_node_def statics_def)

lemma upd_PQ_ok: "wf_node s \<Longrightarrow> pq_wf q \<Longrightarrow> ok s (s\<lparr>PQ := q\<rparr>)"
  by (simp add: ok_def wf_node_def statics_def)

lemma upd_host_ok:
  "wf_node s \<Longrightarrow> devs h = devs (this_host s) \<Longrightarrow> nif h = nif (this_host s) \<Longrightarrow>
     ok s (s\<lparr>this_host := h\<rparr>)"
  by (simp add: ok_def wf_node_def host_wf_def statics_def)

lemma upd_nl_seq_ok: "wf_node s \<Longrightarrow> ok s (s\<lparr>nl_seq := n\<rparr>)"
  by (simp add: ok_def wf_node_def statics_def)

lemma upd_random_ok: "wf_node s \<Longrightarrow> ok s (s\<lparr>random_pos := n\<rparr>)"
  by (simp add: ok_def wf_node_def statics_def)

lemma upd_worb_ok: "wf_node s \<Longrightarrow> ok s (s\<lparr>wait_on_reboot := False\<rparr>)"
  by (simp add: ok_def wf_node_def statics_def static_ready_def)

lemma upd_active_ok:
  "wf_node s \<Longrightarrow> ok s (s\<lparr>rt_tbl := (rt_tbl s)\<lparr>num_active := n\<rparr>\<rparr>)"
  by (simp add: ok_def wf_node_def statics_def table_wf_def entries_def)

lemma entries_upd_rt [simp]: "entries (rt_tbl (upd_rt p f s)) = entries (rt_tbl s)"
  by (simp add: upd_rt_def entries_def)

lemma upd_rt_simps [simp]:
  "rt (upd_rt p f s) q = (if q = p then f (rt s p) else rt s q)"
  "tbl (rt_tbl (upd_rt p f s)) = tbl (rt_tbl s)"
  "num_entries (rt_tbl (upd_rt p f s)) = num_entries (rt_tbl s)"
  "num_active (rt_tbl (upd_rt p f s)) = num_active (rt_tbl s)"
  "rt_next (rt_tbl (upd_rt p f s)) = rt_next (rt_tbl s)"
  "tq (upd_rt p f s) = tq s" "clock (upd_rt p f s) = clock s" "conf (upd_rt p f s) = conf s"
  "sk (upd_rt p f s) = sk s" "out (upd_rt p f s) = out s" "this_host (upd_rt p f s) = this_host s"
  "status (upd_rt p f s) = status s" "dev_indices (upd_rt p f s) = dev_indices s"
  "seekhead (upd_rt p f s) = seekhead s" "PQ (upd_rt p f s) = PQ s"
  "rreq_records (upd_rt p f s) = rreq_records s" "rreq_blacklist (upd_rt p f s) = rreq_blacklist s"
  "wait_on_reboot (upd_rt p f s) = wait_on_reboot s" "rt_heap_limit (upd_rt p f s) = rt_heap_limit s"
  by (simp_all add: upd_rt_def)

lemma table_wfD:
  assumes "table_wf r lim"
  shows "length (tbl r) = 64" "distinct (entries r)"
    "i < 64 \<Longrightarrow> p \<in> set (tbl r ! i) \<Longrightarrow> bucket (rt_dest_addr (rt_heap r p)) = i"
    "p \<in> set (entries r) \<Longrightarrow> entry_wf (rt_heap r p)" "p \<in> set (entries r) \<Longrightarrow> p < rt_next r"
    "inj_on (\<lambda>p. rt_dest_addr (rt_heap r p)) (set (entries r))"
    "num_entries r = of_nat (length (entries r))" "length (entries r) \<le> lim" "lim < 2 ^ 32"
  using assms unfolding table_wf_def by auto

lemma table_wf_upd:
  assumes "table_wf (rt_tbl s) lim"
    and "rt_dest_addr (f (rt s p)) = rt_dest_addr (rt s p)"
    and "p \<in> live s \<Longrightarrow> entry_wf (f (rt s p))"
  shows "table_wf (rt_tbl (upd_rt p f s)) lim"
proof -
  have d: "rt_dest_addr (rt (upd_rt p f s) q) = rt_dest_addr (rt s q)" for q
    by (simp add: assms(2))
  have "entry_wf (rt (upd_rt p f s) q)" if "q \<in> live s" for q
    using that assms(3) table_wfD(4) [OF assms(1)] by auto
  then show ?thesis
    using assms(1) unfolding table_wf_def d entries_upd_rt by simp
qed

lemma upd_rt_ok:
  assumes "wf_node s" "rt_dest_addr (f (rt s p)) = rt_dest_addr (rt s p)"
    and "p \<in> live s \<Longrightarrow> entry_wf (rt s p) \<Longrightarrow> entry_wf (f (rt s p))"
  shows "ok s (upd_rt p f s)"
proof -
  have "table_wf (rt_tbl (upd_rt p f s)) (rt_heap_limit s)"
    using assms(2,3) table_wfD(4) [OF invD(2) [OF assms(1)]]
    by (intro table_wf_upd invD [OF assms(1)]) auto
  then have "wf_node (upd_rt p f s)" using assms(1) by (simp add: wf_node_def)
  then show ?thesis using assms(2) by (simp add: ok_def statics_def)
qed

lemma entry_wf_cong:
  "rt_hash e' = rt_hash e \<Longrightarrow> rt_dest_addr e' = rt_dest_addr e \<Longrightarrow> rt_nprec e' = rt_nprec e \<Longrightarrow>
     rt_precursors e' = rt_precursors e \<Longrightarrow> entry_wf e' = entry_wf e"
  by (simp add: entry_wf_def)

section \<open>What the timer operations leave alone\<close>

lemma tm_set_frame [simp]:
  "rt_tbl (tm_set t m s) = rt_tbl s" "clock (tm_set t m s) = clock s" "conf (tm_set t m s) = conf s"
  "sk (tm_set t m s) = sk s" "out (tm_set t m s) = out s" "this_host (tm_set t m s) = this_host s"
  "seekhead (tm_set t m s) = seekhead s" "PQ (tm_set t m s) = PQ s"
  "rreq_records (tm_set t m s) = rreq_records s" "rreq_blacklist (tm_set t m s) = rreq_blacklist s"
  "wait_on_reboot (tm_set t m s) = wait_on_reboot s" "dev_indices (tm_set t m s) = dev_indices s"
  "rt_heap_limit (tm_set t m s) = rt_heap_limit s"
  by (simp_all add: tm_set_def abort_def split: option.splits)

lemma tm_set_status: "status (tm_set t m s) = status s \<or> status (tm_set t m s) = Exited"
  by (simp add: tm_set_def abort_def split: option.splits)

text \<open>An operation that can at most exit, and does not, keeps the status.\<close>

lemma ok_status:
  "ok s s' \<Longrightarrow> status s' = status s \<or> status s' = Exited \<Longrightarrow> status s' = status s"
  using invD(1) [OF ok_inv, of s s'] by auto

lemma tm_remove_frame [simp]:
  "rt_tbl (tm_remove t s) = rt_tbl s" "clock (tm_remove t s) = clock s"
  "conf (tm_remove t s) = conf s" "sk (tm_remove t s) = sk s" "out (tm_remove t s) = out s"
  "this_host (tm_remove t s) = this_host s" "seekhead (tm_remove t s) = seekhead s"
  "PQ (tm_remove t s) = PQ s" "status (tm_remove t s) = status s"
  "rreq_records (tm_remove t s) = rreq_records s" "rreq_blacklist (tm_remove t s) = rreq_blacklist s"
  "wait_on_reboot (tm_remove t s) = wait_on_reboot s" "dev_indices (tm_remove t s) = dev_indices s"
  "rt_heap_limit (tm_remove t s) = rt_heap_limit s"
  by (simp_all add: tm_remove_def)

lemma tm_handler_frame [simp]:
  "rt_tbl (tm_handler t f s) = rt_tbl s" "clock (tm_handler t f s) = clock s"
  "conf (tm_handler t f s) = conf s" "sk (tm_handler t f s) = sk s" "out (tm_handler t f s) = out s"
  "this_host (tm_handler t f s) = this_host s" "seekhead (tm_handler t f s) = seekhead s"
  "PQ (tm_handler t f s) = PQ s" "status (tm_handler t f s) = status s"
  "rreq_records (tm_handler t f s) = rreq_records s"
  "rreq_blacklist (tm_handler t f s) = rreq_blacklist s"
  "wait_on_reboot (tm_handler t f s) = wait_on_reboot s"
  "dev_indices (tm_handler t f s) = dev_indices s"
  "rt_heap_limit (tm_handler t f s) = rt_heap_limit s"
  by (simp_all add: tm_handler_def)

lemma tm_init_frame [simp]:
  "rt_tbl (tm_init t f d s) = rt_tbl s" "clock (tm_init t f d s) = clock s"
  "conf (tm_init t f d s) = conf s" "sk (tm_init t f d s) = sk s" "out (tm_init t f d s) = out s"
  "this_host (tm_init t f d s) = this_host s" "seekhead (tm_init t f d s) = seekhead s"
  "PQ (tm_init t f d s) = PQ s" "status (tm_init t f d s) = status s"
  "rreq_records (tm_init t f d s) = rreq_records s"
  "rreq_blacklist (tm_init t f d s) = rreq_blacklist s"
  "wait_on_reboot (tm_init t f d s) = wait_on_reboot s"
  "dev_indices (tm_init t f d s) = dev_indices s"
  "rt_heap_limit (tm_init t f d s) = rt_heap_limit s"
  by (simp_all add: tm_init_def)

lemma abort_frame [simp]:
  "rt_tbl (abort st s) = rt_tbl s" "tq (abort st s) = tq s" "clock (abort st s) = clock s"
  "conf (abort st s) = conf s" "sk (abort st s) = sk s" "out (abort st s) = out s"
  "this_host (abort st s) = this_host s" "seekhead (abort st s) = seekhead s" "PQ (abort st s) = PQ s"
  "dev_indices (abort st s) = dev_indices s" "wait_on_reboot (abort st s) = wait_on_reboot s"
  "rreq_records (abort st s) = rreq_records s" "rreq_blacklist (abort st s) = rreq_blacklist s"
  by (simp_all add: abort_def)

lemma emit_frame [simp]:
  "rt_tbl (emit e s) = rt_tbl s" "clock (emit e s) = clock s" "conf (emit e s) = conf s"
  "sk (emit e s) = sk s" "out (emit e s) = out s @ [e]" "this_host (emit e s) = this_host s"
  "seekhead (emit e s) = seekhead s" "PQ (emit e s) = PQ s" "status (emit e s) = status s"
  "rreq_records (emit e s) = rreq_records s" "rreq_blacklist (emit e s) = rreq_blacklist s"
  "wait_on_reboot (emit e s) = wait_on_reboot s" "dev_indices (emit e s) = dev_indices s"
  "tq (emit e s) = tq s" "nl_seq (emit e s) = nl_seq s" "nfq_open (emit e s) = nfq_open s"
  "rt_heap_limit (emit e s) = rt_heap_limit s"
  by (simp_all add: emit_def)

section \<open>The AODV messages sent\<close>

fun send_of :: "event \<Rightarrow> (bytes \<times> addr \<times> u8 \<times> int) option" where
  "send_of (Ev_send bs dst ttl fd) = Some (bs, dst, ttl, fd)"
| "send_of _ = None"

definition sent :: "node \<Rightarrow> (bytes \<times> addr \<times> u8 \<times> int) list" where
  "sent s = List.map_filter send_of (out s)"

lemma sent_emit [simp]:
  "sent (emit (Ev_send bs dst ttl fd) s) = sent s @ [(bs, dst, ttl, fd)]"
  "sent (emit (Ev_netlink r) s) = sent s" "sent (emit (Ev_verdict i v) s) = sent s"
  by (simp_all add: sent_def map_filter_append map_filter_simps)

lemma sent_frame [simp]:
  "sent (tm_set t m s) = sent s" "sent (tm_remove t s) = sent s" "sent (tm_handler t f s) = sent s"
  "sent (tm_init t f d s) = sent s" "sent (upd_rt p g s) = sent s" "sent (abort st s) = sent s"
  by (simp_all add: sent_def)

lemma sent_cong: "out s' = out s \<Longrightarrow> sent s' = sent s"
  by (simp add: sent_def)

end
