(* ===== verification/Netlink.thy ===== *)
theory Netlink
  imports Invariant
begin

text \<open>
  Requests to the kernel's routing table, \<open>src/network/nl.c\<close>.  The attribute buffer of a request
  is the list of its attributes with the message length kept as the code computes it.  The
  results of \<open>sendmsg\<close> are ignored by every caller and are not modelled.
\<close>

definition RTM_NEWROUTE :: nat where "RTM_NEWROUTE = 24"
definition RTM_DELROUTE :: nat where "RTM_DELROUTE = 25"
definition NLM_F_REQUEST :: nat where "NLM_F_REQUEST = 1"
definition NLM_F_ACK :: nat where "NLM_F_ACK = 4"
definition NLM_F_REPLACE :: nat where "NLM_F_REPLACE = 0x100"
definition NLM_F_CREATE :: nat where "NLM_F_CREATE = 0x400"
definition RT_SCOPE_UNIVERSE :: nat where "RT_SCOPE_UNIVERSE = 0"
definition RT_SCOPE_LINK :: nat where "RT_SCOPE_LINK = 253"
definition RTA_DST :: nat where "RTA_DST = 1"
definition RTA_OIF :: nat where "RTA_OIF = 4"
definition RTA_GATEWAY :: nat where "RTA_GATEWAY = 5"
definition RTA_PRIORITY :: nat where "RTA_PRIORITY = 6"

text \<open>\<open>prefix_length\<close>: the number of left shifts until the (memory order) mask is zero.\<close>

function prefix_length :: "u32 \<Rightarrow> nat" where
  "prefix_length tmp = (if tmp = 0 then 0 else Suc (prefix_length (push_bit 1 tmp)))"
  by auto

lemma trailing_zeros_push:
  fixes w :: "'a::len word"
  assumes "w \<noteq> 0"
  shows "LENGTH('a) - (LEAST n. n = LENGTH('a) \<or> bit (push_bit 1 w) n)
       < LENGTH('a) - (LEAST n. n = LENGTH('a) \<or> bit w n)"
proof -
  let ?L = "LEAST n. n = LENGTH('a) \<or> bit w n"
  let ?M = "LEAST n. n = LENGTH('a) \<or> bit (push_bit 1 w) n"
  obtain k where k: "bit w k" using assms by (metis bit_eqI bit_0_eq bot_apply bot_bool_def)
  then have lk: "k < LENGTH('a)" by (rule bit_imp_le_length)
  have L: "?L \<le> k" by (rule Least_le) (simp add: k)
  have "?M = LENGTH('a) \<or> bit (push_bit 1 w) ?M" by (rule LeastI [of _ "LENGTH('a)"]) simp
  then have "?L < ?M"
  proof
    assume "bit (push_bit 1 w) ?M"
    then have "1 \<le> ?M" "bit w (?M - 1)" by (simp_all only: bit_push_bit_iff)
    moreover have "?L \<le> ?M - 1" by (rule Least_le) (rule disjI2 [OF \<open>bit w (?M - 1)\<close>])
    ultimately show ?thesis by linarith
  qed (use L lk in simp)
  with L lk show ?thesis by linarith
qed

termination prefix_length
  by (relation "measure (\<lambda>w. 32 - (LEAST n. n = 32 \<or> bit w n))")
    (use trailing_zeros_push [where 'a = 32] in auto)

declare prefix_length.simps [simp del]

definition NLMSG_ALIGN :: "nat \<Rightarrow> nat" where
  "NLMSG_ALIGN n = (n + 3) div 4 * 4"

text \<open>\<open>addattr\<close>, for the four-byte values all callers pass: \<open>RTA_LENGTH(4)\<close> is 8.\<close>

definition addattr :: "nat \<Rightarrow> u32 \<Rightarrow> nl_req \<Rightarrow> nl_req" where
  "addattr ty v n = n\<lparr>rta := rta n @ [(ty, v)], nlmsg_len := NLMSG_ALIGN (nlmsg_len n) + 8\<rparr>"

definition nl_send :: "nl_req \<Rightarrow> node \<Rightarrow> node" where
  "nl_send n s =
     (let sq = nl_seq s + 1;
          n1 = n\<lparr>nlmsg_seq := sq, nlmsg_flags := nlmsg_flags n OR NLM_F_ACK\<rparr>
      in emit (Ev_netlink n1) (s\<lparr>nl_seq := sq\<rparr>))"

definition nl_kern_route ::
  "nat \<Rightarrow> nat \<Rightarrow> int \<Rightarrow> addr \<Rightarrow> addr \<Rightarrow> u32 option \<Rightarrow> u32 \<Rightarrow> node \<Rightarrow> node" where
  "nl_kern_route action flags index dst gw nm metric s =
     (let r0 = \<lparr>nlmsg_len = 28, nlmsg_type = action, nlmsg_flags = NLM_F_REQUEST OR flags,
                nlmsg_seq = 0, rtm_family = 2,
                rtm_dst_len = (case nm of None \<Rightarrow> 32 | Some m \<Rightarrow> prefix_length m),
                rtm_table = 254, rtm_protocol = 100, rtm_scope = RT_SCOPE_LINK, rtm_type = 1,
                rta = []\<rparr>;
          r1 = addattr RTA_DST dst r0;
          r2 = (if dst \<noteq> gw
                then addattr RTA_GATEWAY gw (r1\<lparr>rtm_scope := RT_SCOPE_UNIVERSE\<rparr>) else r1);
          r3 = (if index > 0 then addattr RTA_OIF (word_of_int index) r2 else r2);
          r4 = addattr RTA_PRIORITY metric r3
      in nl_send r4 s)"

text \<open>The \<open>unsigned int\<close> interface index is passed as \<open>int\<close>.\<close>

definition nl_send_add_route_msg :: "addr \<Rightarrow> addr \<Rightarrow> u8 \<Rightarrow> u32 \<Rightarrow> node \<Rightarrow> node" where
  "nl_send_add_route_msg dest next_hop metric ifindex =
     nl_kern_route RTM_NEWROUTE (NLM_F_CREATE OR NLM_F_REPLACE) (sint ifindex) dest next_hop None
       (ucast metric)"

definition nl_send_del_route_msg :: "addr \<Rightarrow> addr \<Rightarrow> u8 \<Rightarrow> node \<Rightarrow> node" where
  "nl_send_del_route_msg dest next_hop metric =
     nl_kern_route RTM_DELROUTE 0 (- 1) dest next_hop None (ucast metric)"

section \<open>Properties\<close>

lemma nl_send_ok: "wf_node s \<Longrightarrow> ok s (nl_send n s)"
  by (simp add: nl_send_def Let_def ok_def wf_node_def statics_def emit_def)

lemma nl_kern_route_ok: "wf_node s \<Longrightarrow> ok s (nl_kern_route a f i d g nm m s)"
  by (simp add: nl_kern_route_def Let_def nl_send_ok)

lemma nl_add_ok: "wf_node s \<Longrightarrow> ok s (nl_send_add_route_msg d n m i s)"
  by (simp add: nl_send_add_route_msg_def nl_kern_route_ok)

lemma nl_del_ok: "wf_node s \<Longrightarrow> ok s (nl_send_del_route_msg d n m s)"
  by (simp add: nl_send_del_route_msg_def nl_kern_route_ok)

lemma nl_send_frame [simp]:
  "rt_tbl (nl_send n s) = rt_tbl s" "tq (nl_send n s) = tq s" "clock (nl_send n s) = clock s"
  "conf (nl_send n s) = conf s" "sk (nl_send n s) = sk s" "this_host (nl_send n s) = this_host s"
  "seekhead (nl_send n s) = seekhead s" "PQ (nl_send n s) = PQ s" "status (nl_send n s) = status s"
  "rreq_records (nl_send n s) = rreq_records s" "rreq_blacklist (nl_send n s) = rreq_blacklist s"
  "wait_on_reboot (nl_send n s) = wait_on_reboot s" "dev_indices (nl_send n s) = dev_indices s"
  "rt_heap_limit (nl_send n s) = rt_heap_limit s"
  by (simp_all add: nl_send_def Let_def)

lemma nl_msg_frame [simp]:
  "rt_tbl (nl_send_add_route_msg d n m i s) = rt_tbl s" "tq (nl_send_add_route_msg d n m i s) = tq s"
  "clock (nl_send_add_route_msg d n m i s) = clock s" "conf (nl_send_add_route_msg d n m i s) = conf s"
  "sk (nl_send_add_route_msg d n m i s) = sk s" "this_host (nl_send_add_route_msg d n m i s) = this_host s"
  "seekhead (nl_send_add_route_msg d n m i s) = seekhead s" "PQ (nl_send_add_route_msg d n m i s) = PQ s"
  "status (nl_send_add_route_msg d n m i s) = status s"
  "dev_indices (nl_send_add_route_msg d n m i s) = dev_indices s"
  "rt_tbl (nl_send_del_route_msg d n m s) = rt_tbl s" "tq (nl_send_del_route_msg d n m s) = tq s"
  "clock (nl_send_del_route_msg d n m s) = clock s" "conf (nl_send_del_route_msg d n m s) = conf s"
  "sk (nl_send_del_route_msg d n m s) = sk s" "this_host (nl_send_del_route_msg d n m s) = this_host s"
  "seekhead (nl_send_del_route_msg d n m s) = seekhead s" "PQ (nl_send_del_route_msg d n m s) = PQ s"
  "status (nl_send_del_route_msg d n m s) = status s"
  "dev_indices (nl_send_del_route_msg d n m s) = dev_indices s"
  by (simp_all add: nl_send_add_route_msg_def nl_send_del_route_msg_def nl_kern_route_def Let_def)

lemma nl_sent [simp]:
  "sent (nl_send_add_route_msg d n m i s) = sent s" "sent (nl_send_del_route_msg d n m s) = sent s"
  by (simp_all add: nl_send_add_route_msg_def nl_send_del_route_msg_def nl_kern_route_def nl_send_def
      Let_def) (simp_all add: sent_def)

end
