(* ===== verification/Socket.thy ===== *)
theory Socket
  imports Netlink
begin

text \<open>
  The sending side of \<open>src/network/aodv_socket.c\<close>.  There is one send buffer; \<open>aodv_socket_send\<close>
  transmits its first \<open>len\<close> bytes whatever message pointer it is given, and every caller passes
  a pointer to that buffer, so the message type it looks at is the first byte of the buffer.

  The rate limiter keeps the times of the last transmissions.  Shown here: whatever the
  sequence of attempts, ten transmissions of one kind never fit into one second.
\<close>

section \<open>Operations\<close>

definition upd_send_buf :: "(bytes \<Rightarrow> bytes) \<Rightarrow> node \<Rightarrow> node" where
  "upd_send_buf f s = s\<lparr>sk := (sk s)\<lparr>send_buf := f (send_buf (sk s))\<rparr>\<rparr>"

definition aodv_socket_new_msg :: "node \<Rightarrow> node" where
  "aodv_socket_new_msg s = upd_send_buf (\<lambda>_. replicate AODV_MSG_MAX_SIZE 0) s"

text \<open>\<open>memcpy\<close> of \<open>len\<close> bytes of a received message to the start of the send buffer.\<close>

definition aodv_socket_queue_msg :: "bytes \<Rightarrow> nat \<Rightarrow> node \<Rightarrow> node" where
  "aodv_socket_queue_msg msg len s = upd_send_buf (\<lambda>b. take len msg @ drop len b) s"

text \<open>
  The rate limiter for one kind of message: the array, how much of it is in use, and the
  arrival of one more message at time \<open>now\<close>.  \<open>None\<close> means the message is dropped.
\<close>

definition ratel_check :: "timeval \<Rightarrow> timeval list \<Rightarrow> nat \<Rightarrow> (timeval list \<times> nat) option" where
  "ratel_check now xs n =
     (if n = RREQ_RATELIMIT - 1 then
        if timeval_diff now (xs ! 0) < 1000 then None
        else Some ((take (n - 1) (drop 1 xs) @ drop (n - 1) xs)[n - 1 := now], n)
      else Some (xs[n := now], n + 1))"

definition ratel_socket :: "timeval \<Rightarrow> u8 \<Rightarrow> socket \<Rightarrow> socket option" where
  "ratel_socket now ty k =
     (if ty = AODV_RREQ then
        map_option (\<lambda>(xs, n). k\<lparr>rreq_ratel := xs, num_rreq := n\<rparr>)
          (ratel_check now (rreq_ratel k) (num_rreq k))
      else if ty = AODV_RERR then
        map_option (\<lambda>(xs, n). k\<lparr>rerr_ratel := xs, num_rerr := n\<rparr>)
          (ratel_check now (rerr_ratel k) (num_rerr k))
      else Some k)"

definition aodv_socket_send :: "addr \<Rightarrow> nat \<Rightarrow> u8 \<Rightarrow> dev_info \<Rightarrow> node \<Rightarrow> node" where
  "aodv_socket_send dst len ttl dev s =
     (let ty = send_buf (sk s) ! 0 in
      if wait_on_reboot s \<and> ty = AODV_RREP then s
      else if \<not> ttl_ok s (dev_sock dev) ttl then s
      else
        case (if ratelimit (conf s) then ratel_socket (clock s) ty (sk s) else Some (sk s)) of
          None \<Rightarrow> s
        | Some k \<Rightarrow>
            let s1 = s\<lparr>sk := k\<rparr>;
                s2 = (if dst = AODV_BROADCAST
                      then s1\<lparr>this_host := (this_host s1)\<lparr>bcast_time := clock s1\<rparr>\<rparr> else s1)
            in emit (Ev_send (take len (send_buf k)) dst ttl (dev_sock dev)) s2)"

section \<open>Invariant\<close>

lemma upd_send_buf_ok:
  "wf_node s \<Longrightarrow> length (f (send_buf (sk s))) = AODV_MSG_MAX_SIZE \<Longrightarrow> ok s (upd_send_buf f s)"
  unfolding upd_send_buf_def using invD(9) [of s] by (auto intro!: upd_sk_ok simp: sock_wf_def)

lemma upd_send_buf_frame [simp]:
  "rt_tbl (upd_send_buf f s) = rt_tbl s" "tq (upd_send_buf f s) = tq s"
  "clock (upd_send_buf f s) = clock s" "conf (upd_send_buf f s) = conf s"
  "out (upd_send_buf f s) = out s" "this_host (upd_send_buf f s) = this_host s"
  "seekhead (upd_send_buf f s) = seekhead s" "PQ (upd_send_buf f s) = PQ s"
  "status (upd_send_buf f s) = status s" "dev_indices (upd_send_buf f s) = dev_indices s"
  "wait_on_reboot (upd_send_buf f s) = wait_on_reboot s"
  "rreq_records (upd_send_buf f s) = rreq_records s"
  "rreq_blacklist (upd_send_buf f s) = rreq_blacklist s"
  "send_buf (sk (upd_send_buf f s)) = f (send_buf (sk s))"
  "recv_buf (sk (upd_send_buf f s)) = recv_buf (sk s)"
  by (simp_all add: upd_send_buf_def)

lemma new_msg_ok: "wf_node s \<Longrightarrow> ok s (aodv_socket_new_msg s)"
  by (simp add: aodv_socket_new_msg_def upd_send_buf_ok)

lemma queue_msg_ok:
  "wf_node s \<Longrightarrow> len \<le> length msg \<Longrightarrow> length msg = AODV_MSG_MAX_SIZE \<Longrightarrow>
     ok s (aodv_socket_queue_msg msg len s)"
  using invD(9) [of s] by (simp add: aodv_socket_queue_msg_def upd_send_buf_ok sock_wf_def)

lemma ratel_check_wf:
  assumes "ratel_check now xs n = Some (xs', n')" "length xs = 9" "n \<le> 9"
  shows "length xs' = 9" "n' \<le> 9"
  using assms by (auto simp: ratel_check_def split: if_splits)

lemma ratel_socket_wf:
  assumes "ratel_socket now ty k = Some k'" "sock_wf k"
  shows "sock_wf k'" "send_buf k' = send_buf k" "recv_buf k' = recv_buf k"
  using assms ratel_check_wf
  by (auto simp: ratel_socket_def sock_wf_def split: if_splits)

lemma aodv_socket_send_ok:
  assumes "wf_node s"
  shows "ok s (aodv_socket_send dst len ttl dev s)"
proof -
  have send: "ok s (emit e (s\<lparr>sk := k, this_host := (this_host s)\<lparr>bcast_time := t\<rparr>\<rparr>))"
    "ok s (emit e (s\<lparr>sk := k\<rparr>))" if "sock_wf k" for k e t
    using assms that by (simp_all add: ok_def wf_node_def emit_def statics_def host_wf_def)
  define r where
    "r = (if ratelimit (conf s) then ratel_socket (clock s) (send_buf (sk s) ! 0) (sk s) else Some (sk s))"
  have "sock_wf k" if "r = Some k" for k
    using that ratel_socket_wf(1) invD(9) [OF assms] by (auto simp: r_def split: if_splits)
  then show ?thesis
    using send ok_refl [OF assms]
    by (simp add: aodv_socket_send_def Let_def flip: r_def split: option.split)
qed

lemma aodv_socket_send_frame [simp]:
  "rt_tbl (aodv_socket_send d l t v s) = rt_tbl s" "tq (aodv_socket_send d l t v s) = tq s"
  "clock (aodv_socket_send d l t v s) = clock s" "conf (aodv_socket_send d l t v s) = conf s"
  "seekhead (aodv_socket_send d l t v s) = seekhead s" "PQ (aodv_socket_send d l t v s) = PQ s"
  "status (aodv_socket_send d l t v s) = status s"
  "dev_indices (aodv_socket_send d l t v s) = dev_indices s"
  "wait_on_reboot (aodv_socket_send d l t v s) = wait_on_reboot s"
  "devs (this_host (aodv_socket_send d l t v s)) = devs (this_host s)"
  "seqno (this_host (aodv_socket_send d l t v s)) = seqno (this_host s)"
  "rreq_records (aodv_socket_send d l t v s) = rreq_records s"
  "rreq_blacklist (aodv_socket_send d l t v s) = rreq_blacklist s"
  by (simp_all add: aodv_socket_send_def Let_def split: option.split)

lemma for_enabled_devs_ok:
  assumes "wf_node s" and "\<And>d s. wf_node s \<Longrightarrow> ok s (f d s)"
  shows "ok s (for_enabled_devs f s)"
proof -
  have "ok s (fold (\<lambda>i s. if enabled (DEV_NR s i) then f (DEV_NR s i) s else s) is s)"
    if "wf_node s" for "is" and s
    using that
  proof (induction "is" arbitrary: s)
    case Nil
    then show ?case by (simp add: ok_refl)
  next
    case (Cons i "is")
    let ?s = "if enabled (DEV_NR s i) then f (DEV_NR s i) s else s"
    have "ok s ?s" using Cons.prems assms(2) ok_refl by simp
    from ok_trans [OF this Cons.IH [OF ok_inv [OF this]]] show ?case by simp
  qed
  then show ?thesis using assms(1) by (simp add: for_enabled_devs_def)
qed

section \<open>The rate limit\<close>

text \<open>A sequence of attempts, and the times of those that are let through.\<close>

fun ratel_run :: "timeval list \<Rightarrow> timeval list \<Rightarrow> nat \<Rightarrow> timeval list" where
  "ratel_run [] xs n = []"
| "ratel_run (t # ts) xs n =
     (case ratel_check t xs n of
        None \<Rightarrow> ratel_run ts xs n
      | Some (xs', n') \<Rightarrow> t # ratel_run ts xs' n')"

text \<open>What the array holds: the last transmissions, oldest first.\<close>

definition ratel_holds :: "timeval list \<Rightarrow> nat \<Rightarrow> timeval list \<Rightarrow> bool" where
  "ratel_holds xs n gone \<longleftrightarrow>
     length xs = 9 \<and> n = min 9 (length gone) \<and> take n xs = drop (length gone - n) gone"

lemma ratel_holds_step:
  assumes h: "ratel_holds xs n gone" and c: "ratel_check t xs n = Some (xs', n')"
  shows "ratel_holds xs' n' (gone @ [t])"
    and "9 \<le> length gone \<Longrightarrow> 1000 \<le> timeval_diff t (gone ! (length gone - 9))"
proof -
  have len: "length xs = 9" and n: "n = min 9 (length gone)"
    and take: "take n xs = drop (length gone - n) gone"
    using h by (auto simp: ratel_holds_def)
  show "ratel_holds xs' n' (gone @ [t])"
  proof (cases "length gone < 9")
    case True
    then have *: "xs' = xs[n := t]" "n' = Suc n" "n = length gone"
      using c n by (simp_all add: ratel_check_def)
    then have "take (Suc n) (xs[n := t]) = take n xs @ [t]"
      using len True by (simp add: take_Suc_conv_app_nth)
    with * take True len show ?thesis by (simp add: ratel_holds_def)
  next
    case False
    then have n9: "n = 9" using n by simp
    then have xs: "xs = drop (length gone - 9) gone" using take len by simp
    have *: "xs' = (take 8 (drop 1 xs) @ drop 8 xs)[8 := t]" "n' = 9"
      using c n9 by (auto simp: ratel_check_def split: if_splits)
    have "drop 8 xs = [xs ! 8]"
      using len by (metis Cons_nth_drop_Suc One_nat_def Suc_1 add_2_eq_Suc' drop_all eval_nat_numeral(3)
          le_refl lessI numeral_nat(3) semiring_norm(2,8))
    then have "xs' = drop 1 xs @ [t]"
      using * len by (simp add: list_update_append)
    moreover have "drop 1 xs = drop (length gone - 8) gone"
      using False unfolding xs drop_drop by (intro arg_cong2 [where f = drop]) auto
    ultimately show ?thesis
      using False len * by (simp add: ratel_holds_def)
  qed
  assume "9 \<le> length gone"
  then have n9: "n = 9" using n by simp
  then have "xs ! 0 = gone ! (length gone - 9)"
    using take len \<open>9 \<le> length gone\<close> by (metis add_cancel_left_right diff_le_self nth_drop take_all
        le_refl)
  with c n9 show "1000 \<le> timeval_diff t (gone ! (length gone - 9))"
    by (auto simp: ratel_check_def split: if_splits)
qed

lemma ratel_run_spaced:
  assumes "ratel_holds xs n gone"
    and "\<forall>i. i + 9 < length gone \<longrightarrow> 1000 \<le> timeval_diff (gone ! (i + 9)) (gone ! i)"
    and "i + 9 < length (gone @ ratel_run ts xs n)"
  shows "1000 \<le> timeval_diff ((gone @ ratel_run ts xs n) ! (i + 9)) ((gone @ ratel_run ts xs n) ! i)"
  using assms
proof (induction ts arbitrary: xs n gone)
  case Nil
  then show ?case by simp
next
  case (Cons t ts)
  show ?case
  proof (cases "ratel_check t xs n")
    case None
    then show ?thesis using Cons by simp
  next
    case (Some a)
    obtain xs' n' where a: "a = (xs', n')" by force
    note step = ratel_holds_step [OF Cons.prems(1) Some [unfolded a]]
    have "1000 \<le> timeval_diff ((gone @ [t]) ! (i + 9)) ((gone @ [t]) ! i)"
      if "i + 9 < length (gone @ [t])" for i
    proof (cases "i + 9 = length gone")
      case True
      then have "i = length gone - 9" "9 \<le> length gone" by linarith+
      then show ?thesis using step(2) True by (simp add: nth_append)
    next
      case False
      then show ?thesis using Cons.prems(2) that by (simp add: nth_append)
    qed
    then show ?thesis
      using Cons.IH [OF step(1)] Cons.prems(3) by (simp add: Some a)
  qed
qed

text \<open>
  C17. Rate limiting of RREQ and RERR messages: for every sequence of attempts, in any order of
  times, two transmissions with eight others between them are at least 1000 ms apart.  So at
  most nine messages of a kind leave the node within any second.
\<close>

theorem ratel_at_most_nine_per_second:
  assumes "length xs = 9" and "i + 9 < length (ratel_run ts xs 0)"
  shows "1000 \<le> timeval_diff (ratel_run ts xs 0 ! (i + 9)) (ratel_run ts xs 0 ! i)"
  using ratel_run_spaced [of xs 0 "[]" i ts] assms by (simp add: ratel_holds_def)

definition burst :: "timeval list" where
  "burst = map (\<lambda>k. \<lparr>tv_sec = 5, tv_usec = k * 1000\<rparr>) [1, 2, 3, 4, 5, 6, 7, 8, 9, 10, 11]
             @ [\<lparr>tv_sec = 6, tv_usec = 1500\<rparr>]"

theorem ratel_at_most_nine_per_second_witness:
  "length (ratel_run burst (replicate 9 tv_zero) 0) = 10 \<and>
   1000 \<le> timeval_diff (ratel_run burst (replicate 9 tv_zero) 0 ! 9)
              (ratel_run burst (replicate 9 tv_zero) 0 ! 0)"
proof -
  have len: "length (ratel_run burst (replicate 9 tv_zero) 0) = 10" by code_simp
  then show ?thesis
    using ratel_at_most_nine_per_second [of "replicate 9 tv_zero" 0 burst] by simp
qed

end
