(* ===== verification/Demo.thy ===== *)
theory Demo
  imports Invariant
begin

text \<open>
  Two concrete nodes used as examples: the host 10.0.0.1 with one interface and no routes, and
  the same host with a neighbour 10.0.0.2 and a route to 10.0.0.3 through it that 10.0.0.4 uses.
  Both are well formed.  Addresses are in network byte order: 10.0.0.1 is 0x0100000A.
\<close>

definition demo_dev :: dev_info where
  "demo_dev = \<lparr>enabled = True, dev_sock = 5, dev_ifindex = 3, ifname = ''wlan0'', ipaddr = 0x0100000A,
     netmask = 0x00FFFFFF, broadcast = 0xFF00000A\<rparr>"

definition no_dev :: dev_info where
  "no_dev = \<lparr>enabled = False, dev_sock = 0, dev_ifindex = 0, ifname = '''', ipaddr = 0, netmask = 0,
     broadcast = 0\<rparr>"

definition demo_host :: host_info where
  "demo_host = \<lparr>seqno = 7, bcast_time = tv_zero, fwd_time = tv_zero, host_rreq_id = 0, nif = 1,
     devs = demo_dev # replicate 10 no_dev\<rparr>"

definition demo_conf :: config where
  "demo_conf = \<lparr>unidir_hack = False, rreq_gratuitous = False, expanding_ring_search = True,
     local_repair = False, receive_n_hellos = 0, hello_jittering = False, optimized_hellos = False,
     ratelimit = True, llfeedback = False, active_route_timeout = 3000, ttl_start = 2,
     delete_period = 15000, rt_log_interval = 0\<rparr>"

fun demo_timer :: "timer_id \<Rightarrow> thandler \<times> targ" where
  "demo_timer (Rt_timer p) = (Route_expire_timeout, A_rt p)"
| "demo_timer (Ack_timer p) = (Rrep_ack_timeout, A_rt p)"
| "demo_timer (Hello_timer p) = (Hello_timeout, A_rt p)"
| "demo_timer (Seek_timer p) = (Route_discovery_timeout, A_seek p)"
| "demo_timer (Rec_timer p) = (Rreq_record_timeout, A_rec p)"
| "demo_timer (Bl_timer p) = (Rreq_blacklist_timeout, A_bl p)"
| "demo_timer Hello_send_timer = (Hello_send, A_NULL)"
| "demo_timer Worb_timer = (Wait_on_reboot_timeout, A_worb)"
| "demo_timer Gc_timer = (Packet_queue_timeout, A_PQ)"
| "demo_timer Rt_log_timer = (Print_rt_table, A_NULL)"

definition demo_tq :: "timer_id list \<Rightarrow> (timer_id, thandler, targ) tqueue" where
  "demo_tq ts = \<lparr>TQ = ts, expTQ = [],
     timers = (\<lambda>t. \<lparr>used = t \<in> set ts, timeout = \<lparr>tv_sec = 101, tv_usec = 0\<rparr>,
                    handler = Some (fst (demo_timer t)), tdata = snd (demo_timer t)\<rparr>)\<rparr>"

definition no_route :: rt_table where
  "no_route = \<lparr>rt_dest_addr = 0, rt_dest_seqno = 0, rt_ifindex = 3, rt_next_hop = 0, rt_hcnt = 0,
     rt_flags = 0, rt_state = INVALID, rt_last_hello_time = tv_zero, rt_hello_cnt = 0, rt_hash = 0,
     rt_nprec = 0, rt_precursors = []\<rparr>"

definition neighbour_route :: rt_table where
  "neighbour_route = no_route\<lparr>rt_dest_addr := 0x0200000A, rt_dest_seqno := 4, rt_next_hop := 0x0200000A,
     rt_hcnt := 1, rt_state := VALID, rt_hash := 0x0200000A\<rparr>"

definition far_route :: rt_table where
  "far_route = no_route\<lparr>rt_dest_addr := 0x0300000A, rt_dest_seqno := 9, rt_next_hop := 0x0200000A,
     rt_hcnt := 2, rt_state := VALID, rt_hash := 0x0300000A, rt_nprec := 1,
     rt_precursors := [0x0400000A]\<rparr>"

definition demo_socket :: socket where
  "demo_socket = \<lparr>recv_buf = replicate 812 0, send_buf = replicate 812 0,
     rreq_ratel = replicate 9 tv_zero, rerr_ratel = replicate 9 tv_zero, num_rreq = 0, num_rerr = 0\<rparr>"

definition empty_pool :: "'a \<Rightarrow> 'a pool" where
  "empty_pool d = \<lparr>pheap = (\<lambda>_. d), pnext = 0, plist = []\<rparr>"

definition demo_node :: node where
  "demo_node = \<lparr>clock = \<lparr>tv_sec = 100, tv_usec = 0\<rparr>, this_host = demo_host,
     dev_indices = 3 # replicate 9 0, conf = demo_conf, wait_on_reboot = False,
     tq = demo_tq [Gc_timer],
     rt_tbl = \<lparr>num_entries = 0, num_active = 0, tbl = replicate 64 [], rt_heap = (\<lambda>_. no_route), rt_next = 0\<rparr>,
     rt_heap_limit = 1000000,
     seekhead = empty_pool \<lparr>seek_dest_addr = 0, seek_dest_seqno = 0, seek_flags = 0, seek_reqs = 0,
       seek_ttl = 0, seek_ipd = None\<rparr>,
     rreq_records = empty_pool \<lparr>rec_orig_addr = 0, rec_rreq_id = 0\<rparr>,
     rreq_blacklist = empty_pool \<lparr>bl_dest_addr = 0\<rparr>,
     PQ = \<lparr>pq_head = [], pq_len = 0\<rparr>, sk = demo_socket, nl_seq = 0, nfq_open = True,
     ttl_ok = (\<lambda>_ _. True), random = (\<lambda>_. 0), random_pos = 0, out = [], status = Running\<rparr>"

definition demo_table :: routing_table where
  "demo_table = \<lparr>num_entries = 2, num_active = 2, tbl = (replicate 64 [])[10 := [1, 0]],
     rt_heap = (\<lambda>p. if p = 0 then neighbour_route else far_route), rt_next = 2\<rparr>"

definition demo_routes :: node where
  "demo_routes = demo_node\<lparr>tq := demo_tq [Rt_timer 0, Rt_timer 1, Gc_timer], rt_tbl := demo_table\<rparr>"

lemma demo_tq_wf:
  assumes "distinct ts"
  shows "tq_wf (demo_tq ts)"
proof -
  have "sorted_wrt (ms_before f) ts" if "\<And>t. timeout (f t) = v"
    for f :: "timer_id \<Rightarrow> (thandler, targ) timer" and v and ts
    by (induction ts) (simp_all add: ms_before_def that)
  with assms show ?thesis
    by (simp add: tq_wf_def demo_tq_def attached_def ms_sorted_def)
qed

lemma demo_timer_typed:
  "timer_typed t \<lparr>used = u, timeout = v, handler = Some (fst (demo_timer t)), tdata = snd (demo_timer t)\<rparr>"
  by (cases t) simp_all

lemma demo_timers_wf:
  assumes "distinct ts" "\<And>t. t \<in> set ts \<Longrightarrow> owned R S C B t \<or> static_timer t"
  shows "timers_wf (demo_tq ts) R S C B"
  using assms demo_timer_typed demo_tq_wf [OF assms(1)]
  by (simp add: timers_wf_def) (simp add: demo_tq_def attached_def)

lemma demo_node_wf: "wf_node demo_node"
proof -
  have "timers_wf (demo_tq [Gc_timer]) {} {} {} {}"
    by (rule demo_timers_wf) (simp_all add: static_timer_def)
  then show ?thesis
    by (simp add: wf_node_def demo_node_def table_wf_def entries_def static_ready_def pool_wf_def
        empty_pool_def pq_wf_def sock_wf_def demo_socket_def host_wf_def demo_host_def)
      (simp add: demo_tq_def)
qed

lemma entries_demo_table: "entries demo_table = [1, 0]"
  by (simp add: entries_def demo_table_def numeral_eq_Suc)

lemma demo_table_wf: "table_wf demo_table 1000000"
proof -
  have "bucket 0x0200000A = 10" "bucket 0x0300000A = 10" by (simp_all add: bucket_def)
  then show ?thesis
    unfolding table_wf_def entries_demo_table
    by (simp add: demo_table_def nth_list_update entry_wf_def neighbour_route_def far_route_def
        no_route_def)
qed

lemma demo_routes_wf: "wf_node demo_routes"
proof -
  have "timers_wf (demo_tq [Rt_timer 0, Rt_timer 1, Gc_timer]) {1, 0} {} {} {}"
    by (rule demo_timers_wf) (auto simp: static_timer_def)
  then show ?thesis
    using demo_node_wf demo_table_wf
    by (simp add: wf_node_def demo_routes_def demo_node_def entries_demo_table empty_pool_def
        static_ready_def)
      (simp add: demo_tq_def)
qed

end
