(* ===== verification/Routing_Table.thy ===== *)
theory Routing_Table
  imports Socket Demo
begin

text \<open>
  The routing table, \<open>src/routing/routing_table.c\<close>: a hash table of 64 buckets, each a list of
  entries, with lookup, timeouts, invalidation, deletion and the precursor lists.  Insertion
  and update also touch the seek list, the packet queue and the neighbour code and follow in
  \<open>Route_Update\<close>.

  The contract of a lookup structure is the locale \<open>keyed_store\<close>; the routing table is its first
  instance.  Shown here: lookup is sound and complete, invalidation and deletion do exactly
  what they should to the entry and nothing to the others.
\<close>

section \<open>Lookup\<close>

definition hashing :: "addr \<Rightarrow> u32 \<times> nat" where
  "hashing a = (let hash = a in (hash, unat (hash AND 63)))"

definition rt_table_find :: "addr \<Rightarrow> node \<Rightarrow> ptr option" where
  "rt_table_find dest_addr s =
     (if num_entries (rt_tbl s) = 0 then None
      else
        let (hash, index) = hashing dest_addr
        in List.find (\<lambda>p. rt_hash (rt s p) = hash \<and> rt_dest_addr (rt s p) = dest_addr)
             (tbl (rt_tbl s) ! index))"

text \<open>The first entry with the smallest hop count among the valid gateways, in table order.\<close>

definition rt_table_find_gateway :: "node \<Rightarrow> ptr option" where
  "rt_table_find_gateway s =
     fold (\<lambda>p gw.
       if flag (rt_flags (rt s p)) RT_GATEWAY \<and> rt_state (rt s p) = VALID then
         (case gw of
            None \<Rightarrow> Some p
          | Some g \<Rightarrow> if rt_hcnt (rt s p) < rt_hcnt (rt s g) then Some p else gw)
       else gw) (entries (rt_tbl s)) None"

definition rt_table_init :: "node \<Rightarrow> node" where
  "rt_table_init s =
     s\<lparr>rt_tbl := (rt_tbl s)\<lparr>num_entries := 0, num_active := 0, tbl := replicate RT_TABLESIZE []\<rparr>\<rparr>"

section \<open>Timeouts\<close>

definition rt_table_update_timeout :: "ptr \<Rightarrow> u32 \<Rightarrow> node \<Rightarrow> node" where
  "rt_table_update_timeout p lifetime s =
     (if rt_state (rt s p) = VALID then
        let new_timeout = timeval_add_msec (clock s) (uint lifetime)
        in if timeval_diff (tm_timeout (Rt_timer p) s) new_timeout < 0
           then tm_set (Rt_timer p) (uint lifetime) s else s
      else tm_set (Rt_timer p) (uint lifetime) s)"

definition ACTIVE_ROUTE_TIMEOUT :: "node \<Rightarrow> u32" where
  "ACTIVE_ROUTE_TIMEOUT s = word_of_int (active_route_timeout (conf s))"

definition update_fwd_timeouts :: "ptr \<Rightarrow> node \<Rightarrow> node" where
  "update_fwd_timeouts f s =
     (let e = rt s f;
          s1 = (if llfeedback (conf s) \<or> flag (rt_flags e) RT_INET_DEST \<or> rt_hcnt e \<noteq> 1 \<or>
                   tm_used (Hello_timer f) s
                then rt_table_update_timeout f (ACTIVE_ROUTE_TIMEOUT s) s else s)
      in case rt_table_find (rt_next_hop (rt s1 f)) s1 of
           None \<Rightarrow> s1
         | Some n \<Rightarrow>
             if rt_state (rt s1 n) = VALID \<and> rt_dest_addr (rt s1 n) \<noteq> rt_dest_addr (rt s1 f) \<and>
                (llfeedback (conf s1) \<or> tm_used (Hello_timer f) s1)
             then rt_table_update_timeout n (ACTIVE_ROUTE_TIMEOUT s1) s1 else s1)"

definition update_rev_timeouts :: "ptr \<Rightarrow> node \<Rightarrow> node" where
  "update_rev_timeouts r s =
     (let e = rt s r;
          s1 = (if llfeedback (conf s) \<or> rt_hcnt e \<noteq> 1 \<or> tm_used (Hello_timer r) s
                then rt_table_update_timeout r (ACTIVE_ROUTE_TIMEOUT s) s else s)
      in case rt_table_find (rt_next_hop (rt s1 r)) s1 of
           None \<Rightarrow> s1
         | Some n \<Rightarrow>
             if rt_state (rt s1 n) = VALID \<and> rt_dest_addr (rt s1 n) \<noteq> rt_dest_addr (rt s1 r) \<and>
                (llfeedback (conf s1) \<or> tm_used (Hello_timer r) s1)
             then rt_table_update_timeout n (ACTIVE_ROUTE_TIMEOUT s1) s1 else s1)"

definition rt_table_update_route_timeouts :: "ptr option \<Rightarrow> ptr option \<Rightarrow> node \<Rightarrow> node" where
  "rt_table_update_route_timeouts fwd_rt rev_rt s =
     (let s1 = (case fwd_rt of
                  None \<Rightarrow> s
                | Some f \<Rightarrow> if rt_state (rt s f) = VALID then update_fwd_timeouts f s else s)
      in case rev_rt of
           None \<Rightarrow> s1
         | Some r \<Rightarrow> if rt_state (rt s1 r) = VALID then update_rev_timeouts r s1 else s1)"

section \<open>Precursors\<close>

definition precursor_add :: "ptr \<Rightarrow> addr \<Rightarrow> node \<Rightarrow> node" where
  "precursor_add p a s =
     (if a \<in> set (rt_precursors (rt s p)) then s
      else upd_rt p (\<lambda>e. e\<lparr>rt_precursors := a # rt_precursors e, rt_nprec := rt_nprec e + 1\<rparr>) s)"

definition precursor_remove :: "ptr \<Rightarrow> addr \<Rightarrow> node \<Rightarrow> node" where
  "precursor_remove p a s =
     (if a \<in> set (rt_precursors (rt s p)) then
        upd_rt p (\<lambda>e. e\<lparr>rt_precursors := remove1 a (rt_precursors e), rt_nprec := rt_nprec e - 1\<rparr>) s
      else s)"

definition precursor_list_destroy :: "ptr \<Rightarrow> node \<Rightarrow> node" where
  "precursor_list_destroy p s =
     upd_rt p (\<lambda>e. fold (\<lambda>a e. e\<lparr>rt_precursors := remove1 a (rt_precursors e), rt_nprec := rt_nprec e - 1\<rparr>)
                 (rt_precursors e) e) s"

section \<open>Invalidation and deletion\<close>

definition DELETE_PERIOD :: "node \<Rightarrow> int" where
  "DELETE_PERIOD s = delete_period (conf s)"

definition upd_active :: "(u32 \<Rightarrow> u32) \<Rightarrow> node \<Rightarrow> node" where
  "upd_active f s = s\<lparr>rt_tbl := (rt_tbl s)\<lparr>num_active := f (num_active (rt_tbl s))\<rparr>\<rparr>"

definition rt_table_invalidate :: "ptr \<Rightarrow> node \<Rightarrow> node" where
  "rt_table_invalidate p s =
     (if rt_state (rt s p) = INVALID then s
      else
        let s1 = tm_remove (Ack_timer p) (tm_remove (Hello_timer p) (tm_remove (Rt_timer p) s));
            s2 = upd_active (\<lambda>n. n - 1) (upd_rt p (\<lambda>e. e\<lparr>rt_state := INVALID\<rparr>) s1);
            s3 = upd_rt p (\<lambda>e. e\<lparr>rt_hello_cnt := 0, rt_dest_seqno := seqno_incr (rt_dest_seqno e),
                                 rt_last_hello_time := tv_zero\<rparr>) s2;
            e = rt s3 p;
            s4 = nl_send_del_route_msg (rt_dest_addr e) (rt_next_hop e) (rt_hcnt e) s3
        in if flag (rt_flags e) RT_REPAIR
           then tm_set (Rt_timer p) (active_route_timeout (conf s4))
                  (tm_handler (Rt_timer p) Local_repair_timeout s4)
           else tm_set (Rt_timer p) (DELETE_PERIOD s4)
                  (tm_handler (Rt_timer p) Route_delete_timeout s4))"

definition rt_table_delete :: "ptr \<Rightarrow> node \<Rightarrow> node" where
  "rt_table_delete p s =
     (let s1 = s\<lparr>rt_tbl := (rt_tbl s)\<lparr>tbl := map (remove1 p) (tbl (rt_tbl s))\<rparr>\<rparr>;
          s2 = precursor_list_destroy p s1;
          e = rt s2 p;
          s3 = (if rt_state e = VALID
                then upd_active (\<lambda>n. n - 1)
                       (nl_send_del_route_msg (rt_dest_addr e) (rt_next_hop e) (rt_hcnt e) s2)
                else s2);
          s4 = tm_remove (Ack_timer p) (tm_remove (Hello_timer p) (tm_remove (Rt_timer p) s3))
      in s4\<lparr>rt_tbl := (rt_tbl s4)\<lparr>num_entries := num_entries (rt_tbl s4) - 1\<rparr>\<rparr>)"

definition rt_table_destroy :: "node \<Rightarrow> node" where
  "rt_table_destroy s = fold rt_table_delete (entries (rt_tbl s)) s"

section \<open>The contract of a lookup structure\<close>

text \<open>
  What the handlers rely on: in a well-formed node, the lookup returns exactly the live object
  with the given key.
\<close>

locale keyed_store =
  fixes find :: "'k \<Rightarrow> node \<Rightarrow> ptr option"
    and alive :: "node \<Rightarrow> ptr set"
    and key :: "node \<Rightarrow> ptr \<Rightarrow> 'k"
  assumes find_iff: "wf_node s \<Longrightarrow> find k s = Some p \<longleftrightarrow> p \<in> alive s \<and> key s p = k"
begin

lemma find_alive: "wf_node s \<Longrightarrow> find k s = Some p \<Longrightarrow> p \<in> alive s"
  by (simp add: find_iff)

lemma find_key: "wf_node s \<Longrightarrow> find k s = Some p \<Longrightarrow> key s p = k"
  by (simp add: find_iff)

lemma find_None: "wf_node s \<Longrightarrow> find k s = None \<longleftrightarrow> (\<forall>p \<in> alive s. key s p \<noteq> k)"
  using find_iff [of s k] by (metis not_Some_eq)

lemma find_self: "wf_node s \<Longrightarrow> p \<in> alive s \<Longrightarrow> find (key s p) s = Some p"
  by (simp add: find_iff)

lemma key_inj: "wf_node s \<Longrightarrow> p \<in> alive s \<Longrightarrow> q \<in> alive s \<Longrightarrow> key s p = key s q \<Longrightarrow> p = q"
  by (metis find_self option.inject)

lemma find_cong:
  assumes "wf_node s" "wf_node s'" "alive s' = alive s" "\<And>p. p \<in> alive s \<Longrightarrow> key s' p = key s p"
  shows "find k s' = find k s"
proof (cases "find k s")
  case None
  then have "\<forall>p \<in> alive s'. key s' p \<noteq> k" using assms by (simp add: find_None [OF assms(1)])
  with None show ?thesis by (simp add: find_None [OF assms(2), THEN iffD2])
next
  case (Some p)
  then have "find k s' = Some p" using assms by (simp add: find_iff)
  with Some show ?thesis by simp
qed

end

section \<open>Lookup is sound and complete\<close>

lemma set_entries: "p \<in> set (entries r) \<longleftrightarrow> (\<exists>i < length (tbl r). p \<in> set (tbl r ! i))"
  by (simp add: entries_def) (metis in_set_conv_nth)

lemma rt_table_find_iff:
  assumes "wf_node s"
  shows "rt_table_find a s = Some p \<longleftrightarrow> p \<in> live s \<and> rt_dest_addr (rt s p) = a"
proof -
  note wf = table_wfD [OF invD(2) [OF assms]]
  have len: "length (entries (rt_tbl s)) < 2 ^ 32" using wf(8,9) by linarith
  have "num_entries (rt_tbl s) = 0 \<longleftrightarrow> entries (rt_tbl s) = []"
    using len unfolding wf(7) by (simp add: word_of_nat_eq_0_iff) (metis dvd_imp_le
        length_greater_0_conv linorder_not_less dvd_0_right list.size(3))
  moreover have "p \<in> set (tbl (rt_tbl s) ! bucket a)" if "p \<in> live s" "rt_dest_addr (rt s p) = a"
    using that wf(1,3) by (metis set_entries)
  moreover have "p \<in> live s" if "p \<in> set (tbl (rt_tbl s) ! bucket a)" for p
    using that wf(1) unfolding set_entries by (intro exI [of _ "bucket a"]) simp
  moreover have "rt_hash (rt s p) = rt_dest_addr (rt s p)" if "p \<in> live s" for p
    using wf(4) [OF that] by (simp add: entry_wf_def)
  moreover have "List.find (\<lambda>p. rt_hash (rt s p) = a \<and> rt_dest_addr (rt s p) = a)
        (tbl (rt_tbl s) ! bucket a) = Some p \<longleftrightarrow>
      p \<in> set (tbl (rt_tbl s) ! bucket a) \<and> rt_hash (rt s p) = a \<and> rt_dest_addr (rt s p) = a"
    using wf(6) calculation(3) by (intro find_Some_iff_unique) (auto simp: inj_on_def)
  ultimately show ?thesis
    by (auto simp: rt_table_find_def hashing_def Let_def bucket_def)
qed

interpretation rts: keyed_store rt_table_find live "\<lambda>s p. rt_dest_addr (rt s p)"
  by unfold_locales (rule rt_table_find_iff)

section \<open>The operations keep the node in order\<close>

lemma upd_active_frame [simp]:
  "tq (upd_active f s) = tq s" "clock (upd_active f s) = clock s" "conf (upd_active f s) = conf s"
  "sk (upd_active f s) = sk s" "out (upd_active f s) = out s" "this_host (upd_active f s) = this_host s"
  "seekhead (upd_active f s) = seekhead s" "PQ (upd_active f s) = PQ s"
  "status (upd_active f s) = status s" "dev_indices (upd_active f s) = dev_indices s"
  "wait_on_reboot (upd_active f s) = wait_on_reboot s" "rreq_records (upd_active f s) = rreq_records s"
  "rreq_blacklist (upd_active f s) = rreq_blacklist s" "rt (upd_active f s) = rt s"
  "tbl (rt_tbl (upd_active f s)) = tbl (rt_tbl s)"
  "num_entries (rt_tbl (upd_active f s)) = num_entries (rt_tbl s)"
  "num_active (rt_tbl (upd_active f s)) = f (num_active (rt_tbl s))"
  "rt_next (rt_tbl (upd_active f s)) = rt_next (rt_tbl s)"
  "entries (rt_tbl (upd_active f s)) = entries (rt_tbl s)"
  "rt_heap_limit (upd_active f s) = rt_heap_limit s"
  by (simp_all add: upd_active_def entries_def)

lemma upd_active_fn_ok: "wf_node s \<Longrightarrow> ok s (upd_active f s)"
  by (simp add: upd_active_def upd_active_ok)

lemma rt_table_update_timeout_ok:
  "wf_node s \<Longrightarrow> p \<in> live s \<Longrightarrow> ok s (rt_table_update_timeout p l s)"
  by (simp add: rt_table_update_timeout_def Let_def tm_set_rt_ok ok_refl)

lemma rt_table_update_timeout_frame [simp]:
  "rt_tbl (rt_table_update_timeout p l s) = rt_tbl s" "clock (rt_table_update_timeout p l s) = clock s"
  "conf (rt_table_update_timeout p l s) = conf s" "sk (rt_table_update_timeout p l s) = sk s"
  "out (rt_table_update_timeout p l s) = out s" "PQ (rt_table_update_timeout p l s) = PQ s"
  "seekhead (rt_table_update_timeout p l s) = seekhead s"
  "this_host (rt_table_update_timeout p l s) = this_host s"
  by (simp_all add: rt_table_update_timeout_def Let_def)

lemma rt_table_find_frame:
  "rt_tbl s' = rt_tbl s \<Longrightarrow> rt_table_find a s' = rt_table_find a s"
  by (simp add: rt_table_find_def)

lemma update_timeouts_ok:
  assumes "wf_node s" "f \<in> live s"
  shows "ok s (update_fwd_timeouts f s)" "ok s (update_rev_timeouts f s)"
proof -
  have next_ok: "ok s (case rt_table_find a s1 of None \<Rightarrow> s1
      | Some n \<Rightarrow> if P n then rt_table_update_timeout n l s1 else s1)" if "ok s s1" for s1 a P l
    using that rts.find_alive [OF ok_inv [OF that], of a] rt_table_update_timeout_ok [OF ok_inv [OF that]]
    by (auto intro: ok_trans split: option.split)
  show "ok s (update_fwd_timeouts f s)" "ok s (update_rev_timeouts f s)"
    unfolding update_fwd_timeouts_def update_rev_timeouts_def Let_def
    by (rule next_ok, simp add: assms rt_table_update_timeout_ok ok_refl)+
qed

lemma rt_table_update_route_timeouts_ok:
  assumes "wf_node s" "\<And>f. fwd = Some f \<Longrightarrow> f \<in> live s" "\<And>r. bwd = Some r \<Longrightarrow> r \<in> live s"
  shows "ok s (rt_table_update_route_timeouts fwd bwd s)"
proof -
  define s1 where "s1 = (case fwd of None \<Rightarrow> s
    | Some f \<Rightarrow> if rt_state (rt s f) = VALID then update_fwd_timeouts f s else s)"
  have 1: "ok s s1"
    using assms by (simp add: s1_def ok_refl update_timeouts_ok split: option.split)
  have "ok s1 (case bwd of None \<Rightarrow> s1
      | Some r \<Rightarrow> if rt_state (rt s1 r) = VALID then update_rev_timeouts r s1 else s1)"
    using ok_inv [OF 1] ok_live [OF 1 assms(3)]
    by (simp add: ok_refl update_timeouts_ok split: option.split)
  with 1 show ?thesis
    unfolding rt_table_update_route_timeouts_def s1_def Let_def by (rule ok_trans)
qed

lemma precursor_add_ok: "wf_node s \<Longrightarrow> ok s (precursor_add p a s)"
  unfolding precursor_add_def by (auto intro!: upd_rt_ok ok_refl simp: entry_wf_def)

lemma precursor_remove_ok: "wf_node s \<Longrightarrow> ok s (precursor_remove p a s)"
  unfolding precursor_remove_def
  by (auto intro!: upd_rt_ok ok_refl simp: entry_wf_def length_remove1 Suc_leI)
    (metis One_nat_def length_pos_if_in_set of_nat_1 of_nat_diff Suc_leI)

lemma fold_precursors:
  "fold (\<lambda>a e. e\<lparr>rt_precursors := remove1 a (rt_precursors e), rt_nprec := rt_nprec e - 1\<rparr>) xs
     (e\<lparr>rt_precursors := xs, rt_nprec := n\<rparr>)
   = e\<lparr>rt_precursors := [], rt_nprec := n - int (length xs)\<rparr>"
  by (induction xs arbitrary: n) (simp_all add: algebra_simps)

lemma precursor_list_destroy_eq:
  "precursor_list_destroy p s =
     upd_rt p (\<lambda>e. e\<lparr>rt_precursors := [], rt_nprec := rt_nprec e - int (length (rt_precursors e))\<rparr>) s"
proof -
  have "fold (\<lambda>a e. e\<lparr>rt_precursors := remove1 a (rt_precursors e), rt_nprec := rt_nprec e - 1\<rparr>)
      (rt_precursors e) e =
    e\<lparr>rt_precursors := [], rt_nprec := rt_nprec e - int (length (rt_precursors e))\<rparr>" for e :: rt_table
    using fold_precursors [where xs = "rt_precursors e" and e = e and n = "rt_nprec e"] by simp
  then show ?thesis by (simp add: precursor_list_destroy_def)
qed

lemma precursor_list_destroy_ok: "wf_node s \<Longrightarrow> ok s (precursor_list_destroy p s)"
  unfolding precursor_list_destroy_eq by (auto intro!: upd_rt_ok simp: entry_wf_def)

lemma rt_table_invalidate_ok:
  assumes "wf_node s" "p \<in> live s"
  shows "ok s (rt_table_invalidate p s)"
proof (cases "rt_state (rt s p) = INVALID")
  case True
  then show ?thesis by (simp add: rt_table_invalidate_def assms ok_refl)
next
  case False
  define s1 where "s1 = tm_remove (Ack_timer p) (tm_remove (Hello_timer p) (tm_remove (Rt_timer p) s))"
  have 1: "ok s s1" unfolding s1_def
    by (meson assms(1) ok_inv ok_trans timer_id.distinct tm_remove_ok)
  define s2 where "s2 = upd_active (\<lambda>n. n - 1) (upd_rt p (\<lambda>e. e\<lparr>rt_state := INVALID\<rparr>) s1)"
  have 2: "ok s1 s2" unfolding s2_def
    by (rule ok_trans [OF upd_rt_ok [OF ok_inv [OF 1]] upd_active_fn_ok [OF ok_inv]])
      (auto simp: entry_wf_def intro!: upd_rt_ok ok_inv [OF 1])
  define s3 where "s3 = upd_rt p (\<lambda>e. e\<lparr>rt_hello_cnt := 0,
      rt_dest_seqno := seqno_incr (rt_dest_seqno e), rt_last_hello_time := tv_zero\<rparr>) s2"
  have 3: "ok s2 s3" unfolding s3_def
    by (rule upd_rt_ok [OF ok_inv [OF 2]]) (simp_all add: entry_wf_def)
  define s4 where "s4 = nl_send_del_route_msg (rt_dest_addr (rt s3 p)) (rt_next_hop (rt s3 p)) (rt_hcnt (rt s3 p)) s3"
  have 4: "ok s s4" unfolding s4_def
    using 1 2 3 nl_del_ok [OF ok_inv [OF 3]] by (meson ok_trans)
  have "ok s4 (tm_set (Rt_timer p) m (tm_handler (Rt_timer p) h s4))"
    if "h \<in> {Route_expire_timeout, Route_delete_timeout, Local_repair_timeout}" for h m
    using tm_handler_ok [OF ok_inv [OF 4] that] ok_live [OF 4 assms(2)]
    by (meson ok_inv ok_live ok_trans tm_set_rt_ok(1))
  with 4 False show ?thesis
    unfolding rt_table_invalidate_def Let_def s1_def [symmetric] s2_def [symmetric]
      s3_def [symmetric] s4_def [symmetric]
    by (auto intro: ok_trans)
qed

lemma upd_active_sent [simp]: "sent (upd_active f s) = sent s"
  by (simp add: sent_def)

lemma rt_table_invalidate_sent [simp]: "sent (rt_table_invalidate p s) = sent s"
  by (simp add: rt_table_invalidate_def Let_def)

lemma precursor_list_destroy_frame [simp]:
  "sk (precursor_list_destroy p s) = sk s" "out (precursor_list_destroy p s) = out s"
  "entries (rt_tbl (precursor_list_destroy p s)) = entries (rt_tbl s)"
  "status (precursor_list_destroy p s) = status s" "sent (precursor_list_destroy p s) = sent s"
  by (simp_all add: precursor_list_destroy_def)

lemma rt_table_invalidate_status:
  assumes "wf_node s" "p \<in> live s"
  shows "status (rt_table_invalidate p s) = status s"
proof -
  have "status (tm_set t m s') = status s \<or> status (tm_set t m s') = Exited"
    if "status s' = status s" for t m s'
    using tm_set_status [of t m s'] that by simp
  then have "status (rt_table_invalidate p s) = status s \<or> status (rt_table_invalidate p s) = Exited"
    by (simp add: rt_table_invalidate_def Let_def)
  then show ?thesis by (rule ok_status [OF rt_table_invalidate_ok [OF assms]])
qed

section \<open>Invalidation in detail\<close>

definition invalidated :: "rt_table \<Rightarrow> rt_table" where
  "invalidated e = e\<lparr>rt_state := INVALID, rt_hello_cnt := 0,
     rt_dest_seqno := seqno_incr (rt_dest_seqno e), rt_last_hello_time := tv_zero\<rparr>"

lemma rt_table_invalidate_entry:
  "rt (rt_table_invalidate p s) q =
     (if q = p \<and> rt_state (rt s p) = VALID then invalidated (rt s p) else rt s q)"
  by (cases "rt_state (rt s p)") (simp_all add: rt_table_invalidate_def Let_def invalidated_def)

lemma rt_table_invalidate_frame [simp]:
  "tbl (rt_tbl (rt_table_invalidate p s)) = tbl (rt_tbl s)"
  "entries (rt_tbl (rt_table_invalidate p s)) = entries (rt_tbl s)"
  "num_entries (rt_tbl (rt_table_invalidate p s)) = num_entries (rt_tbl s)"
  "conf (rt_table_invalidate p s) = conf s" "clock (rt_table_invalidate p s) = clock s"
  "sk (rt_table_invalidate p s) = sk s" "PQ (rt_table_invalidate p s) = PQ s"
  "seekhead (rt_table_invalidate p s) = seekhead s"
  "this_host (rt_table_invalidate p s) = this_host s"
  "dev_indices (rt_table_invalidate p s) = dev_indices s"
  by (simp_all add: rt_table_invalidate_def Let_def entries_def)

text \<open>The effect of setting a timer that has a handler.\<close>

lemma tm_set_effect:
  assumes "tq_wf (tq s)" "handler (timers (tq s) t) \<noteq> None"
  shows "status (tm_set t m s) = status s"
    and "set (TQ (tq (tm_set t m s))) = insert t (set (TQ (tq s)))"
    and "set (expTQ (tq (tm_set t m s))) = set (expTQ (tq s)) - {t}"
    and "timers (tq (tm_set t m s)) = (timers (tq s))
           (t := (timers (tq s) t)\<lparr>used := True, timeout := due_at (clock s) m\<rparr>)"
    and "tq_wf (tq (tm_set t m s))"
  by (rule timer_set_timeout_wf [OF assms, of "clock s" m], simp add: tm_set_def)+

definition pending :: "timer_id \<Rightarrow> node \<Rightarrow> thandler \<Rightarrow> int \<Rightarrow> bool" where
  "pending t s h at \<longleftrightarrow>
     t \<in> set (TQ (tq s)) \<and> handler (timers (tq s) t) = Some h \<and>
     usecs (timeout (timers (tq s) t)) = at"

lemma upd_handler_wf: "tq_wf q \<Longrightarrow> tq_wf (upd_timer t (\<lambda>r. r\<lparr>handler := Some h\<rparr>) q)"
  using ms_sorted_cong [of "TQ q" "(timers q)(t := (timers q t)\<lparr>handler := Some h\<rparr>)" "timers q"]
  by (auto simp: tq_wf_def)

lemma set_with_handler_pending:
  assumes "tq_wf (tq s)"
  shows "pending t (tm_set t m (tm_handler t h s)) h (usecs (clock s) + m * 1000)"
    and "u \<noteq> t \<Longrightarrow> u \<in> attached (tq (tm_set t m (tm_handler t h s))) \<longleftrightarrow> u \<in> attached (tq s)"
proof -
  have "tq_wf (tq (tm_handler t h s))" "handler (timers (tq (tm_handler t h s)) t) \<noteq> None"
    using assms by (simp_all add: tm_handler_def upd_handler_wf)
  note e = tm_set_effect [OF this, of m]
  show "pending t (tm_set t m (tm_handler t h s)) h (usecs (clock s) + m * 1000)"
    by (simp add: pending_def e(2,4)) (simp add: tm_handler_def)
  show "u \<in> attached (tq (tm_set t m (tm_handler t h s))) \<longleftrightarrow> u \<in> attached (tq s)" if "u \<noteq> t"
    using that by (simp add: attached_def e(2,3)) (simp add: tm_handler_def)
qed

definition repair_wait :: "node \<Rightarrow> rt_table \<Rightarrow> thandler \<times> int" where
  "repair_wait s e =
     (if flag (rt_flags e) RT_REPAIR then (Local_repair_timeout, active_route_timeout (conf s))
      else (Route_delete_timeout, DELETE_PERIOD s))"

lemma rt_table_invalidate_timers:
  assumes "wf_node s" "p \<in> live s" "rt_state (rt s p) = VALID"
  shows "pending (Rt_timer p) (rt_table_invalidate p s) (fst (repair_wait s (rt s p)))
           (usecs (clock s) + snd (repair_wait s (rt s p)) * 1000)"
    and "Hello_timer p \<notin> attached (tq (rt_table_invalidate p s))"
    and "Ack_timer p \<notin> attached (tq (rt_table_invalidate p s))"
proof -
  define s1 where "s1 = tm_remove (Ack_timer p) (tm_remove (Hello_timer p) (tm_remove (Rt_timer p) s))"
  have q1: "tq s1 = snd (timer_remove (Ack_timer p) (snd (timer_remove (Hello_timer p)
      (snd (timer_remove (Rt_timer p) (tq s))))))"
    by (simp add: s1_def tm_remove_def)
  note wf0 = invD(11) [OF assms(1)]
  have wf1: "tq_wf (tq s1)" unfolding q1 by (intro timer_remove_wf wf0)
  have gone: "Hello_timer p \<notin> attached (tq s1)" "Ack_timer p \<notin> attached (tq s1)"
    unfolding q1 by (simp_all add: attached_timer_remove timer_remove_wf wf0)
  define s4 where "s4 = nl_send_del_route_msg (rt_dest_addr (rt s p)) (rt_next_hop (rt s p)) (rt_hcnt (rt s p))
     (upd_rt p (\<lambda>e. e\<lparr>rt_hello_cnt := 0, rt_dest_seqno := seqno_incr (rt_dest_seqno e),
        rt_last_hello_time := tv_zero\<rparr>)
       (upd_active (\<lambda>n. n - 1) (upd_rt p (\<lambda>e. e\<lparr>rt_state := INVALID\<rparr>) s1)))"
  have s4: "tq s4 = tq s1" "clock s4 = clock s" "conf s4 = conf s"
    by (simp_all add: s4_def s1_def)
  have inv_eq: "rt_table_invalidate p s = tm_set (Rt_timer p) (snd (repair_wait s (rt s p)))
      (tm_handler (Rt_timer p) (fst (repair_wait s (rt s p))) s4)"
    using assms(3) s4(3)
    by (simp add: rt_table_invalidate_def Let_def s1_def [symmetric] repair_wait_def s4_def
        DELETE_PERIOD_def) (simp add: s1_def)
  note pend = set_with_handler_pending [where s = s4 and t = "Rt_timer p" and
      m = "snd (repair_wait s (rt s p))" and h = "fst (repair_wait s (rt s p))", unfolded s4, OF wf1]
  show "pending (Rt_timer p) (rt_table_invalidate p s) (fst (repair_wait s (rt s p)))
           (usecs (clock s) + snd (repair_wait s (rt s p)) * 1000)"
    unfolding inv_eq by (rule pend)
  show "Hello_timer p \<notin> attached (tq (rt_table_invalidate p s))"
    "Ack_timer p \<notin> attached (tq (rt_table_invalidate p s))"
    unfolding inv_eq using gone by (simp_all add: pend(2))
qed

section \<open>Deletion\<close>

lemma concat_remove1:
  assumes "distinct (concat xss)"
  shows "concat (map (remove1 p) xss) = remove1 p (concat xss)"
  using assms
proof (induction xss)
  case (Cons xs xss)
  have "map (remove1 p) xss = xss" if "p \<in> set xs"
    using that Cons.prems by (intro map_idI remove1_idem) auto
  then show ?case using Cons by (auto simp: remove1_append remove1_idem)
qed simp

lemma timers_wf_drop_rt:
  assumes "timers_wf q R S C B"
    and "Rt_timer p \<notin> attached q" "Ack_timer p \<notin> attached q" "Hello_timer p \<notin> attached q"
  shows "timers_wf q (R - {p}) S C B"
proof -
  have "owned (R - {p}) S C B t" if "owned R S C B t" "t \<in> attached q" for t
    using that assms(2-4) by (cases t) auto
  moreover have "owned R S C B t" if "owned (R - {p}) S C B t" for t
    using that by (cases t) auto
  ultimately show ?thesis using assms(1) unfolding timers_wf_def by blast
qed

lemma rt_table_delete_parts:
  shows "tbl (rt_tbl (rt_table_delete p s)) = map (remove1 p) (tbl (rt_tbl s))"
    and "q \<noteq> p \<Longrightarrow> rt (rt_table_delete p s) q = rt s q"
    and "num_entries (rt_tbl (rt_table_delete p s)) = num_entries (rt_tbl s) - 1"
    and "rt_next (rt_tbl (rt_table_delete p s)) = rt_next (rt_tbl s)"
    and "tq (rt_table_delete p s) = snd (timer_remove (Ack_timer p) (snd (timer_remove (Hello_timer p)
           (snd (timer_remove (Rt_timer p) (tq s))))))"
    and "seekhead (rt_table_delete p s) = seekhead s" "PQ (rt_table_delete p s) = PQ s"
    "sk (rt_table_delete p s) = sk s" "this_host (rt_table_delete p s) = this_host s"
    "dev_indices (rt_table_delete p s) = dev_indices s" "status (rt_table_delete p s) = status s"
    "clock (rt_table_delete p s) = clock s" "conf (rt_table_delete p s) = conf s"
    "rt_heap_limit (rt_table_delete p s) = rt_heap_limit s"
    "wait_on_reboot (rt_table_delete p s) = wait_on_reboot s"
    "rreq_records (rt_table_delete p s) = rreq_records s"
    "rreq_blacklist (rt_table_delete p s) = rreq_blacklist s"
  by (simp_all add: rt_table_delete_def Let_def precursor_list_destroy_eq tm_remove_def
      upd_active_def upd_rt_def nl_send_del_route_msg_def nl_kern_route_def nl_send_def emit_def)

lemma rt_table_delete_entries:
  assumes "wf_node s"
  shows "entries (rt_tbl (rt_table_delete p s)) = remove1 p (entries (rt_tbl s))"
  using table_wfD(2) [OF invD(2) [OF assms]]
  by (simp add: entries_def rt_table_delete_parts(1) concat_remove1)

lemma rt_table_delete_table_wf:
  assumes "wf_node s" "p \<in> live s"
  shows "table_wf (rt_tbl (rt_table_delete p s)) (rt_heap_limit s)"
proof -
  note wf = table_wfD [OF invD(2) [OF assms(1)]] and ent = rt_table_delete_entries [OF assms(1)]
  have set: "set (remove1 p (entries (rt_tbl s))) = live s - {p}" using wf(2) by simp
  have old: "rt (rt_table_delete p s) q = rt s q" if "q \<in> live s - {p}" for q
    using that by (simp add: rt_table_delete_parts)
  have "bucket (rt_dest_addr (rt (rt_table_delete p s) q)) = i"
    if "i < 64" "q \<in> set (remove1 p (tbl (rt_tbl s) ! i))" for i q
  proof -
    have "distinct (tbl (rt_tbl s) ! i)"
      using wf(1,2) that(1) by (simp add: entries_def distinct_concat_iff)
    then have q: "q \<in> set (tbl (rt_tbl s) ! i)" "q \<noteq> p" using that(2) by auto
    then show ?thesis using wf(3) [OF that(1)] by (simp add: rt_table_delete_parts)
  qed
  moreover have "length (entries (rt_tbl s)) \<ge> 1" using assms(2) by (cases "entries (rt_tbl s)") auto
  moreover have "inj_on (\<lambda>q. rt_dest_addr (rt (rt_table_delete p s) q)) (live s - {p})"
    using wf(6) old unfolding inj_on_def by simp
  ultimately show ?thesis
    using wf(1,2,4,5,7,8,9) old assms(2)
    by (simp add: table_wf_def ent set length_remove1 rt_table_delete_parts(1,3,4) of_nat_diff)
qed

lemma rt_table_delete_wf:
  assumes "wf_node s" "p \<in> live s"
  shows "wf_node (rt_table_delete p s)" "live (rt_table_delete p s) = live s - {p}"
    and "attached (tq (rt_table_delete p s)) = attached (tq s) - {Rt_timer p, Ack_timer p, Hello_timer p}"
    and "set (expTQ (tq (rt_table_delete p s))) \<subseteq> set (expTQ (tq s))"
proof -
  note wf = invD [OF assms(1)]
  show live: "live (rt_table_delete p s) = live s - {p}"
    using table_wfD(2) [OF wf(2)] by (simp add: rt_table_delete_entries [OF assms(1)])
  let ?q = "tq (rt_table_delete p s)"
  have tq: "tq_wf ?q" by (simp add: rt_table_delete_parts(5) timer_remove_wf wf(11))
  show att: "attached ?q = attached (tq s) - {Rt_timer p, Ack_timer p, Hello_timer p}"
    by (auto simp: rt_table_delete_parts(5) attached_timer_remove timer_remove_wf wf(11))
  have "timers_wf ?q (live s) (seeking s) (set (plist (rreq_records s)))
       (set (plist (rreq_blacklist s)))"
    using att
    by (intro timers_wf_same_handlers [OF wf(3) tq, of Gc_timer])
      (auto simp: static_timer_def rt_table_delete_parts(5) timer_remove_simps)
  then have "timers_wf ?q (live s - {p}) (seeking s) (set (plist (rreq_records s)))
       (set (plist (rreq_blacklist s)))"
    by (rule timers_wf_drop_rt) (simp_all add: att)
  moreover have "static_ready ?q (wait_on_reboot s)"
    using wf(4) by (simp add: static_ready_def rt_table_delete_parts(5) timer_remove_simps)
  ultimately show "wf_node (rt_table_delete p s)"
    using wf rt_table_delete_table_wf [OF assms]
    by (simp add: wf_node_def live rt_table_delete_parts(6-))
  show "set (expTQ ?q) \<subseteq> set (expTQ (tq s))"
    by (auto simp: rt_table_delete_parts(5) timer_remove_simps dest!: set_remove1_subset [THEN subsetD])
qed

section \<open>Properties\<close>

text \<open>
  C6. Lookup in the hash table is sound and complete: in a well-formed node it returns the entry
  of the destination when there is one, and \<open>NULL\<close> only when there is none (the early exit on
  \<open>num_entries == 0\<close> and the comparison of hash values included).
\<close>

theorem rt_table_find_correct:
  assumes "wf_node s"
  shows "(rt_table_find a s = Some p \<longleftrightarrow> p \<in> live s \<and> rt_dest_addr (rt s p) = a) \<and>
         (rt_table_find a s = None \<longleftrightarrow> (\<forall>q \<in> live s. rt_dest_addr (rt s q) \<noteq> a))"
  using rts.find_iff [OF assms] rts.find_None [OF assms] by blast

theorem rt_table_find_correct_witness:
  "rt_table_find 0x0300000A demo_routes = Some 1 \<and> rt_table_find 0x0500000A demo_routes = None"
  using rt_table_find_correct [OF demo_routes_wf, of "0x0300000A" 1]
    rt_table_find_correct [OF demo_routes_wf, of "0x0500000A" 1]
  by (simp add: demo_routes_def entries_demo_table)
    (simp add: demo_table_def neighbour_route_def far_route_def no_route_def)

text \<open>
  Invalidating a valid route marks it invalid with its sequence number incremented, tells
  the kernel to delete it, lowers the active count, cancels its hello and RREP-ACK timers and
  schedules deletion (or the end of the local repair); no other entry changes.
\<close>

theorem rt_table_invalidate_correct:
  assumes "wf_node s" and "p \<in> live s" and "rt_state (rt s p) = VALID"
  shows "wf_node (rt_table_invalidate p s) \<and>
         rt (rt_table_invalidate p s) = (rt s)(p := invalidated (rt s p)) \<and>
         num_active (rt_tbl (rt_table_invalidate p s)) = num_active (rt_tbl s) - 1 \<and>
         pending (Rt_timer p) (rt_table_invalidate p s) (fst (repair_wait s (rt s p)))
           (usecs (clock s) + snd (repair_wait s (rt s p)) * 1000) \<and>
         Hello_timer p \<notin> attached (tq (rt_table_invalidate p s)) \<and>
         Ack_timer p \<notin> attached (tq (rt_table_invalidate p s)) \<and>
         (\<exists>r. out (rt_table_invalidate p s) = out s @ [Ev_netlink r] \<and> nlmsg_type r = RTM_DELROUTE \<and>
              (RTA_DST, rt_dest_addr (rt s p)) \<in> set (rta r))"
proof -
  have "rt (rt_table_invalidate p s) = (rt s)(p := invalidated (rt s p))"
    by (rule ext) (simp add: rt_table_invalidate_entry assms(3))
  moreover have "num_active (rt_tbl (rt_table_invalidate p s)) = num_active (rt_tbl s) - 1"
    using assms(3) by (simp add: rt_table_invalidate_def Let_def)
  moreover have "\<exists>r. out (rt_table_invalidate p s) = out s @ [Ev_netlink r] \<and>
      nlmsg_type r = RTM_DELROUTE \<and> (RTA_DST, rt_dest_addr (rt s p)) \<in> set (rta r)"
    using assms(3)
    by (simp add: rt_table_invalidate_def Let_def nl_send_del_route_msg_def nl_kern_route_def
        nl_send_def addattr_def)
  ultimately show ?thesis
    using rt_table_invalidate_timers [OF assms] ok_inv [OF rt_table_invalidate_ok [OF assms(1,2)]]
    by blast
qed

theorem rt_table_invalidate_correct_witness:
  "rt_dest_seqno (rt (rt_table_invalidate 1 demo_routes) 1) = 10 \<and>
   pending (Rt_timer 1) (rt_table_invalidate 1 demo_routes) Route_delete_timeout 115000000"
proof -
  have "1 \<in> live demo_routes" "rt_state (rt demo_routes 1) = VALID"
    by (simp_all add: demo_routes_def entries_demo_table)
      (simp add: demo_table_def far_route_def)
  from rt_table_invalidate_correct [OF demo_routes_wf this] show ?thesis
    by (simp add: demo_routes_def demo_table_def far_route_def no_route_def invalidated_def
        seqno_incr_def repair_wait_def flag_def DELETE_PERIOD_def demo_node_def demo_conf_def usecs_def)
qed

text \<open>
  C7. Deleting an entry takes exactly this entry out of the table, keeps the node well formed
  and leaves none of its timers behind: no pending or expired timer refers to freed memory.
\<close>

theorem rt_table_delete_correct:
  assumes "wf_node s" and "p \<in> live s"
  shows "wf_node (rt_table_delete p s) \<and> live (rt_table_delete p s) = live s - {p} \<and>
         rt_table_find (rt_dest_addr (rt s p)) (rt_table_delete p s) = None \<and>
         (\<forall>a. a \<noteq> rt_dest_addr (rt s p) \<longrightarrow> rt_table_find a (rt_table_delete p s) = rt_table_find a s) \<and>
         attached (tq (rt_table_delete p s)) = attached (tq s) - {Rt_timer p, Ack_timer p, Hello_timer p}"
proof -
  note del = rt_table_delete_wf [OF assms]
  have other: "rt (rt_table_delete p s) q = rt s q" if "q \<noteq> p" for q
    using that by (simp add: rt_table_delete_parts)
  have "rt_table_find (rt_dest_addr (rt s p)) (rt_table_delete p s) = None"
    using rts.key_inj [OF assms(1) _ assms(2)] other
    by (auto simp: rts.find_None [OF del(1)] del(2))
  moreover have "rt_table_find a (rt_table_delete p s) = rt_table_find a s"
    if "a \<noteq> rt_dest_addr (rt s p)" for a
  proof (cases "rt_table_find a s")
    case None
    then have "rt_table_find a (rt_table_delete p s) = None"
      using other by (auto simp: rts.find_None [OF del(1)] rts.find_None [OF assms(1)] del(2))
    with None show ?thesis by simp
  next
    case (Some q)
    then have "q \<in> live s" "rt_dest_addr (rt s q) = a" "q \<noteq> p"
      using that rts.find_iff [OF assms(1)] by auto
    then have "rt_table_find a (rt_table_delete p s) = Some q"
      using other by (simp add: rts.find_iff [OF del(1)] del(2))
    with Some show ?thesis by simp
  qed
  ultimately show ?thesis using del(1-3) by blast
qed

theorem rt_table_delete_correct_witness:
  "live (rt_table_delete 0 demo_routes) = {1} \<and>
   rt_table_find 0x0200000A (rt_table_delete 0 demo_routes) = None"
proof -
  have "0 \<in> live demo_routes" "rt_dest_addr (rt demo_routes 0) = 0x0200000A"
    "live demo_routes - {0} = {1}"
    by (auto simp: demo_routes_def entries_demo_table)
      (simp add: demo_table_def neighbour_route_def)
  with rt_table_delete_correct [OF demo_routes_wf this(1)] show ?thesis by simp
qed

end
