(* ===== verification/Seek_List.thy ===== *)
theory Seek_List
  imports Routing_Table
begin

text \<open>
  Three lists of allocated records with a timer each: the destinations being sought
  (\<open>src/routing/seek_list.c\<close>), the route requests already seen and the blacklisted neighbours
  (the end of \<open>src/protocol/aodv_rreq.c\<close>).  New objects go to the front; lookup walks the list.
  All three satisfy the contract \<open>keyed_store\<close>.
\<close>

section \<open>Operations\<close>

definition pool_add :: "'a \<Rightarrow> 'a pool \<Rightarrow> 'a pool" where
  "pool_add x q = \<lparr>pheap = (pheap q)(pnext q := x), pnext = pnext q + 1, plist = pnext q # plist q\<rparr>"

definition pool_detach :: "ptr \<Rightarrow> 'a pool \<Rightarrow> 'a pool" where
  "pool_detach p q = q\<lparr>plist := remove1 p (plist q)\<rparr>"

definition pool_find :: "('a \<Rightarrow> bool) \<Rightarrow> 'a pool \<Rightarrow> ptr option" where
  "pool_find P q = List.find (\<lambda>p. P (pheap q p)) (plist q)"

definition seek_list_insert ::
  "addr \<Rightarrow> u32 \<Rightarrow> int \<Rightarrow> u8 \<Rightarrow> ptr option \<Rightarrow> node \<Rightarrow> ptr \<times> node" where
  "seek_list_insert dest_addr dest_seqno ttl flags ipd s =
     (let p = pnext (seekhead s);
          e = \<lparr>seek_dest_addr = dest_addr, seek_dest_seqno = dest_seqno, seek_flags = flags,
               seek_reqs = 0, seek_ttl = ttl, seek_ipd = ipd\<rparr>;
          s1 = tm_init (Seek_timer p) Route_discovery_timeout (A_seek p) s
      in (p, s1\<lparr>seekhead := pool_add e (seekhead s1)\<rparr>))"

text \<open>The result tells whether there was an entry to remove.\<close>

definition seek_list_remove :: "ptr option \<Rightarrow> node \<Rightarrow> bool \<times> node" where
  "seek_list_remove entry s =
     (case entry of
        None \<Rightarrow> (False, s)
      | Some p \<Rightarrow> (True, tm_remove (Seek_timer p) (s\<lparr>seekhead := pool_detach p (seekhead s)\<rparr>)))"

definition seek_list_find :: "addr \<Rightarrow> node \<Rightarrow> ptr option" where
  "seek_list_find dest_addr s = pool_find (\<lambda>e. seek_dest_addr e = dest_addr) (seekhead s)"

definition rreq_record_find :: "addr \<Rightarrow> u32 \<Rightarrow> node \<Rightarrow> ptr option" where
  "rreq_record_find orig_addr rreq_id s =
     pool_find (\<lambda>r. rec_orig_addr r = orig_addr \<and> rec_rreq_id r = rreq_id) (rreq_records s)"

definition rreq_record_insert :: "addr \<Rightarrow> u32 \<Rightarrow> node \<Rightarrow> node" where
  "rreq_record_insert orig_addr rreq_id s =
     (case rreq_record_find orig_addr rreq_id s of
        Some _ \<Rightarrow> s
      | None \<Rightarrow>
          let p = pnext (rreq_records s);
              s1 = tm_init (Rec_timer p) Rreq_record_timeout (A_rec p) s;
              s2 = s1\<lparr>rreq_records :=
                       pool_add \<lparr>rec_orig_addr = orig_addr, rec_rreq_id = rreq_id\<rparr> (rreq_records s1)\<rparr>
          in tm_set (Rec_timer p) PATH_DISCOVERY_TIME s2)"

definition rreq_record_timeout :: "ptr \<Rightarrow> node \<Rightarrow> node" where
  "rreq_record_timeout p s = s\<lparr>rreq_records := pool_detach p (rreq_records s)\<rparr>"

definition rreq_blacklist_find :: "addr \<Rightarrow> node \<Rightarrow> ptr option" where
  "rreq_blacklist_find dest_addr s = pool_find (\<lambda>b. bl_dest_addr b = dest_addr) (rreq_blacklist s)"

definition rreq_blacklist_insert :: "addr \<Rightarrow> node \<Rightarrow> node" where
  "rreq_blacklist_insert dest_addr s =
     (case rreq_blacklist_find dest_addr s of
        Some _ \<Rightarrow> s
      | None \<Rightarrow>
          let p = pnext (rreq_blacklist s);
              s1 = tm_init (Bl_timer p) Rreq_blacklist_timeout (A_bl p) s;
              s2 = s1\<lparr>rreq_blacklist := pool_add \<lparr>bl_dest_addr = dest_addr\<rparr> (rreq_blacklist s1)\<rparr>
          in tm_set (Bl_timer p) (BLACKLIST_TIMEOUT (ttl_start (conf s))) s2)"

definition rreq_blacklist_timeout :: "ptr \<Rightarrow> node \<Rightarrow> node" where
  "rreq_blacklist_timeout p s = s\<lparr>rreq_blacklist := pool_detach p (rreq_blacklist s)\<rparr>"

section \<open>Lookup\<close>

lemma pool_find_iff:
  assumes "pool_wf key q" "\<And>x. P x \<longleftrightarrow> key x = k"
  shows "pool_find P q = Some p \<longleftrightarrow> p \<in> set (plist q) \<and> key (pheap q p) = k"
  unfolding pool_find_def using assms
  by (subst find_Some_iff_unique) (auto simp: pool_wf_def inj_on_def)

interpretation seeks: keyed_store seek_list_find seeking "\<lambda>s p. seek_dest_addr (pheap (seekhead s) p)"
  by unfold_locales (simp add: seek_list_find_def pool_find_iff [OF invD(5)])

interpretation recs: keyed_store "\<lambda>(a, i). rreq_record_find a i" "\<lambda>s. set (plist (rreq_records s))"
  "\<lambda>s p. record_key (pheap (rreq_records s) p)"
proof unfold_locales
  fix s k p
  assume "wf_node s"
  then show "(case k of (a, i) \<Rightarrow> rreq_record_find a i) s = Some p \<longleftrightarrow>
      p \<in> set (plist (rreq_records s)) \<and> record_key (pheap (rreq_records s) p) = k"
    using pool_find_iff [OF invD(6), of s "\<lambda>r. rec_orig_addr r = fst k \<and> rec_rreq_id r = snd k" k p]
    by (simp add: rreq_record_find_def record_key_def prod_eq_iff split: prod.split)
qed

interpretation bls: keyed_store rreq_blacklist_find "\<lambda>s. set (plist (rreq_blacklist s))"
  "\<lambda>s p. bl_dest_addr (pheap (rreq_blacklist s) p)"
  by unfold_locales (simp add: rreq_blacklist_find_def pool_find_iff [OF invD(7)])

section \<open>Pools and their timers\<close>

lemma pool_add_simps [simp]:
  "plist (pool_add x q) = pnext q # plist q" "pnext (pool_add x q) = pnext q + 1"
  "pheap (pool_add x q) = (pheap q)(pnext q := x)"
  by (simp_all add: pool_add_def)

lemma pool_detach_simps [simp]:
  "plist (pool_detach p q) = remove1 p (plist q)" "pheap (pool_detach p q) = pheap q"
  "pnext (pool_detach p q) = pnext q"
  by (simp_all add: pool_detach_def)

lemma pool_add_wf:
  assumes "pool_wf key q" "\<And>p. p \<in> set (plist q) \<Longrightarrow> key (pheap q p) \<noteq> key x"
  shows "pool_wf key (pool_add x q)" "pnext q \<notin> set (plist q)"
proof -
  show fresh: "pnext q \<notin> set (plist q)" using assms(1) by (auto simp: pool_wf_def)
  have "\<forall>p \<in> set (plist q). p \<noteq> pnext q \<and> p < pnext q" using assms(1) fresh by (auto simp: pool_wf_def)
  moreover have "\<forall>p \<in> set (plist q). key (pheap q p) \<noteq> key x" using assms(2) by blast
  ultimately show "pool_wf key (pool_add x q)"
    using assms(1) fresh by (auto simp: pool_wf_def inj_on_def less_Suc_eq)
qed

lemma pool_detach_wf:
  "pool_wf key q \<Longrightarrow> pool_wf key (pool_detach p q)"
  by (auto simp: pool_wf_def inj_on_def)

lemma pool_detach_set: "pool_wf key q \<Longrightarrow> set (plist (pool_detach p q)) = set (plist q) - {p}"
  by (simp add: pool_wf_def)

text \<open>A timer of a fresh object: first initialised, then the object joins its list.\<close>

lemma timers_wf_init:
  assumes "timers_wf q R S C B" "t \<notin> attached q" "\<not> owned R S C B t"
    "static_timer t \<Longrightarrow> timer_typed t \<lparr>used = False, timeout = tv_zero, handler = Some f, tdata = d\<rparr>"
  shows "timers_wf (timer_init t f d q) R S C B"
proof -
  note wf = timers_wfD [OF assms(1)]
  have "timers (timer_init t f d q) u = timers q u" if "u \<noteq> t" for u
    using that by (simp add: timer_init_def)
  moreover have "timers (timer_init t f d q) t = \<lparr>used = False, timeout = tv_zero, handler = Some f, tdata = d\<rparr>"
    by (simp add: timer_init_def)
  ultimately show ?thesis
    using wf timer_init_wf [OF wf(1) assms(2)] assms(3,4) unfolding timers_wf_def by metis
qed

lemma timers_wf_extend:
  assumes "timers_wf q R S C B"
    and "\<And>u. owned R S C B u \<Longrightarrow> owned R' S' C' B' u"
    and "\<And>u. owned R' S' C' B' u \<Longrightarrow> \<not> owned R S C B u \<Longrightarrow> timer_typed u (timers q u)"
  shows "timers_wf q R' S' C' B'"
  using assms unfolding timers_wf_def by blast

lemma timers_wf_drop:
  assumes "timers_wf q R S C B"
    and "\<And>u. u \<in> attached q \<Longrightarrow> owned R S C B u \<Longrightarrow> owned R' S' C' B' u"
    and "\<And>u. owned R' S' C' B' u \<Longrightarrow> owned R S C B u"
  shows "timers_wf q R' S' C' B'"
  using assms unfolding timers_wf_def by blast

lemma timers_wf_new:
  assumes "timers_wf q R S C B" "\<not> owned R S C B t" "\<not> static_timer t"
    and "timer_typed t \<lparr>used = False, timeout = tv_zero, handler = Some f, tdata = d\<rparr>"
    and "\<And>u. owned R' S' C' B' u \<longleftrightarrow> u = t \<or> owned R S C B u"
  shows "timers_wf (timer_init t f d q) R' S' C' B'"
proof -
  have "t \<notin> attached q" using timers_wfD(2) [OF assms(1)] assms(2,3) by blast
  then have "timers_wf (timer_init t f d q) R S C B"
    using assms by (intro timers_wf_init) simp_all
  then show ?thesis
    by (rule timers_wf_extend) (use assms(4) in \<open>auto simp: assms(5) timer_init_def\<close>)
qed

lemma owned_insert:
  "owned R (insert p S) C B u \<longleftrightarrow> u = Seek_timer p \<or> owned R S C B u"
  "owned R S (insert p C) B u \<longleftrightarrow> u = Rec_timer p \<or> owned R S C B u"
  "owned R S C (insert p B) u \<longleftrightarrow> u = Bl_timer p \<or> owned R S C B u"
  by (cases u; auto)+

lemma owned_remove:
  "owned R (S - {p}) C B u \<longleftrightarrow> u \<noteq> Seek_timer p \<and> owned R S C B u"
  "owned R S (C - {p}) B u \<longleftrightarrow> u \<noteq> Rec_timer p \<and> owned R S C B u"
  "owned R S C (B - {p}) u \<longleftrightarrow> u \<noteq> Bl_timer p \<and> owned R S C B u"
  by (cases u; auto)+

lemma not_static [simp]:
  "\<not> static_timer (Rt_timer p)" "\<not> static_timer (Ack_timer p)" "\<not> static_timer (Hello_timer p)"
  "\<not> static_timer (Seek_timer p)" "\<not> static_timer (Rec_timer p)" "\<not> static_timer (Bl_timer p)"
  by (simp_all add: static_timer_def)

lemma timer_init_simps [simp]:
  "TQ (timer_init t f d q) = TQ q" "expTQ (timer_init t f d q) = expTQ q"
  "timers (timer_init t f d q) u =
     (if u = t then \<lparr>used = False, timeout = tv_zero, handler = Some f, tdata = d\<rparr> else timers q u)"
  "attached (timer_init t f d q) = attached q"
  by (simp_all add: timer_init_def attached_def)

section \<open>The operations keep the node in order\<close>

lemma seek_list_insert_ok:
  assumes "wf_node s" "seek_list_find a s = None" "seek_list_insert a n ttl fl ipd s = (p, s')"
  shows "ok s s'" "p \<in> seeking s'"
proof -
  note wf = invD [OF assms(1)]
  let ?e = "\<lparr>seek_dest_addr = a, seek_dest_seqno = n, seek_flags = fl, seek_reqs = 0, seek_ttl = ttl,
    seek_ipd = ipd\<rparr>"
  let ?q = "timer_init (Seek_timer p) Route_discovery_timeout (A_seek p) (tq s)"
  have p: "p = pnext (seekhead s)" and s': "s' = s\<lparr>tq := ?q, seekhead := pool_add ?e (seekhead s)\<rparr>"
    using assms(3) by (auto simp: seek_list_insert_def Let_def tm_init_def)
  have pool: "pool_wf seek_dest_addr (pool_add ?e (seekhead s))" "p \<notin> seeking s"
    using assms(2) seeks.find_None [OF assms(1)] pool_add_wf [OF wf(5), of ?e] by (auto simp: p)
  then have "timers_wf ?q (live s) (insert p (seeking s)) (set (plist (rreq_records s)))
      (set (plist (rreq_blacklist s)))"
    by (intro timers_wf_new [OF wf(3)]) (simp_all add: owned_insert)
  then show "ok s s'"
    using wf pool(1) by (simp add: ok_def wf_node_def s' statics_def static_ready_def p static_timer_def)
  show "p \<in> seeking s'" by (simp add: s' p)
qed

lemma rreq_record_insert_ok:
  assumes "wf_node s"
  shows "ok s (rreq_record_insert a i s)"
proof (cases "rreq_record_find a i s")
  case None
  note wf = invD [OF assms]
  let ?p = "pnext (rreq_records s)" and ?e = "\<lparr>rec_orig_addr = a, rec_rreq_id = i\<rparr>"
  let ?q = "timer_init (Rec_timer ?p) Rreq_record_timeout (A_rec ?p) (tq s)"
  let ?s = "s\<lparr>tq := ?q, rreq_records := pool_add ?e (rreq_records s)\<rparr>"
  have pool: "pool_wf record_key (pool_add ?e (rreq_records s))" "?p \<notin> set (plist (rreq_records s))"
    using None recs.find_None [OF assms, of "(a, i)"] pool_add_wf [OF wf(6), of ?e]
    by (auto simp: record_key_def)
  then have "timers_wf ?q (live s) (seeking s) (insert ?p (set (plist (rreq_records s))))
      (set (plist (rreq_blacklist s)))"
    by (intro timers_wf_new [OF wf(3)]) (simp_all add: owned_insert)
  then have 1: "ok s ?s"
    using wf pool(1) by (simp add: ok_def wf_node_def statics_def static_ready_def static_timer_def)
  have "ok ?s (tm_set (Rec_timer ?p) PATH_DISCOVERY_TIME ?s)"
    by (rule tm_set_owned_ok [OF ok_inv [OF 1]]) simp
  with 1 None show ?thesis
    by (auto simp: rreq_record_insert_def Let_def tm_init_def intro: ok_trans)
qed (simp add: rreq_record_insert_def ok_refl assms)

lemma rreq_blacklist_insert_ok:
  assumes "wf_node s"
  shows "ok s (rreq_blacklist_insert a s)"
proof (cases "rreq_blacklist_find a s")
  case None
  note wf = invD [OF assms]
  let ?p = "pnext (rreq_blacklist s)" and ?e = "\<lparr>bl_dest_addr = a\<rparr>"
  let ?q = "timer_init (Bl_timer ?p) Rreq_blacklist_timeout (A_bl ?p) (tq s)"
  let ?s = "s\<lparr>tq := ?q, rreq_blacklist := pool_add ?e (rreq_blacklist s)\<rparr>"
  have pool: "pool_wf bl_dest_addr (pool_add ?e (rreq_blacklist s))" "?p \<notin> set (plist (rreq_blacklist s))"
    using None bls.find_None [OF assms, of a] pool_add_wf [OF wf(7), of ?e] by auto
  then have "timers_wf ?q (live s) (seeking s) (set (plist (rreq_records s)))
      (insert ?p (set (plist (rreq_blacklist s))))"
    by (intro timers_wf_new [OF wf(3)]) (simp_all add: owned_insert)
  then have 1: "ok s ?s"
    using wf pool(1) by (simp add: ok_def wf_node_def statics_def static_ready_def static_timer_def)
  have "ok ?s (tm_set (Bl_timer ?p) m ?s)" for m
    by (rule tm_set_owned_ok [OF ok_inv [OF 1]]) simp
  with 1 None show ?thesis
    by (auto simp: rreq_blacklist_insert_def Let_def tm_init_def intro: ok_trans)
qed (simp add: rreq_blacklist_insert_def ok_refl assms)

lemma seek_list_remove_ok:
  assumes "wf_node s"
  shows "ok s (snd (seek_list_remove e s))"
proof (cases e)
  case (Some p)
  define s1 where "s1 = tm_remove (Seek_timer p) s"
  have 1: "ok s s1" unfolding s1_def by (rule tm_remove_ok [OF assms]) simp
  note wf = invD [OF ok_inv [OF 1]]
  have "Seek_timer p \<notin> attached (tq s1)"
    by (simp add: s1_def tm_remove_def attached_timer_remove [OF invD(11) [OF assms]])
  then have "timers_wf (tq s1) (live s1) (seeking s1 - {p}) (set (plist (rreq_records s1)))
      (set (plist (rreq_blacklist s1)))"
    using wf(3) by (rule_tac timers_wf_drop) (auto simp: owned_remove)
  then have "ok s1 (s1\<lparr>seekhead := pool_detach p (seekhead s1)\<rparr>)"
    using wf pool_detach_wf [OF wf(5)] pool_detach_set [OF wf(5)]
    by (simp add: ok_def wf_node_def statics_def del: pool_detach_simps)
  moreover have "snd (seek_list_remove e s) = s1\<lparr>seekhead := pool_detach p (seekhead s1)\<rparr>"
    by (simp add: seek_list_remove_def Some s1_def tm_remove_def)
  ultimately show ?thesis using 1 ok_trans by simp
qed (simp add: seek_list_remove_def ok_refl assms)

lemma rreq_record_timeout_ok:
  assumes "wf_node s" "Rec_timer p \<notin> attached (tq s)"
  shows "ok s (rreq_record_timeout p s)"
proof -
  note wf = invD [OF assms(1)]
  have "timers_wf (tq s) (live s) (seeking s) (set (plist (rreq_records s)) - {p})
      (set (plist (rreq_blacklist s)))"
    using wf(3) assms(2) by (rule_tac timers_wf_drop) (auto simp: owned_remove)
  then show ?thesis
    using wf pool_detach_wf [OF wf(6)] pool_detach_set [OF wf(6)]
    by (simp add: ok_def wf_node_def statics_def rreq_record_timeout_def del: pool_detach_simps)
qed

lemma rreq_blacklist_timeout_ok:
  assumes "wf_node s" "Bl_timer p \<notin> attached (tq s)"
  shows "ok s (rreq_blacklist_timeout p s)"
proof -
  note wf = invD [OF assms(1)]
  have "timers_wf (tq s) (live s) (seeking s) (set (plist (rreq_records s)))
      (set (plist (rreq_blacklist s)) - {p})"
    using wf(3) assms(2) by (rule_tac timers_wf_drop) (auto simp: owned_remove)
  then show ?thesis
    using wf pool_detach_wf [OF wf(7)] pool_detach_set [OF wf(7)]
    by (simp add: ok_def wf_node_def statics_def rreq_blacklist_timeout_def del: pool_detach_simps)
qed

end
