(* ===== verification/Packet_Queue.thy ===== *)
theory Packet_Queue
  imports Seek_List "HOL-Library.Multiset"
begin

text \<open>
  The queue of data packets that wait for a route, \<open>src/network/packet_queue.c\<close>, with
  \<open>nfqueue_set_packet_verdict\<close> of \<open>src/network/nfqueue.c\<close> and \<open>nl_send_no_route_found_msg\<close> of
  \<open>src/network/nl.c\<close>.

  The central result is an accounting of packets: no operation loses a packet or gives two
  verdicts on it; what is queued plus what has got a verdict changes only when a packet arrives.
\<close>

section \<open>Operations\<close>

definition NF_DROP :: u32 where "NF_DROP = 0"
definition NF_ACCEPT :: u32 where "NF_ACCEPT = 1"
definition MAX_QUEUE_LENGTH :: u32 where "MAX_QUEUE_LENGTH = 512"
definition MAX_QUEUE_TIME :: int where "MAX_QUEUE_TIME = 10000"
definition GARBAGE_COLLECT_TIME :: int where "GARBAGE_COLLECT_TIME = 1000"

datatype pq_verdict = PQ_DROP | PQ_SEND | PQ_ENC_SEND

definition nfqueue_set_packet_verdict :: "u32 \<Rightarrow> u32 \<Rightarrow> node \<Rightarrow> node" where
  "nfqueue_set_packet_verdict packet_id verdict s =
     (if \<not> nfq_open s then s else emit (Ev_verdict packet_id verdict) s)"

definition packet_queue_init :: "node \<Rightarrow> node" where
  "packet_queue_init s =
     tm_set Gc_timer GARBAGE_COLLECT_TIME
       (tm_init Gc_timer Packet_queue_timeout A_PQ (s\<lparr>PQ := \<lparr>pq_head = [], pq_len = 0\<rparr>\<rparr>))"

text \<open>Detach one packet from the queue, give its verdict and count it out.\<close>

definition pq_release :: "q_pkt \<Rightarrow> u32 \<Rightarrow> node \<Rightarrow> node" where
  "pq_release qp verdict s =
     (let s1 = nfqueue_set_packet_verdict (qp_packet_id qp) verdict s
      in s1\<lparr>PQ := (PQ s1)\<lparr>pq_len := pq_len (PQ s1) - 1\<rparr>\<rparr>)"

text \<open>
  The \<open>list_foreach_safe\<close> loops over the queue: the packets that satisfy \<open>P\<close> leave with a
  verdict; the result holds the remaining packets, the number of packets that left, the state.
\<close>

fun pq_scan :: "(q_pkt \<Rightarrow> bool) \<Rightarrow> u32 \<Rightarrow> q_pkt list \<Rightarrow> node \<Rightarrow> q_pkt list \<times> int \<times> node" where
  "pq_scan P v [] s = ([], 0, s)"
| "pq_scan P v (qp # qs) s =
     (if \<not> P qp then (case pq_scan P v qs s of (ks, n, s') \<Rightarrow> (qp # ks, n, s'))
      else (case pq_scan P v qs (pq_release qp v s) of (ks, n, s') \<Rightarrow> (ks, n + 1, s')))"

definition pq_sweep :: "(q_pkt \<Rightarrow> bool) \<Rightarrow> u32 \<Rightarrow> node \<Rightarrow> int \<times> node" where
  "pq_sweep P v s =
     (case pq_scan P v (pq_head (PQ s)) s of (ks, n, s') \<Rightarrow> (n, s'\<lparr>PQ := (PQ s')\<lparr>pq_head := ks\<rparr>\<rparr>))"

definition packet_queue_destroy :: "node \<Rightarrow> node" where
  "packet_queue_destroy s =
     (let s1 = fold (\<lambda>qp s. nfqueue_set_packet_verdict (qp_packet_id qp) NF_DROP s) (pq_head (PQ s)) s
      in s1\<lparr>PQ := \<lparr>pq_head = [], pq_len = 0\<rparr>\<rparr>)"

definition packet_queue_add :: "u32 \<Rightarrow> addr \<Rightarrow> node \<Rightarrow> node" where
  "packet_queue_add packet_id dest_addr s =
     (let s1 = (case pq_head (PQ s) of
                  [] \<Rightarrow> s
                | qp # qs \<Rightarrow>
                    if MAX_QUEUE_LENGTH \<le> pq_len (PQ s)
                    then pq_release qp NF_DROP (s\<lparr>PQ := (PQ s)\<lparr>pq_head := qs\<rparr>\<rparr>) else s);
          qp = \<lparr>qp_dest_addr = dest_addr, qp_q_time = clock s1, qp_packet_id = packet_id\<rparr>
      in s1\<lparr>PQ := \<lparr>pq_head = pq_head (PQ s1) @ [qp], pq_len = pq_len (PQ s1) + 1\<rparr>\<rparr>)"

text \<open>The route the queued packets will take; \<open>None\<close> makes the function return -1.\<close>

definition pq_route :: "addr \<Rightarrow> pq_verdict \<Rightarrow> node \<Rightarrow> ptr option" where
  "pq_route dest_addr verdict s =
     (let inet_rt = (if verdict = PQ_ENC_SEND then rt_table_find dest_addr s else None)
      in case rt_table_find dest_addr s of
           Some r \<Rightarrow> Some r
         | None \<Rightarrow> (case inet_rt of
                     None \<Rightarrow> None
                   | Some i \<Rightarrow> rt_table_find (rt_next_hop (rt s i)) s))"

definition pq_refresh :: "ptr \<Rightarrow> node \<Rightarrow> node" where
  "pq_refresh r s =
     (if rt_state (rt s r) = VALID then
        let s1 = rt_table_update_timeout r (ACTIVE_ROUTE_TIMEOUT s) s
        in case rt_table_find (rt_next_hop (rt s1 r)) s1 of
             None \<Rightarrow> s1
           | Some n \<Rightarrow>
               if rt_state (rt s1 n) = VALID \<and> rt_dest_addr (rt s1 n) \<noteq> rt_dest_addr (rt s1 r)
               then rt_table_update_timeout n (ACTIVE_ROUTE_TIMEOUT s1) s1 else s1
      else s)"

definition packet_queue_set_verdict :: "addr \<Rightarrow> pq_verdict \<Rightarrow> node \<Rightarrow> int \<times> node" where
  "packet_queue_set_verdict dest_addr verdict s =
     (if verdict = PQ_DROP then pq_sweep (\<lambda>qp. qp_dest_addr qp = dest_addr) NF_DROP s
      else
        case pq_route dest_addr verdict s of
          None \<Rightarrow> (- 1, s)
        | Some r \<Rightarrow>
            (case pq_sweep (\<lambda>qp. qp_dest_addr qp = dest_addr) NF_ACCEPT s of
               (n, s1) \<Rightarrow> (n, pq_refresh r s1)))"

definition nl_send_no_route_found_msg :: "addr \<Rightarrow> node \<Rightarrow> int \<times> node" where
  "nl_send_no_route_found_msg dest s = packet_queue_set_verdict dest PQ_DROP s"

definition packet_queue_garbage_collect :: "node \<Rightarrow> int \<times> node" where
  "packet_queue_garbage_collect s =
     pq_sweep (\<lambda>qp. \<not> timeval_diff (clock s) (qp_q_time qp) \<le> MAX_QUEUE_TIME) NF_DROP s"

definition packet_queue_timeout :: "node \<Rightarrow> node" where
  "packet_queue_timeout s = tm_set Gc_timer GARBAGE_COLLECT_TIME (snd (packet_queue_garbage_collect s))"

section \<open>What a sweep does\<close>

lemma nfqueue_set_packet_verdict_frame [simp]:
  "rt_tbl (nfqueue_set_packet_verdict i v s) = rt_tbl s" "tq (nfqueue_set_packet_verdict i v s) = tq s"
  "clock (nfqueue_set_packet_verdict i v s) = clock s" "conf (nfqueue_set_packet_verdict i v s) = conf s"
  "PQ (nfqueue_set_packet_verdict i v s) = PQ s" "nfq_open (nfqueue_set_packet_verdict i v s) = nfq_open s"
  "sk (nfqueue_set_packet_verdict i v s) = sk s"
  "out (nfqueue_set_packet_verdict i v s) = out s @ (if nfq_open s then [Ev_verdict i v] else [])"
  by (simp_all add: nfqueue_set_packet_verdict_def)

text \<open>The state after the packets \<open>qs\<close> have been released, head of the queue apart.\<close>

definition released :: "q_pkt list \<Rightarrow> u32 \<Rightarrow> node \<Rightarrow> node" where
  "released qs v s =
     s\<lparr>PQ := (PQ s)\<lparr>pq_len := pq_len (PQ s) - of_nat (length qs)\<rparr>,
       out := out s @ (if nfq_open s then map (\<lambda>qp. Ev_verdict (qp_packet_id qp) v) qs else [])\<rparr>"

lemma pq_release_released: "pq_release qp v s = released [qp] v s"
  by (simp add: pq_release_def released_def nfqueue_set_packet_verdict_def emit_def)

lemma released_Cons: "released qs v (released [qp] v s) = released (qp # qs) v s"
  by (simp add: released_def algebra_simps)

lemma released_Nil: "released [] v s = s"
  by (simp add: released_def)

lemma pq_scan_eq:
  "pq_scan P v qs s = (filter (\<lambda>q. \<not> P q) qs, int (length (filter P qs)), released (filter P qs) v s)"
  by (induction qs arbitrary: s)
    (simp_all add: pq_release_released released_Cons released_Nil algebra_simps)

lemma pq_sweep_eq:
  "pq_sweep P v s =
     (let gone = filter P (pq_head (PQ s)); s' = released gone v s
      in (int (length gone), s'\<lparr>PQ := (PQ s')\<lparr>pq_head := filter (\<lambda>q. \<not> P q) (pq_head (PQ s))\<rparr>\<rparr>))"
  by (simp add: pq_sweep_def pq_scan_eq Let_def)

lemma pq_sweep_frame [simp]:
  "rt_tbl (snd (pq_sweep P v s)) = rt_tbl s" "tq (snd (pq_sweep P v s)) = tq s"
  "clock (snd (pq_sweep P v s)) = clock s" "conf (snd (pq_sweep P v s)) = conf s"
  "pq_head (PQ (snd (pq_sweep P v s))) = filter (\<lambda>q. \<not> P q) (pq_head (PQ s))"
  "out (snd (pq_sweep P v s)) = out s @
     (if nfq_open s then map (\<lambda>qp. Ev_verdict (qp_packet_id qp) v) (filter P (pq_head (PQ s))) else [])"
  "nfq_open (snd (pq_sweep P v s)) = nfq_open s"
  by (simp_all add: pq_sweep_eq Let_def released_def)

lemma pq_sweep_wf: "pq_wf (PQ s) \<Longrightarrow> pq_wf (PQ (snd (pq_sweep P v s)))"
  using sum_length_filter_compl [of P "pq_head (PQ s)"] length_filter_le [of "\<lambda>q. \<not> P q" "pq_head (PQ s)"]
  by (auto simp: pq_wf_def pq_sweep_eq Let_def released_def algebra_simps simp flip: of_nat_add)

lemma pq_sweep_ok: "wf_node s \<Longrightarrow> ok s (snd (pq_sweep P v s))"
  using pq_sweep_wf [OF invD(8), of s P v]
  by (simp add: ok_def wf_node_def statics_def)
    (simp add: pq_sweep_eq Let_def released_def)

lemma pq_refresh_frame [simp]:
  "rt_tbl (pq_refresh r s) = rt_tbl s" "clock (pq_refresh r s) = clock s" "conf (pq_refresh r s) = conf s"
  "PQ (pq_refresh r s) = PQ s" "out (pq_refresh r s) = out s"
  by (simp_all add: pq_refresh_def Let_def split: option.split)

lemma pq_refresh_ok:
  assumes "wf_node s" "r \<in> live s"
  shows "ok s (pq_refresh r s)"
proof -
  let ?s1 = "rt_table_update_timeout r (ACTIVE_ROUTE_TIMEOUT s) s"
  have 1: "ok s ?s1" by (rule rt_table_update_timeout_ok [OF assms])
  have "ok ?s1 (rt_table_update_timeout n l ?s1)" if "rt_table_find a ?s1 = Some n" for n a l
    using rt_table_update_timeout_ok [OF ok_inv [OF 1]] rts.find_alive [OF ok_inv [OF 1] that] by blast
  then show ?thesis
    using 1 assms by (auto simp: pq_refresh_def Let_def ok_refl intro: ok_trans split: option.split)
qed

lemma pq_route_live:
  "wf_node s \<Longrightarrow> pq_route a v s = Some r \<Longrightarrow> r \<in> live s"
  by (auto simp: pq_route_def Let_def rts.find_alive split: option.splits if_splits)

lemma packet_queue_set_verdict_ok:
  assumes "wf_node s"
  shows "ok s (snd (packet_queue_set_verdict a v s))"
proof (cases "v = PQ_DROP \<or> pq_route a v s = None")
  case True
  then show ?thesis by (auto simp: packet_queue_set_verdict_def pq_sweep_ok ok_refl assms)
next
  case False
  then obtain r where r: "pq_route a v s = Some r" and v: "v \<noteq> PQ_DROP" by auto
  let ?s1 = "snd (pq_sweep (\<lambda>qp. qp_dest_addr qp = a) NF_ACCEPT s)"
  have 1: "ok s ?s1" by (rule pq_sweep_ok [OF assms])
  then have "ok ?s1 (pq_refresh r ?s1)"
    using pq_refresh_ok ok_inv ok_live pq_route_live [OF assms r] by blast
  with 1 have "ok s (pq_refresh r ?s1)" by (rule ok_trans)
  then show ?thesis by (simp add: packet_queue_set_verdict_def v r case_prod_beta)
qed

lemma packet_queue_timeout_ok:
  assumes "wf_node s"
  shows "ok s (packet_queue_timeout s)"
proof -
  let ?s1 = "snd (packet_queue_garbage_collect s)"
  have 1: "ok s ?s1" by (simp add: packet_queue_garbage_collect_def pq_sweep_ok assms)
  have "ok ?s1 (tm_set Gc_timer GARBAGE_COLLECT_TIME ?s1)"
    using invD(4) [OF ok_inv [OF 1]]
    by (intro tm_set_ok ok_inv [OF 1]) (simp_all add: static_timer_def static_ready_def)
  with 1 show ?thesis unfolding packet_queue_timeout_def by (rule ok_trans)
qed

lemma packet_queue_add_parts:
  fixes i :: u32 and a :: addr and s :: node
  assumes "pq_wf (PQ s)"
  defines "full \<equiv> length (pq_head (PQ s)) = 512"
    and "new \<equiv> \<lparr>qp_dest_addr = a, qp_q_time = clock s, qp_packet_id = i\<rparr>"
  shows "pq_head (PQ (packet_queue_add i a s)) = (if full then tl (pq_head (PQ s)) else pq_head (PQ s)) @ [new]"
    and "out (packet_queue_add i a s) = out s @
           (if full \<and> nfq_open s then [Ev_verdict (qp_packet_id (hd (pq_head (PQ s)))) NF_DROP] else [])"
    and "pq_wf (PQ (packet_queue_add i a s))"
proof -
  have len: "pq_len (PQ s) = of_nat (length (pq_head (PQ s)))" "length (pq_head (PQ s)) \<le> 512"
    using assms(1) by (simp_all add: pq_wf_def)
  have "unat (of_nat (length (pq_head (PQ s))) :: u32) = length (pq_head (PQ s))"
    using len(2) by (simp add: unat_of_nat)
  then have le: "MAX_QUEUE_LENGTH \<le> pq_len (PQ s) \<longleftrightarrow> full"
    using len by (simp add: MAX_QUEUE_LENGTH_def full_def word_le_nat_alt)
  show "pq_head (PQ (packet_queue_add i a s)) =
      (if full then tl (pq_head (PQ s)) else pq_head (PQ s)) @ [new]"
    "out (packet_queue_add i a s) = out s @
       (if full \<and> nfq_open s then [Ev_verdict (qp_packet_id (hd (pq_head (PQ s)))) NF_DROP] else [])"
    using le by (auto simp: packet_queue_add_def Let_def new_def pq_release_released released_def full_def
        split: list.split)
  show "pq_wf (PQ (packet_queue_add i a s))"
    using le len by (auto simp: packet_queue_add_def Let_def pq_release_released released_def full_def
        pq_wf_def split: list.split)
qed

lemma packet_queue_add_ok:
  assumes "wf_node s"
  shows "ok s (packet_queue_add i a s)"
  using assms packet_queue_add_parts(2,3) [OF invD(8) [OF assms], of i a]
  by (simp add: ok_def wf_node_def statics_def)
    (auto simp: packet_queue_add_def Let_def pq_release_released released_def split: list.split)

section \<open>Properties\<close>

text \<open>Packet identifiers with a verdict, and all that are accounted for.\<close>

fun verdict_id :: "event \<Rightarrow> u32 option" where
  "verdict_id (Ev_verdict i v) = Some i"
| "verdict_id _ = None"

definition accounted :: "node \<Rightarrow> u32 multiset" where
  "accounted s =
     mset (map qp_packet_id (pq_head (PQ s))) + mset (List.map_filter verdict_id (out s))"

lemma map_filter_verdicts:
  "List.map_filter verdict_id (map (\<lambda>qp. Ev_verdict (qp_packet_id qp) v) qs) = map qp_packet_id qs"
  by (induction qs) (simp_all add: map_filter_simps)

lemma pq_sweep_accounted:
  assumes "nfq_open s"
  shows "accounted (snd (pq_sweep P v s)) = accounted s"
proof -
  have "mset (map qp_packet_id (filter (\<lambda>q. \<not> P q) qs)) + mset (map qp_packet_id (filter P qs))
      = mset (map qp_packet_id qs)" for qs
    by (induction qs) simp_all
  from this [of "pq_head (PQ s)"] show ?thesis
    using assms
    by (simp add: accounted_def map_filter_append map_filter_verdicts del: mset_map mset_filter)
qed

text \<open>
  Packets are accounted for: queueing adds exactly the new packet (when the queue is full
  the oldest one leaves with a drop verdict), and neither verdicts for a destination nor garbage
  collection lose a packet or decide one twice.
\<close>

theorem packet_queue_conserves:
  assumes "wf_node s" and "nfq_open s"
  shows "accounted (packet_queue_add i a s) = add_mset i (accounted s) \<and>
         accounted (snd (packet_queue_set_verdict a v s)) = accounted s \<and>
         accounted (snd (packet_queue_garbage_collect s)) = accounted s \<and>
         length (pq_head (PQ (packet_queue_add i a s))) \<le> 512"
proof -
  note parts = packet_queue_add_parts [OF invD(8) [OF assms(1)], of i a]
  have "accounted (packet_queue_add i a s) = add_mset i (accounted s)"
  proof (cases "length (pq_head (PQ s)) = 512")
    case True
    then obtain qp qs where "pq_head (PQ s) = qp # qs" by (cases "pq_head (PQ s)") auto
    then show ?thesis using True assms(2)
      by (simp add: accounted_def parts(1,2) map_filter_append map_filter_simps)
  qed (simp add: accounted_def parts(1,2) map_filter_append map_filter_simps)
  moreover have "accounted (pq_refresh r s') = accounted s'" for r s'
    by (simp add: accounted_def)
  then have "accounted (snd (packet_queue_set_verdict a v s)) = accounted s"
    using pq_sweep_accounted [OF assms(2)]
    by (simp add: packet_queue_set_verdict_def case_prod_beta split: option.split)
  ultimately show ?thesis
    using parts(3) pq_sweep_accounted [OF assms(2)]
    by (simp add: packet_queue_garbage_collect_def pq_wf_def)
qed

theorem packet_queue_conserves_witness:
  "accounted (packet_queue_add 77 0x0300000A demo_routes) = {#77#}"
proof -
  have "nfq_open demo_routes" by (simp add: demo_routes_def demo_node_def)
  from packet_queue_conserves [OF demo_routes_wf this, of 77 "0x0300000A"] show ?thesis
    by (simp add: accounted_def demo_routes_def demo_node_def map_filter_simps)
qed

end
