(* ===== verification/Rerr.thy ===== *)
theory Rerr
  imports Packet_Queue
begin

text \<open>
  Building and sending route errors: \<open>rerr_create\<close> and \<open>rerr_add_udest\<close> of
  \<open>src/protocol/aodv_rerr.c\<close>, and the final part that \<open>neighbor_link_break\<close> and \<open>rerr_process\<close>
  share, which decides between unicast and broadcast.  \<open>rerr_add_udest\<close> has no bound: the model
  records an overrun when the destination would lie behind the 812 bytes of the buffer.

  Shown here: what a receiver decodes from the buffer is exactly the list of destinations put
  in, as long as there are at most 101.
\<close>

section \<open>Operations\<close>

definition rerr_create :: "u8 \<Rightarrow> addr \<Rightarrow> u32 \<Rightarrow> node \<Rightarrow> node" where
  "rerr_create flags dest_addr dest_seqno s =
     upd_send_buf
       (\<lambda>b. put_udest 0 (dest_addr, htonl dest_seqno)
              (put_RERR \<lparr>re_type = AODV_RERR, re_res1 = 0, re_n = (flags AND RERR_NODELETE \<noteq> 0),
                         re_res2 = 0, re_dest_count = 1\<rparr> b))
       (aodv_socket_new_msg s)"

abbreviation rerr_count :: "node \<Rightarrow> u8" where
  "rerr_count s \<equiv> re_dest_count (get_RERR (send_buf (sk s)))"

definition rerr_add_udest :: "addr \<Rightarrow> u32 \<Rightarrow> node \<Rightarrow> node" where
  "rerr_add_udest udest udest_seqno s =
     (if RERR_CALC_SIZE (rerr_count s) + RERR_UDEST_SIZE > AODV_MSG_MAX_SIZE then abort Overrun s
      else
        upd_send_buf
          (\<lambda>b. let h = get_RERR b
               in put_RERR (h\<lparr>re_dest_count := re_dest_count h + 1\<rparr>)
                    (put_udest (unat (re_dest_count h)) (udest, htonl udest_seqno) b)) s)"

text \<open>Send to the single precursor when there is only one, else on all interfaces.\<close>

definition rerr_finish :: "addr \<Rightarrow> node \<Rightarrow> node" where
  "rerr_finish rerr_unicast_dest s =
     (let n = rerr_count s;
          bcast = (if n > 0
                   then for_enabled_devs (aodv_socket_send AODV_BROADCAST (RERR_CALC_SIZE n) 1) s
                   else s)
      in case rt_table_find rerr_unicast_dest s of
           Some r \<Rightarrow>
             if n = 1 \<and> rerr_unicast_dest \<noteq> 0
             then aodv_socket_send rerr_unicast_dest (RERR_CALC_SIZE n) 1
                    (DEV_IFINDEX s (rt_ifindex (rt s r))) s
             else bcast
         | None \<Rightarrow> bcast)"

section \<open>Invariant\<close>

lemma length_put [simp]:
  "24 \<le> length b \<Longrightarrow> length (put_RREQ r b) = length b"
  "20 \<le> length b \<Longrightarrow> length (put_RREP p b) = length b"
  "4 \<le> length b \<Longrightarrow> length (put_RERR e b) = length b"
  "12 + 8 * i \<le> length b \<Longrightarrow> length (put_udest i u b) = length b"
  by (simp_all add: put_RREQ_def put_RREP_def put_RERR_def put_udest_def)

lemma send_buf_length: "wf_node s \<Longrightarrow> length (send_buf (sk s)) = 812"
  using invD(9) [of s] by (simp add: sock_wf_def)

lemma rerr_create_ok:
  assumes "wf_node s"
  shows "ok s (rerr_create f d n s)"
proof -
  have 1: "ok s (aodv_socket_new_msg s)" by (rule new_msg_ok [OF assms])
  show ?thesis
    unfolding rerr_create_def
    by (rule ok_trans [OF 1 upd_send_buf_ok [OF ok_inv [OF 1]]])
      (simp add: send_buf_length [OF ok_inv [OF 1]])
qed

lemma rerr_add_udest_ok:
  assumes "wf_node s"
  shows "ok s (rerr_add_udest d n s)"
  using assms
  by (auto simp: rerr_add_udest_def RERR_CALC_SIZE_eq Let_def send_buf_length
      intro!: abort_overrun_ok upd_send_buf_ok)

lemma rerr_frame [simp]:
  "rt_tbl (rerr_create f d n s) = rt_tbl s" "tq (rerr_create f d n s) = tq s"
  "conf (rerr_create f d n s) = conf s" "clock (rerr_create f d n s) = clock s"
  "rt_tbl (rerr_add_udest d n s) = rt_tbl s" "tq (rerr_add_udest d n s) = tq s"
  "conf (rerr_add_udest d n s) = conf s" "clock (rerr_add_udest d n s) = clock s"
  "out (rerr_create f d n s) = out s" "out (rerr_add_udest d n s) = out s"
  "status (rerr_create f d n s) = status s" "PQ (rerr_create f d n s) = PQ s"
  "PQ (rerr_add_udest d n s) = PQ s"
  by (simp_all add: rerr_create_def aodv_socket_new_msg_def rerr_add_udest_def)

lemma for_enabled_devs_send_ok:
  "wf_node s \<Longrightarrow> ok s (for_enabled_devs (aodv_socket_send d l t) s)"
  by (rule for_enabled_devs_ok) (simp_all add: aodv_socket_send_ok)

lemma for_enabled_devs_frame:
  assumes "\<And>d s. g (f d s) = g s"
  shows "g (for_enabled_devs f s) = g s"
proof -
  have "g (fold (\<lambda>i s. if enabled (DEV_NR s i) then f (DEV_NR s i) s else s) is s) = g s" for "is"
    by (induction "is" arbitrary: s) (simp_all add: assms)
  then show ?thesis by (simp add: for_enabled_devs_def)
qed

lemma rerr_finish_ok: "wf_node s \<Longrightarrow> ok s (rerr_finish d s)"
  by (simp add: rerr_finish_def Let_def for_enabled_devs_send_ok aodv_socket_send_ok ok_refl
      split: option.split)

lemma rerr_finish_frame [simp]:
  "rt_tbl (rerr_finish d s) = rt_tbl s" "tq (rerr_finish d s) = tq s"
  "conf (rerr_finish d s) = conf s" "PQ (rerr_finish d s) = PQ s" "status (rerr_finish d s) = status s"
  by (simp_all add: rerr_finish_def Let_def for_enabled_devs_frame [where g = rt_tbl]
      for_enabled_devs_frame [where g = tq] for_enabled_devs_frame [where g = conf]
      for_enabled_devs_frame [where g = PQ] for_enabled_devs_frame [where g = status]
      split: option.split)

section \<open>What a send adds to the trace\<close>

definition sends_only :: "bytes \<Rightarrow> u8 \<Rightarrow> node \<Rightarrow> node \<Rightarrow> bool" where
  "sends_only bs ttl s s' \<longleftrightarrow>
     send_buf (sk s') = send_buf (sk s) \<and>
     (\<exists>new. sent s' = sent s @ new \<and> (\<forall>x \<in> set new. fst x = bs \<and> fst (snd (snd x)) = ttl))"

lemma sends_only_refl: "sends_only bs ttl s s"
  by (simp add: sends_only_def)

lemma sends_only_trans: "sends_only bs ttl s s' \<Longrightarrow> sends_only bs ttl s' s'' \<Longrightarrow> sends_only bs ttl s s''"
  unfolding sends_only_def by (metis UnE append_assoc set_append)

lemma aodv_socket_send_only:
  assumes "wf_node s"
  shows "sends_only (take len (send_buf (sk s))) ttl s (aodv_socket_send dst len ttl dev s)"
proof -
  have "send_buf k = send_buf (sk s)" if "ratel_socket t ty (sk s) = Some k" for t ty k
    using ratel_socket_wf(2) [OF that invD(9) [OF assms]] .
  then show ?thesis
    by (auto simp: sends_only_def aodv_socket_send_def Let_def split: option.split)
      (auto simp: sent_def)
qed

lemma broadcast_fold_only:
  assumes "wf_node s"
  shows "sends_only (take len (send_buf (sk s))) ttl s
    (fold (\<lambda>i s. if enabled (DEV_NR s i) then aodv_socket_send dst len ttl (DEV_NR s i) s else s) is s)"
  using assms
proof (induction "is" arbitrary: s)
  case (Cons i "is")
  let ?s1 = "if enabled (DEV_NR s i) then aodv_socket_send dst len ttl (DEV_NR s i) s else s"
  have 1: "sends_only (take len (send_buf (sk s))) ttl s ?s1"
    using aodv_socket_send_only [OF Cons.prems] by (simp add: sends_only_refl)
  have "wf_node ?s1" using ok_inv [OF aodv_socket_send_ok [OF Cons.prems]] Cons.prems by simp
  note 2 = Cons.IH [OF this]
  have "send_buf (sk ?s1) = send_buf (sk s)" using 1 by (simp add: sends_only_def)
  from sends_only_trans [OF 1 2 [unfolded this]] show ?case by simp
qed (simp add: sends_only_refl)

lemma broadcast_only:
  "wf_node s \<Longrightarrow>
     sends_only (take len (send_buf (sk s))) ttl s (for_enabled_devs (aodv_socket_send dst len ttl) s)"
  unfolding for_enabled_devs_def by (rule broadcast_fold_only)

lemma rerr_finish_only:
  assumes "wf_node s"
  shows "sends_only (take (RERR_CALC_SIZE (rerr_count s)) (send_buf (sk s))) 1 s (rerr_finish d s)"
  using aodv_socket_send_only [OF assms] broadcast_only [OF assms]
  by (simp add: rerr_finish_def Let_def sends_only_refl split: option.split)

text \<open>
  A message of the given type can be sent: some interface is enabled, the TTL can be set, and the
  rate limit, if there is one, is not exhausted.
\<close>

definition can_send :: "u8 \<Rightarrow> node \<Rightarrow> bool" where
  "can_send ty s \<longleftrightarrow>
     (\<exists>i \<in> set [0..<MAX_NR_INTERFACES]. enabled (DEV_NR s i)) \<and> (\<forall>fd t. ttl_ok s fd t) \<and>
     (ratelimit (conf s) \<longrightarrow> ratel_socket (clock s) ty (sk s) \<noteq> None)"

text \<open>What has been sent, and the part of the state the condition depends on.\<close>

definition radio :: "node \<Rightarrow> (bytes \<times> addr \<times> u8 \<times> int) list \<times> (int \<Rightarrow> u8 \<Rightarrow> bool) \<times>
    timeval list \<times> nat \<times> timeval list \<times> nat" where
  "radio s = (sent s, ttl_ok s, rreq_ratel (sk s), num_rreq (sk s), rerr_ratel (sk s), num_rerr (sk s))"

lemma radio_sent: "radio s' = radio s \<Longrightarrow> sent s' = sent s"
  by (simp add: radio_def)

lemma can_send_cong:
  "radio s' = radio s \<Longrightarrow> statics s' = statics s \<Longrightarrow> can_send ty s' = can_send ty s"
  by (simp add: radio_def can_send_def statics_def DEV_NR_def ratel_socket_def)

lemma upd_send_buf_radio [simp]: "radio (upd_send_buf f s) = radio s"
  by (simp add: radio_def upd_send_buf_def sent_def)

lemma ttl_ok_frame [simp]:
  "ttl_ok (tm_set t m s) = ttl_ok s" "ttl_ok (tm_remove t s) = ttl_ok s" "ttl_ok (tm_handler t h s) = ttl_ok s"
  "ttl_ok (upd_rt p g s) = ttl_ok s" "ttl_ok (upd_active c s) = ttl_ok s"
  "ttl_ok (nl_send_del_route_msg a b k s) = ttl_ok s" "ttl_ok (nl_send_add_route_msg a b k i s) = ttl_ok s"
  by (simp_all add: tm_set_def tm_remove_def tm_handler_def upd_rt_def upd_active_def abort_def
      nl_send_del_route_msg_def nl_send_add_route_msg_def nl_kern_route_def nl_send_def emit_def Let_def
      split: option.split)

lemma radio_frame [simp]:
  "radio (rerr_create f d n s) = radio s" "radio (rerr_add_udest d n s) = radio s"
  "radio (precursor_list_destroy p s) = radio s" "radio (upd_rt p g s) = radio s"
  "radio (tm_set t m s) = radio s" "radio (tm_handler t h s) = radio s"
  "radio (s\<lparr>this_host := hst\<rparr>) = radio s" "radio (rt_table_update_timeout p l s) = radio s"
  by (simp_all add: rerr_create_def aodv_socket_new_msg_def rerr_add_udest_def)
    (simp_all add: radio_def abort_def precursor_list_destroy_def rt_table_update_timeout_def upd_rt_def tm_set_def tm_handler_def sent_def
      split: option.split)

lemma nl_radio [simp]:
  "radio (nl_send_del_route_msg a b k s) = radio s" "radio (nl_send_add_route_msg a b k i s) = radio s"
  by (simp_all add: radio_def)

lemma rt_table_invalidate_radio [simp]: "radio (rt_table_invalidate p s) = radio s"
  by (simp add: radio_def) (simp add: rt_table_invalidate_def Let_def)

lemma aodv_socket_send_sends:
  assumes "can_send (send_buf (sk s) ! 0) s" "send_buf (sk s) ! 0 \<noteq> AODV_RREP"
  shows "sent (aodv_socket_send dst len ttl dev s) \<noteq> sent s"
proof (cases "ratelimit (conf s)")
  case True
  then obtain k where "ratel_socket (clock s) (send_buf (sk s) ! 0) (sk s) = Some k"
    using assms(1) by (auto simp: can_send_def)
  with assms True show ?thesis by (simp add: aodv_socket_send_def Let_def can_send_def) (simp add: sent_def)
next
  case False
  with assms show ?thesis by (simp add: aodv_socket_send_def Let_def can_send_def) (simp add: sent_def)
qed

lemma for_enabled_devs_sends:
  assumes "wf_node s" "\<And>dev s. wf_node s \<Longrightarrow> wf_node (g dev s) \<and> (\<exists>new. sent (g dev s) = sent s @ new)"
    and "\<And>dev. sent (g dev s) \<noteq> sent s" "\<exists>i \<in> set [0..<MAX_NR_INTERFACES]. enabled (DEV_NR s i)"
  shows "sent (for_enabled_devs g s) \<noteq> sent s"
proof -
  let ?f = "\<lambda>i s. if enabled (DEV_NR s i) then g (DEV_NR s i) s else s"
  have more: "\<exists>new. sent (fold ?f is s) = sent s @ new" if "wf_node s" for "is" s
    using that
  proof (induction "is" arbitrary: s)
    case (Cons i "is")
    then have "wf_node (?f i s)" "\<exists>new. sent (?f i s) = sent s @ new" using assms(2) by auto
    with Cons.IH [of "?f i s"] show ?case by (auto simp del: if_split)
  qed simp
  have "sent (fold ?f is s) \<noteq> sent s" if "\<exists>i \<in> set is. enabled (DEV_NR s i)" for "is"
    using that
  proof (induction "is")
    case (Cons i "is")
    show ?case
    proof (cases "enabled (DEV_NR s i)")
      case True
      have "wf_node (g (DEV_NR s i) s)" "\<exists>new. sent (g (DEV_NR s i) s) = sent s @ new"
        using assms(1,2) by blast+
      with more [of "g (DEV_NR s i) s" "is"] assms(3) [of "DEV_NR s i"] True show ?thesis by auto
    qed (use Cons in simp)
  qed simp
  then show ?thesis using assms(4) unfolding for_enabled_devs_def by blast
qed

lemma broadcast_sends:
  assumes "wf_node s" "can_send (send_buf (sk s) ! 0) s" "send_buf (sk s) ! 0 \<noteq> AODV_RREP"
  shows "sent (for_enabled_devs (aodv_socket_send dst len ttl) s) \<noteq> sent s"
proof (rule for_enabled_devs_sends [OF assms(1)])
  show "wf_node (aodv_socket_send dst len ttl dev x) \<and>
      (\<exists>new. sent (aodv_socket_send dst len ttl dev x) = sent x @ new)" if "wf_node x" for dev x
    using aodv_socket_send_only [OF that, of len ttl dst dev] ok_inv [OF aodv_socket_send_ok [OF that]]
    by (auto simp: sends_only_def)
qed (use assms aodv_socket_send_sends in \<open>auto simp: can_send_def\<close>)

lemma rerr_finish_sends:
  assumes "wf_node s" "can_send AODV_RERR s" "send_buf (sk s) ! 0 = AODV_RERR" "rerr_count s \<noteq> 0"
  shows "sent (rerr_finish d s) \<noteq> sent s"
proof -
  have "(AODV_RERR :: u8) \<noteq> AODV_RREP" by simp
  then show ?thesis
    using assms aodv_socket_send_sends [of s] broadcast_sends [OF assms(1)]
    by (simp add: rerr_finish_def Let_def word_gt_0 split: option.split)
qed

text \<open>The demonstration node has a free slot left for a message of any type.\<close>

lemma demo_can_send: "can_send ty demo_routes"
  by (simp add: can_send_def demo_routes_def demo_node_def demo_host_def demo_dev_def demo_socket_def DEV_NR_def
      ratel_socket_def ratel_check_def upt_rec)

section \<open>What the buffer holds\<close>

text \<open>The destinations a receiver of the message reads, with sequence numbers in host order.\<close>

definition rerr_decode :: "bytes \<Rightarrow> (addr \<times> u32) list" where
  "rerr_decode b = map (\<lambda>(a, n). (a, ntohl n)) (rerr_dests b)"

definition rerr_view :: "node \<Rightarrow> (addr \<times> u32) list" where
  "rerr_view s = rerr_decode (send_buf (sk s))"

text \<open>The bytes sent are enough to decode the message.\<close>

lemma rerr_decode_take:
  assumes "n = RERR_CALC_SIZE (re_dest_count (get_RERR b))" "n \<le> length b"
  shows "rerr_decode (take n b) = rerr_decode b"
proof -
  let ?c = "unat (re_dest_count (get_RERR b))"
  have n: "n = 4 + 8 * ?c" using assms(1) by (simp add: RERR_CALC_SIZE_eq)
  have "get_RERR (take n b) = get_RERR b" by (simp add: get_RERR_def n)
  moreover have "get_udest (take n b) i = get_udest b i" if "i < ?c" for i
    using that by (simp add: get_udest_def get32_def n)
  ultimately show ?thesis by (simp add: rerr_decode_def rerr_dests_def)
qed

lemma get_RERR_put_udest: "4 \<le> length b \<Longrightarrow> get_RERR (put_udest i u b) = get_RERR b"
  by (auto simp: get_RERR_def put_udest_def nth_append)

lemma get_udest_put_RERR: "4 \<le> length b \<Longrightarrow> get_udest (put_RERR h b) i = get_udest b i"
proof -
  assume "4 \<le> length b"
  then have "get32 (rerr_bytes h @ drop 4 b) (4 + k) = get32 (take 4 b @ drop 4 b) (4 + k)" for k
    by (subst (1 2) get32_skip) simp_all
  from this [of "8 * i"] this [of "4 + 8 * i"] show ?thesis
    by (simp add: get_udest_def put_RERR_def)
qed

lemma rerr_view_create:
  assumes "wf_node s"
  shows "rerr_view (rerr_create f d n s) = [(d, n)]" "rerr_count (rerr_create f d n s) = 1"
    "send_buf (sk (rerr_create f d n s)) ! 0 = AODV_RERR"
proof -
  let ?h = "\<lparr>re_type = AODV_RERR, re_res1 = 0, re_n = (f AND RERR_NODELETE \<noteq> 0), re_res2 = 0,
    re_dest_count = 1\<rparr>"
  define b where "b = put_udest 0 (d, htonl n) (put_RERR ?h (replicate 812 0))"
  have b: "send_buf (sk (rerr_create f d n s)) = b"
    by (simp add: rerr_create_def aodv_socket_new_msg_def b_def)
  have h: "get_RERR b = ?h" by (simp add: b_def get_RERR_put_udest get_put_RERR)
  then show "rerr_count (rerr_create f d n s) = 1" by (simp add: b)
  have "get_udest b 0 = (d, htonl n)" by (simp add: b_def get_udest_put)
  then show "rerr_view (rerr_create f d n s) = [(d, n)]"
    by (simp add: rerr_view_def rerr_decode_def rerr_dests_def b h)
  have "re_type (get_RERR b) = b ! 0" by (simp add: get_RERR_def)
  then show "send_buf (sk (rerr_create f d n s)) ! 0 = AODV_RERR" by (simp add: b h)
qed

lemma rerr_view_add:
  assumes "wf_node s" "unat (rerr_count s) < 101"
  shows "rerr_view (rerr_add_udest d n s) = rerr_view s @ [(d, n)]"
    "unat (rerr_count (rerr_add_udest d n s)) = Suc (unat (rerr_count s))"
    "status (rerr_add_udest d n s) = status s"
    "send_buf (sk (rerr_add_udest d n s)) ! 0 = send_buf (sk s) ! 0"
proof -
  let ?b = "send_buf (sk s)" and ?c = "unat (rerr_count s)"
  let ?h = "(get_RERR ?b)\<lparr>re_dest_count := rerr_count s + 1\<rparr>"
  let ?b' = "put_RERR ?h (put_udest ?c (d, htonl n) ?b)"
  have len: "length ?b = 812" by (rule send_buf_length [OF assms(1)])
  have eq: "rerr_add_udest d n s = upd_send_buf (\<lambda>_. ?b') s"
    using assms(2) by (simp add: rerr_add_udest_def RERR_CALC_SIZE_eq Let_def upd_send_buf_def)
  show "status (rerr_add_udest d n s) = status s" by (simp add: eq)
  have "?b' ! 0 = re_type ?h" by (simp add: put_RERR_def rerr_bytes_def)
  then show "send_buf (sk (rerr_add_udest d n s)) ! 0 = ?b ! 0" by (simp add: eq get_RERR_def)
  have cnt: "unat (rerr_count s + 1) = Suc ?c"
    using assms(2) by (simp add: unat_word_ariths)
  have h: "re_dest_count (get_RERR ?b') = rerr_count s + 1"
    by (simp add: get_put_RERR)
  show "unat (rerr_count (rerr_add_udest d n s)) = Suc ?c"
    by (simp add: eq h cnt)
  have "get_udest ?b' i = (if i = ?c then (d, htonl n) else get_udest ?b i)" if "i \<le> ?c" for i
    using that assms(2) len by (simp add: get_udest_put_RERR get_udest_put)
  then show "rerr_view (rerr_add_udest d n s) = rerr_view s @ [(d, n)]"
    by (simp add: rerr_view_def rerr_decode_def rerr_dests_def eq h cnt)
qed

section \<open>Properties\<close>

definition rerr_build :: "u8 \<Rightarrow> addr \<times> u32 \<Rightarrow> (addr \<times> u32) list \<Rightarrow> node \<Rightarrow> node" where
  "rerr_build f d us s =
     fold (\<lambda>u. rerr_add_udest (fst u) (snd u)) us (rerr_create f (fst d) (snd d) s)"

lemma rerr_build_snoc: "rerr_build f d (us @ [u]) s = rerr_add_udest (fst u) (snd u) (rerr_build f d us s)"
  by (simp add: rerr_build_def)

lemma rerr_build_view:
  assumes "wf_node s" "length us \<le> 100"
  shows "ok s (rerr_build f d us s) \<and> rerr_view (rerr_build f d us s) = d # us \<and>
         unat (rerr_count (rerr_build f d us s)) = Suc (length us) \<and>
         status (rerr_build f d us s) = status s"
  using assms(2)
proof (induction us rule: rev_induct)
  case Nil
  then show ?case
    using rerr_create_ok [OF assms(1)] rerr_view_create [OF assms(1)] by (simp add: rerr_build_def)
next
  case (snoc u us)
  then have IH: "ok s (rerr_build f d us s)" "rerr_view (rerr_build f d us s) = d # us"
    "unat (rerr_count (rerr_build f d us s)) = Suc (length us)" "status (rerr_build f d us s) = status s"
    by simp_all
  from rerr_view_add [OF ok_inv [OF IH(1)]] IH(3) snoc.prems
  have "rerr_view (rerr_build f d (us @ [u]) s) = d # us @ [u]"
    "unat (rerr_count (rerr_build f d (us @ [u]) s)) = Suc (Suc (length us))"
    "status (rerr_build f d (us @ [u]) s) = status s"
    unfolding rerr_build_snoc using IH(2,4) by simp_all
  moreover have "ok s (rerr_build f d (us @ [u]) s)"
    unfolding rerr_build_snoc by (rule ok_trans [OF IH(1) rerr_add_udest_ok [OF ok_inv [OF IH(1)]]])
  ultimately show ?case by simp
qed

text \<open>
  C18. A route error built with \<open>rerr_create\<close> and at most 100 calls of \<open>rerr_add_udest\<close> decodes to
  exactly the destinations and sequence numbers put in, in order, and \<open>RERR_CALC_SIZE\<close> is the
  number of bytes used.
\<close>

theorem rerr_roundtrip:
  assumes "wf_node s" and "length us \<le> 100"
  shows "rerr_view (rerr_build f d us s) = d # us \<and> status (rerr_build f d us s) = status s \<and>
         RERR_CALC_SIZE (rerr_count (rerr_build f d us s)) = 12 + 8 * length us"
  using rerr_build_view [OF assms] by (simp add: RERR_CALC_SIZE_eq)

theorem rerr_roundtrip_witness:
  "rerr_view (rerr_build 0 (0x0200000A, 5) [(0x0300000A, 9), (0x0400000A, 0)] demo_node)
     = [(0x0200000A, 5), (0x0300000A, 9), (0x0400000A, 0)]"
  using rerr_roundtrip [OF demo_node_wf, of "[(0x0300000A, 9), (0x0400000A, 0)]" 0 "(0x0200000A, 5)"]
  by simp

text \<open>
  There is no bound in \<open>rerr_add_udest\<close>: the 102nd destination of a route error is written
  behind the end of the send buffer.
\<close>

theorem rerr_overrun:
  assumes "wf_node s" and "status s = Running" and "length us = 101"
  shows "status (rerr_build f d us s) = Overrun"
proof -
  from assms(3) obtain vs u where us: "us = vs @ [u]" "length vs = 100"
    by (cases us rule: rev_cases) auto
  then show ?thesis
    using rerr_build_view [OF assms(1), of vs f d] assms(2)
    by (simp add: rerr_build_snoc rerr_add_udest_def RERR_CALC_SIZE_eq abort_def)
qed

theorem rerr_overrun_witness:
  "status (rerr_build 0 (0x0200000A, 5) (replicate 101 (0x0300000A, 1)) demo_node) = Overrun"
  by (rule rerr_overrun [OF demo_node_wf]) (simp_all add: demo_node_def)

end
