(* ===== verification/Neighbor.thy ===== *)
theory Neighbor
  imports Rerr
begin

text \<open>
  Link breaks, \<open>neighbor_link_break\<close> of \<open>src/protocol/aodv_neighbor.c\<close>: the route to a lost
  neighbour and every valid route through it become invalid, and one route error names them.
  (\<open>neighbor_add\<close> is in \<open>Hello\<close>.)

  The double loop over the buckets of the table is a fold over \<open>entries\<close>: the body invalidates
  entries but never changes the lists.  Its local variables are a triple: whether a RERR has
  been created in the send buffer, the unicast destination, and the state.
\<close>

section \<open>Operations\<close>

text \<open>An entry the break makes unreachable.\<close>

definition uses_link :: "ptr \<Rightarrow> ptr \<Rightarrow> node \<Rightarrow> bool" where
  "uses_link p u s \<longleftrightarrow>
     rt_state (rt s u) = VALID \<and> rt_next_hop (rt s u) = rt_dest_addr (rt s p) \<and>
     rt_dest_addr (rt s u) \<noteq> rt_dest_addr (rt s p)"

text \<open>Add an unreachable destination with precursors to the RERR, or start one with it.\<close>

definition link_break_report :: "ptr \<Rightarrow> bool \<times> addr \<times> node \<Rightarrow> bool \<times> addr \<times> node" where
  "link_break_report u st =
     (case st of (rerr, dst, s) \<Rightarrow>
        let e = rt s u in
        if rt_nprec e = 0 then (rerr, dst, s)
        else if \<not> rerr then
          (True, (if rt_nprec e = 1 then hd (rt_precursors e) else dst),
           rerr_create 0 (rt_dest_addr e) (rt_dest_seqno e) s)
        else
          (True, (if dst \<noteq> 0 \<and> (\<exists>a \<in> set (rt_precursors e). a \<noteq> dst) then 0 else dst),
           rerr_add_udest (rt_dest_addr e) (rt_dest_seqno e) s))"

definition link_break_step :: "ptr \<Rightarrow> ptr \<Rightarrow> bool \<times> addr \<times> node \<Rightarrow> bool \<times> addr \<times> node" where
  "link_break_step p u st =
     (case st of (rerr, dst, s) \<Rightarrow>
        if \<not> uses_link p u s then (rerr, dst, s)
        else if flag (rt_flags (rt s p)) RT_REPAIR \<and> uint (rt_hcnt (rt s u)) \<le> MAX_REPAIR_TTL then
          (rerr, dst, rt_table_invalidate u
             (upd_rt u (\<lambda>e. e\<lparr>rt_flags := rt_flags e OR RT_REPAIR\<rparr>) s))
        else
          (case link_break_report u (rerr, dst, rt_table_invalidate u s) of
             (rerr', dst', s') \<Rightarrow> (rerr', dst', precursor_list_destroy u s')))"

text \<open>The part in front of the loop: invalidate the neighbour, start the RERR, purge precursors.\<close>

definition link_break_start :: "ptr \<Rightarrow> node \<Rightarrow> bool \<times> addr \<times> node" where
  "link_break_start p s =
     (let s1 = rt_table_invalidate p s;
          repair = flag (rt_flags (rt s1 p)) RT_REPAIR;
          (rerr, dst, s2) = (if repair then (False, 0, s1) else link_break_report p (False, 0, s1))
      in (rerr, dst, if repair then s2 else precursor_list_destroy p s2))"

definition neighbor_link_break :: "ptr \<Rightarrow> node \<Rightarrow> node" where
  "neighbor_link_break p s =
     (if rt_hcnt (rt s p) \<noteq> 1 then s
      else
        case fold (link_break_step p) (entries (rt_tbl s)) (link_break_start p s) of
          (rerr, dst, s') \<Rightarrow> if rerr then rerr_finish dst s' else s')"

section \<open>Invariant\<close>

lemma link_break_report_ok:
  assumes "wf_node s"
  shows "ok s (snd (snd (link_break_report u (r, d, s))))"
  by (simp add: link_break_report_def Let_def ok_refl assms rerr_create_ok rerr_add_udest_ok)

lemma link_break_report_frame [simp]:
  "rt_tbl (snd (snd (link_break_report u st))) = rt_tbl (snd (snd st))"
  by (simp add: link_break_report_def Let_def split: prod.split)

lemma repair_flag_ok: "wf_node s \<Longrightarrow> ok s (upd_rt u (\<lambda>e. e\<lparr>rt_flags := f e\<rparr>) s)"
  by (rule upd_rt_ok) (simp_all add: entry_wf_def)

lemma link_break_step_ok:
  assumes "wf_node s" "u \<in> live s"
  shows "ok s (snd (snd (link_break_step p u (r, d, s))))"
proof -
  let ?s1 = "upd_rt u (\<lambda>e. e\<lparr>rt_flags := rt_flags e OR RT_REPAIR\<rparr>) s"
  have 1: "ok s ?s1" by (rule repair_flag_ok [OF assms(1)])
  have "ok s (rt_table_invalidate u ?s1)"
    using ok_trans [OF 1 rt_table_invalidate_ok [OF ok_inv [OF 1] ok_live [OF 1 assms(2)]]] .
  moreover have 2: "ok s (rt_table_invalidate u s)" by (rule rt_table_invalidate_ok [OF assms])
  then have "ok s (snd (snd (link_break_report u (r, d, rt_table_invalidate u s))))"
    using link_break_report_ok [OF ok_inv [OF 2]] ok_trans by blast
  then have "ok s (precursor_list_destroy u (snd (snd (link_break_report u (r, d, rt_table_invalidate u s)))))"
    using precursor_list_destroy_ok ok_inv ok_trans by blast
  ultimately show ?thesis
    using assms(1) by (simp add: link_break_step_def case_prod_beta ok_refl)
qed

lemma link_break_fold_ok:
  assumes "wf_node s" "set us \<subseteq> live s"
  shows "ok s (snd (snd (fold (link_break_step p) us (r, d, s))))"
  using assms
proof (induction us arbitrary: r d s)
  case (Cons u us)
  obtain r' d' s' where st: "link_break_step p u (r, d, s) = (r', d', s')" by (metis prod.exhaust)
  have 1: "ok s s'" using link_break_step_ok [of s u p r d] Cons.prems st by simp
  then have "set us \<subseteq> live s'" using Cons.prems ok_live by auto
  from ok_trans [OF 1 Cons.IH [OF ok_inv [OF 1] this]] show ?case by (simp add: st)
qed (simp add: ok_refl)

lemma link_break_start_ok:
  assumes "wf_node s" "p \<in> live s"
  shows "ok s (snd (snd (link_break_start p s)))"
proof -
  let ?s1 = "rt_table_invalidate p s"
  have 1: "ok s ?s1" by (rule rt_table_invalidate_ok [OF assms])
  then have 2: "ok s (snd (snd (link_break_report p (False, 0, ?s1))))"
    using link_break_report_ok [OF ok_inv [OF 1]] ok_trans by blast
  then have "ok s (precursor_list_destroy p (snd (snd (link_break_report p (False, 0, ?s1)))))"
    using precursor_list_destroy_ok ok_inv ok_trans by blast
  with 1 show ?thesis by (simp add: link_break_start_def Let_def case_prod_beta)
qed

lemma neighbor_link_break_ok:
  assumes "wf_node s" "p \<in> live s"
  shows "ok s (neighbor_link_break p s)"
proof (cases "rt_hcnt (rt s p) = 1")
  case True
  obtain r0 d0 s0 where 0: "link_break_start p s = (r0, d0, s0)" by (metis prod.exhaust)
  have start: "ok s s0" using link_break_start_ok [OF assms] 0 by simp
  obtain r d s' where l: "fold (link_break_step p) (entries (rt_tbl s)) (r0, d0, s0) = (r, d, s')"
    by (metis prod.exhaust)
  have "ok s0 s'"
    using link_break_fold_ok [OF ok_inv [OF start], of "entries (rt_tbl s)" p r0 d0] ok_live [OF start] l
    by auto
  with start have loop: "ok s s'" by (rule ok_trans)
  then have "ok s (rerr_finish d s')" using rerr_finish_ok ok_inv ok_trans by blast
  with loop show ?thesis using True by (simp add: neighbor_link_break_def 0 l)
qed (simp add: neighbor_link_break_def ok_refl assms)

section \<open>The entries after a link break\<close>

definition broken_entry :: "rt_table \<Rightarrow> rt_table \<Rightarrow> rt_table" where
  "broken_entry r e =
     (if flag (rt_flags r) RT_REPAIR \<and> uint (rt_hcnt e) \<le> MAX_REPAIR_TTL
      then invalidated (e\<lparr>rt_flags := rt_flags e OR RT_REPAIR\<rparr>)
      else (invalidated e)\<lparr>rt_precursors := [], rt_nprec := rt_nprec e - int (length (rt_precursors e))\<rparr>)"

lemma broken_entry_invalid [simp]: "rt_state (broken_entry r e) = INVALID"
  by (simp add: broken_entry_def invalidated_def)

lemma uses_link_self [simp]: "\<not> uses_link p p s"
  by (simp add: uses_link_def)

lemma uses_link_cong: "rt s' p = rt s p \<Longrightarrow> rt s' u = rt s u \<Longrightarrow> uses_link p u s' = uses_link p u s"
  by (simp add: uses_link_def)

lemma link_break_step_entry:
  "rt (snd (snd (link_break_step p u (r, d, s)))) v =
     (if v = u \<and> uses_link p u s then broken_entry (rt s p) (rt s u) else rt s v)"
proof (cases "uses_link p u s")
  case True
  then have valid: "rt_state (rt s u) = VALID" by (simp add: uses_link_def)
  show ?thesis
  proof (cases "flag (rt_flags (rt s p)) RT_REPAIR \<and> uint (rt_hcnt (rt s u)) \<le> MAX_REPAIR_TTL")
    case repair: True
    then have "snd (snd (link_break_step p u (r, d, s))) =
        rt_table_invalidate u (upd_rt u (\<lambda>e. e\<lparr>rt_flags := rt_flags e OR RT_REPAIR\<rparr>) s)"
      using True by (simp add: link_break_step_def)
    with True repair valid show ?thesis by (simp add: rt_table_invalidate_entry broken_entry_def)
  next
    case no_repair: False
    then have "snd (snd (link_break_step p u (r, d, s))) =
        precursor_list_destroy u (snd (snd (link_break_report u (r, d, rt_table_invalidate u s))))"
      using True by (auto simp: link_break_step_def case_prod_beta)
    moreover have "broken_entry (rt s p) (rt s u) = (invalidated (rt s u))
        \<lparr>rt_precursors := [], rt_nprec := rt_nprec (rt s u) - int (length (rt_precursors (rt s u)))\<rparr>"
      using no_repair by (auto simp: broken_entry_def)
    ultimately show ?thesis
      using True valid
      by (simp add: rt_table_invalidate_entry precursor_list_destroy_eq) (simp add: invalidated_def)
  qed
qed (simp add: link_break_step_def)

lemma link_break_fold_entry:
  assumes "distinct us"
  shows "rt (snd (snd (fold (link_break_step p) us (r, d, s)))) v =
     (if v \<in> set us \<and> uses_link p v s then broken_entry (rt s p) (rt s v) else rt s v)"
  using assms
proof (induction us arbitrary: r d s)
  case (Cons u us)
  obtain r' d' s' where st: "link_break_step p u (r, d, s) = (r', d', s')" by (metis prod.exhaust)
  have entry: "rt s' v = (if v = u \<and> uses_link p u s then broken_entry (rt s p) (rt s u) else rt s v)" for v
    using link_break_step_entry [of p u r d s v] st by simp
  have p: "rt s' p = rt s p" using entry [of p] by auto
  have "uses_link p v s' = uses_link p v s" if "v \<in> set us" for v
    using that Cons.prems entry [of v] by (intro uses_link_cong p) auto
  moreover have "rt s' v = rt s v" if "v \<in> set us" using that Cons.prems entry [of v] by auto
  ultimately show ?case
    using Cons entry [of v] p by (auto simp: st)
qed simp

lemma link_break_start_entry:
  "rt (snd (snd (link_break_start p s))) v = (if v = p then rt (snd (snd (link_break_start p s))) p else rt s v)"
  by (simp add: link_break_start_def Let_def case_prod_beta rt_table_invalidate_entry
      precursor_list_destroy_eq)

lemma link_break_start_self:
  "rt_state (rt (snd (snd (link_break_start p s))) p) = INVALID"
  "rt_dest_addr (rt (snd (snd (link_break_start p s))) p) = rt_dest_addr (rt s p)"
  "rt_flags (rt (snd (snd (link_break_start p s))) p) = rt_flags (rt s p)"
  by (cases "rt_state (rt s p)"; simp add: link_break_start_def Let_def case_prod_beta
      rt_table_invalidate_entry precursor_list_destroy_eq invalidated_def)+

lemma neighbor_link_break_entries:
  assumes "wf_node s" "p \<in> live s" "rt_hcnt (rt s p) = 1"
  shows "rt_state (rt (neighbor_link_break p s) p) = INVALID"
    and "v \<noteq> p \<Longrightarrow> v \<in> live s \<Longrightarrow> rt (neighbor_link_break p s) v =
           (if uses_link p v s then broken_entry (rt s p) (rt s v) else rt s v)"
proof -
  obtain r0 d0 s0 where 0: "link_break_start p s = (r0, d0, s0)" by (metis prod.exhaust)
  have s0: "rt s0 v = rt s v" if "v \<noteq> p" for v using link_break_start_entry [of p s v] 0 that by simp
  have self: "rt_state (rt s0 p) = INVALID" "rt_dest_addr (rt s0 p) = rt_dest_addr (rt s p)"
    "rt_flags (rt s0 p) = rt_flags (rt s p)"
    using link_break_start_self [of p s] 0 by simp_all
  have dist: "distinct (entries (rt_tbl s))" by (rule table_wfD(2) [OF invD(2) [OF assms(1)]])
  have fin: "rt (neighbor_link_break p s) =
      rt (snd (snd (fold (link_break_step p) (entries (rt_tbl s)) (r0, d0, s0))))"
    using assms(3) by (simp add: neighbor_link_break_def 0 case_prod_beta)
  show "rt_state (rt (neighbor_link_break p s) p) = INVALID"
    unfolding fin using self by (simp add: link_break_fold_entry [OF dist])
  show "rt (neighbor_link_break p s) v =
      (if uses_link p v s then broken_entry (rt s p) (rt s v) else rt s v)" if "v \<noteq> p" "v \<in> live s"
  proof -
    have "uses_link p v s0 = uses_link p v s"
      using s0 [OF that(1)] self by (simp add: uses_link_def)
    moreover have "broken_entry (rt s0 p) (rt s v) = broken_entry (rt s p) (rt s v)"
      using self by (simp add: broken_entry_def)
    ultimately show ?thesis
      unfolding fin using that s0 [OF that(1)] by (simp add: link_break_fold_entry [OF dist])
  qed
qed

text \<open>
  C1. After the link to a neighbour has broken, no valid route has that neighbour as its next
  hop; routes that did not use it are exactly as before, and those that did have their sequence
  number incremented.
\<close>

theorem neighbor_link_break_correct:
  assumes "wf_node s" and "p \<in> live s" and "rt_hcnt (rt s p) = 1"
  shows "wf_node (neighbor_link_break p s) \<and> rt_state (rt (neighbor_link_break p s) p) = INVALID \<and>
    (\<forall>u \<in> live s.
       (rt_state (rt (neighbor_link_break p s) u) = VALID \<longrightarrow>
          rt_next_hop (rt (neighbor_link_break p s) u) \<noteq> rt_dest_addr (rt s p)) \<and>
       (u \<noteq> p \<longrightarrow> uses_link p u s \<longrightarrow>
          rt_dest_seqno (rt (neighbor_link_break p s) u) = seqno_incr (rt_dest_seqno (rt s u))) \<and>
       (u \<noteq> p \<longrightarrow> \<not> uses_link p u s \<longrightarrow> rt (neighbor_link_break p s) u = rt s u))"
proof (intro conjI ballI impI)
  note e = neighbor_link_break_entries [OF assms]
  show "wf_node (neighbor_link_break p s)" by (rule ok_inv [OF neighbor_link_break_ok [OF assms(1,2)]])
  show "rt_state (rt (neighbor_link_break p s) p) = INVALID" by (rule e(1))
  fix u
  assume u: "u \<in> live s"
  show "rt_next_hop (rt (neighbor_link_break p s) u) \<noteq> rt_dest_addr (rt s p)"
    if "rt_state (rt (neighbor_link_break p s) u) = VALID"
  proof -
    have up: "u \<noteq> p" using that e(1) by auto
    then have "rt_dest_addr (rt s u) \<noteq> rt_dest_addr (rt s p)"
      using rts.key_inj [OF assms(1) u assms(2)] by blast
    with that e(2) [OF up u] show ?thesis by (auto simp: uses_link_def split: if_splits)
  qed
  show "rt_dest_seqno (rt (neighbor_link_break p s) u) = seqno_incr (rt_dest_seqno (rt s u))"
    if "u \<noteq> p" "uses_link p u s"
    using e(2) [OF that(1) u] that(2) by (simp add: broken_entry_def invalidated_def)
  show "rt (neighbor_link_break p s) u = rt s u" if "u \<noteq> p" "\<not> uses_link p u s"
    using e(2) [OF that(1) u] that(2) by simp
qed

theorem neighbor_link_break_correct_witness:
  "rt_state (rt (neighbor_link_break 0 demo_routes) 0) = INVALID \<and>
   rt_dest_seqno (rt (neighbor_link_break 0 demo_routes) 1) = 10"
proof -
  have "0 \<in> live demo_routes" "1 \<in> live demo_routes"
    by (simp_all add: demo_routes_def entries_demo_table)
  moreover have "rt_hcnt (rt demo_routes 0) = 1" "uses_link 0 1 demo_routes" "rt_dest_seqno (rt demo_routes 1) = 9"
    by (simp_all add: uses_link_def demo_routes_def demo_table_def neighbour_route_def far_route_def
        no_route_def)
  ultimately show ?thesis
    using neighbor_link_break_correct [OF demo_routes_wf, of 0] by (simp add: seqno_incr_def)
qed

section \<open>The route error of a link break\<close>

definition report :: "rt_table \<Rightarrow> addr \<times> u32" where
  "report e = (rt_dest_addr e, seqno_incr (rt_dest_seqno e))"

text \<open>The route error under construction holds the list \<open>L\<close>.\<close>

definition rerr_holds :: "bool \<Rightarrow> node \<Rightarrow> (addr \<times> u32) list \<Rightarrow> bool" where
  "rerr_holds r s L \<longleftrightarrow>
     (r \<longleftrightarrow> L \<noteq> []) \<and>
     (r \<longrightarrow> rerr_view s = L \<and> unat (rerr_count s) = length L \<and> send_buf (sk s) ! 0 = AODV_RERR)"

lemma rerr_holds_frame [simp]:
  "rerr_holds r (rt_table_invalidate u s) L = rerr_holds r s L"
  "rerr_holds r (precursor_list_destroy u s) L = rerr_holds r s L"
  by (simp_all add: rerr_holds_def rerr_view_def)

lemma link_break_report_holds:
  assumes "wf_node s" "rerr_holds r s L" "length L < 101"
    and "link_break_report u (r, d, s) = (r', d', s')" "rt_nprec (rt s u) \<noteq> 0"
  shows "rerr_holds r' s' (L @ [(rt_dest_addr (rt s u), rt_dest_seqno (rt s u))]) \<and>
    status s' = status s \<and> radio s' = radio s"
proof (cases r)
  case False
  then have "s' = rerr_create 0 (rt_dest_addr (rt s u)) (rt_dest_seqno (rt s u)) s" "r'" "L = []"
    using assms by (auto simp: link_break_report_def Let_def rerr_holds_def)
  then show ?thesis
    using rerr_view_create [OF assms(1)] by (simp add: rerr_holds_def)
next
  case True
  then have "s' = rerr_add_udest (rt_dest_addr (rt s u)) (rt_dest_seqno (rt s u)) s" "r'"
    "rerr_view s = L" "unat (rerr_count s) = length L" "L \<noteq> []" "send_buf (sk s) ! 0 = AODV_RERR"
    using assms by (auto simp: link_break_report_def Let_def rerr_holds_def)
  then show ?thesis
    using rerr_view_add [OF assms(1)] assms(3) by (simp add: rerr_holds_def)
qed

definition link_reports :: "ptr \<Rightarrow> node \<Rightarrow> ptr list \<Rightarrow> (addr \<times> u32) list" where
  "link_reports p s us =
     map (\<lambda>u. report (rt s u)) (filter (\<lambda>u. uses_link p u s \<and> rt_nprec (rt s u) \<noteq> 0) us)"

lemma link_break_step_holds:
  assumes "wf_node s" "u \<in> live s" "rerr_holds r s L" "\<not> flag (rt_flags (rt s p)) RT_REPAIR"
    and "link_break_step p u (r, d, s) = (r', d', s')"
    and "length L + length (link_reports p s [u]) \<le> 101"
  shows "rerr_holds r' s' (L @ link_reports p s [u]) \<and> status s' = status s \<and> radio s' = radio s"
proof (cases "uses_link p u s")
  case True
  let ?s1 = "rt_table_invalidate u s"
  obtain s1 where rep: "link_break_report u (r, d, ?s1) = (r', d', s1)"
    and s': "s' = precursor_list_destroy u s1"
    using assms(4,5) True by (auto simp: link_break_step_def split: prod.splits)
  have wf1: "wf_node ?s1" by (rule ok_inv [OF rt_table_invalidate_ok [OF assms(1,2)]])
  have holds1: "rerr_holds r ?s1 L" using assms(3) by simp
  note st1 = rt_table_invalidate_status [OF assms(1,2)]
  have e: "rt ?s1 u = invalidated (rt s u)"
    using True by (simp add: rt_table_invalidate_entry uses_link_def)
  show ?thesis
  proof (cases "rt_nprec (rt s u) = 0")
    case no: True
    then have "(r', d', s1) = (r, d, ?s1)"
      using rep e by (simp add: link_break_report_def invalidated_def)
    with no True holds1 st1 show ?thesis
      by (simp add: s' link_reports_def)
  next
    case False
    have "rerr_holds r' s1 (L @ [report (rt s u)]) \<and> status s1 = status ?s1 \<and> radio s1 = radio ?s1"
      using link_break_report_holds [OF wf1 holds1 _ rep] assms(6) True False
      by (simp add: e invalidated_def report_def link_reports_def)
    with False True st1 show ?thesis
      by (simp add: s' link_reports_def)
  qed
qed (use assms in \<open>simp add: link_break_step_def link_reports_def\<close>)

lemma link_break_fold_holds:
  assumes "wf_node s" "set us \<subseteq> live s" "distinct us" "rerr_holds r s L"
    and "\<not> flag (rt_flags (rt s p)) RT_REPAIR"
    and "fold (link_break_step p) us (r, d, s) = (r', d', s')"
    and "length L + length (link_reports p s us) \<le> 101"
  shows "rerr_holds r' s' (L @ link_reports p s us) \<and> status s' = status s \<and> radio s' = radio s"
  using assms
proof (induction us arbitrary: r d s L)
  case Nil
  then show ?case by (simp add: link_reports_def)
next
  case (Cons u us)
  obtain r1 d1 s1 where st: "link_break_step p u (r, d, s) = (r1, d1, s1)" by (metis prod.exhaust)
  have split: "link_reports p s (u # us) = link_reports p s [u] @ link_reports p s us"
    by (simp add: link_reports_def)
  have entry: "rt s1 v = (if v = u \<and> uses_link p u s then broken_entry (rt s p) (rt s u) else rt s v)" for v
    using link_break_step_entry [of p u r d s v] st by simp
  have p: "rt s1 p = rt s p" using entry [of p] by auto
  have same: "rt s1 v = rt s v" if "v \<in> set us" for v using entry [of v] that Cons.prems(3) by auto
  have "link_reports p s1 us = link_reports p s us"
    using same p by (auto simp: link_reports_def uses_link_cong [OF p] cong: filter_cong map_cong)
  moreover have "ok s s1" using link_break_step_ok [of s u p r d] Cons.prems st by simp
  then have "wf_node s1" "set us \<subseteq> live s1" using ok_inv ok_live Cons.prems(2) by auto
  moreover have "rerr_holds r1 s1 (L @ link_reports p s [u]) \<and> status s1 = status s \<and> radio s1 = radio s"
    using Cons.prems split by (intro link_break_step_holds [OF _ _ _ _ st]) auto
  ultimately show ?case
    using Cons.IH [of s1 r1 "L @ link_reports p s [u]" d1] Cons.prems p split by (simp add: st)
qed

definition break_reports :: "ptr \<Rightarrow> node \<Rightarrow> (addr \<times> u32) list" where
  "break_reports p s =
     (if rt_nprec (rt s p) \<noteq> 0 then [report (rt s p)] else []) @ link_reports p s (entries (rt_tbl s))"

lemma link_break_start_holds:
  assumes "wf_node s" "p \<in> live s" "rt_state (rt s p) = VALID" "\<not> flag (rt_flags (rt s p)) RT_REPAIR"
    and "link_break_start p s = (r, d, s0)"
  shows "rerr_holds r s0 (if rt_nprec (rt s p) \<noteq> 0 then [report (rt s p)] else []) \<and>
    status s0 = status s \<and> radio s0 = radio s"
proof -
  let ?s1 = "rt_table_invalidate p s"
  have e: "rt ?s1 p = invalidated (rt s p)" using assms(3) by (simp add: rt_table_invalidate_entry)
  obtain s1 where rep: "link_break_report p (False, 0, ?s1) = (r, d, s1)"
    and s0: "s0 = precursor_list_destroy p s1"
    using assms(4,5) by (auto simp: link_break_start_def Let_def e invalidated_def split: prod.splits)
  have wf1: "wf_node ?s1" by (rule ok_inv [OF rt_table_invalidate_ok [OF assms(1,2)]])
  note st1 = rt_table_invalidate_status [OF assms(1,2)]
  show ?thesis
  proof (cases "rt_nprec (rt s p) = 0")
    case True
    then have "(r, d, s1) = (False, 0, ?s1)"
      using rep e by (simp add: link_break_report_def invalidated_def)
    with True st1 show ?thesis by (simp add: s0 rerr_holds_def)
  next
    case False
    have "rerr_holds r s1 ([] @ [report (rt s p)]) \<and> status s1 = status ?s1 \<and> radio s1 = radio ?s1"
      using link_break_report_holds [OF wf1 _ _ rep, of "[]"] False
      by (simp add: e invalidated_def report_def) (simp add: rerr_holds_def)
    with False st1 show ?thesis by (simp add: s0)
  qed
qed

text \<open>The end of a link break: the message built so far is sent, and nothing else.\<close>

lemma rerr_finish_reports:
  assumes "wf_node s" and "rerr_holds True s L" and "length L \<le> 101"
  shows "\<exists>new. sent (rerr_finish d s) = sent s @ new \<and> (\<forall>x \<in> set new. rerr_decode (fst x) = L) \<and> L \<noteq> [] \<and>
    (can_send AODV_RERR s \<longrightarrow> new \<noteq> []) \<and> status (rerr_finish d s) = status s"
proof -
  have view: "rerr_view s = L" "unat (rerr_count s) \<le> 101" "L \<noteq> []" "send_buf (sk s) ! 0 = AODV_RERR" "rerr_count s \<noteq> 0"
    using assms by (auto simp: rerr_holds_def)
  have "rerr_decode (take (RERR_CALC_SIZE (rerr_count s)) (send_buf (sk s))) = L"
    using rerr_decode_take [OF refl, of "send_buf (sk s)"] view send_buf_length [OF assms(1)]
    by (simp add: RERR_CALC_SIZE_eq rerr_view_def)
  with rerr_finish_only [OF assms(1), of d] obtain new where new: "sent (rerr_finish d s) = sent s @ new"
    "\<forall>x \<in> set new. rerr_decode (fst x) = L"
    unfolding sends_only_def by auto
  moreover have "can_send AODV_RERR s \<longrightarrow> new \<noteq> []" using rerr_finish_sends [OF assms(1) _ view(4,5), of d] new(1) by auto
  ultimately show ?thesis using view(3) by auto
qed

text \<open>
  C2. The route error a link break sends (unless the link is to be repaired): every message sent
  is one route error that lists exactly the neighbour, if others route through us to it, and
  every valid route through it that has precursors, each with its incremented sequence number;
  nothing is sent when there is no such destination, and it is sent when there is one and the
  interfaces and the rate limit allow it; up to 101 destinations nothing is written outside the
  buffer.
\<close>

theorem neighbor_link_break_rerr:
  assumes "wf_node s" and "p \<in> live s" and "rt_hcnt (rt s p) = 1" and "rt_state (rt s p) = VALID"
    and "\<not> flag (rt_flags (rt s p)) RT_REPAIR" and "length (break_reports p s) \<le> 101"
  shows "status (neighbor_link_break p s) = status s \<and>
    (\<exists>new. sent (neighbor_link_break p s) = sent s @ new \<and>
       (\<forall>x \<in> set new. rerr_decode (fst x) = break_reports p s) \<and>
       (break_reports p s = [] \<longrightarrow> new = []) \<and>
       (break_reports p s \<noteq> [] \<and> can_send AODV_RERR s \<longrightarrow> new \<noteq> []))"
proof -
  obtain r0 d0 s0 where 0: "link_break_start p s = (r0, d0, s0)" by (metis prod.exhaust)
  let ?L0 = "if rt_nprec (rt s p) \<noteq> 0 then [report (rt s p)] else []"
  have start: "rerr_holds r0 s0 ?L0" "status s0 = status s" "radio s0 = radio s"
    using link_break_start_holds [OF assms(1,2,4,5) 0] by simp_all
  have ok0: "ok s s0" using link_break_start_ok [OF assms(1,2)] 0 by simp
  then have sub: "live s \<subseteq> live s0" by (simp add: ok_def)
  obtain r d s' where l: "fold (link_break_step p) (entries (rt_tbl s)) (r0, d0, s0) = (r, d, s')"
    by (metis prod.exhaust)
  have self: "rt_dest_addr (rt s0 p) = rt_dest_addr (rt s p)" "rt_flags (rt s0 p) = rt_flags (rt s p)"
    using link_break_start_self [of p s] 0 by simp_all
  have other: "rt s0 u = rt s u" if "u \<noteq> p" for u using link_break_start_entry [of p s u] 0 that by simp
  have "uses_link p u s0 \<and> rt_nprec (rt s0 u) \<noteq> 0 \<longleftrightarrow> uses_link p u s \<and> rt_nprec (rt s u) \<noteq> 0" for u
    by (cases "u = p") (simp_all add: uses_link_def self other)
  then have links: "link_reports p s0 us = link_reports p s us" for us
    using other by (auto simp: link_reports_def intro!: arg_cong [of _ _ report] cong: map_cong)
       (metis other uses_link_self)
  have holds: "rerr_holds r s' (break_reports p s) \<and> status s' = status s0 \<and> radio s' = radio s0"
    using link_break_fold_holds [OF ok_inv [OF ok0] sub table_wfD(2) [OF invD(2) [OF assms(1)]]
        start(1) _ l] assms(5,6)
    by (simp add: links self break_reports_def)
  have "ok s0 s'"
    using link_break_fold_ok [OF ok_inv [OF ok0], of "entries (rt_tbl s)" p r0 d0] ok_live [OF ok0] l by auto
  then have ok': "ok s s'" by (rule ok_trans [OF ok0])
  note wf' = ok_inv [OF ok']
  have fin: "neighbor_link_break p s = (if r then rerr_finish d s' else s')"
    using assms(3) by (simp add: neighbor_link_break_def 0 l)
  show ?thesis
  proof (cases r)
    case True
    have "can_send AODV_RERR s' = can_send AODV_RERR s"
      using holds start(3) ok' by (intro can_send_cong) (simp_all add: ok_def)
    then show ?thesis
      using rerr_finish_reports [OF wf' _ assms(6), of d] True holds start radio_sent [of s' s] fin by auto
  next
    case False
    then show ?thesis using holds start radio_sent [of s' s] fin by (simp add: rerr_holds_def)
  qed
qed

theorem neighbor_link_break_rerr_witness:
  "break_reports 0 demo_routes = [(0x0300000A, 10)] \<and>
   (\<exists>new. sent (neighbor_link_break 0 demo_routes) = sent demo_routes @ new \<and> new \<noteq> [] \<and>
      (\<forall>x \<in> set new. rerr_decode (fst x) = [(0x0300000A, 10)]))"
proof -
  have facts: "0 \<in> live demo_routes" "rt_hcnt (rt demo_routes 0) = 1" "rt_state (rt demo_routes 0) = VALID"
    "\<not> flag (rt_flags (rt demo_routes 0)) RT_REPAIR"
    by (simp_all add: demo_routes_def entries_demo_table)
      (simp_all add: demo_table_def neighbour_route_def no_route_def flag_def)
  have reports: "break_reports 0 demo_routes = [(0x0300000A, 10)]"
    by (simp add: break_reports_def link_reports_def report_def uses_link_def demo_routes_def
        entries_demo_table)
      (simp add: demo_table_def neighbour_route_def far_route_def no_route_def seqno_incr_def)
  then show ?thesis
    using neighbor_link_break_rerr [OF demo_routes_wf facts] demo_can_send by auto
qed

end
