(* ===== verification/Route_Update.thy ===== *)
theory Route_Update
  imports Neighbor
begin

text \<open>
  \<open>rt_table_insert\<close> and \<open>rt_table_update\<close> of \<open>src/routing/routing_table.c\<close>, the two operations that
  make a route valid.  Both tell the kernel, set the timer of the entry, and release the packets
  that were waiting for the destination when it was being sought.
\<close>

section \<open>Operations\<close>

definition new_entry :: "addr \<Rightarrow> addr \<Rightarrow> u8 \<Rightarrow> u32 \<Rightarrow> rt_state \<Rightarrow> u16 \<Rightarrow> u32 \<Rightarrow> rt_table" where
  "new_entry dest_addr nxt hops sq state flags ifindex =
     \<lparr>rt_dest_addr = dest_addr, rt_dest_seqno = sq, rt_ifindex = ifindex, rt_next_hop = nxt,
      rt_hcnt = hops, rt_flags = flags, rt_state = state, rt_last_hello_time = tv_zero,
      rt_hello_cnt = 0, rt_hash = fst (hashing dest_addr), rt_nprec = 0, rt_precursors = []\<rparr>"

text \<open>Allocate the entry, initialise its three timers and put it first in its bucket.\<close>

definition rt_alloc :: "rt_table \<Rightarrow> node \<Rightarrow> ptr \<times> node" where
  "rt_alloc e s =
     (let p = rt_next (rt_tbl s);
          s1 = tm_init (Hello_timer p) Hello_timeout (A_rt p)
                 (tm_init (Ack_timer p) Rrep_ack_timeout (A_rt p)
                   (tm_init (Rt_timer p) Route_expire_timeout (A_rt p) s));
          i = snd (hashing (rt_dest_addr e));
          t = rt_tbl s1
      in (p, s1\<lparr>rt_tbl := t\<lparr>num_entries := num_entries t + 1, tbl := (tbl t)[i := p # tbl t ! i],
                            rt_heap := (rt_heap t)(p := e), rt_next := p + 1\<rparr>\<rparr>))"

text \<open>Buffered packets for a destination that was being sought leave on the new route.\<close>

definition release_buffered :: "ptr \<Rightarrow> node \<Rightarrow> node" where
  "release_buffered p s =
     (if rt_state (rt s p) = VALID then
        case seek_list_remove (seek_list_find (rt_dest_addr (rt s p)) s) s of
          (False, s1) \<Rightarrow> s1
        | (True, s1) \<Rightarrow>
            snd (packet_queue_set_verdict (rt_dest_addr (rt s1 p))
                  (if flag (rt_flags (rt s1 p)) RT_INET_DEST then PQ_ENC_SEND else PQ_SEND) s1)
      else s)"

text \<open>A valid route goes to the kernel; an invalid one waits for deletion or repair.\<close>

definition rt_insert_activate :: "ptr \<Rightarrow> u32 \<Rightarrow> node \<Rightarrow> u32 \<times> node" where
  "rt_insert_activate p life s =
     (let e = rt s p in
      if rt_state e = INVALID then
        if flag (rt_flags e) RT_REPAIR
        then (ACTIVE_ROUTE_TIMEOUT s, tm_handler (Rt_timer p) Local_repair_timeout s)
        else (word_of_int (DELETE_PERIOD s), tm_handler (Rt_timer p) Route_delete_timeout s)
      else (life, nl_send_add_route_msg (rt_dest_addr e) (rt_next_hop e) (rt_hcnt e) (rt_ifindex e)
                    (upd_active (\<lambda>n. n + 1) s)))"

definition rt_table_insert ::
  "addr \<Rightarrow> addr \<Rightarrow> u8 \<Rightarrow> u32 \<Rightarrow> u32 \<Rightarrow> rt_state \<Rightarrow> u16 \<Rightarrow> u32 \<Rightarrow> node \<Rightarrow> ptr option \<times> node" where
  "rt_table_insert dest_addr nxt hops sq life state flags ifindex s =
     (if \<exists>q \<in> set (tbl (rt_tbl s) ! snd (hashing dest_addr)). rt_dest_addr (rt s q) = dest_addr
      then (None, s)
      else if length (entries (rt_tbl s)) \<ge> rt_heap_limit s then (None, abort No_memory s)
      else
        let (p, s1) = rt_alloc (new_entry dest_addr nxt hops sq state flags ifindex) s;
            (life', s2) = rt_insert_activate p life s1;
            s3 = (if life' \<noteq> 0 then tm_set (Rt_timer p) (uint life') s2 else s2)
        in (Some p, release_buffered p s3))"

text \<open>The kernel is told of a route that becomes valid or changes its next hop.\<close>

definition rt_update_kernel ::
  "ptr \<Rightarrow> addr \<Rightarrow> u8 \<Rightarrow> rt_state \<Rightarrow> u16 \<Rightarrow> node \<Rightarrow> u16 \<times> node" where
  "rt_update_kernel p nxt hops state flags s =
     (let e = rt s p in
      if rt_state e = INVALID \<and> state = VALID then
        ((if flag (rt_flags e) RT_REPAIR then flags AND NOT RT_REPAIR else flags),
         nl_send_add_route_msg (rt_dest_addr e) nxt hops (rt_ifindex e) (upd_active (\<lambda>n. n + 1) s))
      else if rt_next_hop e \<noteq> 0 \<and> rt_next_hop e \<noteq> nxt then
        (flags, nl_send_add_route_msg (rt_dest_addr e) nxt hops (rt_ifindex e) s)
      else (flags, s))"

text \<open>An entry that stops being a neighbour breaks the link for the routes through it.\<close>

definition rt_update_demote :: "ptr \<Rightarrow> u8 \<Rightarrow> node \<Rightarrow> node" where
  "rt_update_demote p hops s =
     (if hops > 1 \<and> rt_hcnt (rt s p) = 1 then
        neighbor_link_break p
          (tm_remove (Hello_timer p)
            (upd_rt p (\<lambda>e. e\<lparr>rt_last_hello_time := tv_zero, rt_hello_cnt := 0\<rparr>) s))
      else s)"

definition rt_table_update ::
  "ptr \<Rightarrow> addr \<Rightarrow> u8 \<Rightarrow> u32 \<Rightarrow> u32 \<Rightarrow> rt_state \<Rightarrow> u16 \<Rightarrow> node \<Rightarrow> node" where
  "rt_table_update p nxt hops sq lifetime state flags s =
     (let (flags', s1) = rt_update_kernel p nxt hops state flags s;
          s2 = rt_update_demote p hops s1;
          s3 = upd_rt p (\<lambda>e. e\<lparr>rt_flags := flags', rt_dest_seqno := sq, rt_next_hop := nxt, rt_hcnt := hops\<rparr>) s2;
          s4 = tm_handler (Rt_timer p) Route_expire_timeout s3;
          s5 = (if \<not> flag (rt_flags (rt s4 p)) RT_INET_DEST then rt_table_update_timeout p lifetime s4 else s4);
          s6 = upd_rt p (\<lambda>e. e\<lparr>rt_state := state\<rparr>) s5
      in release_buffered p s6)"

section \<open>Invariant\<close>

lemma mset_bucket_add:
  "i < length xss \<Longrightarrow> mset (concat (xss[i := p # xss ! i])) = add_mset p (mset (concat xss))"
  by (induction xss arbitrary: i) (auto simp: nth_Cons' split: nat.split nat.split_asm)

lemma owned_insert_rt:
  "owned (insert p R) S C B u \<longleftrightarrow> u \<in> {Rt_timer p, Ack_timer p, Hello_timer p} \<or> owned R S C B u"
  by (cases u) auto

lemma rt_alloc_table_wf:
  assumes "table_wf r lim" "entry_wf e" "length (entries r) < lim"
    and "\<forall>q \<in> set (entries r). rt_dest_addr (rt_heap r q) \<noteq> rt_dest_addr e"
  defines "p \<equiv> rt_next r" and "i \<equiv> bucket (rt_dest_addr e)"
  defines "r' \<equiv> r\<lparr>num_entries := num_entries r + 1, tbl := (tbl r)[i := p # tbl r ! i],
                 rt_heap := (rt_heap r)(p := e), rt_next := p + 1\<rparr>"
  shows "table_wf r' lim" "set (entries r') = insert p (set (entries r))" "p \<notin> set (entries r)"
proof -
  note wf = table_wfD [OF assms(1)]
  show fresh: "p \<notin> set (entries r)" using wf(5) unfolding p_def by auto
  have i: "i < length (tbl r)" by (simp add: i_def wf(1))
  have m: "mset (entries r') = add_mset p (mset (entries r))"
    using mset_bucket_add [OF i] by (simp add: entries_def r'_def)
  then have len: "length (entries r') = Suc (length (entries r))" by (metis size_add_mset size_mset)
  show set: "set (entries r') = insert p (set (entries r))"
    using m by (metis set_mset_add_mset_insert set_mset_mset)
  have "mset (entries r') = mset (p # entries r)" by (simp add: m)
  from mset_eq_imp_distinct_iff [OF this] have dist: "distinct (entries r')" using fresh wf(2) by simp
  have "bucket (rt_dest_addr (rt_heap r' q)) = j" if "j < 64" "q \<in> set (tbl r' ! j)" for j q
  proof (cases "q = p")
    case True
    have "p \<notin> set (tbl r ! j)" using fresh that(1) wf(1) by (auto simp: set_entries)
    with True that i have "j = i" by (auto simp: r'_def nth_list_update split: if_splits)
    with True show ?thesis by (simp add: r'_def i_def)
  next
    case False
    with that i have "q \<in> set (tbl r ! j)" by (auto simp: r'_def nth_list_update split: if_splits)
    with False wf(3) [OF that(1)] show ?thesis by (simp add: r'_def)
  qed
  note buckets = this
  have same: "rt_dest_addr (rt_heap r' q) = rt_dest_addr (rt_heap r q)" if "q \<in> set (entries r)" for q
    using that fresh by (auto simp: r'_def)
  then have "inj_on (\<lambda>q. rt_dest_addr (rt_heap r' q)) (set (entries r))"
    using wf(6) by (simp add: inj_on_def)
  moreover have "rt_dest_addr (rt_heap r' p) \<notin> (\<lambda>q. rt_dest_addr (rt_heap r q)) ` set (entries r)"
    using assms(4) by (auto simp: r'_def)
  ultimately have "inj_on (\<lambda>q. rt_dest_addr (rt_heap r' q)) (insert p (set (entries r)))"
    using fresh same by (simp cong: image_cong)
  moreover have "\<forall>q \<in> insert p (set (entries r)). entry_wf (rt_heap r' q) \<and> q < rt_next r'"
  proof
    fix q assume "q \<in> insert p (set (entries r))"
    then show "entry_wf (rt_heap r' q) \<and> q < rt_next r'"
      using wf(4,5) [of q] assms(2) by (cases "q = p") (auto simp: r'_def p_def)
  qed
  ultimately show "table_wf r' lim"
    using wf(1,7,9) dist len assms(3) buckets unfolding table_wf_def set by (simp add: r'_def)
qed

lemma rt_alloc_ok:
  assumes "wf_node s" "entry_wf e" "length (entries (rt_tbl s)) < rt_heap_limit s"
    and "\<forall>q \<in> live s. rt_dest_addr (rt s q) \<noteq> rt_dest_addr e" and "rt_alloc e s = (p, s')"
  shows "ok s s'" "p \<in> live s'" "live s' = insert p (live s)" "rt s' = (rt s)(p := e)" "p \<notin> live s"
proof -
  note wf = invD [OF assms(1)]
  let ?q = "timer_init (Hello_timer p) Hello_timeout (A_rt p)
     (timer_init (Ack_timer p) Rrep_ack_timeout (A_rt p)
       (timer_init (Rt_timer p) Route_expire_timeout (A_rt p) (tq s)))"
  let ?r = "rt_tbl s"
  let ?r' = "?r\<lparr>num_entries := num_entries ?r + 1,
     tbl := (tbl ?r)[bucket (rt_dest_addr e) := p # tbl ?r ! bucket (rt_dest_addr e)],
     rt_heap := (rt_heap ?r)(p := e), rt_next := p + 1\<rparr>"
  have p: "p = rt_next ?r" and s': "s' = s\<lparr>tq := ?q, rt_tbl := ?r'\<rparr>"
    using assms(5) by (auto simp: rt_alloc_def Let_def tm_init_def hashing_def bucket_def)
  note tab = rt_alloc_table_wf [OF wf(2) assms(2,3,4), folded p]
  show "p \<notin> live s" by (rule tab(3))
  have free: "Rt_timer p \<notin> attached (tq s)" "Ack_timer p \<notin> attached (tq s)" "Hello_timer p \<notin> attached (tq s)"
    using timers_wfD(2) [OF wf(3)] tab(3) by fastforce+
  have init: "timers_wf ?q (live s) (seeking s) (set (plist (rreq_records s))) (set (plist (rreq_blacklist s)))"
    using free tab(3) wf(3)
    by (intro timers_wf_init) (simp_all add: attached_def timer_init_def)
  have "timers_wf ?q (insert p (live s)) (seeking s) (set (plist (rreq_records s))) (set (plist (rreq_blacklist s)))"
    by (rule timers_wf_extend [OF init]) (auto simp: owned_insert_rt)
  then show "ok s s'"
    using wf tab assms(1)
    by (auto simp: ok_def wf_node_def s' statics_def static_ready_def static_timer_def)
  show "live s' = insert p (live s)" using tab(2) by (simp add: s')
  then show "p \<in> live s'" by simp
  show "rt s' = (rt s)(p := e)" by (rule ext) (simp add: s')
qed

lemma release_buffered_ok:
  assumes "wf_node s"
  shows "ok s (release_buffered p s)"
proof -
  obtain b s1 where r: "seek_list_remove (seek_list_find (rt_dest_addr (rt s p)) s) s = (b, s1)" by force
  have 1: "ok s s1" using seek_list_remove_ok [OF assms] r by (metis snd_conv)
  have "ok s (snd (packet_queue_set_verdict a v s1))" for a v
    by (rule ok_trans [OF 1 packet_queue_set_verdict_ok [OF ok_inv [OF 1]]])
  with 1 show ?thesis by (simp add: release_buffered_def r ok_refl assms split: bool.split)
qed

lemma new_entry_wf: "entry_wf (new_entry d n h sq st fl i)" "rt_dest_addr (new_entry d n h sq st fl i) = d"
  by (simp_all add: new_entry_def entry_wf_def hashing_def)

lemma bucket_search:
  assumes "wf_node s"
  shows "(\<exists>q \<in> set (tbl (rt_tbl s) ! snd (hashing a)). rt_dest_addr (rt s q) = a) \<longleftrightarrow>
         (\<exists>q \<in> live s. rt_dest_addr (rt s q) = a)"
proof -
  note wf = table_wfD [OF invD(2) [OF assms]]
  have i: "snd (hashing a) = bucket a" by (simp add: hashing_def bucket_def)
  have "q \<in> live s" if "q \<in> set (tbl (rt_tbl s) ! bucket a)" for q
    using that wf(1) bucket_lt [of a] by (metis set_entries)
  moreover have "q \<in> set (tbl (rt_tbl s) ! bucket a)" if "q \<in> live s" "rt_dest_addr (rt s q) = a" for q
    using that wf(1,3) by (metis set_entries)
  ultimately show ?thesis unfolding i by blast
qed

lemma rt_insert_activate_ok:
  assumes "wf_node s" "rt_insert_activate p l s = (l', s')"
  shows "ok s s'"
proof -
  have "ok s (nl_send_add_route_msg a b c d (upd_active f s))" for a b c d f
    by (rule ok_trans [OF upd_active_fn_ok [OF assms(1)] nl_add_ok [OF ok_inv [OF upd_active_fn_ok [OF assms(1)]]]])
  then show ?thesis
    using assms(2) tm_handler_ok [OF assms(1)]
    by (auto simp: rt_insert_activate_def Let_def split: if_splits)
qed

lemma rt_table_insert_new:
  assumes "wf_node s" "\<forall>q \<in> live s. rt_dest_addr (rt s q) \<noteq> d"
    "length (entries (rt_tbl s)) < rt_heap_limit s"
  obtains p s1 l' s2 where "rt_alloc (new_entry d n h sq st fl i) s = (p, s1)"
    "rt_insert_activate p l s1 = (l', s2)"
    "rt_table_insert d n h sq l st fl i s =
       (Some p, release_buffered p (if l' \<noteq> 0 then tm_set (Rt_timer p) (uint l') s2 else s2))"
    "ok s s1" "ok s s2" "p \<in> live s2" "p \<notin> live s"
    "ok s (if l' \<noteq> 0 then tm_set (Rt_timer p) (uint l') s2 else s2)"
proof -
  obtain p s1 where a: "rt_alloc (new_entry d n h sq st fl i) s = (p, s1)" by force
  obtain l' s2 where b: "rt_insert_activate p l s1 = (l', s2)" by force
  note al = rt_alloc_ok [OF assms(1) new_entry_wf(1) assms(3) _ a, unfolded new_entry_wf(2), OF assms(2)]
  have 12: "ok s1 s2" by (rule rt_insert_activate_ok [OF ok_inv [OF al(1)] b])
  have 2: "ok s s2" by (rule ok_trans [OF al(1) 12])
  have p2: "p \<in> live s2" by (rule ok_live [OF 12 al(2)])
  have 3: "ok s (if l' \<noteq> 0 then tm_set (Rt_timer p) (uint l') s2 else s2)"
    using 2 ok_trans [OF 2 tm_set_rt_ok(1) [OF ok_inv [OF 2] p2]] by simp
  have "\<not> (\<exists>q \<in> set (tbl (rt_tbl s) ! snd (hashing d)). rt_dest_addr (rt s q) = d)"
    unfolding bucket_search [OF assms(1)] using assms(2) by blast
  with that a b assms(3) 2 al(1,5) p2 3 show ?thesis by (simp add: rt_table_insert_def)
qed

lemma rt_table_insert_ok:
  assumes "wf_node s" "rt_table_insert d n h sq l st fl i s = (r, s')"
  shows "ok s s'" and "r = Some p \<Longrightarrow> p \<in> live s'"
    and "r = None \<Longrightarrow> rt_table_find d s \<noteq> None \<or> status s' \<noteq> Running"
proof -
  let ?e = "new_entry d n h sq st fl i"
  consider (dup) "\<exists>q \<in> live s. rt_dest_addr (rt s q) = d"
    | (full) "\<forall>q \<in> live s. rt_dest_addr (rt s q) \<noteq> d" "length (entries (rt_tbl s)) \<ge> rt_heap_limit s"
    | (new) "\<forall>q \<in> live s. rt_dest_addr (rt s q) \<noteq> d" "length (entries (rt_tbl s)) < rt_heap_limit s"
    by (meson not_le)
  then have "ok s s' \<and> (\<forall>p. r = Some p \<longrightarrow> p \<in> live s') \<and>
      (r = None \<longrightarrow> rt_table_find d s \<noteq> None \<or> status s' \<noteq> Running)"
  proof cases
    case dup
    then show ?thesis using assms rts.find_None [OF assms(1)]
      by (auto simp: rt_table_insert_def bucket_search ok_refl)
  next
    case full
    then have "(r, s') = (None, abort No_memory s)"
      using assms by (simp add: rt_table_insert_def bucket_search)
    then show ?thesis using abort_no_memory_ok [OF assms(1)] by (simp add: abort_def)
  next
    case new
    obtain p s1 l' s2 where ins: "rt_alloc ?e s = (p, s1)" "rt_insert_activate p l s1 = (l', s2)"
      "rt_table_insert d n h sq l st fl i s =
         (Some p, release_buffered p (if l' \<noteq> 0 then tm_set (Rt_timer p) (uint l') s2 else s2))"
      "ok s s1" "ok s s2" and 2: "p \<in> live s2" "p \<notin> live s"
      and 3: "ok s (if l' \<noteq> 0 then tm_set (Rt_timer p) (uint l') s2 else s2)"
      by (rule rt_table_insert_new [OF assms(1) new])
    note rel = release_buffered_ok [OF ok_inv [OF 3], of p]
    have "p \<in> live (if l' \<noteq> 0 then tm_set (Rt_timer p) (uint l') s2 else s2)" using 2(1) by simp
    from ok_live [OF rel this] ok_trans [OF 3 rel] show ?thesis using assms(2) ins(3) by auto
  qed
  then show "ok s s'" "r = Some p \<Longrightarrow> p \<in> live s'"
    "r = None \<Longrightarrow> rt_table_find d s \<noteq> None \<or> status s' \<noteq> Running" by blast+
qed

lemma rt_update_kernel_ok:
  assumes "wf_node s" "rt_update_kernel p n h st fl s = (fl', s')"
  shows "ok s s'"
proof -
  have "ok s (nl_send_add_route_msg a b c d (upd_active f s))" for a b c d f
    by (rule ok_trans [OF upd_active_fn_ok [OF assms(1)] nl_add_ok [OF ok_inv [OF upd_active_fn_ok [OF assms(1)]]]])
  then show ?thesis
    using assms(2) nl_add_ok [OF assms(1)] ok_refl [OF assms(1)]
    by (auto simp: rt_update_kernel_def Let_def split: if_splits)
qed

lemma rt_update_demote_ok:
  assumes "wf_node s" "p \<in> live s"
  shows "ok s (rt_update_demote p h s)"
proof -
  let ?s1 = "upd_rt p (\<lambda>e. e\<lparr>rt_last_hello_time := tv_zero, rt_hello_cnt := 0\<rparr>) s"
  have 1: "ok s ?s1" by (rule upd_rt_ok [OF assms(1)]) (simp_all add: entry_wf_def)
  let ?s2 = "tm_remove (Hello_timer p) ?s1"
  have 2: "ok s ?s2" using ok_trans [OF 1 tm_remove_ok [OF ok_inv [OF 1]]] by simp
  have "ok s (neighbor_link_break p ?s2)"
    using ok_trans [OF 2 neighbor_link_break_ok [OF ok_inv [OF 2] ok_live [OF 2 assms(2)]]] .
  then show ?thesis by (simp add: rt_update_demote_def ok_refl assms)
qed

lemma rt_table_update_ok:
  assumes "wf_node s" "p \<in> live s"
  shows "ok s (rt_table_update p n h sq l st fl s)"
proof -
  obtain fl' s1 where k: "rt_update_kernel p n h st fl s = (fl', s1)" by force
  have 1: "ok s s1" by (rule rt_update_kernel_ok [OF assms(1) k])
  define s2 where "s2 = rt_update_demote p h s1"
  have 2: "ok s s2" unfolding s2_def
    by (rule ok_trans [OF 1 rt_update_demote_ok [OF ok_inv [OF 1] ok_live [OF 1 assms(2)]]])
  define s3 where "s3 = upd_rt p (\<lambda>e. e\<lparr>rt_flags := fl', rt_dest_seqno := sq, rt_next_hop := n, rt_hcnt := h\<rparr>) s2"
  have 3: "ok s s3" unfolding s3_def
    by (rule ok_trans [OF 2 upd_rt_ok [OF ok_inv [OF 2]]]) (simp_all add: entry_wf_def)
  define s4 where "s4 = tm_handler (Rt_timer p) Route_expire_timeout s3"
  have 4: "ok s s4" unfolding s4_def
    by (rule ok_trans [OF 3 tm_handler_ok [OF ok_inv [OF 3]]]) simp
  define s5 where "s5 = (if \<not> flag (rt_flags (rt s4 p)) RT_INET_DEST then rt_table_update_timeout p l s4 else s4)"
  have 5: "ok s s5" unfolding s5_def
    using 4 ok_trans [OF 4 rt_table_update_timeout_ok [OF ok_inv [OF 4] ok_live [OF 4 assms(2)]]] by simp
  define s6 where "s6 = upd_rt p (\<lambda>e. e\<lparr>rt_state := st\<rparr>) s5"
  have 6: "ok s s6" unfolding s6_def
    by (rule ok_trans [OF 5 upd_rt_ok [OF ok_inv [OF 5]]]) (simp_all add: entry_wf_def)
  have "rt_table_update p n h sq l st fl s = release_buffered p s6"
    by (simp add: rt_table_update_def k Let_def s2_def s3_def s4_def s5_def s6_def)
  then show ?thesis using ok_trans [OF 6 release_buffered_ok [OF ok_inv [OF 6]]] by simp
qed

section \<open>What the entries hold afterwards\<close>

lemma seek_list_remove_frame [simp]:
  "rt_tbl (snd (seek_list_remove e s)) = rt_tbl s" "PQ (snd (seek_list_remove e s)) = PQ s"
  "clock (snd (seek_list_remove e s)) = clock s" "conf (snd (seek_list_remove e s)) = conf s"
  "nfq_open (snd (seek_list_remove e s)) = nfq_open s" "out (snd (seek_list_remove e s)) = out s"
  by (simp_all add: seek_list_remove_def tm_remove_def split: option.split)

lemma packet_queue_set_verdict_tbl [simp]:
  "rt_tbl (snd (packet_queue_set_verdict a v s)) = rt_tbl s"
  by (simp add: packet_queue_set_verdict_def case_prod_beta split: option.split)

lemma release_buffered_tbl [simp]: "rt_tbl (release_buffered p s) = rt_tbl s"
proof -
  have "rt_tbl s1 = rt_tbl s" if "seek_list_remove e s = (b, s1)" for e b s1
    using seek_list_remove_frame(1) [of e s] that by simp
  then show ?thesis by (auto simp: release_buffered_def split: prod.split bool.split)
qed

lemma rt_table_update_entry:
  "\<exists>fl'. rt (rt_table_update p n h sq l st fl s) p =
     (rt (rt_update_demote p h (snd (rt_update_kernel p n h st fl s))) p)
       \<lparr>rt_flags := fl', rt_dest_seqno := sq, rt_next_hop := n, rt_hcnt := h, rt_state := st\<rparr>"
  by (rule exI [of _ "fst (rt_update_kernel p n h st fl s)"])
    (simp add: rt_table_update_def Let_def case_prod_beta)

lemma rt_table_insert_fresh:
  assumes "wf_node s" "length (entries (rt_tbl s)) < rt_heap_limit s" "rt_table_find d s = None"
  shows "\<exists>p s'. rt_table_insert d n h sq l st fl i s = (Some p, s') \<and> wf_node s' \<and>
     rt_table_find d s' = Some p \<and> rt s' p = new_entry d n h sq st fl i \<and>
     (\<forall>a. a \<noteq> d \<longrightarrow> rt_table_find a s' = rt_table_find a s)"
proof -
  have none: "\<forall>q \<in> live s. rt_dest_addr (rt s q) \<noteq> d" using assms(3) by (simp add: rts.find_None [OF assms(1)])
  let ?e = "new_entry d n h sq st fl i"
  obtain p s1 l' s2 where a: "rt_alloc ?e s = (p, s1)" and b: "rt_insert_activate p l s1 = (l', s2)"
    and ins: "rt_table_insert d n h sq l st fl i s =
         (Some p, release_buffered p (if l' \<noteq> 0 then tm_set (Rt_timer p) (uint l') s2 else s2))"
    and 1: "ok s s1" "ok s s2" "p \<in> live s2" "p \<notin> live s"
    and 3: "ok s (if l' \<noteq> 0 then tm_set (Rt_timer p) (uint l') s2 else s2)"
    by (rule rt_table_insert_new [OF assms(1) none assms(2)])
  define s' where "s' = release_buffered p (if l' \<noteq> 0 then tm_set (Rt_timer p) (uint l') s2 else s2)"
  note al = rt_alloc_ok [OF assms(1) new_entry_wf(1) assms(2) _ a, unfolded new_entry_wf(2), OF none]
  have "rt s2 = rt s1" "entries (rt_tbl s2) = entries (rt_tbl s1)"
    using b by (auto simp: rt_insert_activate_def Let_def split: if_splits)
  then have same: "rt s' = rt s1" "entries (rt_tbl s') = entries (rt_tbl s1)" by (simp_all add: s'_def)
  have tab: "rt s' = (rt s)(p := ?e)" "live s' = insert p (live s)"
    by (rule trans [OF same(1) al(4)]) (simp add: same(2) al(3))
  have wf': "wf_node s'" unfolding s'_def by (rule ok_inv [OF release_buffered_ok [OF ok_inv [OF 3]]])
  have "rt_table_find a s' = rt_table_find a s" if "a \<noteq> d" for a
  proof (cases "rt_table_find a s")
    case None
    then have "rt_table_find a s' = None"
      using that by (simp add: rts.find_None [OF wf'] rts.find_None [OF assms(1)] tab new_entry_wf)
    with None show ?thesis by simp
  next
    case (Some q)
    then have "rt_table_find a s' = Some q"
      using that 1(4) by (auto simp: rts.find_iff [OF wf'] rts.find_iff [OF assms(1)] tab)
    with Some show ?thesis by simp
  qed
  moreover have "rt_table_find d s' = Some p" by (simp add: rts.find_iff [OF wf'] tab new_entry_wf)
  ultimately show ?thesis using ins wf' tab(1) by (simp add: s'_def)
qed

section \<open>Properties\<close>

text \<open>
  C3. Inserting a route for a destination without entry creates exactly that entry: it is found
  afterwards with the fields given, lookups of all other destinations are unchanged and the node
  stays well formed.  For a destination that has an entry the call returns \<open>NULL\<close> and changes
  nothing.
\<close>

theorem rt_table_insert_correct:
  assumes "wf_node s" and "length (entries (rt_tbl s)) < rt_heap_limit s"
  shows "(rt_table_find d s \<noteq> None \<longrightarrow> rt_table_insert d n h sq l st fl i s = (None, s)) \<and>
    (rt_table_find d s = None \<longrightarrow>
      (\<exists>p s'. rt_table_insert d n h sq l st fl i s = (Some p, s') \<and> wf_node s' \<and>
         rt_table_find d s' = Some p \<and> rt s' p = new_entry d n h sq st fl i \<and>
         (\<forall>a. a \<noteq> d \<longrightarrow> rt_table_find a s' = rt_table_find a s)))"
proof (intro conjI impI)
  assume "rt_table_find d s \<noteq> None"
  then show "rt_table_insert d n h sq l st fl i s = (None, s)"
    by (auto simp: rt_table_insert_def bucket_search [OF assms(1)] rts.find_iff [OF assms(1)])
qed (use rt_table_insert_fresh [OF assms] in blast)

theorem rt_table_insert_correct_witness:
  "fst (rt_table_insert 0x0300000A 0x0200000A 2 5 1000 VALID 0 3 demo_routes) = None \<and>
   (\<exists>p s'. rt_table_insert 0x0500000A 0x0200000A 3 5 1000 VALID 0 3 demo_routes = (Some p, s') \<and>
      rt_table_find 0x0500000A s' = Some p)"
proof -
  have lim: "length (entries (rt_tbl demo_routes)) < rt_heap_limit demo_routes"
    by (simp add: demo_routes_def entries_demo_table) (simp add: demo_node_def)
  have "rt_table_find 0x0300000A demo_routes \<noteq> None" "rt_table_find 0x0500000A demo_routes = None"
    unfolding rts.find_None [OF demo_routes_wf]
    by (simp_all add: demo_routes_def entries_demo_table)
      (simp_all add: demo_table_def neighbour_route_def far_route_def no_route_def)
  with rt_table_insert_correct [OF demo_routes_wf lim] show ?thesis by (metis fst_conv)
qed

text \<open>
  C5. When a sought route becomes valid, the search is over and exactly the packets queued for
  the destination are accepted, in order; all others stay queued.
\<close>

theorem release_buffered_correct:
  assumes "wf_node s" and "p \<in> live s" and "rt_state (rt s p) = VALID" and "nfq_open s"
    and "seek_list_find (rt_dest_addr (rt s p)) s \<noteq> None"
  shows "let d = rt_dest_addr (rt s p); s' = release_buffered p s in
    seek_list_find d s' = None \<and>
    pq_head (PQ s') = filter (\<lambda>q. qp_dest_addr q \<noteq> d) (pq_head (PQ s)) \<and>
    out s' = out s @ map (\<lambda>q. Ev_verdict (qp_packet_id q) NF_ACCEPT)
                       (filter (\<lambda>q. qp_dest_addr q = d) (pq_head (PQ s)))"
proof -
  let ?d = "rt_dest_addr (rt s p)"
  obtain k where k: "seek_list_find ?d s = Some k" using assms(5) by blast
  define s1 where "s1 = snd (seek_list_remove (Some k) s)"
  have r: "seek_list_remove (Some k) s = (True, s1)" by (simp add: s1_def seek_list_remove_def)
  have 1: "ok s s1" unfolding s1_def by (rule seek_list_remove_ok [OF assms(1)])
  have s1: "rt_tbl s1 = rt_tbl s" "PQ s1 = PQ s" "out s1 = out s" "nfq_open s1 = nfq_open s"
    by (simp_all add: s1_def)
  have "rt_table_find ?d s1 = Some p" using assms(2) by (simp add: rts.find_iff [OF ok_inv [OF 1]] s1)
  then have route: "pq_route ?d v s1 = Some p" for v by (simp add: pq_route_def Let_def)
  define s' where "s' = release_buffered p s"
  have s': "s' = snd (packet_queue_set_verdict ?d (if flag (rt_flags (rt s p)) RT_INET_DEST
      then PQ_ENC_SEND else PQ_SEND) s1)"
    using assms(3) by (simp add: s'_def release_buffered_def k r s1)
  have "seekhead s' = seekhead s1"
    unfolding s' by (simp add: packet_queue_set_verdict_def route case_prod_beta pq_refresh_def Let_def
        pq_sweep_eq released_def split: option.split)
  moreover have "seek_dest_addr (pheap (seekhead s1) q) \<noteq> ?d" if "q \<in> seeking s1" for q
    using that seeks.key_inj [OF assms(1), of q k] seeks.find_iff [OF assms(1)] k invD(5) [OF assms(1)]
    by (auto simp: s1_def seek_list_remove_def pool_wf_def)
  ultimately have "seek_list_find ?d s' = None"
    using seeks.find_None [OF ok_inv [OF 1], of ?d] by (simp add: seek_list_find_def)
  moreover have "pq_head (PQ s') = filter (\<lambda>q. qp_dest_addr q \<noteq> ?d) (pq_head (PQ s))"
    "out s' = out s @ map (\<lambda>q. Ev_verdict (qp_packet_id q) NF_ACCEPT)
                       (filter (\<lambda>q. qp_dest_addr q = ?d) (pq_head (PQ s)))"
    using assms(4) unfolding s' by (simp_all add: packet_queue_set_verdict_def route case_prod_beta s1)
  ultimately show ?thesis by (simp add: Let_def s'_def)
qed

text \<open>The demonstration node while it seeks 10.0.0.3 and holds two packets.\<close>

definition demo_packets :: "q_pkt list" where
  "demo_packets = [\<lparr>qp_dest_addr = 0x0300000A, qp_q_time = tv_zero, qp_packet_id = 1\<rparr>,
                   \<lparr>qp_dest_addr = 0x0600000A, qp_q_time = tv_zero, qp_packet_id = 2\<rparr>]"

definition demo_seeking :: node where
  "demo_seeking = snd (seek_list_insert 0x0300000A 9 4 0 None
     (demo_routes\<lparr>PQ := \<lparr>pq_head = demo_packets, pq_len = 2\<rparr>\<rparr>))"

lemma demo_seeking_wf:
  "wf_node demo_seeking" "seek_list_find 0x0300000A demo_seeking \<noteq> None"
  "rt_tbl demo_seeking = demo_table" "pq_head (PQ demo_seeking) = demo_packets" "out demo_seeking = []"
  "nfq_open demo_seeking"
proof -
  let ?s = "demo_routes\<lparr>PQ := \<lparr>pq_head = demo_packets, pq_len = 2\<rparr>\<rparr>"
  have wf: "wf_node ?s"
    by (rule ok_inv [OF upd_PQ_ok [OF demo_routes_wf]]) (simp add: pq_wf_def demo_packets_def)
  have "seek_list_find 0x0300000A ?s = None"
    by (simp add: seek_list_find_def pool_find_def demo_routes_def demo_node_def empty_pool_def)
  from seek_list_insert_ok [OF wf this] show "wf_node demo_seeking"
    unfolding demo_seeking_def by (metis ok_inv prod.collapse)
  show "seek_list_find 0x0300000A demo_seeking \<noteq> None" "rt_tbl demo_seeking = demo_table"
    "pq_head (PQ demo_seeking) = demo_packets" "out demo_seeking = []" "nfq_open demo_seeking"
    by (simp_all add: demo_seeking_def seek_list_insert_def Let_def seek_list_find_def pool_find_def)
      (simp_all add: demo_routes_def demo_node_def tm_init_def)
qed

theorem release_buffered_correct_witness:
  "pq_head (PQ (release_buffered 1 demo_seeking)) =
     [\<lparr>qp_dest_addr = 0x0600000A, qp_q_time = tv_zero, qp_packet_id = 2\<rparr>] \<and>
   out (release_buffered 1 demo_seeking) = [Ev_verdict 1 1]"
proof -
  have "1 \<in> live demo_seeking" by (simp add: demo_seeking_wf(3) entries_demo_table)
  moreover have "rt_state (rt demo_seeking 1) = VALID" "rt_dest_addr (rt demo_seeking 1) = 0x0300000A"
    unfolding demo_seeking_wf(3) by (simp_all add: demo_table_def far_route_def)
  ultimately show ?thesis
    using release_buffered_correct [OF demo_seeking_wf(1), of 1] demo_seeking_wf(2-)
    by (simp add: Let_def demo_packets_def NF_ACCEPT_def)
qed



end
