(* ===== verification/Hello.thy ===== *)
theory Hello
  imports Route_Update
begin

text \<open>
  Neighbour sensing: \<open>neighbor_add\<close> of \<open>src/protocol/aodv_neighbor.c\<close>, \<open>rrep_create\<close> of
  \<open>src/protocol/aodv_rrep.c\<close> and the hello messages of \<open>src/protocol/aodv_hello.c\<close>.  A hello is a
  RREP broadcast with TTL 1; it may carry the hello interval and the set of neighbours heard.

  Reading an extension behind the 812 bytes of the receive buffer is recorded as an overrun.
\<close>

section \<open>Operations\<close>

definition rrep_create :: "u8 \<Rightarrow> u8 \<Rightarrow> u8 \<Rightarrow> addr \<Rightarrow> u32 \<Rightarrow> addr \<Rightarrow> u32 \<Rightarrow> node \<Rightarrow> node" where
  "rrep_create flags prefix hcnt dest_addr dest_seqno orig_addr life s =
     upd_send_buf
       (put_RREP \<lparr>rp_type = AODV_RREP, rp_res1 = 0, rp_a = (flags AND RREP_ACK \<noteq> 0),
                  rp_r = (flags AND RREP_REPAIR \<noteq> 0), rp_prefix = prefix, rp_res2 = 0, rp_hcnt = hcnt,
                  rp_dest_addr = dest_addr, rp_dest_seqno = htonl dest_seqno,
                  rp_orig_addr = orig_addr, rp_lifetime = htonl life\<rparr>)
       (aodv_socket_new_msg s)"

definition HELLO_DELAY :: int where [simp]: "HELLO_DELAY = 50"
definition ROUTE_TIMEOUT_SLACK :: u32 where [simp]: "ROUTE_TIMEOUT_SLACK = 100"
definition JITTER_INTERVAL :: int where [simp]: "JITTER_INTERVAL = 100"
definition RAND_MAX :: nat where [simp]: "RAND_MAX = 2147483647"

definition hello_update_timeout :: "ptr \<Rightarrow> timeval \<Rightarrow> int \<Rightarrow> node \<Rightarrow> node" where
  "hello_update_timeout p now time s =
     upd_rt p (\<lambda>e. e\<lparr>rt_last_hello_time := now\<rparr>) (tm_set (Hello_timer p) (time + HELLO_DELAY) s)"

definition neighbor_add :: "addr \<Rightarrow> u32 \<Rightarrow> node \<Rightarrow> node" where
  "neighbor_add source ifindex s =
     (let fin = (\<lambda>p s. if \<not> llfeedback (conf s) \<and> tm_used (Hello_timer p) s
                       then hello_update_timeout p (clock s) (ALLOWED_HELLO_LOSS * HELLO_INTERVAL) s
                       else s)
      in case rt_table_find source s of
           None \<Rightarrow>
             (case rt_table_insert source source 1 0 (ACTIVE_ROUTE_TIMEOUT s) VALID 0 ifindex s of
                (None, s1) \<Rightarrow> abort Null_deref s1
              | (Some p, s1) \<Rightarrow> fin p s1)
         | Some p \<Rightarrow>
             if flag (rt_flags (rt s p)) RT_UNIDIR then s
             else
               fin p (rt_table_update p source 1 (rt_dest_seqno (rt s p)) (ACTIVE_ROUTE_TIMEOUT s)
                        VALID (rt_flags (rt s p)) s))"

text \<open>
  \<open>(long) (((float) random() / RAND_MAX - 0.5) * JITTER_INTERVAL)\<close>.  The conversion to \<open>float\<close> rounds
  to 24 significant bits, halves to even; \<open>RAND_MAX\<close> becomes \<open>2 ^ 31\<close>.  The quotient and, in
  \<open>double\<close>, the difference and the product are exact; the conversion to \<open>long\<close> truncates.
\<close>

fun float_ulp :: "nat \<Rightarrow> nat" where
  "float_ulp n = (if n < 2 ^ 24 then 1 else 2 * float_ulp (n div 2))"

declare float_ulp.simps [simp del]

definition to_float :: "nat \<Rightarrow> nat" where
  "to_float n =
     (let u = float_ulp n; q = n div u; r = n mod u
      in u * (if 2 * r > u \<or> 2 * r = u \<and> odd q then q + 1 else q))"

definition hello_jitter :: "node \<Rightarrow> int \<times> node" where
  "hello_jitter s =
     (if hello_jittering (conf s) then
        (((int (to_float (nat (random s (random_pos s)))) - 2 ^ 30) * JITTER_INTERVAL)
           sdiv int (to_float RAND_MAX),
         s\<lparr>random_pos := random_pos s + 1\<rparr>)
      else (0, s))"

definition hello_stop :: "node \<Rightarrow> node" where
  "hello_stop s = tm_remove Hello_send_timer s"

text \<open>Stores of some bytes at an offset of a buffer.\<close>

definition poke :: "nat \<Rightarrow> bytes \<Rightarrow> bytes \<Rightarrow> bytes" where
  "poke i bs b = take i b @ bs @ drop (i + length bs) b"

definition RREP_HELLO_INTERVAL_EXT :: u8 where [simp]: "RREP_HELLO_INTERVAL_EXT = 2"
definition RREP_HELLO_NEIGHBOR_SET_EXT :: u8 where [simp]: "RREP_HELLO_NEIGHBOR_SET_EXT = 3"
definition AODV_EXT_HDR_SIZE :: nat where [simp]: "AODV_EXT_HDR_SIZE = 2"

text \<open>
  The neighbour set extension.  The variable \<open>ext\<close> survives from one interface to the next, so
  that the extension of the second interface starts behind an empty one; all addresses go to the
  same place.
\<close>

definition hello_neighbor_set :: "nat option \<Rightarrow> node \<Rightarrow> nat \<times> node" where
  "hello_neighbor_set ext s =
     (let i = (case ext of
                 None \<Rightarrow> RREP_SIZE
               | Some i \<Rightarrow> i + AODV_EXT_HDR_SIZE + unat (send_buf (sk s) ! (i + 1)));
          s1 = upd_send_buf (poke i [RREP_HELLO_NEIGHBOR_SET_EXT, 0]) s
      in (i, fold (\<lambda>p s. if tm_used (Hello_timer p) s
                         then upd_send_buf (\<lambda>b. poke (i + 1) [b ! (i + 1) + 4]
                                                (poke (i + 2) (put32 (rt_dest_addr (rt s p))) b)) s
                         else s) (entries (rt_tbl s1)) s1))"

text \<open>The body of the loop over the interfaces, with the variables \<open>ext\<close> and \<open>msg_size\<close>.\<close>

definition hello_iface :: "nat \<Rightarrow> nat option \<times> nat \<times> node \<Rightarrow> nat option \<times> nat \<times> node" where
  "hello_iface d st =
     (case st of (ext, msg_size, s) \<Rightarrow>
        let dev = DEV_NR s d in
        if \<not> enabled dev then st
        else
          let s1 = rrep_create 0 0 0 (ipaddr dev) (seqno (this_host s)) (ipaddr dev)
                     (word_of_int (ALLOWED_HELLO_LOSS * HELLO_INTERVAL)) s;
              (ext', msg_size', s2) =
                (if unidir_hack (conf s1) then
                   let (i, s2) = hello_neighbor_set ext s1;
                       n = unat (send_buf (sk s2) ! (i + 1))
                   in (Some i, if n \<noteq> 0 then RREP_SIZE + AODV_EXT_HDR_SIZE + n else msg_size, s2)
                 else (ext, msg_size, s1))
          in (ext', msg_size', aodv_socket_send AODV_BROADCAST msg_size' 1 (DEV_NR s2 d) s2))"

definition hello_send :: "node \<Rightarrow> node" where
  "hello_send s =
     (if optimized_hellos (conf s) \<and>
         timeval_diff (clock s) (fwd_time (this_host s)) > active_route_timeout (conf s)
      then hello_stop s
      else
        let time_diff = timeval_diff (clock s) (bcast_time (this_host s));
            (jitter, s1) = hello_jitter s
        in if time_diff \<ge> HELLO_INTERVAL then
             (case fold hello_iface [0..<MAX_NR_INTERFACES] (None, RREP_SIZE, s1) of
                (_, _, s2) \<Rightarrow> tm_set Hello_send_timer (HELLO_INTERVAL + jitter) s2)
           else if HELLO_INTERVAL - time_diff + jitter < 0
           then tm_set Hello_send_timer (HELLO_INTERVAL - time_diff - jitter) s1
           else tm_set Hello_send_timer (HELLO_INTERVAL - time_diff + jitter) s1)"

definition hello_start :: "node \<Rightarrow> node" where
  "hello_start s =
     (if tm_used Hello_send_timer s then s
      else
        hello_send (tm_init Hello_send_timer Hello_send A_NULL
          (s\<lparr>this_host := (this_host s)\<lparr>fwd_time := clock s\<rparr>\<rparr>)))"

text \<open>
  The loop over the extensions of a received hello.  \<open>None\<close> is a read behind the buffer.  The
  variables are the remaining length, the hello interval and the flags.
\<close>

definition hello_neighbor_heard :: "bytes \<Rightarrow> nat \<Rightarrow> addr \<Rightarrow> bool" where
  "hello_neighbor_heard b i me \<longleftrightarrow>
     (\<exists>k \<in> set [0..<(unat (b ! (i + 1)) + 3) div 4]. get32 b (i + 2 + 4 * k) = me)"

function hello_exts :: "bytes \<Rightarrow> addr \<Rightarrow> nat \<Rightarrow> int \<Rightarrow> u32 \<times> u8 \<Rightarrow> (u32 \<times> u8) option" where
  "hello_exts b me i rreplen v =
     (if rreplen \<le> int RREP_SIZE then Some v
      else if length b \<le> i + 1 then None
      else
        let len = unat (b ! (i + 1)); cont = hello_exts b me (i + 2 + len) (rreplen - 2 - int len)
        in if b ! i = RREP_HELLO_INTERVAL_EXT then
             if len = 4 then
               if length b < i + 6 then None else cont (ntohl (get32 b (i + 2)), snd v)
             else cont v
           else if b ! i = RREP_HELLO_NEIGHBOR_SET_EXT then
             if length b < i + 2 + 4 * ((len + 3) div 4) then None
             else cont (fst v, if hello_neighbor_heard b i me then snd v AND NOT (ucast RT_UNIDIR) else snd v)
           else Some v)"
  by pat_completeness auto

termination
  by (relation "measure (\<lambda>(b, me, i, l, v). length b - i)") auto

declare hello_exts.simps [simp del]

text \<open>The entry is updated or created; \<open>None\<close> means the message only counts as one more hello.\<close>

definition hello_route ::
  "addr \<Rightarrow> u32 \<Rightarrow> u32 \<Rightarrow> u32 \<Rightarrow> u8 \<Rightarrow> node \<Rightarrow> ptr option \<times> node" where
  "hello_route dest hseqno ifindex interval flags s =
     (let state = (if receive_n_hellos (conf s) \<noteq> 0 then INVALID else VALID);
          timeout = word_of_int ALLOWED_HELLO_LOSS * interval + ROUTE_TIMEOUT_SLACK
      in case rt_table_find dest s of
           None \<Rightarrow>
             (case rt_table_insert dest dest 1 hseqno timeout state (ucast flags) ifindex s of
                (None, s1) \<Rightarrow> (None, abort Null_deref s1)
              | (Some p, s1) \<Rightarrow> (Some p, upd_rt p (\<lambda>e. e\<lparr>rt_hello_cnt := 1\<rparr>) s1))
         | Some p \<Rightarrow>
             let e = rt s p in
             if flag (ucast flags) RT_UNIDIR \<and> rt_state e = VALID \<and> rt_hcnt e > 1 then (Some p, s)
             else if receive_n_hellos (conf s) \<noteq> 0 \<and> uint (rt_hello_cnt e) < receive_n_hellos (conf s) - 1 then
               (None, upd_rt p (\<lambda>e. e\<lparr>rt_hello_cnt :=
                         (if timeval_diff (clock s) (rt_last_hello_time e) < uint (interval + interval div 2)
                          then rt_hello_cnt e + 1 else 1), rt_last_hello_time := clock s\<rparr>) s)
             else (Some p, rt_table_update p dest 1 hseqno timeout VALID (ucast flags) s))"

definition hello_process :: "nat \<Rightarrow> u32 \<Rightarrow> node \<Rightarrow> node" where
  "hello_process rreplen ifindex s =
     (let b = recv_buf (sk s); hello = get_RREP b; dest = rp_dest_addr hello;
          flags = (case rt_table_find dest s of None \<Rightarrow> 0 | Some p \<Rightarrow> ucast (rt_flags (rt s p)));
          flags = (if unidir_hack (conf s) then flags OR ucast RT_UNIDIR else flags)
      in case hello_exts b (ipaddr (DEV_IFINDEX s ifindex)) RREP_SIZE (int rreplen)
                (word_of_int HELLO_INTERVAL, flags) of
           None \<Rightarrow> abort Overrun s
         | Some (interval, flags) \<Rightarrow>
             (case hello_route dest (ntohl (rp_dest_seqno hello)) ifindex interval flags s of
                (None, s1) \<Rightarrow> s1
              | (Some p, s1) \<Rightarrow>
                  hello_update_timeout p (clock s1) (uint (word_of_int ALLOWED_HELLO_LOSS * interval :: u32)) s1))"

section \<open>Invariant\<close>

text \<open>One more operation after those that led to \<open>s'\<close>.\<close>

lemma ok_then: "ok s s' \<Longrightarrow> (wf_node s' \<Longrightarrow> ok s' s'') \<Longrightarrow> ok s s''"
  by (meson ok_inv ok_trans)

lemma rrep_create_ok:
  assumes "wf_node s"
  shows "ok s (rrep_create f pf h d n og l s)"
  unfolding rrep_create_def
  by (rule ok_then [OF new_msg_ok [OF assms]], rule upd_send_buf_ok) (simp_all add: send_buf_length)

lemma rrep_create_frame [simp]:
  "rt_tbl (rrep_create f pf h d n og l s) = rt_tbl s" "tq (rrep_create f pf h d n og l s) = tq s"
  "conf (rrep_create f pf h d n og l s) = conf s" "clock (rrep_create f pf h d n og l s) = clock s"
  "out (rrep_create f pf h d n og l s) = out s" "PQ (rrep_create f pf h d n og l s) = PQ s"
  "status (rrep_create f pf h d n og l s) = status s"
  "this_host (rrep_create f pf h d n og l s) = this_host s"
  "seekhead (rrep_create f pf h d n og l s) = seekhead s"
  "recv_buf (sk (rrep_create f pf h d n og l s)) = recv_buf (sk s)"
  by (simp_all add: rrep_create_def aodv_socket_new_msg_def)

lemma rrep_create_tail: "20 \<le> j \<Longrightarrow> j < 812 \<Longrightarrow> send_buf (sk (rrep_create f pf h d n og l s)) ! j = 0"
  by (simp add: rrep_create_def aodv_socket_new_msg_def put_RREP_def nth_append)

lemma hello_update_timeout_ok:
  assumes "wf_node s" "p \<in> live s"
  shows "ok s (hello_update_timeout p now t s)"
  unfolding hello_update_timeout_def
  by (rule ok_then [OF tm_set_rt_ok(3) [OF assms]], rule upd_rt_ok) (simp_all add: entry_wf_def)

text \<open>A route that is not there can be inserted, unless memory is full.\<close>

lemma insert_null_ok:
  assumes "wf_node s" "rt_table_find d s = None" "rt_table_insert d n h sq l st fl i s = (None, s')"
  shows "ok s (abort Null_deref s')"
  using rt_table_insert_ok [OF assms(1,3)] assms(2) by (simp add: abort_def)

lemma neighbor_add_ok:
  assumes "wf_node s"
  shows "ok s (neighbor_add a i s)"
proof -
  let ?fin = "\<lambda>p s. if \<not> llfeedback (conf s) \<and> tm_used (Hello_timer p) s
     then hello_update_timeout p (clock s) (ALLOWED_HELLO_LOSS * HELLO_INTERVAL) s else s"
  have fin: "ok s (?fin p s')" if "ok s s'" "p \<in> live s'" for p s'
    using that hello_update_timeout_ok [OF ok_inv [OF that(1)] that(2)] by (auto intro: ok_trans)
  show ?thesis
  proof (cases "rt_table_find a s")
    case None
    obtain r s1 where ins: "rt_table_insert a a 1 0 (ACTIVE_ROUTE_TIMEOUT s) VALID 0 i s = (r, s1)" by force
    show ?thesis
    proof (cases r)
      case (Some p)
      with rt_table_insert_ok(1,2) [OF assms ins] fin [of s1 p] show ?thesis
        by (simp add: neighbor_add_def None ins)
    next
      case r: None
      with insert_null_ok [OF assms None] ins show ?thesis by (auto simp: neighbor_add_def None)
    qed
  next
    case (Some p)
    have p: "p \<in> live s" by (rule rts.find_alive [OF assms Some])
    define s1 where "s1 = rt_table_update p a 1 (rt_dest_seqno (rt s p)) (ACTIVE_ROUTE_TIMEOUT s) VALID (rt_flags (rt s p)) s"
    have "ok s s1" unfolding s1_def by (rule rt_table_update_ok [OF assms p])
    from fin [OF this ok_live [OF this p]] ok_refl [OF assms] show ?thesis
      unfolding neighbor_add_def Let_def Some option.case s1_def [symmetric] by (simp only: split: if_split) blast
  qed
qed

lemma length_poke [simp]: "i + length bs \<le> length b \<Longrightarrow> length (poke i bs b) = length b"
  by (simp add: poke_def)

lemma hello_jitter_ok: "wf_node s \<Longrightarrow> ok s (snd (hello_jitter s))"
  by (simp add: hello_jitter_def upd_random_ok ok_refl)

lemma hello_jitter_frame [simp]:
  "tq (snd (hello_jitter s)) = tq s" "conf (snd (hello_jitter s)) = conf s"
  "rt_tbl (snd (hello_jitter s)) = rt_tbl s" "this_host (snd (hello_jitter s)) = this_host s"
  by (simp_all add: hello_jitter_def)

lemma hello_neighbor_set_ok:
  assumes "wf_node s" "hello_neighbor_set ext s = (i, s')" "i \<le> 800"
  shows "ok s s'"
proof -
  let ?f = "\<lambda>p s. if tm_used (Hello_timer p) s
     then upd_send_buf (\<lambda>b. poke (i + 1) [b ! (i + 1) + 4] (poke (i + 2) (put32 (rt_dest_addr (rt s p))) b)) s
     else s"
  have "ok s (fold ?f ps s)" if "wf_node s" for ps s
    using that
  proof (induction ps arbitrary: s)
    case (Cons p ps)
    have "ok s (?f p s)"
      using Cons.prems assms(3) by (auto intro!: upd_send_buf_ok ok_refl simp: send_buf_length)
    from ok_then [OF this Cons.IH] show ?case by simp
  qed (simp add: ok_refl)
  moreover have "ok s (upd_send_buf (poke i [RREP_HELLO_NEIGHBOR_SET_EXT, 0]) s)"
    using assms(1,3) by (auto intro!: upd_send_buf_ok simp: send_buf_length)
  ultimately show ?thesis
    using assms(2) by (auto simp: hello_neighbor_set_def Let_def intro: ok_then)
qed

lemma hello_iface_ok:
  assumes "wf_node s" "hello_iface d (ext, m, s) = (ext', m', s')"
    and "case ext of None \<Rightarrow> True | Some i \<Rightarrow> 20 \<le> i \<and> i \<le> n" "20 \<le> n" "n \<le> 700"
  shows "ok s s'" "case ext' of None \<Rightarrow> True | Some i \<Rightarrow> 20 \<le> i \<and> i \<le> n + 2"
proof -
  let ?dev = "DEV_NR s d"
  define s1 where "s1 = rrep_create 0 0 0 (ipaddr ?dev) (seqno (this_host s)) (ipaddr ?dev)
     (word_of_int (ALLOWED_HELLO_LOSS * HELLO_INTERVAL)) s"
  have 1: "ok s s1" unfolding s1_def by (rule rrep_create_ok [OF assms(1)])
  obtain i s2 where ns: "hello_neighbor_set ext s1 = (i, s2)" by force
  have "send_buf (sk s1) ! (j + 1) = 0" if "ext = Some j" for j
    using that assms(3-5) by (simp add: s1_def rrep_create_tail)
  then have i: "20 \<le> i" "i \<le> n + 2"
    using ns assms(3,4) by (auto simp: hello_neighbor_set_def Let_def split: option.splits)
  have "ok s s2" by (rule ok_then [OF 1 hello_neighbor_set_ok [OF _ ns]]) (use i assms(5) in simp_all)
  then have send: "ok s (aodv_socket_send a l t v s1)" "ok s (aodv_socket_send a l t v s2)" for a l t v
    using 1 aodv_socket_send_ok ok_then by blast+
  define k where "k = (if unat (send_buf (sk s2) ! (i + 1)) \<noteq> 0
      then RREP_SIZE + AODV_EXT_HDR_SIZE + unat (send_buf (sk s2) ! (i + 1)) else m)"
  have "hello_iface d (ext, m, s) =
      (if \<not> enabled ?dev then (ext, m, s)
       else if unidir_hack (conf s1) then (Some i, k, aodv_socket_send AODV_BROADCAST k 1 (DEV_NR s2 d) s2)
       else (ext, m, aodv_socket_send AODV_BROADCAST m 1 (DEV_NR s1 d) s1))"
    unfolding hello_iface_def Let_def prod.case s1_def [symmetric] ns k_def [symmetric]
    by (simp only: prod.case split: if_split) simp
  with assms(2-4) i send ok_refl [OF assms(1)]
  show "ok s s'" "case ext' of None \<Rightarrow> True | Some i \<Rightarrow> 20 \<le> i \<and> i \<le> n + 2"
    by (auto split: if_splits option.splits)
qed

lemma hello_ifaces_ok:
  assumes "wf_node s" "case ext of None \<Rightarrow> True | Some i \<Rightarrow> 20 \<le> i \<and> i \<le> n"
    and "20 \<le> n" "n + 2 * length ds \<le> 700"
  shows "ok s (snd (snd (fold hello_iface ds (ext, m, s))))"
  using assms
proof (induction ds arbitrary: ext m s n)
  case (Cons d ds)
  obtain ext' m' s' where st: "hello_iface d (ext, m, s) = (ext', m', s')" by (metis prod.exhaust)
  have "n \<le> 700" using Cons.prems(4) by simp
  note step = hello_iface_ok [OF Cons.prems(1) st Cons.prems(2,3) this]
  have "ok s' (snd (snd (fold hello_iface ds (ext', m', s'))))"
    by (rule Cons.IH [OF ok_inv [OF step(1)] step(2)]) (use Cons.prems(3,4) in simp_all)
  with ok_trans [OF step(1)] show ?case by (simp add: st)
qed (simp add: ok_refl)

lemma hello_send_ok:
  assumes "wf_node s" "handler (timers (tq s) Hello_send_timer) \<noteq> None"
  shows "ok s (hello_send s)"
proof -
  define s1 where "s1 = snd (hello_jitter s)"
  have 1: "ok s s1" unfolding s1_def by (rule hello_jitter_ok [OF assms(1)])
  define s2 where "s2 = snd (snd (fold hello_iface [0..<MAX_NR_INTERFACES] (None, RREP_SIZE, s1)))"
  have 2: "ok s s2" unfolding s2_def
    by (rule ok_then [OF 1], rule hello_ifaces_ok [where n = 20]) simp_all
  have set: "ok s (tm_set Hello_send_timer m s')" if "ok s s'" for m s'
    using that assms(2) by (intro ok_then [OF that] tm_set_ok) (auto simp: ok_def static_timer_def)
  have "ok s (hello_stop s)" unfolding hello_stop_def by (rule tm_remove_ok [OF assms(1)]) simp
  then show ?thesis
    unfolding hello_send_def Let_def case_prod_beta s1_def [symmetric] s2_def [symmetric]
    using set [OF 1] set [OF 2] by simp
qed

lemma hello_start_ok:
  assumes "wf_node s"
  shows "ok s (hello_start s)"
proof (cases "tm_used Hello_send_timer s")
  case False
  define s1 where "s1 = s\<lparr>this_host := (this_host s)\<lparr>fwd_time := clock s\<rparr>\<rparr>"
  have 1: "ok s s1" unfolding s1_def by (rule upd_host_ok [OF assms]) simp_all
  note wf = invD [OF ok_inv [OF 1]]
  have "Hello_send_timer \<notin> attached (tq s1)"
    using False wf(11) by (simp add: s1_def tm_used_def tq_wf_def)
  then have "timers_wf (timer_init Hello_send_timer Hello_send A_NULL (tq s1)) (live s1) (seeking s1)
      (set (plist (rreq_records s1))) (set (plist (rreq_blacklist s1)))"
    by (intro timers_wf_init wf(3)) simp_all
  then have 2: "ok s1 (tm_init Hello_send_timer Hello_send A_NULL s1)"
    using ok_inv [OF 1]
    by (auto simp: tm_init_def ok_def wf_node_def statics_def static_ready_def timer_init_def)
  have "ok s (tm_init Hello_send_timer Hello_send A_NULL s1)" by (rule ok_trans [OF 1 2])
  from ok_then [OF this hello_send_ok] show ?thesis
    by (simp add: hello_start_def False flip: s1_def) (simp add: tm_init_def timer_init_def)
qed (simp add: hello_start_def ok_refl assms)

lemma hello_route_ok:
  assumes "wf_node s" "hello_route d sq i iv fl s = (r, s')"
  shows "ok s s'" "r = Some p \<Longrightarrow> p \<in> live s'"
proof -
  have cnt: "ok s (upd_rt p (\<lambda>e. e\<lparr>rt_hello_cnt := c e, rt_last_hello_time := t\<rparr>) s)"
    "ok s (upd_rt p (\<lambda>e. e\<lparr>rt_hello_cnt := c e\<rparr>) s)" if "wf_node s" for p c t s
    by (rule upd_rt_ok [OF that]; simp add: entry_wf_def)+
  have "ok s s' \<and> (\<forall>p. r = Some p \<longrightarrow> p \<in> live s')"
  proof (cases "rt_table_find d s")
    case None
    let ?st = "if receive_n_hellos (conf s) \<noteq> 0 then INVALID else VALID"
    let ?t = "word_of_int ALLOWED_HELLO_LOSS * iv + ROUTE_TIMEOUT_SLACK"
    obtain r1 s1 where ins: "rt_table_insert d d 1 sq ?t ?st (ucast fl) i s = (r1, s1)" by force
    show ?thesis
    proof (cases r1)
      case (Some p)
      note new = rt_table_insert_ok(1,2) [OF assms(1) ins]
      have "ok s (upd_rt p (\<lambda>e. e\<lparr>rt_hello_cnt := 1\<rparr>) s1)" by (rule ok_then [OF new(1) cnt(2)])
      with assms(2) new(2) [OF Some] ins show ?thesis
        by (simp add: hello_route_def None Let_def Some) auto
    qed (use insert_null_ok [OF assms(1) None] ins assms(2) in \<open>auto simp: hello_route_def None Let_def\<close>)
  next
    case (Some p)
    have p: "p \<in> live s" by (rule rts.find_alive [OF assms(1) Some])
    note up = rt_table_update_ok [OF assms(1) p] cnt(1) [OF assms(1), of p] ok_refl [OF assms(1)]
    from assms(2) show ?thesis
      using p up by (auto simp: hello_route_def Some Let_def split: if_splits intro: ok_live [OF _ p])
  qed
  then show "ok s s'" "r = Some p \<Longrightarrow> p \<in> live s'" by blast+
qed

lemma hello_process_ok:
  assumes "wf_node s"
  shows "ok s (hello_process l i s)"
proof -
  have "ok s (case hello_route d sq i iv fl s of (None, s1) \<Rightarrow> s1
    | (Some p, s1) \<Rightarrow> hello_update_timeout p (clock s1) (t iv) s1)" for d sq iv fl t
  proof -
    obtain r s1 where r: "hello_route d sq i iv fl s = (r, s1)" by force
    note 1 = hello_route_ok [OF assms r]
    show ?thesis
      using 1 ok_then [OF 1(1) hello_update_timeout_ok] by (simp add: r split: option.split)
  qed
  then show ?thesis
    by (auto simp: hello_process_def Let_def abort_overrun_ok assms split: option.split)
qed

section \<open>The hello timer\<close>

lemma float_ulp_dvd: "n < 2 ^ (24 + k) \<Longrightarrow> float_ulp n dvd 2 ^ k"
proof (induction k arbitrary: n)
  case 0
  then show ?case by (simp add: float_ulp.simps [of n])
next
  case (Suc k)
  then have "float_ulp (n div 2) dvd 2 ^ k" by (intro Suc.IH) (simp add: power_add)
  then have "n < 16777216 \<or> 2 * float_ulp (n div 2) dvd 2 ^ Suc k" by (simp add: mult_dvd_mono)
  then show ?case by (auto simp: float_ulp.simps [of n])
qed

lemma to_float_le:
  assumes "n \<le> RAND_MAX"
  shows "to_float n \<le> 2 ^ 31"
proof -
  let ?u = "float_ulp n"
  have "?u dvd 2 ^ 7" using assms by (intro float_ulp_dvd) simp
  then have "?u dvd 2 ^ 31" by (rule dvd_trans) simp
  then obtain m where m: "2 ^ 31 = ?u * m" by blast
  then have "n < m * ?u" using assms by (simp add: mult.commute)
  then have "n div ?u < m" by (rule less_mult_imp_div_less)
  then have "?u * (n div ?u + 1) \<le> 2 ^ 31" unfolding m by (intro mult_le_mono) simp_all
  moreover from this have "?u * (n div ?u) \<le> 2 ^ 31" by (rule le_trans [rotated]) simp
  ultimately show ?thesis by (simp add: to_float_def Let_def del: mult_Suc_right)
qed

lemma to_float_RAND_MAX: "to_float RAND_MAX = 2 ^ 31"
  by (simp add: to_float_def float_ulp.simps Let_def)

lemma hello_jitter_bound:
  assumes "0 \<le> random s (random_pos s)" "random s (random_pos s) \<le> int RAND_MAX"
  shows "- 50 \<le> fst (hello_jitter s)" "fst (hello_jitter s) \<le> 50"
proof -
  let ?f = "int (to_float (nat (random s (random_pos s))))"
  let ?x = "(?f - 2 ^ 30) * 100"
  have "nat (random s (random_pos s)) \<le> RAND_MAX" using assms by simp
  then have "to_float (nat (random s (random_pos s))) \<le> 2 ^ 31" by (rule to_float_le)
  then have "\<bar>?x\<bar> \<le> 50 * 2 ^ 31" by simp
  then have "\<bar>?x\<bar> div 2 ^ 31 \<le> 50" using zdiv_mono1 [of "\<bar>?x\<bar>" "50 * 2 ^ 31" "2 ^ 31"] by simp
  moreover have "0 \<le> \<bar>?x\<bar> div 2 ^ 31" by (rule div_int_pos_iff [THEN iffD2]) simp
  moreover have "?x sdiv 2 ^ 31 = sgn ?x * (\<bar>?x\<bar> div 2 ^ 31)"
    by (simp only: signed_divide_int_def sgn_mult) simp
  moreover have "sgn ?x \<in> {-1, 0, 1}" by (simp add: sgn_if)
  ultimately have "- 50 \<le> ?x sdiv 2 ^ 31 \<and> ?x sdiv 2 ^ 31 \<le> 50" by auto
  then show "- 50 \<le> fst (hello_jitter s)" "fst (hello_jitter s) \<le> 50"
    by (simp_all only: hello_jitter_def to_float_RAND_MAX JITTER_INTERVAL_def split: if_split) auto
qed

lemma hello_timer_set:
  assumes "ok s s'" and "handler (timers (tq s) Hello_send_timer) \<noteq> None"
  shows "pending Hello_send_timer (tm_set Hello_send_timer m s') Hello_send (usecs (clock s) + m * 1000)"
proof -
  have st: "static_timer Hello_send_timer" by (simp add: static_timer_def)
  have h: "handler (timers (tq s') Hello_send_timer) \<noteq> None" using assms st by (simp add: ok_def)
  have "handler (timers (tq s') Hello_send_timer) = Some Hello_send"
    using timers_wfD(4) [OF invD(3) [OF ok_inv [OF assms(1)]] st h] by simp
  then show ?thesis
    using tm_set_effect [OF invD(11) [OF ok_inv [OF assms(1)]] h, of m] ok_statics(1) [OF assms(1)]
    by (simp add: pending_def)
qed

text \<open>How long \<open>hello_send\<close> waits: the interval from now or from the last broadcast, with jitter.\<close>

lemma hello_send_waits:
  assumes "wf_node s" and "\<not> (optimized_hellos (conf s) \<and>
      timeval_diff (clock s) (fwd_time (this_host s)) > active_route_timeout (conf s))"
  defines "td \<equiv> timeval_diff (clock s) (bcast_time (this_host s))" and "j \<equiv> fst (hello_jitter s)"
  shows "\<exists>m s'. hello_send s = tm_set Hello_send_timer m s' \<and> ok s s' \<and>
    m = (if HELLO_INTERVAL \<le> td then HELLO_INTERVAL + j
         else if HELLO_INTERVAL - td + j < 0 then HELLO_INTERVAL - td - j else HELLO_INTERVAL - td + j)"
proof -
  define s1 where "s1 = snd (hello_jitter s)"
  define s2 where "s2 = snd (snd (fold hello_iface [0..<MAX_NR_INTERFACES] (None, RREP_SIZE, s1)))"
  have 1: "ok s s1" unfolding s1_def by (rule hello_jitter_ok [OF assms(1)])
  have 2: "ok s s2" unfolding s2_def
    by (rule ok_then [OF 1], rule hello_ifaces_ok [where n = 20]) simp_all
  have "hello_send s =
      (if HELLO_INTERVAL \<le> td then tm_set Hello_send_timer (HELLO_INTERVAL + j) s2
       else if HELLO_INTERVAL - td + j < 0 then tm_set Hello_send_timer (HELLO_INTERVAL - td - j) s1
       else tm_set Hello_send_timer (HELLO_INTERVAL - td + j) s1)"
    using assms(2)
    unfolding hello_send_def Let_def case_prod_beta s1_def [symmetric] s2_def [symmetric] td_def j_def
    by (simp only: if_False)
  then show ?thesis using 1 2 by (auto split: if_splits)
qed

text \<open>
  As long as hellos are not switched off for lack of traffic, \<open>hello_send\<close> sets its own timer
  again: it will run after at least 0 and at most 1050 ms, and if it has just sent hellos, after
  at least 950 ms.  \<open>random\<close> returns values from 0 to \<open>RAND_MAX\<close>.
\<close>

theorem hello_send_rearms:
  assumes "wf_node s" and "handler (timers (tq s) Hello_send_timer) \<noteq> None"
    and "\<not> (optimized_hellos (conf s) \<and>
           timeval_diff (clock s) (fwd_time (this_host s)) > active_route_timeout (conf s))"
    and "0 \<le> random s (random_pos s)" and "random s (random_pos s) \<le> int RAND_MAX"
    and "usecs (bcast_time (this_host s)) \<le> usecs (clock s)"
  shows "\<exists>m. pending Hello_send_timer (hello_send s) Hello_send (usecs (clock s) + m * 1000) \<and>
     0 \<le> m \<and> m \<le> 1050 \<and>
     (HELLO_INTERVAL \<le> timeval_diff (clock s) (bcast_time (this_host s)) \<longrightarrow> 950 \<le> m)"
proof -
  let ?td = "timeval_diff (clock s) (bcast_time (this_host s))" and ?j = "fst (hello_jitter s)"
  note j = hello_jitter_bound [OF assms(4,5)]
  have td: "0 \<le> ?td" using assms(6) sdiv_neg_iff [of "usecs (clock s) - usecs (bcast_time (this_host s))"]
    by (simp add: timeval_diff_def usecs_def algebra_simps)
  obtain m s' where m: "hello_send s = tm_set Hello_send_timer m s'" "ok s s'"
    "m = (if HELLO_INTERVAL \<le> ?td then HELLO_INTERVAL + ?j
          else if HELLO_INTERVAL - ?td + ?j < 0 then HELLO_INTERVAL - ?td - ?j else HELLO_INTERVAL - ?td + ?j)"
    using hello_send_waits [OF assms(1,3)] by blast
  have "0 \<le> m" "m \<le> 1050" "HELLO_INTERVAL \<le> ?td \<longrightarrow> 950 \<le> m" using j td by (simp_all add: m(3) split: if_split)
  then show ?thesis using hello_timer_set [OF m(2) assms(2), of m] m(1) by auto
qed

theorem hello_send_rearms_witness:
  "\<exists>m. pending Hello_send_timer (hello_send demo_node) Hello_send (100000000 + m * 1000) \<and>
     950 \<le> m \<and> m \<le> 1050"
proof -
  have "timeval_diff (clock demo_node) (bcast_time (this_host demo_node)) = 100000"
    by (simp add: demo_node_def demo_host_def tv_zero_def timeval_diff_def)
  moreover have "usecs (clock demo_node) = 100000000" by (simp add: demo_node_def usecs_def)
  moreover have "usecs (bcast_time (this_host demo_node)) = 0"
    by (simp add: demo_node_def demo_host_def tv_zero_def usecs_def)
  moreover have "handler (timers (tq demo_node) Hello_send_timer) \<noteq> None"
    by (simp add: demo_node_def demo_tq_def)
  moreover have "\<not> optimized_hellos (conf demo_node)" by (simp add: demo_node_def demo_conf_def)
  moreover have "random demo_node (random_pos demo_node) = 0" by (simp add: demo_node_def)
  ultimately show ?thesis using hello_send_rearms [OF demo_node_wf] by auto
qed

section \<open>Receiving a hello\<close>

lemma flag_unidir_ucast: "flag (ucast (ucast f :: u8)) RT_UNIDIR = flag f RT_UNIDIR"
proof -
  have one: "x AND 1 = (if bit x 0 then 1 else 0)" for x :: u16
    by (simp add: and_one_eq odd_iff_mod_2_eq_one bit_0)
  show ?thesis unfolding flag_def RT_UNIDIR_def one by (simp add: bit_ucast_iff)
qed

text \<open>With no option that delays acceptance the route is valid at once.\<close>

lemma hello_route_plain:
  assumes "wf_node s" "length (entries (rt_tbl s)) < rt_heap_limit s" "receive_n_hellos (conf s) = 0"
    and "hello_route d sq i iv fl s = (r, s1)"
    and "rt_table_find d s \<noteq> None \<Longrightarrow> \<not> flag (ucast fl) RT_UNIDIR"
  shows "\<exists>p. r = Some p \<and> rt_table_find d s1 = Some p \<and> rt_state (rt s1 p) = VALID \<and>
     rt_hcnt (rt s1 p) = 1 \<and> rt_next_hop (rt s1 p) = d \<and> rt_dest_seqno (rt s1 p) = sq"
proof (cases "rt_table_find d s")
  case None
  let ?t = "word_of_int ALLOWED_HELLO_LOSS * iv + ROUTE_TIMEOUT_SLACK"
  obtain p s2 where ins: "rt_table_insert d d 1 sq ?t VALID (ucast fl) i s = (Some p, s2)" "wf_node s2"
    "rt_table_find d s2 = Some p" "rt s2 p = new_entry d d 1 sq VALID (ucast fl) i"
    using rt_table_insert_fresh [OF assms(1,2) None] by blast
  have "r = Some p" and s1: "s1 = upd_rt p (\<lambda>e. e\<lparr>rt_hello_cnt := 1\<rparr>) s2"
    using assms(3,4) ins(1) by (auto simp: hello_route_def None Let_def)
  moreover have "wf_node s1" by (rule ok_inv [OF hello_route_ok(1) [OF assms(1,4)]])
  then have "rt_table_find d s1 = Some p"
    using ins(3) unfolding rts.find_iff [OF ins(2)] by (simp add: rts.find_iff s1)
  ultimately show ?thesis by (simp add: s1 ins(4)) (simp add: new_entry_def)
next
  case (Some p)
  let ?t = "word_of_int ALLOWED_HELLO_LOSS * iv + ROUTE_TIMEOUT_SLACK"
  have p: "p \<in> live s" "rt_dest_addr (rt s p) = d" using Some by (simp_all add: rts.find_iff [OF assms(1)])
  have "r = Some p" and s1: "s1 = rt_table_update p d 1 sq ?t VALID (ucast fl) s"
    using assms(3-5) by (auto simp: hello_route_def Some Let_def)
  moreover have 1: "ok s s1" by (rule hello_route_ok(1) [OF assms(1,4)])
  then have "rt_table_find d s1 = Some p"
    using ok_live [OF 1 p(1)] ok_dest [OF 1 p(1)] p(2) by (simp add: rts.find_iff [OF ok_inv [OF 1]])
  moreover obtain fl' e where "rt s1 p = e
      \<lparr>rt_flags := fl', rt_dest_seqno := sq, rt_next_hop := d, rt_hcnt := 1, rt_state := VALID\<rparr>"
    using rt_table_update_entry unfolding s1 by blast
  ultimately show ?thesis by simp
qed

text \<open>
  C15. A plain hello (20 bytes, no extension), with no option that delays acceptance, leaves a
  valid one-hop route to its sender with the sequence number of the message, and the hello timer
  of that route is pending for \<open>ALLOWED_HELLO_LOSS * HELLO_INTERVAL + HELLO_DELAY\<close> ms.
\<close>

theorem hello_process_correct:
  assumes "wf_node s" and "length (entries (rt_tbl s)) < rt_heap_limit s"
    and "\<not> unidir_hack (conf s)" and "receive_n_hellos (conf s) = 0"
    and "\<forall>p \<in> live s. \<not> flag (rt_flags (rt s p)) RT_UNIDIR"
  defines "h \<equiv> get_RREP (recv_buf (sk s))"
  shows "let s' = hello_process RREP_SIZE i s in
    \<exists>p. rt_table_find (rp_dest_addr h) s' = Some p \<and> rt_state (rt s' p) = VALID \<and>
        rt_hcnt (rt s' p) = 1 \<and> rt_next_hop (rt s' p) = rp_dest_addr h \<and>
        rt_dest_seqno (rt s' p) = ntohl (rp_dest_seqno h) \<and>
        pending (Hello_timer p) s' Hello_timeout (usecs (clock s) + 2050000)"
proof -
  let ?d = "rp_dest_addr h" and ?sq = "ntohl (rp_dest_seqno h)"
  define fl :: u8 where "fl = (case rt_table_find ?d s of None \<Rightarrow> 0 | Some p \<Rightarrow> ucast (rt_flags (rt s p)))"
  obtain r s1 where r: "hello_route ?d ?sq i 1000 fl s = (r, s1)" by force
  have 1: "ok s s1" by (rule hello_route_ok(1) [OF assms(1) r])
  have "\<exists>p. r = Some p \<and> rt_table_find ?d s1 = Some p \<and> rt_state (rt s1 p) = VALID \<and>
        rt_hcnt (rt s1 p) = 1 \<and> rt_next_hop (rt s1 p) = ?d \<and> rt_dest_seqno (rt s1 p) = ?sq"
  proof (rule hello_route_plain [OF assms(1,2,4) r])
    assume "rt_table_find ?d s \<noteq> None"
    then show "\<not> flag (ucast fl) RT_UNIDIR"
      using assms(5) rts.find_alive [OF assms(1)] by (auto simp: fl_def flag_unidir_ucast)
  qed
  then obtain p where p: "r = Some p" "rt_table_find ?d s1 = Some p" "rt_state (rt s1 p) = VALID"
    "rt_hcnt (rt s1 p) = 1" "rt_next_hop (rt s1 p) = ?d" "rt_dest_seqno (rt s1 p) = ?sq" by blast
  have live: "p \<in> live s1" by (rule hello_route_ok(2) [OF assms(1) r p(1)])
  let ?s' = "hello_update_timeout p (clock s1) 2000 s1"
  have eq: "hello_process RREP_SIZE i s = ?s'"
    using assms(3) r p(1)
    by (simp add: hello_process_def Let_def hello_exts.simps fl_def flip: h_def)
  have ok': "ok s1 ?s'" by (rule hello_update_timeout_ok [OF ok_inv [OF 1] live])
  have "rt_table_find ?d ?s' = Some p"
    using p(2) ok_live [OF ok' live] ok_dest [OF ok' live]
    by (simp add: rts.find_iff [OF ok_inv [OF 1]] rts.find_iff [OF ok_inv [OF ok']])
  moreover have "handler (timers (tq s1) (Hello_timer p)) = Some Hello_timeout"
    using timers_wfD(3) [OF invD(3) [OF ok_inv [OF 1]], of "Hello_timer p"] live by simp
  then have "pending (Hello_timer p) ?s' Hello_timeout (usecs (clock s) + 2050000)"
    using tm_set_effect(2,4) [OF invD(11) [OF ok_inv [OF 1]], of "Hello_timer p" 2050] ok_statics(1) [OF 1]
    by (simp add: pending_def hello_update_timeout_def)
  ultimately show ?thesis
    unfolding Let_def eq using p(3-6) by (simp add: hello_update_timeout_def)
qed

definition demo_hello :: node where
  "demo_hello = demo_routes\<lparr>sk := demo_socket
     \<lparr>recv_buf := put_RREP \<lparr>rp_type = AODV_RREP, rp_res1 = 0, rp_a = False, rp_r = False, rp_prefix = 0,
        rp_res2 = 0, rp_hcnt = 0, rp_dest_addr = 0x0600000A, rp_dest_seqno = htonl 12,
        rp_orig_addr = 0x0600000A, rp_lifetime = htonl 2000\<rparr> (replicate 812 0)\<rparr>\<rparr>"

theorem hello_process_correct_witness:
  "\<exists>p. rt_table_find 0x0600000A (hello_process RREP_SIZE 3 demo_hello) = Some p \<and>
       rt_dest_seqno (rt (hello_process RREP_SIZE 3 demo_hello) p) = 12"
proof -
  have wf: "wf_node demo_hello" unfolding demo_hello_def
    by (rule ok_inv [OF upd_sk_ok [OF demo_routes_wf]]) (simp add: sock_wf_def demo_socket_def)
  have "length (entries (rt_tbl demo_hello)) < rt_heap_limit demo_hello"
    "\<not> unidir_hack (conf demo_hello)" "receive_n_hellos (conf demo_hello) = 0"
    "\<forall>p \<in> live demo_hello. \<not> flag (rt_flags (rt demo_hello p)) RT_UNIDIR"
    by (simp_all add: demo_hello_def demo_routes_def demo_node_def demo_conf_def entries_demo_table)
      (simp add: demo_table_def far_route_def neighbour_route_def no_route_def flag_def)
  from hello_process_correct [OF wf this, of 3] show ?thesis
    by (auto simp: Let_def) (auto simp: demo_hello_def get_put_RREP)
qed

end
