(* ===== verification/Extensions.thy ===== *)
theory Extensions
  imports Hello
begin

text \<open>
  Message extensions (\<open>AODV_ext\<close> of \<open>src/core/defs.h\<close>): a type, a length and that many bytes.
  \<open>rreq_process\<close> and \<open>rrep_process\<close> walk over the extensions of a received message with the same
  loop, of which only the bounds matter: the build has no extension that does anything.

  The loop condition \<open>(rreqlen - extlen) > RREQ_SIZE\<close> is computed in unsigned arithmetic.  Shown
  here: the walk over a properly encoded message ends at its last byte, and an extension that
  claims more bytes than the whole message sends the walk past the end of the receive buffer.
\<close>

section \<open>Walking and adding\<close>

text \<open>\<open>True\<close> when the loop ends, \<open>False\<close> when it reads behind the buffer.\<close>

function ext_walk :: "bytes \<Rightarrow> nat \<Rightarrow> nat \<Rightarrow> nat \<Rightarrow> bool" where
  "ext_walk b hdr len extlen \<longleftrightarrow>
     (if uint (of_nat len - of_nat extlen :: u32) \<le> int hdr then True
      else if length b \<le> hdr + extlen + 1 then False
      else ext_walk b hdr len (extlen + AODV_EXT_HDR_SIZE + unat (b ! (hdr + extlen + 1))))"
  by pat_completeness auto

termination
  by (relation "measure (\<lambda>(b, hdr, len, extlen). length b - (hdr + extlen))") auto

declare ext_walk.simps [simp del]

text \<open>\<open>rreq_add_ext\<close> and \<open>rrep_add_ext\<close>; \<open>None\<close> is the result \<open>NULL\<close>.\<close>

definition rreq_add_ext :: "u8 \<Rightarrow> nat \<Rightarrow> nat \<Rightarrow> bytes \<Rightarrow> bytes \<Rightarrow> bytes option" where
  "rreq_add_ext ty offset len data b =
     (if offset < RREQ_SIZE then None else Some (poke offset ([ty, of_nat len] @ take len data) b))"

definition rrep_add_ext :: "u8 \<Rightarrow> nat \<Rightarrow> nat \<Rightarrow> bytes \<Rightarrow> bytes \<Rightarrow> bytes option" where
  "rrep_add_ext ty offset len data b =
     (if offset < RREP_SIZE then None else Some (poke offset ([ty, of_nat len] @ take len data) b))"

text \<open>\<open>rrep_add_hello_ext\<close>: the interval is stored in host order; the result is the new offset.\<close>

definition rrep_add_hello_ext :: "nat \<Rightarrow> u32 \<Rightarrow> bytes \<Rightarrow> nat \<times> bytes" where
  "rrep_add_hello_ext offset interval b =
     (offset + AODV_EXT_HDR_SIZE + 4,
      poke (RREP_SIZE + offset) ([RREP_HELLO_INTERVAL_EXT, 4] @ put32 interval) b)"

section \<open>Properties\<close>

text \<open>The encoding of a list of extensions.\<close>

definition ext_bytes :: "u8 \<times> bytes \<Rightarrow> bytes" where
  "ext_bytes x = [fst x, of_nat (length (snd x))] @ snd x"

definition exts_bytes :: "(u8 \<times> bytes) list \<Rightarrow> bytes" where
  "exts_bytes xs = concat (map ext_bytes xs)"

lemma uint_diff:
  assumes "j \<le> len" "len < 2 ^ 32"
  shows "uint (of_nat len - of_nat j :: u32) = int (len - j)"
proof -
  have "(of_nat len - of_nat j :: u32) = word_of_int (int (len - j))" using assms(1) by (simp add: of_nat_diff)
  moreover have "uint (word_of_int (int (len - j)) :: u32) = int (len - j)"
    unfolding uint_word_of_int using assms(2) by simp
  ultimately show ?thesis by simp
qed

lemma uint_diff_wrap:
  assumes "len < j" "j < 2 ^ 31"
  shows "uint (of_nat len - of_nat j :: u32) = 2 ^ 32 + int len - int j"
proof -
  have "(of_nat len - of_nat j :: u32) = word_of_int (int len - int j)" by simp
  then have "uint (of_nat len - of_nat j :: u32) = (int len - int j) mod 2 ^ 32"
    by (simp only: uint_word_of_int) simp
  also have "\<dots> = (int len - int j + 2 ^ 32) mod 2 ^ 32" by simp
  also have "\<dots> = int len - int j + 2 ^ 32" using assms by (intro mod_pos_pos_trivial) simp_all
  finally show ?thesis by simp
qed

lemma ext_walk_exts:
  assumes "b = h @ p @ exts_bytes xs @ t" "length h = hdr"
    and "len = hdr + length p + length (exts_bytes xs)" "len < 2 ^ 32"
    and "\<forall>x \<in> set xs. length (snd x) < 256"
  shows "ext_walk b hdr len (length p)"
  using assms
proof (induction xs arbitrary: p)
  case Nil
  then have "uint (of_nat len - of_nat (length p) :: u32) = int hdr"
    by (subst uint_diff) (simp_all add: exts_bytes_def)
  then show ?case by (subst ext_walk.simps) (simp only: order_refl if_True)
next
  case (Cons x xs)
  let ?n = "length (snd x)"
  have b: "b ! (hdr + length p + 1) = of_nat ?n"
    using Cons.prems(1,2) by (simp add: exts_bytes_def ext_bytes_def nth_append)
  have "unat (of_nat ?n :: u8) = ?n" using Cons.prems(5) by (simp add: unat_of_nat)
  moreover have "ext_walk b hdr len (length (p @ ext_bytes x))"
    using Cons.prems by (intro Cons.IH) (simp_all add: exts_bytes_def)
  ultimately have "ext_walk b hdr len (length p + AODV_EXT_HDR_SIZE + unat (b ! (hdr + length p + 1)))"
    unfolding b by (simp add: ext_bytes_def)
  moreover have "\<not> length b \<le> hdr + length p + 1"
    using Cons.prems(1,2) by (simp add: exts_bytes_def ext_bytes_def)
  ultimately show ?case by (subst ext_walk.simps) simp
qed

lemma ext_walk_past:
  assumes "len < extlen" "extlen < 10000" "length b \<le> 1000" "hdr < 1000"
  shows "\<not> ext_walk b hdr len extlen"
  using assms
proof (induction b hdr len extlen rule: ext_walk.induct)
  case (1 b hdr len extlen)
  have far: "\<not> uint (of_nat len - of_nat extlen :: u32) \<le> int hdr"
    using 1(2,3,5) by (simp add: uint_diff_wrap)
  have u: "unat (b ! (hdr + extlen + 1)) < 256" using unsigned_less [where 'a = nat and 'b = 8, of "b ! (hdr + extlen + 1)"] by simp
  show ?case
    by (subst ext_walk.simps) (use 1 far u in simp)
qed

text \<open>
  The walk over the extensions of a message that is properly encoded ends, without reading
  outside the message, whatever lies behind it in the buffer.
\<close>

theorem ext_walk_encoded:
  assumes "b = h @ exts_bytes xs @ t" and "length b = AODV_MSG_MAX_SIZE"
    and "\<forall>x \<in> set xs. length (snd x) < 256"
  shows "ext_walk b (length h) (length h + length (exts_bytes xs)) 0"
  using ext_walk_exts [of b h "[]" xs t] assms by simp

theorem ext_walk_encoded_witness:
  "ext_walk (replicate 24 7 @ exts_bytes [(1, [5, 6, 7]), (9, [])] @ replicate 781 0) 24 31 0"
  using ext_walk_encoded [of _ "replicate 24 7" "[(1, [5, 6, 7]), (9, [])]" "replicate 781 0"]
  by (simp add: exts_bytes_def ext_bytes_def)

text \<open>
  C19. If the first extension claims more bytes than the whole message has, the unsigned
  difference wraps around and the walk leaves the receive buffer.
\<close>

theorem ext_walk_overrun:
  assumes "length b = AODV_MSG_MAX_SIZE" and "0 < hdr" and "hdr < len" and "len \<le> AODV_MSG_MAX_SIZE"
    and "len < AODV_EXT_HDR_SIZE + unat (b ! (hdr + 1))"
  shows "\<not> ext_walk b hdr len 0"
proof -
  have u: "unat (b ! (hdr + 1)) < 256" using unsigned_less [where 'a = nat and 'b = 8, of "b ! (hdr + 1)"] by simp
  have "\<not> ext_walk b hdr len (2 + unat (b ! (hdr + 1)))"
    by (rule ext_walk_past) (use assms u in simp_all)
  moreover have "uint (of_nat len - of_nat 0 :: u32) = int len" using assms(4) by (subst uint_diff) simp_all
  ultimately show ?thesis
    using assms by (subst ext_walk.simps) simp
qed

theorem ext_walk_overrun_witness:
  "\<not> ext_walk (replicate 25 1 @ [255] @ replicate 786 0) 24 26 0"
  by (rule ext_walk_overrun) (simp_all add: nth_append)

end
