(* ===== verification/Rrep.thy ===== *)
theory Rrep
  imports Extensions
begin

text \<open>
  Route replies, \<open>src/protocol/aodv_rrep.c\<close>.  A handler that receives a message works on the
  receive buffer: \<open>rrep_process\<close> clears the acknowledgement bit there before it forwards the
  message.  Both buffers are part of the state, so that a message assembled by one function and
  overwritten by another before it is sent is what the model sends.
\<close>

section \<open>Operations\<close>

definition upd_recv_buf :: "(bytes \<Rightarrow> bytes) \<Rightarrow> node \<Rightarrow> node" where
  "upd_recv_buf f s = s\<lparr>sk := (sk s)\<lparr>recv_buf := f (recv_buf (sk s))\<rparr>\<rparr>"

definition rrep_ack_create :: "node \<Rightarrow> node" where
  "rrep_ack_create s = upd_send_buf (poke 0 [AODV_RREP_ACK]) (aodv_socket_new_msg s)"

definition rrep_ack_process :: "addr \<Rightarrow> node \<Rightarrow> node" where
  "rrep_ack_process ip_src s =
     (case rt_table_find ip_src s of None \<Rightarrow> s | Some p \<Rightarrow> tm_remove (Ack_timer p) s)"

text \<open>A neighbour that may be out of reach is asked for an acknowledgement and its link broken.\<close>

definition rrep_send_unidir :: "ptr \<Rightarrow> node \<Rightarrow> node" where
  "rrep_send_unidir rev_rt s =
     (let e = rt s rev_rt in
      if rt_state e = VALID \<and> flag (rt_flags e) RT_UNIDIR \<or> rt_hcnt e = 1 \<and> unidir_hack (conf s) then
        (case rt_table_find (rt_next_hop e) s of
           None \<Rightarrow> s
         | Some n \<Rightarrow>
             if rt_state (rt s n) = VALID \<and> \<not> tm_used (Ack_timer n) s then
               tm_set (Ack_timer n) NEXT_HOP_WAIT
                 (neighbor_link_break n
                   (tm_remove (Hello_timer n)
                     (upd_rt n (\<lambda>e. e\<lparr>rt_flags := rt_flags e OR RT_UNIDIR\<rparr>) s)))
             else s)
      else s)"

definition rrep_send :: "ptr option \<Rightarrow> ptr option \<Rightarrow> nat \<Rightarrow> node \<Rightarrow> node" where
  "rrep_send rev_rt fwd_rt len s =
     (case rev_rt of
        None \<Rightarrow> s
      | Some r \<Rightarrow>
          let s1 = rrep_send_unidir r s;
              s2 = aodv_socket_send (rt_next_hop (rt s1 r)) len MAXTTL (DEV_IFINDEX s1 (rt_ifindex (rt s1 r))) s1;
              s3 = (case fwd_rt of
                      None \<Rightarrow> s2
                    | Some f \<Rightarrow>
                        let s3 = precursor_add f (rt_next_hop (rt s2 r)) s2
                        in precursor_add r (rt_next_hop (rt s3 f)) s3)
          in if \<not> llfeedback (conf s3) \<and> optimized_hellos (conf s3) then hello_start s3 else s3)"

definition rrep_forward :: "nat \<Rightarrow> ptr option \<Rightarrow> ptr option \<Rightarrow> int \<Rightarrow> node \<Rightarrow> node" where
  "rrep_forward len rev_rt fwd_rt ttl s =
     (case (fwd_rt, rev_rt) of
        (Some f, Some r) \<Rightarrow>
          let s1 = aodv_socket_queue_msg (recv_buf (sk s)) len s;
              s2 = upd_send_buf (\<lambda>b. put_RREP ((get_RREP b)\<lparr>rp_hcnt := rt_hcnt (rt s1 f)\<rparr>) b) s1;
              s3 = aodv_socket_send (rt_next_hop (rt s2 r)) len (word_of_int ttl)
                     (DEV_IFINDEX s2 (rt_ifindex (rt s2 r))) s2;
              s4 = precursor_add f (rt_next_hop (rt s3 r)) s3;
              s5 = precursor_add r (rt_next_hop (rt s4 f)) s4
          in rt_table_update_timeout r (ACTIVE_ROUTE_TIMEOUT s5) s5
      | _ \<Rightarrow> s)"

text \<open>Whether a reply with this sequence number and hop count is better than the entry.\<close>

definition rrep_fresher :: "u32 \<Rightarrow> u32 \<Rightarrow> rt_table \<Rightarrow> bool" where
  "rrep_fresher rseqno new_hcnt e \<longleftrightarrow>
     rt_dest_seqno e = 0 \<or> seqno_newer rseqno (rt_dest_seqno e) \<or>
     rseqno = rt_dest_seqno e \<and>
       (rt_state e = INVALID \<or> flag (rt_flags e) RT_UNIDIR \<or> new_hcnt < ucast (rt_hcnt e))"

text \<open>
  Create or update the forward route.  The result is the entry with the hop count and flags it
  had before (for repairs), or nothing when the reply is dropped.
\<close>

definition rrep_fwd_route ::
  "RREP \<Rightarrow> addr \<Rightarrow> u32 \<Rightarrow> node \<Rightarrow> (ptr \<times> u8 \<times> u8) option \<times> node" where
  "rrep_fwd_route rrep ip_src ifindex s =
     (let rseqno = ntohl (rp_dest_seqno rrep);
          life = ntohl (rp_lifetime rrep);
          new_hcnt = ucast (rp_hcnt rrep) + 1 :: u32
      in case rt_table_find (rp_dest_addr rrep) s of
           None \<Rightarrow>
             (case rt_table_insert (rp_dest_addr rrep) ip_src (ucast new_hcnt) rseqno life VALID 0 ifindex s of
                (None, s1) \<Rightarrow> (None, abort Null_deref s1)
              | (Some p, s1) \<Rightarrow> (Some (p, 0, 0), s1))
         | Some p \<Rightarrow>
             let e = rt s p in
             if rrep_fresher rseqno new_hcnt e
             then (Some (p, rt_hcnt e, ucast (rt_flags e)),
                   rt_table_update p ip_src (ucast new_hcnt) rseqno life VALID (rt_flags e) s)
             else (None, s))"

text \<open>Acknowledge the reply; the length passed is \<open>NEXT_HOP_WAIT\<close>.\<close>

definition rrep_send_ack :: "ptr \<Rightarrow> node \<Rightarrow> node" where
  "rrep_send_ack fwd_rt s =
     (if rp_a (get_RREP (recv_buf (sk s))) then
        let s1 = rrep_ack_create s;
            s2 = aodv_socket_send (rt_next_hop (rt s1 fwd_rt)) (nat NEXT_HOP_WAIT) MAXTTL
                   (DEV_IFINDEX s1 (rt_ifindex (rt s1 fwd_rt))) s1
        in upd_recv_buf (\<lambda>b. put_RREP ((get_RREP b)\<lparr>rp_a := False\<rparr>) b) s2
      else s)"

text \<open>The reply was for this node: tell the users of a repaired route that it is longer now.\<close>

definition rrep_for_us :: "ptr \<Rightarrow> u8 \<Rightarrow> u8 \<Rightarrow> node \<Rightarrow> node" where
  "rrep_for_us fwd_rt pre_hcnt pre_flags s =
     (let e = rt s fwd_rt in
      if flag (ucast pre_flags) RT_REPAIR \<and> rt_hcnt e > pre_hcnt then
        let s1 = rerr_create RERR_NODELETE (rt_dest_addr e) (rt_dest_seqno e) s
        in if rt_nprec (rt s1 fwd_rt) \<noteq> 0
           then aodv_socket_send AODV_BROADCAST (RERR_CALC_SIZE (rerr_count s1)) 1
                  (DEV_IFINDEX s1 (rt_ifindex (rt s1 fwd_rt))) s1
           else s1
      else s)"

text \<open>The last part: use the reply or pass it on along the reverse route.\<close>

definition rrep_deliver ::
  "nat \<Rightarrow> int \<Rightarrow> bool \<Rightarrow> ptr option \<Rightarrow> ptr \<Rightarrow> u8 \<Rightarrow> u8 \<Rightarrow> node \<Rightarrow> node" where
  "rrep_deliver rreplen ip_ttl for_me rev_rt fwd_rt pre_hcnt pre_flags s =
     (let s1 = (if for_me then rrep_for_us fwd_rt pre_hcnt pre_flags s
                else case rev_rt of
                       None \<Rightarrow> s
                     | Some r \<Rightarrow>
                         if rt_state (rt s r) = VALID
                         then rrep_forward rreplen rev_rt (Some fwd_rt) (ip_ttl - 1) s
                         else s)
      in if \<not> llfeedback (conf s1) \<and> optimized_hellos (conf s1) then hello_start s1 else s1)"

definition rrep_process :: "nat \<Rightarrow> addr \<Rightarrow> addr \<Rightarrow> int \<Rightarrow> u32 \<Rightarrow> node \<Rightarrow> node" where
  "rrep_process rreplen ip_src ip_dst ip_ttl ifindex s =
     (let rrep = get_RREP (recv_buf (sk s)); me = ipaddr (DEV_IFINDEX s ifindex) in
      if rreplen < RREP_SIZE then s
      else if rp_dest_addr rrep = me then s
      else if \<not> ext_walk (recv_buf (sk s)) RREP_SIZE rreplen 0 then abort Overrun s
      else
        let rev_rt = rt_table_find (rp_orig_addr rrep) s in
        case rrep_fwd_route rrep ip_src ifindex s of
          (None, s1) \<Rightarrow> s1
        | (Some (f, pre_hcnt, pre_flags), s1) \<Rightarrow>
            rrep_deliver rreplen ip_ttl (rp_orig_addr rrep = me) rev_rt f pre_hcnt pre_flags
              (rrep_send_ack f s1))"

section \<open>Invariant\<close>

lemma upd_recv_buf_radio [simp]: "radio (upd_recv_buf f s) = radio s"
  by (simp add: radio_def upd_recv_buf_def sent_def)

lemma upd_recv_buf_ok:
  "wf_node s \<Longrightarrow> length (f (recv_buf (sk s))) = AODV_MSG_MAX_SIZE \<Longrightarrow> ok s (upd_recv_buf f s)"
  unfolding upd_recv_buf_def using invD(9) [of s] by (auto intro!: upd_sk_ok simp: sock_wf_def)

lemma recv_buf_length: "wf_node s \<Longrightarrow> length (recv_buf (sk s)) = 812"
  using invD(9) [of s] by (simp add: sock_wf_def)

lemma upd_recv_buf_frame [simp]:
  "rt_tbl (upd_recv_buf f s) = rt_tbl s" "tq (upd_recv_buf f s) = tq s"
  "clock (upd_recv_buf f s) = clock s" "conf (upd_recv_buf f s) = conf s"
  "out (upd_recv_buf f s) = out s" "this_host (upd_recv_buf f s) = this_host s"
  "seekhead (upd_recv_buf f s) = seekhead s" "PQ (upd_recv_buf f s) = PQ s"
  "status (upd_recv_buf f s) = status s" "dev_indices (upd_recv_buf f s) = dev_indices s"
  "send_buf (sk (upd_recv_buf f s)) = send_buf (sk s)"
  "recv_buf (sk (upd_recv_buf f s)) = f (recv_buf (sk s))"
  by (simp_all add: upd_recv_buf_def)

lemma rrep_ack_create_ok:
  assumes "wf_node s"
  shows "ok s (rrep_ack_create s)"
  unfolding rrep_ack_create_def
  by (rule ok_then [OF new_msg_ok [OF assms]], rule upd_send_buf_ok) (simp_all add: send_buf_length)

lemma rrep_ack_process_ok: "wf_node s \<Longrightarrow> ok s (rrep_ack_process a s)"
  by (auto simp: rrep_ack_process_def ok_refl tm_remove_ok split: option.split)

lemma rrep_send_unidir_ok:
  assumes "wf_node s"
  shows "ok s (rrep_send_unidir r s)"
proof -
  have "ok s (tm_set (Ack_timer n) m (neighbor_link_break n (tm_remove (Hello_timer n)
      (upd_rt n (\<lambda>e. e\<lparr>rt_flags := rt_flags e OR RT_UNIDIR\<rparr>) s))))"
    if n: "n \<in> live s" for n m
  proof -
    define s1 where "s1 = tm_remove (Hello_timer n) (upd_rt n (\<lambda>e. e\<lparr>rt_flags := rt_flags e OR RT_UNIDIR\<rparr>) s)"
    have 1: "ok s s1" unfolding s1_def
      by (rule ok_then [OF repair_flag_ok [OF assms] tm_remove_ok]) simp_all
    have 2: "ok s (neighbor_link_break n s1)"
      by (rule ok_then [OF 1 neighbor_link_break_ok]) (use ok_live [OF 1 n] in simp_all)
    from ok_then [OF this tm_set_rt_ok(2)] ok_live [OF 2 n] show ?thesis by (simp add: s1_def)
  qed
  then show ?thesis
    using rts.find_alive [OF assms] ok_refl [OF assms]
    by (auto simp: rrep_send_unidir_def Let_def split: option.split)
qed

lemma hello_start_if_ok: "ok s s' \<Longrightarrow> ok s (if b then hello_start s' else s')"
  by (auto intro: ok_then hello_start_ok)

lemma precursors_ok: "wf_node s \<Longrightarrow> ok s (precursor_add r b (precursor_add f a s))"
  by (rule ok_then [OF precursor_add_ok precursor_add_ok])

lemma rrep_send_ok:
  assumes "wf_node s"
  shows "ok s (rrep_send rv fwd n s)"
proof (cases rv)
  case (Some r)
  define s1 where "s1 = rrep_send_unidir r s"
  have 1: "ok s s1" unfolding s1_def by (rule rrep_send_unidir_ok [OF assms])
  define s2 where "s2 = aodv_socket_send (rt_next_hop (rt s1 r)) n MAXTTL (DEV_IFINDEX s1 (rt_ifindex (rt s1 r))) s1"
  have 2: "ok s s2" unfolding s2_def by (rule ok_then [OF 1 aodv_socket_send_ok])
  have "ok s (case fwd of None \<Rightarrow> s2 | Some f \<Rightarrow> let s3 = precursor_add f (rt_next_hop (rt s2 r)) s2
     in precursor_add r (rt_next_hop (rt s3 f)) s3)"
    using 2 ok_then [OF 2 precursors_ok] by (simp add: Let_def split: option.split)
  then show ?thesis
    unfolding rrep_send_def Some option.case Let_def s1_def [symmetric] s2_def [symmetric]
    by (rule hello_start_if_ok)
qed (simp add: rrep_send_def ok_refl assms)

lemma rrep_forward_ok:
  assumes "wf_node s" "len \<le> AODV_MSG_MAX_SIZE" "\<And>r. rv = Some r \<Longrightarrow> r \<in> live s"
  shows "ok s (rrep_forward len rv fwd ttl s)"
proof -
  have "ok s (rrep_forward len (Some r) (Some f) ttl s)" if "r \<in> live s" for r f
  proof -
    define s1 where "s1 = aodv_socket_queue_msg (recv_buf (sk s)) len s"
    have 1: "ok s s1" unfolding s1_def
      by (rule queue_msg_ok [OF assms(1)]) (use assms(2) recv_buf_length [OF assms(1)] in simp_all)
    define s2 where "s2 = upd_send_buf (\<lambda>b. put_RREP ((get_RREP b)\<lparr>rp_hcnt := rt_hcnt (rt s1 f)\<rparr>) b) s1"
    have 2: "ok s s2" unfolding s2_def
      by (rule ok_then [OF 1 upd_send_buf_ok]) (simp_all add: send_buf_length)
    define s3 where "s3 = aodv_socket_send (rt_next_hop (rt s2 r)) len (word_of_int ttl)
       (DEV_IFINDEX s2 (rt_ifindex (rt s2 r))) s2"
    have 3: "ok s s3" unfolding s3_def by (rule ok_then [OF 2 aodv_socket_send_ok])
    define s4 where "s4 = precursor_add f (rt_next_hop (rt s3 r)) s3"
    define s5 where "s5 = precursor_add r (rt_next_hop (rt s4 f)) s4"
    have 5: "ok s s5" unfolding s5_def s4_def by (rule ok_then [OF 3 precursors_ok])
    have "ok s (rt_table_update_timeout r (ACTIVE_ROUTE_TIMEOUT s5) s5)"
      by (rule ok_then [OF 5 rt_table_update_timeout_ok]) (use ok_live [OF 5 that] in simp_all)
    then show ?thesis
      unfolding rrep_forward_def prod.case option.case Let_def s1_def [symmetric] s2_def [symmetric]
        s3_def [symmetric] s4_def [symmetric] s5_def [symmetric] .
  qed
  with assms(3) show ?thesis
    by (cases rv; cases fwd) (simp_all add: rrep_forward_def ok_refl assms(1))
qed

lemma rrep_fwd_route_ok:
  assumes "wf_node s" "rrep_fwd_route rrep src i s = (r, s')"
  shows "ok s s'" "r = Some (f, h, fl) \<Longrightarrow> f \<in> live s'"
proof -
  have "ok s s' \<and> (\<forall>f h fl. r = Some (f, h, fl) \<longrightarrow> f \<in> live s')"
  proof (cases "rt_table_find (rp_dest_addr rrep) s")
    case None
    obtain r1 s1 where ins: "rt_table_insert (rp_dest_addr rrep) src (ucast (ucast (rp_hcnt rrep) + 1 :: u32))
       (ntohl (rp_dest_seqno rrep)) (ntohl (rp_lifetime rrep)) VALID 0 i s = (r1, s1)" by force
    show ?thesis
      using rt_table_insert_ok(1,2) [OF assms(1) ins] insert_null_ok [OF assms(1) None] assms(2) ins
      by (cases r1) (auto simp: rrep_fwd_route_def None Let_def)
  next
    case (Some p)
    have p: "p \<in> live s" by (rule rts.find_alive [OF assms(1) Some])
    note up = rt_table_update_ok [OF assms(1) p] ok_refl [OF assms(1)]
    from assms(2) up show ?thesis
      by (auto simp: rrep_fwd_route_def Some Let_def split: if_splits intro: ok_live [OF _ p])
  qed
  then show "ok s s'" "r = Some (f, h, fl) \<Longrightarrow> f \<in> live s'" by blast+
qed

lemma rrep_send_ack_ok:
  assumes "wf_node s"
  shows "ok s (rrep_send_ack f s)"
proof -
  have "ok s (upd_recv_buf (\<lambda>b. put_RREP ((get_RREP b)\<lparr>rp_a := False\<rparr>) b)
     (aodv_socket_send a l t d (rrep_ack_create s)))" for a l t d
    by (rule ok_then [OF ok_then [OF rrep_ack_create_ok [OF assms] aodv_socket_send_ok]], assumption,
        rule upd_recv_buf_ok) (simp_all add: recv_buf_length)
  then show ?thesis by (simp add: rrep_send_ack_def Let_def ok_refl assms)
qed

lemma rrep_for_us_ok:
  assumes "wf_node s"
  shows "ok s (rrep_for_us f h fl s)"
  using ok_then [OF rerr_create_ok [OF assms] aodv_socket_send_ok] rerr_create_ok [OF assms] ok_refl [OF assms]
  by (simp add: rrep_for_us_def Let_def)

lemma rrep_deliver_ok:
  assumes "wf_node s" "rreplen \<le> AODV_MSG_MAX_SIZE" "\<And>r. rv = Some r \<Longrightarrow> r \<in> live s"
  shows "ok s (rrep_deliver rreplen ttl b rv f h fl s)"
  unfolding rrep_deliver_def Let_def
  by (rule hello_start_if_ok)
    (use rrep_forward_ok [OF assms] rrep_for_us_ok [OF assms(1)] ok_refl [OF assms(1)] in \<open>auto split: option.split\<close>)

lemma rrep_process_ok:
  assumes "wf_node s" "rreplen \<le> AODV_MSG_MAX_SIZE"
  shows "ok s (rrep_process rreplen src dst ttl i s)"
proof -
  let ?rrep = "get_RREP (recv_buf (sk s))"
  let ?rv = "rt_table_find (rp_orig_addr ?rrep) s"
  obtain r s1 where fwd: "rrep_fwd_route ?rrep src i s = (r, s1)" by force
  note 1 = rrep_fwd_route_ok [OF assms(1) fwd]
  have "ok s (rrep_deliver rreplen ttl b ?rv f h fl (rrep_send_ack f s1))" for b f h fl
  proof -
    have 2: "ok s (rrep_send_ack f s1)" by (rule ok_then [OF 1(1) rrep_send_ack_ok])
    show ?thesis
      by (rule ok_then [OF 2 rrep_deliver_ok])
        (use assms(2) ok_live [OF 2] rts.find_alive [OF assms(1)] in auto)
  qed
  then show ?thesis
    using 1(1) ok_refl [OF assms(1)] abort_overrun_ok [OF assms(1)]
    by (simp add: rrep_process_def Let_def fwd split: option.split prod.split)
qed

section \<open>What the routes look like afterwards\<close>

lemma fold_upd_send_buf_tbl:
  assumes "\<And>p s. rt_tbl (f p s) = rt_tbl s"
  shows "rt_tbl (fold f ps s) = rt_tbl s"
  by (induction ps arbitrary: s) (simp_all add: assms)

lemma hello_neighbor_set_tbl [simp]: "rt_tbl (snd (hello_neighbor_set e s)) = rt_tbl s"
  by (simp add: hello_neighbor_set_def Let_def fold_upd_send_buf_tbl)

lemma hello_iface_tbl: "rt_tbl (snd (snd (hello_iface d st))) = rt_tbl (snd (snd st))"
  by (cases st) (simp add: hello_iface_def Let_def case_prod_beta)

lemma hello_ifaces_tbl: "rt_tbl (snd (snd (fold hello_iface ds st))) = rt_tbl (snd (snd st))"
  by (induction ds arbitrary: st) (simp_all add: hello_iface_tbl)

lemma hello_send_tbl [simp]: "rt_tbl (hello_send s) = rt_tbl s"
  by (simp add: hello_send_def Let_def case_prod_beta hello_ifaces_tbl hello_stop_def)

lemma hello_start_tbl [simp]: "rt_tbl (hello_start s) = rt_tbl s"
  by (simp add: hello_start_def)

lemma queue_msg_frame [simp]:
  "rt_tbl (aodv_socket_queue_msg b n s) = rt_tbl s" "clock (aodv_socket_queue_msg b n s) = clock s"
  "conf (aodv_socket_queue_msg b n s) = conf s" "out (aodv_socket_queue_msg b n s) = out s"
  "this_host (aodv_socket_queue_msg b n s) = this_host s"
  "wait_on_reboot (aodv_socket_queue_msg b n s) = wait_on_reboot s"
  "dev_indices (aodv_socket_queue_msg b n s) = dev_indices s"
  "send_buf (sk (aodv_socket_queue_msg b n s)) = take n b @ drop n (send_buf (sk s))"
  by (simp_all add: aodv_socket_queue_msg_def)

lemma rrep_ack_create_tbl [simp]: "rt_tbl (rrep_ack_create s) = rt_tbl s"
  by (simp add: rrep_ack_create_def aodv_socket_new_msg_def)

lemma rrep_send_ack_tbl [simp]: "rt_tbl (rrep_send_ack f s) = rt_tbl s"
  by (simp add: rrep_send_ack_def Let_def)

lemma rrep_for_us_tbl [simp]: "rt_tbl (rrep_for_us f h fl s) = rt_tbl s"
  by (simp add: rrep_for_us_def Let_def)

lemma precursor_add_fields [simp]:
  "rt_dest_seqno (rt (precursor_add p a s) q) = rt_dest_seqno (rt s q)"
  "rt_next_hop (rt (precursor_add p a s) q) = rt_next_hop (rt s q)"
  by (simp_all add: precursor_add_def)

lemma precursor_add_member:
  "a \<in> set (rt_precursors (rt (precursor_add p a s) p))"
  "x \<in> set (rt_precursors (rt s q)) \<Longrightarrow> x \<in> set (rt_precursors (rt (precursor_add p a s) q))"
  by (auto simp: precursor_add_def)

lemma sent_tbl_ops [simp]:
  "sent (precursor_add p a s) = sent s" "sent (rt_table_update_timeout p l s) = sent s"
  by (simp_all add: precursor_add_def rt_table_update_timeout_def Let_def)

lemma rrep_forward_seqno [simp]:
  "rt_dest_seqno (rt (rrep_forward n r f t s) q) = rt_dest_seqno (rt s q)"
  by (simp add: rrep_forward_def Let_def split: option.split)

lemma rrep_deliver_seqno [simp]:
  "rt_dest_seqno (rt (rrep_deliver n t b r f h fl s) q) = rt_dest_seqno (rt s q)"
  by (simp add: rrep_deliver_def Let_def split: option.split)

section \<open>Properties\<close>

text \<open>
  C8. A route reply never makes the route to its destination older: an entry with a known
  sequence number keeps it or gets the number of the reply, and that one is not smaller in the
  comparison the code uses.
\<close>

theorem rrep_seqno_monotone:
  assumes "wf_node s" and "rrep = get_RREP (recv_buf (sk s))"
    and "rt_table_find (rp_dest_addr rrep) s = Some p" and "rt_dest_seqno (rt s p) \<noteq> 0"
  shows "let s' = rrep_process rreplen src dst ttl i s in
    \<not> seqno_newer (rt_dest_seqno (rt s p)) (rt_dest_seqno (rt s' p)) \<and>
    rt_dest_seqno (rt s' p) \<in> {rt_dest_seqno (rt s p), ntohl (rp_dest_seqno rrep)}"
proof -
  let ?new = "ucast (rp_hcnt rrep) + 1 :: u32" and ?sq = "ntohl (rp_dest_seqno rrep)"
  let ?up = "rt_table_update p src (ucast ?new) ?sq (ntohl (rp_lifetime rrep)) VALID (rt_flags (rt s p)) s"
  have upd: "rt_dest_seqno (rt ?up p) = ?sq"
    using rt_table_update_entry [of p src "ucast ?new" ?sq "ntohl (rp_lifetime rrep)" VALID "rt_flags (rt s p)" s]
    by auto
  have fwd: "rrep_fwd_route rrep src i s =
      (if rrep_fresher ?sq ?new (rt s p) then (Some (p, rt_hcnt (rt s p), ucast (rt_flags (rt s p))), ?up)
       else (None, s))"
    by (simp add: rrep_fwd_route_def Let_def assms(3))
  have keep: "\<not> seqno_newer (rt_dest_seqno (rt s p)) ?sq" if "rrep_fresher ?sq ?new (rt s p)"
    using that assms(4) by (auto simp: rrep_fresher_def seqno_newer_def)
  let ?s' = "rrep_process rreplen src dst ttl i s"
  have "rt_dest_seqno (rt ?s' p) = rt_dest_seqno (rt s p) \<or>
      rrep_fresher ?sq ?new (rt s p) \<and> rt_dest_seqno (rt ?s' p) = ?sq"
    unfolding rrep_process_def Let_def assms(2) [symmetric] fwd using upd by simp
  then show ?thesis using keep by (auto simp: Let_def)
qed

text \<open>A reply is not rate limited.\<close>

lemma aodv_socket_send_rrep:
  assumes "send_buf (sk s) ! 0 = AODV_RREP" "\<not> wait_on_reboot s" "ttl_ok s (dev_sock dev) ttl"
  shows "sent (aodv_socket_send dst len ttl dev s) =
     sent s @ [(take len (send_buf (sk s)), dst, ttl, dev_sock dev)]"
  using assms by (simp add: aodv_socket_send_def Let_def ratel_socket_def) (simp add: sent_def)

text \<open>
  C9. \<open>rrep_forward\<close> passes on the received reply unchanged except for the hop count, with the TTL
  given, to the next hop of the reverse route, and makes the next hops of the two routes each
  other's precursors.
\<close>

theorem rrep_forward_correct:
  assumes "wf_node s" and "20 \<le> len" and "len \<le> AODV_MSG_MAX_SIZE"
    and "rp_type (get_RREP (recv_buf (sk s))) = AODV_RREP" and "\<not> wait_on_reboot s"
    and "ttl_ok s (dev_sock (DEV_IFINDEX s (rt_ifindex (rt s r)))) (word_of_int ttl)"
  shows "let s' = rrep_forward len (Some r) (Some f) ttl s; b = recv_buf (sk s) in
    sent s' = sent s @
      [(put_RREP ((get_RREP b)\<lparr>rp_hcnt := rt_hcnt (rt s f)\<rparr>) (take len b), rt_next_hop (rt s r),
        word_of_int ttl, dev_sock (DEV_IFINDEX s (rt_ifindex (rt s r))))] \<and>
    rt_next_hop (rt s r) \<in> set (rt_precursors (rt s' f)) \<and>
    rt_next_hop (rt s f) \<in> set (rt_precursors (rt s' r))"
proof -
  let ?b = "recv_buf (sk s)" and ?h = "rt_hcnt (rt s f)" and ?a = "rt_next_hop (rt s r)"
  let ?dev = "DEV_IFINDEX s (rt_ifindex (rt s r))"
  define s2 where "s2 = upd_send_buf (\<lambda>b. put_RREP ((get_RREP b)\<lparr>rp_hcnt := ?h\<rparr>) b)
     (aodv_socket_queue_msg ?b len s)"
  have len: "length ?b = 812" by (rule recv_buf_length [OF assms(1)])
  have buf: "send_buf (sk s2) = put_RREP ((get_RREP ?b)\<lparr>rp_hcnt := ?h\<rparr>) (take len ?b @ drop len (send_buf (sk s)))"
    using assms(2) len by (simp add: s2_def get_RREP_def get32_def nth_append)
  have msg: "take len (send_buf (sk s2)) = put_RREP ((get_RREP ?b)\<lparr>rp_hcnt := ?h\<rparr>) (take len ?b)"
    using assms(2,3) len by (simp add: buf put_RREP_def min_def)
  have ty: "send_buf (sk s2) ! 0 = AODV_RREP"
    using assms(4) by (simp add: buf put_RREP_def rrep_bytes_def)
  have frame: "rt_tbl s2 = rt_tbl s" "sent s2 = sent s" "wait_on_reboot s2 = wait_on_reboot s"
    "DEV_IFINDEX s2 i = DEV_IFINDEX s i" "ttl_ok s2 = ttl_ok s" for i
    by (simp_all add: s2_def DEV_IFINDEX_def DEV_NR_def ifindex2devindex_def sent_def)
      (simp_all add: aodv_socket_queue_msg_def upd_send_buf_def)
  let ?s3 = "aodv_socket_send ?a len (word_of_int ttl) ?dev s2"
  have snd: "sent ?s3 = sent s @ [(take len (send_buf (sk s2)), ?a, word_of_int ttl, dev_sock ?dev)]"
    using assms(5,6) by (simp add: aodv_socket_send_rrep [OF ty] frame)
  have "rrep_forward len (Some r) (Some f) ttl s =
     rt_table_update_timeout r (ACTIVE_ROUTE_TIMEOUT (precursor_add r (rt_next_hop (rt s f)) (precursor_add f ?a ?s3)))
       (precursor_add r (rt_next_hop (rt s f)) (precursor_add f ?a ?s3))"
    by (simp add: rrep_forward_def Let_def frame flip: s2_def)
  then show ?thesis
    using snd by (simp add: Let_def msg precursor_add_member)
qed

text \<open>The demonstration node when a reply about 10.0.0.3 for 10.0.0.2 has arrived.\<close>

definition demo_rrep :: RREP where
  "demo_rrep = \<lparr>rp_type = AODV_RREP, rp_res1 = 0, rp_a = False, rp_r = False, rp_prefix = 0,
     rp_res2 = 0, rp_hcnt = 1, rp_dest_addr = 0x0300000A, rp_dest_seqno = htonl 12,
     rp_orig_addr = 0x0200000A, rp_lifetime = htonl 3000\<rparr>"

definition demo_replied :: node where
  "demo_replied = demo_routes\<lparr>sk := demo_socket\<lparr>recv_buf := put_RREP demo_rrep (replicate 812 0)\<rparr>\<rparr>"

lemma demo_replied_simps:
  "wf_node demo_replied" "get_RREP (recv_buf (sk demo_replied)) = demo_rrep"
  "rt_tbl demo_replied = demo_table" "\<not> wait_on_reboot demo_replied" "ttl_ok demo_replied d t"
proof -
  show "wf_node demo_replied" unfolding demo_replied_def
    by (rule ok_inv [OF upd_sk_ok [OF demo_routes_wf]]) (simp add: sock_wf_def demo_socket_def)
  show "get_RREP (recv_buf (sk demo_replied)) = demo_rrep"
    by (simp add: demo_replied_def get_put_RREP) (simp add: demo_rrep_def)
  show "rt_tbl demo_replied = demo_table" "\<not> wait_on_reboot demo_replied" "ttl_ok demo_replied d t"
    by (simp_all add: demo_replied_def demo_routes_def demo_node_def)
qed

theorem rrep_seqno_monotone_witness:
  "\<not> seqno_newer 9 (rt_dest_seqno (rt (rrep_process 20 0x0200000A 0x0100000A 5 3 demo_replied) 1))"
proof -
  have "rt_table_find (rp_dest_addr demo_rrep) demo_replied = Some 1"
    by (simp add: rts.find_iff [OF demo_replied_simps(1)] demo_replied_simps(3) entries_demo_table)
      (simp add: demo_table_def far_route_def no_route_def demo_rrep_def)
  moreover have "rt_dest_seqno (rt demo_replied 1) = 9"
    unfolding demo_replied_simps(3) by (simp add: demo_table_def far_route_def no_route_def)
  ultimately show ?thesis
    using rrep_seqno_monotone [OF demo_replied_simps(1) demo_replied_simps(2) [symmetric], of 1 20
        "0x0200000A" "0x0100000A" 5 3] by (simp add: Let_def)
qed

theorem rrep_forward_correct_witness:
  "length (sent (rrep_forward 20 (Some 0) (Some 1) 4 demo_replied)) = 1 + length (sent demo_replied) \<and>
   0x0200000A \<in> set (rt_precursors (rt (rrep_forward 20 (Some 0) (Some 1) 4 demo_replied) 1))"
proof -
  have "rp_type (get_RREP (recv_buf (sk demo_replied))) = AODV_RREP"
    by (simp add: demo_replied_simps(2) demo_rrep_def)
  moreover have "rt_next_hop (rt demo_replied 0) = 0x0200000A"
    unfolding demo_replied_simps(3) by (simp add: demo_table_def neighbour_route_def)
  ultimately show ?thesis
    using rrep_forward_correct [OF demo_replied_simps(1), of 20 0 4 1] demo_replied_simps(4,5)
    by (simp add: Let_def)
qed

end
