(* ===== verification/Rreq.thy ===== *)
theory Rreq
  imports Rrep
begin

text \<open>
  Route requests, \<open>src/protocol/aodv_rreq.c\<close>: building and flooding them, answering or forwarding
  those received, starting a route discovery or a local repair.  (The request records and the
  blacklist at the end of the file are in \<open>Seek_List\<close>.)

  \<open>rreq_process\<close> is split into its phases: the checks that make it ignore a request, the reverse
  route, the reply as destination, the reply as intermediate node, and forwarding.
\<close>

section \<open>Sending requests\<close>

definition rreq_create :: "u8 \<Rightarrow> addr \<Rightarrow> u32 \<Rightarrow> addr \<Rightarrow> node \<Rightarrow> node" where
  "rreq_create flags dest_addr dest_seqno orig_addr s =
     (let s1 = aodv_socket_new_msg s;
          id = host_rreq_id (this_host s1);
          sq = seqno_incr (seqno (this_host s1));
          s2 = s1\<lparr>this_host := (this_host s1)\<lparr>host_rreq_id := id + 1, seqno := sq\<rparr>\<rparr>
      in upd_send_buf
           (put_RREQ \<lparr>rq_type = AODV_RREQ, rq_res1 = 0, rq_d = (flags AND RREQ_DEST_ONLY \<noteq> 0),
                      rq_g = (flags AND RREQ_GRATUITOUS \<noteq> 0), rq_r = (flags AND RREQ_REPAIR \<noteq> 0),
                      rq_j = (flags AND RREQ_JOIN \<noteq> 0), rq_res2 = 0, rq_hcnt = 0,
                      rq_rreq_id = htonl id, rq_dest_addr = dest_addr, rq_dest_seqno = htonl dest_seqno,
                      rq_orig_addr = orig_addr, rq_orig_seqno = htonl sq\<rparr>) s2)"

definition rreq_send :: "addr \<Rightarrow> u32 \<Rightarrow> int \<Rightarrow> u8 \<Rightarrow> node \<Rightarrow> node" where
  "rreq_send dest_addr dest_seqno ttl flags s =
     (let flags' = (if rreq_gratuitous (conf s) then flags OR RREQ_GRATUITOUS else flags)
      in for_enabled_devs
           (\<lambda>dev s. aodv_socket_send AODV_BROADCAST RREQ_SIZE (word_of_int ttl) dev
                      (rreq_create flags' dest_addr dest_seqno (ipaddr dev) s)) s)"

definition rreq_forward :: "nat \<Rightarrow> int \<Rightarrow> node \<Rightarrow> node" where
  "rreq_forward len ttl s =
     (let s1 = aodv_socket_queue_msg (recv_buf (sk s)) len s;
          s2 = upd_send_buf (\<lambda>b. put_RREQ ((get_RREQ b)\<lparr>rq_hcnt := rq_hcnt (get_RREQ b) + 1\<rparr>) b) s1
      in for_enabled_devs (aodv_socket_send AODV_BROADCAST len (word_of_int ttl)) s2)"

section \<open>Receiving requests\<close>

definition rreq_ignored :: "RREQ \<Rightarrow> nat \<Rightarrow> addr \<Rightarrow> u32 \<Rightarrow> node \<Rightarrow> bool" where
  "rreq_ignored rreq rreqlen ip_src ifindex s \<longleftrightarrow>
     rq_orig_addr rreq = ipaddr (DEV_IFINDEX s ifindex) \<or>
     rreqlen < RREQ_SIZE \<or>
     rreq_blacklist_find ip_src s \<noteq> None \<or>
     rreq_record_find (rq_orig_addr rreq) (ntohl (rq_rreq_id rreq)) s \<noteq> None"

text \<open>The life time of the reverse route, in unsigned arithmetic.\<close>

definition rreq_life :: "u32 \<Rightarrow> u32" where
  "rreq_life new_hcnt = word_of_int PATH_DISCOVERY_TIME - 2 * new_hcnt * word_of_int NODE_TRAVERSAL_TIME"

definition rreq_fresher :: "u32 \<Rightarrow> u32 \<Rightarrow> rt_table \<Rightarrow> bool" where
  "rreq_fresher oseqno new_hcnt e \<longleftrightarrow>
     rt_dest_seqno e = 0 \<or> seqno_newer oseqno (rt_dest_seqno e) \<or>
     oseqno = rt_dest_seqno e \<and> (rt_state e = INVALID \<or> new_hcnt < ucast (rt_hcnt e))"

definition rreq_reverse :: "RREQ \<Rightarrow> addr \<Rightarrow> u32 \<Rightarrow> node \<Rightarrow> ptr option \<times> node" where
  "rreq_reverse rreq ip_src ifindex s =
     (let oseqno = ntohl (rq_orig_seqno rreq);
          new_hcnt = ucast (rq_hcnt rreq) + 1 :: u32;
          life = rreq_life new_hcnt
      in case rt_table_find (rq_orig_addr rreq) s of
           None \<Rightarrow> rt_table_insert (rq_orig_addr rreq) ip_src (ucast new_hcnt) oseqno life VALID 0 ifindex s
         | Some r \<Rightarrow>
             (Some r,
              if rreq_fresher oseqno new_hcnt (rt s r)
              then rt_table_update r ip_src (ucast new_hcnt) oseqno life VALID (rt_flags (rt s r)) s
              else s))"

text \<open>This node is the destination: raise the own sequence number if necessary and reply.\<close>

definition rreq_own_seqno :: "u32 \<Rightarrow> u32 \<Rightarrow> u32" where
  "rreq_own_seqno own dseqno =
     (if dseqno \<noteq> 0 then
        if seqno_newer dseqno own then dseqno
        else if own = dseqno then seqno_incr own else own
      else own)"

definition rreq_as_dest :: "RREQ \<Rightarrow> ptr \<Rightarrow> node \<Rightarrow> node" where
  "rreq_as_dest rreq rev_rt s =
     (let s1 = s\<lparr>this_host := (this_host s)
                 \<lparr>seqno := rreq_own_seqno (seqno (this_host s)) (ntohl (rq_dest_seqno rreq))\<rparr>\<rparr>;
          s2 = rrep_create 0 0 0 (ipaddr (DEV_IFINDEX s1 (rt_ifindex (rt s1 rev_rt)))) (seqno (this_host s1))
                 (rt_dest_addr (rt s1 rev_rt)) (2 * ACTIVE_ROUTE_TIMEOUT s1) s1
      in rrep_send (Some rev_rt) None RREP_SIZE s2)"

text \<open>Whether an intermediate node has a route fresh enough to reply with.\<close>

definition rreq_can_reply :: "RREQ \<Rightarrow> ptr option \<Rightarrow> node \<Rightarrow> bool" where
  "rreq_can_reply rreq fwd_rt s \<longleftrightarrow>
     (case fwd_rt of
        None \<Rightarrow> False
      | Some f \<Rightarrow>
          rt_state (rt s f) = VALID \<and> \<not> rq_d rreq \<and> rt_dest_seqno (rt s f) \<noteq> 0 \<and>
          \<not> seqno_newer (ntohl (rq_dest_seqno rreq)) (rt_dest_seqno (rt s f)))"

definition rreq_reply :: "RREQ \<Rightarrow> ptr \<Rightarrow> ptr \<Rightarrow> node \<Rightarrow> node" where
  "rreq_reply rreq rev_rt fwd_rt s =
     (let f = rt s fwd_rt;
          lifetime = word_of_int (timeval_diff (tm_timeout (Rt_timer fwd_rt) s) (clock s)) :: u32;
          s1 = rrep_create 0 0 (rt_hcnt f) (rt_dest_addr f) (rt_dest_seqno f) (rt_dest_addr (rt s rev_rt)) lifetime s;
          s2 = rrep_send (Some rev_rt) (Some fwd_rt) RREP_SIZE s1
      in if rq_g rreq then
           let r = rt s2 rev_rt;
               s3 = rrep_create 0 0 (rt_hcnt r) (rt_dest_addr r) (rt_dest_seqno r) (rt_dest_addr (rt s2 fwd_rt)) lifetime s2
           in rrep_send (Some fwd_rt) (Some rev_rt) RREP_SIZE s3
         else s2)"

definition rreq_pass_on :: "RREQ \<Rightarrow> nat \<Rightarrow> int \<Rightarrow> ptr option \<Rightarrow> node \<Rightarrow> node" where
  "rreq_pass_on rreq rreqlen ip_ttl fwd_rt s =
     (if ip_ttl > 1 then
        let s1 = (case fwd_rt of
                    None \<Rightarrow> s
                  | Some f \<Rightarrow>
                      if \<not> flag (rt_flags (rt s f)) RT_INET_DEST \<and>
                         seqno_newer (rt_dest_seqno (rt s f)) (ntohl (rq_dest_seqno rreq))
                      then upd_recv_buf (\<lambda>b. put_RREQ ((get_RREQ b)\<lparr>rq_dest_seqno := htonl (rt_dest_seqno (rt s f))\<rparr>) b) s
                      else s)
        in rreq_forward rreqlen (ip_ttl - 1) s1
      else s)"

definition rreq_process :: "nat \<Rightarrow> addr \<Rightarrow> addr \<Rightarrow> int \<Rightarrow> u32 \<Rightarrow> node \<Rightarrow> node" where
  "rreq_process rreqlen ip_src ip_dst ip_ttl ifindex s =
     (let rreq = get_RREQ (recv_buf (sk s)) in
      if rreq_ignored rreq rreqlen ip_src ifindex s then s
      else
        let s1 = rreq_record_insert (rq_orig_addr rreq) (ntohl (rq_rreq_id rreq)) s in
        if \<not> ext_walk (recv_buf (sk s1)) RREQ_SIZE rreqlen 0 then abort Overrun s1
        else
          case rreq_reverse rreq ip_src ifindex s1 of
            (None, s2) \<Rightarrow> abort Null_deref s2
          | (Some r, s2) \<Rightarrow>
              if rq_dest_addr rreq = ipaddr (DEV_IFINDEX s2 ifindex) then rreq_as_dest rreq r s2
              else
                let fwd_rt = rt_table_find (rq_dest_addr rreq) s2
                in if rreq_can_reply rreq fwd_rt s2 then rreq_reply rreq r (the fwd_rt) s2
                   else rreq_pass_on rreq rreqlen ip_ttl fwd_rt s2)"

section \<open>Route discovery\<close>

text \<open>An entry that waits for a reply is kept for twice the time a request may travel.\<close>

definition rt_keep_waiting :: "ptr \<Rightarrow> node \<Rightarrow> node" where
  "rt_keep_waiting p s =
     (if timeval_diff (tm_timeout (Rt_timer p) s) (clock s) < 2 * NET_TRAVERSAL_TIME
      then rt_table_update_timeout p (word_of_int (2 * NET_TRAVERSAL_TIME)) s else s)"

definition rreq_route_discovery :: "addr \<Rightarrow> u8 \<Rightarrow> ptr option \<Rightarrow> node \<Rightarrow> node" where
  "rreq_route_discovery dest_addr flags ipd s =
     (case seek_list_find dest_addr s of
        Some _ \<Rightarrow> s
      | None \<Rightarrow>
          let ring = expanding_ring_search (conf s);
              (dest_seqno, ttl, s1) =
                (case rt_table_find dest_addr s of
                   None \<Rightarrow> (0, if ring then ttl_start (conf s) else NET_DIAMETER, s)
                 | Some p \<Rightarrow>
                     (rt_dest_seqno (rt s p),
                      if ring then uint (rt_hcnt (rt s p)) + TTL_INCREMENT else NET_DIAMETER,
                      rt_keep_waiting p s));
              s2 = rreq_send dest_addr dest_seqno ttl flags s1;
              (e, s3) = seek_list_insert dest_addr dest_seqno ttl flags ipd s2
          in tm_set (Seek_timer e) (if ring then RING_TRAVERSAL_TIME ttl else NET_TRAVERSAL_TIME) s3)"

text \<open>
  \<open>rreq_local_repair\<close>.  The initial TTL is a \<open>double\<close> truncated to \<open>int\<close>:
  \<open>max(rt->hcnt, 0.5 * src_entry->hcnt) + LOCAL_ADD_TTL\<close>.
\<close>

definition rreq_local_repair :: "ptr option \<Rightarrow> addr \<Rightarrow> ptr option \<Rightarrow> node \<Rightarrow> node" where
  "rreq_local_repair rt_opt src_addr ipd s =
     (case rt_opt of
        None \<Rightarrow> s
      | Some p \<Rightarrow>
          let d = rt_dest_addr (rt s p) in
          if seek_list_find d s \<noteq> None \<or> \<not> flag (rt_flags (rt s p)) RT_REPAIR then s
          else
            let ttl = (case rt_table_find src_addr s of
                         Some q \<Rightarrow> max (uint (rt_hcnt (rt s p))) (uint (rt_hcnt (rt s q)) div 2) + LOCAL_ADD_TTL
                       | None \<Rightarrow> uint (rt_hcnt (rt s p)) + LOCAL_ADD_TTL);
                s1 = rt_keep_waiting p (tm_handler (Rt_timer p) Route_expire_timeout s);
                sq = rt_dest_seqno (rt s1 p);
                s2 = rreq_send d sq ttl 0 s1;
                (e, s3) = seek_list_insert d sq ttl 0 ipd s2
            in tm_set (Seek_timer e)
                 (if expanding_ring_search (conf s3) then 2 * ttl * NODE_TRAVERSAL_TIME else NET_TRAVERSAL_TIME) s3)"

section \<open>Invariant\<close>

lemma rreq_create_ok:
  assumes "wf_node s"
  shows "ok s (rreq_create f d n a s)"
proof -
  have 1: "ok s (aodv_socket_new_msg s)" by (rule new_msg_ok [OF assms])
  have 2: "ok s ((aodv_socket_new_msg s)\<lparr>this_host := (this_host (aodv_socket_new_msg s))
      \<lparr>host_rreq_id := i, seqno := q\<rparr>\<rparr>)" for i q
    by (rule ok_then [OF 1 upd_host_ok]) simp_all
  show ?thesis
    unfolding rreq_create_def Let_def
    by (rule ok_then [OF 2 upd_send_buf_ok]) (simp_all add: aodv_socket_new_msg_def)
qed

lemma rreq_create_frame [simp]:
  "rt_tbl (rreq_create f d n a s) = rt_tbl s" "tq (rreq_create f d n a s) = tq s"
  "conf (rreq_create f d n a s) = conf s" "seekhead (rreq_create f d n a s) = seekhead s"
  "status (rreq_create f d n a s) = status s" "out (rreq_create f d n a s) = out s"
  "clock (rreq_create f d n a s) = clock s" "PQ (rreq_create f d n a s) = PQ s"
  by (simp_all add: rreq_create_def Let_def aodv_socket_new_msg_def)

lemma rreq_send_ok:
  assumes "wf_node s"
  shows "ok s (rreq_send d n ttl f s)"
  unfolding rreq_send_def Let_def
  by (rule for_enabled_devs_ok [OF assms], rule ok_then [OF rreq_create_ok aodv_socket_send_ok])

lemma rreq_send_frame [simp]:
  "rt_tbl (rreq_send d n ttl f s) = rt_tbl s" "tq (rreq_send d n ttl f s) = tq s"
  "conf (rreq_send d n ttl f s) = conf s" "seekhead (rreq_send d n ttl f s) = seekhead s"
  "status (rreq_send d n ttl f s) = status s" "clock (rreq_send d n ttl f s) = clock s"
  "PQ (rreq_send d n ttl f s) = PQ s"
  unfolding rreq_send_def Let_def
  by (rule for_enabled_devs_frame, simp)+

lemma length_recv_queue: "wf_node s \<Longrightarrow> len \<le> 812 \<Longrightarrow> ok s (aodv_socket_queue_msg (recv_buf (sk s)) len s)"
  by (rule queue_msg_ok) (simp_all add: recv_buf_length)

lemma rreq_forward_ok:
  assumes "wf_node s" "len \<le> AODV_MSG_MAX_SIZE"
  shows "ok s (rreq_forward len ttl s)"
proof -
  have 1: "ok s (aodv_socket_queue_msg (recv_buf (sk s)) len s)"
    by (rule length_recv_queue) (use assms in simp_all)
  have "ok s (upd_send_buf (\<lambda>b. put_RREQ ((get_RREQ b)\<lparr>rq_hcnt := rq_hcnt (get_RREQ b) + 1\<rparr>) b)
     (aodv_socket_queue_msg (recv_buf (sk s)) len s))"
    by (rule ok_then [OF 1 upd_send_buf_ok])
      (use assms(2) in \<open>simp_all add: send_buf_length [OF assms(1)] recv_buf_length [OF assms(1)]\<close>)
  from ok_then [OF this for_enabled_devs_send_ok] show ?thesis
    unfolding rreq_forward_def Let_def .
qed

lemma rreq_reverse_ok:
  assumes "wf_node s" "rreq_reverse q src i s = (r, s')"
  shows "ok s s'" "r = Some p \<Longrightarrow> p \<in> live s'" "r = None \<Longrightarrow> ok s (abort Null_deref s')"
proof -
  let ?h = "ucast (rq_hcnt q) + 1 :: u32"
  have "ok s s' \<and> (\<forall>p. r = Some p \<longrightarrow> p \<in> live s') \<and> (r = None \<longrightarrow> ok s (abort Null_deref s'))"
  proof (cases "rt_table_find (rq_orig_addr q) s")
    case None
    then have "rt_table_insert (rq_orig_addr q) src (ucast ?h) (ntohl (rq_orig_seqno q)) (rreq_life ?h) VALID 0 i s = (r, s')"
      using assms(2) by (simp add: rreq_reverse_def Let_def)
    with rt_table_insert_ok(1,2) [OF assms(1) this] insert_null_ok [OF assms(1) None] show ?thesis by blast
  next
    case (Some p)
    have p: "p \<in> live s" by (rule rts.find_alive [OF assms(1) Some])
    from assms(2) rt_table_update_ok [OF assms(1) p] ok_refl [OF assms(1)] p show ?thesis
      by (auto simp: rreq_reverse_def Some Let_def intro: ok_live [OF _ p])
  qed
  then show "ok s s'" "r = Some p \<Longrightarrow> p \<in> live s'" "r = None \<Longrightarrow> ok s (abort Null_deref s')" by blast+
qed

lemma rreq_as_dest_ok:
  assumes "wf_node s"
  shows "ok s (rreq_as_dest q r s)"
  unfolding rreq_as_dest_def Let_def
  by (rule ok_then [OF ok_then [OF upd_host_ok [OF assms] rrep_create_ok] rrep_send_ok]) simp_all

lemma rreq_reply_ok:
  assumes "wf_node s"
  shows "ok s (rreq_reply q r f s)"
proof -
  have 2: "ok s (rrep_send a b n (rrep_create fl pf h d sq og l s))" if "wf_node s" for a b n fl pf h d sq og l s
    by (rule ok_then [OF rrep_create_ok [OF that] rrep_send_ok])
  have "ok s (rrep_send a' b' n' (rrep_create fl' pf' h' d' sq' og' l'
      (rrep_send a b n (rrep_create fl pf h d sq og l s))))" for a b n fl pf h d sq og l a' b' n' fl' pf' h' d' sq' og' l'
    by (rule ok_then [OF 2 [OF assms] 2])
  with 2 [OF assms] show ?thesis by (simp add: rreq_reply_def Let_def)
qed

lemma rreq_pass_on_ok:
  assumes "wf_node s" "rreqlen \<le> AODV_MSG_MAX_SIZE"
  shows "ok s (rreq_pass_on q rreqlen ttl f s)"
proof -
  have "ok s (upd_recv_buf (\<lambda>b. put_RREQ ((get_RREQ b)\<lparr>rq_dest_seqno := n\<rparr>) b) s)" for n
    by (rule upd_recv_buf_ok) (simp_all add: assms(1) recv_buf_length)
  then show ?thesis
    using ok_then [OF _ rreq_forward_ok] assms
    by (auto simp: rreq_pass_on_def Let_def ok_refl rreq_forward_ok split: option.split)
qed

lemma rreq_process_ok:
  assumes "wf_node s" "rreqlen \<le> AODV_MSG_MAX_SIZE"
  shows "ok s (rreq_process rreqlen src dst ttl i s)"
proof -
  let ?q = "get_RREQ (recv_buf (sk s))"
  define s1 where "s1 = rreq_record_insert (rq_orig_addr ?q) (ntohl (rq_rreq_id ?q)) s"
  have 1: "ok s s1" unfolding s1_def by (rule rreq_record_insert_ok [OF assms(1)])
  obtain r s2 where rv: "rreq_reverse ?q src i s1 = (r, s2)" by force
  note rev_ok = rreq_reverse_ok [OF ok_inv [OF 1] rv]
  have 2: "ok s s2" by (rule ok_trans [OF 1 rev_ok(1)])
  note fin = ok_then [OF 2 rreq_as_dest_ok] ok_then [OF 2 rreq_reply_ok]
    ok_then [OF 2 rreq_pass_on_ok [OF _ assms(2)]] ok_then [OF 1 abort_overrun_ok] ok_refl [OF assms(1)]
  show ?thesis
  proof (cases r)
    case None
    from ok_trans [OF 1 rev_ok(3) [OF None]] fin show ?thesis
      by (simp add: rreq_process_def Let_def rv None flip: s1_def)
  next
    case (Some p)
    with fin show ?thesis
      by (simp add: rreq_process_def Let_def rv flip: s1_def)
  qed
qed

lemma rt_keep_waiting_ok: "wf_node s \<Longrightarrow> p \<in> live s \<Longrightarrow> ok s (rt_keep_waiting p s)"
  by (simp add: rt_keep_waiting_def rt_table_update_timeout_ok ok_refl)

lemma rt_keep_waiting_frame [simp]:
  "rt_tbl (rt_keep_waiting p s) = rt_tbl s" "seekhead (rt_keep_waiting p s) = seekhead s"
  "conf (rt_keep_waiting p s) = conf s" "clock (rt_keep_waiting p s) = clock s"
  by (simp_all add: rt_keep_waiting_def rt_table_update_timeout_def Let_def)

lemma seek_start_ok:
  assumes "ok s s2" "seek_list_find d s2 = None" "seek_list_insert d sq ttl f ipd s2 = (e, s3)"
  shows "ok s (tm_set (Seek_timer e) m s3)"
proof -
  note ins = seek_list_insert_ok [OF ok_inv [OF assms(1)] assms(2,3)]
  have "ok s s3" by (rule ok_trans [OF assms(1) ins(1)])
  then show ?thesis by (rule ok_then, intro tm_set_owned_ok) (simp_all add: ins(2))
qed

lemma seek_list_find_cong: "seekhead s' = seekhead s \<Longrightarrow> seek_list_find d s' = seek_list_find d s"
  by (simp add: seek_list_find_def)

lemma rreq_route_discovery_ok:
  assumes "wf_node s"
  shows "ok s (rreq_route_discovery d f ipd s)"
proof (cases "seek_list_find d s")
  case None
  have seek: "ok s (case seek_list_insert d sq ttl f ipd (rreq_send d sq ttl f s1) of (e, s3) \<Rightarrow>
      tm_set (Seek_timer e) m s3)" if "ok s s1" "seekhead s1 = seekhead s" for s1 sq ttl m
    using seek_start_ok [OF ok_then [OF that(1) rreq_send_ok]] None that(2)
    by (auto simp: seek_list_find_def split: prod.split)
  show ?thesis
    using seek [OF ok_refl [OF assms]] seek [OF rt_keep_waiting_ok [OF assms rts.find_alive [OF assms]]]
    by (simp add: rreq_route_discovery_def None Let_def case_prod_beta split: option.split)
qed (simp add: rreq_route_discovery_def ok_refl assms)

lemma rreq_local_repair_ok:
  assumes "wf_node s" "\<And>p. r = Some p \<Longrightarrow> p \<in> live s"
  shows "ok s (rreq_local_repair r src ipd s)"
proof (cases r)
  case (Some p)
  have p: "p \<in> live s" by (rule assms(2) [OF Some])
  let ?d = "rt_dest_addr (rt s p)"
  define s1 where "s1 = rt_keep_waiting p (tm_handler (Rt_timer p) Route_expire_timeout s)"
  have 1: "ok s s1" unfolding s1_def
    by (rule ok_then [OF tm_handler_ok [OF assms(1)] rt_keep_waiting_ok]) (simp_all add: p)
  have "ok s (tm_set (Seek_timer (fst x)) m (snd x))"
    if "seek_list_find ?d s = None" "x = seek_list_insert ?d sq ttl 0 ipd (rreq_send ?d sq ttl 0 s1)" for sq ttl m x
  proof -
    have 2: "ok s (rreq_send ?d sq ttl 0 s1)" by (rule ok_then [OF 1 rreq_send_ok])
    have "seek_list_find ?d (rreq_send ?d sq ttl 0 s1) = None"
      using that(1) by (simp add: s1_def seek_list_find_def)
    from seek_start_ok [OF 2 this, of sq ttl 0 ipd] that(2) show ?thesis by (cases x) simp
  qed
  then show ?thesis
    using ok_refl [OF assms(1)]
    by (simp only: rreq_local_repair_def Some Let_def case_prod_beta option.case s1_def [symmetric]
        split: if_split) blast
qed (simp add: rreq_local_repair_def ok_refl assms)

section \<open>The request records change only here\<close>

lemma nl_recs [simp]:
  "rreq_records (nl_send_add_route_msg d n m i s) = rreq_records s"
  "rreq_records (nl_send_del_route_msg d n m s) = rreq_records s"
  by (simp_all add: nl_send_add_route_msg_def nl_send_del_route_msg_def nl_kern_route_def nl_send_def Let_def)

lemma table_recs [simp]:
  "rreq_records (upd_active f s) = rreq_records s" "rreq_records (precursor_list_destroy p s) = rreq_records s"
  "rreq_records (precursor_add p a s) = rreq_records s"
  "rreq_records (rt_table_update_timeout p l s) = rreq_records s"
  "rreq_records (rt_table_invalidate p s) = rreq_records s"
  by (simp_all add: upd_active_def precursor_list_destroy_def precursor_add_def
      rt_table_update_timeout_def rt_table_invalidate_def Let_def)

lemma message_recs [simp]:
  "rreq_records (aodv_socket_new_msg s) = rreq_records s"
  "rreq_records (aodv_socket_queue_msg b k s) = rreq_records s"
  "rreq_records (upd_recv_buf g s) = rreq_records s"
  "rreq_records (rerr_create f d n s) = rreq_records s" "rreq_records (rerr_add_udest d n s) = rreq_records s"
  "rreq_records (rrep_create f pf h d n og l s) = rreq_records s"
  "rreq_records (rerr_finish d s) = rreq_records s"
  by (simp_all add: aodv_socket_new_msg_def aodv_socket_queue_msg_def upd_recv_buf_def rerr_create_def
      rerr_add_udest_def rrep_create_def rerr_finish_def Let_def
      for_enabled_devs_frame [where g = rreq_records] split: option.split)

lemma link_break_recs:
  "rreq_records (snd (snd (link_break_report u st))) = rreq_records (snd (snd st))"
  "rreq_records (snd (snd (link_break_step p u st))) = rreq_records (snd (snd st))"
  "rreq_records (snd (snd (link_break_start p s))) = rreq_records s"
proof -
  show report: "rreq_records (snd (snd (link_break_report u st))) = rreq_records (snd (snd st))" for u st
    by (cases st) (simp add: link_break_report_def Let_def)
  show "rreq_records (snd (snd (link_break_step p u st))) = rreq_records (snd (snd st))"
    by (cases st) (simp add: link_break_step_def case_prod_beta report)
  show "rreq_records (snd (snd (link_break_start p s))) = rreq_records s"
    by (simp add: link_break_start_def Let_def case_prod_beta report)
qed

lemma neighbor_link_break_recs [simp]: "rreq_records (neighbor_link_break p s) = rreq_records s"
proof -
  have "rreq_records (snd (snd (fold (link_break_step p) us st))) = rreq_records (snd (snd st))" for us st
    by (induction us arbitrary: st) (simp_all add: link_break_recs)
  then show ?thesis by (simp add: neighbor_link_break_def case_prod_beta link_break_recs)
qed

lemma release_recs [simp]:
  "rreq_records (snd (seek_list_remove e s)) = rreq_records s"
  "rreq_records (snd (pq_sweep P v s)) = rreq_records s"
  "rreq_records (snd (packet_queue_set_verdict a w s)) = rreq_records s"
  "rreq_records (release_buffered p s) = rreq_records s"
proof -
  show seek: "rreq_records (snd (seek_list_remove e s)) = rreq_records s" for e s
    by (simp add: seek_list_remove_def split: option.split)
  show sweep: "rreq_records (snd (pq_sweep P v s)) = rreq_records s" for P v s
    by (simp add: pq_sweep_eq Let_def released_def)
  show verdict: "rreq_records (snd (packet_queue_set_verdict a v s)) = rreq_records s" for a v s
    by (simp add: packet_queue_set_verdict_def case_prod_beta sweep pq_refresh_def Let_def split: option.split)
  show "rreq_records (release_buffered p s) = rreq_records s"
    using seek [of "seek_list_find (rt_dest_addr (rt s p)) s" s] verdict
    by (auto simp: release_buffered_def split: prod.split bool.split)
qed

lemma route_recs [simp]:
  "rreq_records (snd (rt_table_insert d n h sq l st fl i s)) = rreq_records s"
  "rreq_records (rt_table_update p n h sq l st fl s) = rreq_records s"
proof -
  have "rreq_records (snd (rt_insert_activate p l s)) = rreq_records s" for p l s
    by (simp add: rt_insert_activate_def Let_def)
  then show "rreq_records (snd (rt_table_insert d n h sq l st fl i s)) = rreq_records s"
    by (simp add: rt_table_insert_def Let_def case_prod_beta) (simp add: rt_alloc_def Let_def)
  have "rreq_records (snd (rt_update_kernel p n h st fl s)) = rreq_records s" for s
    by (simp add: rt_update_kernel_def Let_def)
  then show "rreq_records (rt_table_update p n h sq l st fl s) = rreq_records s"
    by (simp add: rt_table_update_def Let_def case_prod_beta rt_update_demote_def)
qed

lemma hello_recs [simp]: "rreq_records (hello_start s) = rreq_records s"
proof -
  have 1: "rreq_records (fold (\<lambda>p s. if P p s then upd_send_buf (g p s) s else s) ps s) = rreq_records s" for P g ps s
    by (induction ps arbitrary: s) simp_all
  have 2: "rreq_records (snd (snd (hello_iface d st))) = rreq_records (snd (snd st))" for d st
    by (cases st) (simp add: hello_iface_def Let_def case_prod_beta hello_neighbor_set_def 1)
  have 3: "rreq_records (snd (snd (fold hello_iface ds st))) = rreq_records (snd (snd st))" for ds st
    by (induction ds arbitrary: st) (simp_all add: 2)
  show ?thesis
    by (simp add: hello_start_def hello_send_def Let_def case_prod_beta hello_stop_def 3) (simp add: hello_jitter_def)
qed

lemma rrep_send_recs [simp]: "rreq_records (rrep_send rv fwd n s) = rreq_records s"
proof -
  have "rreq_records (rrep_send_unidir r s) = rreq_records s" for r
    by (simp add: rrep_send_unidir_def Let_def split: option.split)
  then show ?thesis by (simp add: rrep_send_def Let_def split: option.split)
qed

lemma rreq_forward_recs [simp]: "rreq_records (rreq_forward n ttl s) = rreq_records s"
  by (simp add: rreq_forward_def Let_def for_enabled_devs_frame [where g = rreq_records])

section \<open>Properties\<close>

lemma rreq_process_records:
  assumes "wf_node s" "q = get_RREQ (recv_buf (sk s))" "\<not> rreq_ignored q len src i s"
  shows "rreq_records (rreq_process len src dst ttl i s) =
    rreq_records (rreq_record_insert (rq_orig_addr q) (ntohl (rq_rreq_id q)) s)"
proof -
  have "rreq_records (snd (rreq_reverse q src i s1)) = rreq_records s1" for s1
    by (simp add: rreq_reverse_def Let_def split: option.split)
  then have rv: "rreq_records s2 = rreq_records s1" if "rreq_reverse q src i s1 = (r, s2)" for s1 s2 r
    using that by (metis snd_conv)
  show ?thesis
    using assms(3) unfolding assms(2)
    by (auto simp: rreq_process_def Let_def rreq_as_dest_def rreq_reply_def rreq_pass_on_def
        dest!: rv [unfolded assms(2)] split: option.split prod.split)
qed


text \<open>The demonstration node when a request of 10.0.0.9 for 10.0.0.5 has arrived.\<close>

definition demo_rreq :: RREQ where
  "demo_rreq = \<lparr>rq_type = AODV_RREQ, rq_res1 = 0, rq_d = False, rq_g = False, rq_r = False, rq_j = False,
     rq_res2 = 0, rq_hcnt = 2, rq_rreq_id = htonl 5, rq_dest_addr = 0x0500000A, rq_dest_seqno = 0,
     rq_orig_addr = 0x0900000A, rq_orig_seqno = htonl 20\<rparr>"

definition demo_requested :: node where
  "demo_requested = demo_routes\<lparr>sk := demo_socket\<lparr>recv_buf := put_RREQ demo_rreq (replicate 812 0)\<rparr>\<rparr>"

lemma demo_requested_simps:
  "wf_node demo_requested" "get_RREQ (recv_buf (sk demo_requested)) = demo_rreq"
  "rt_tbl demo_requested = demo_table" "\<not> wait_on_reboot demo_requested" "ttl_ok demo_requested d t"
  "ipaddr (DEV_IFINDEX demo_requested 3) = 0x0100000A" "conf demo_requested = demo_conf"
  "seekhead demo_requested = seekhead demo_node"
proof -
  show "wf_node demo_requested" unfolding demo_requested_def
    by (rule ok_inv [OF upd_sk_ok [OF demo_routes_wf]]) (simp add: sock_wf_def demo_socket_def)
  show "get_RREQ (recv_buf (sk demo_requested)) = demo_rreq"
    by (simp add: demo_requested_def get_put_RREQ) (simp add: demo_rreq_def)
  show "rt_tbl demo_requested = demo_table" "\<not> wait_on_reboot demo_requested" "ttl_ok demo_requested d t"
    "conf demo_requested = demo_conf" "seekhead demo_requested = seekhead demo_node"
    by (simp_all add: demo_requested_def demo_routes_def demo_node_def)
  show "ipaddr (DEV_IFINDEX demo_requested 3) = 0x0100000A"
    by (simp add: DEV_IFINDEX_def DEV_NR_def ifindex2devindex_def demo_requested_def demo_routes_def
        demo_node_def demo_host_def demo_dev_def)
qed

lemma demo_requested_can_send: "can_send AODV_RREQ demo_requested"
  using demo_can_send [of AODV_RREQ]
  by (simp add: can_send_def demo_requested_def demo_routes_def demo_node_def demo_socket_def DEV_NR_def
      ratel_socket_def)


lemma put_RREQ_simps:
  "24 \<le> len \<Longrightarrow> take len (put_RREQ r b) = put_RREQ r (take len b)"
  "24 \<le> length b \<Longrightarrow> put_RREQ r (put_RREQ r' b) = put_RREQ r b"
  "24 \<le> len \<Longrightarrow> len \<le> length b \<Longrightarrow> get_RREQ (take len b @ c) = get_RREQ b"
  "24 \<le> len \<Longrightarrow> len \<le> length b \<Longrightarrow> put_RREQ r (take len b @ c) = put_RREQ r (take len b) @ c"
  by (auto simp: put_RREQ_def get_RREQ_def get32_def nth_append min_def drop_take)

lemma res1_get_RREQ [simp]: "take_bit 4 (rq_res1 (get_RREQ b)) = rq_res1 (get_RREQ b)"
  by (simp add: get_RREQ_def)

text \<open>What \<open>rreq_forward\<close> puts into the send buffer and sends.\<close>

lemma rreq_forward_only:
  assumes "wf_node s" "24 \<le> len" "len \<le> 812"
  defines "q \<equiv> get_RREQ (recv_buf (sk s))"
  shows "\<exists>new. sent (rreq_forward len ttl s) = sent s @ new \<and>
    (\<forall>x \<in> set new. fst x = put_RREQ (q\<lparr>rq_hcnt := rq_hcnt q + 1\<rparr>) (take len (recv_buf (sk s))) \<and>
       fst (snd (snd x)) = word_of_int ttl) \<and>
    (rq_type q = AODV_RREQ \<and> can_send AODV_RREQ s \<longrightarrow> new \<noteq> [])"
proof -
  let ?b = "recv_buf (sk s)"
  define s2 where "s2 = upd_send_buf (\<lambda>b. put_RREQ ((get_RREQ b)\<lparr>rq_hcnt := rq_hcnt (get_RREQ b) + 1\<rparr>) b)
     (aodv_socket_queue_msg ?b len s)"
  have len: "length ?b = 812" by (rule recv_buf_length [OF assms(1)])
  have 1: "ok s (aodv_socket_queue_msg ?b len s)"
    by (rule length_recv_queue) (use assms in simp_all)
  have "ok (aodv_socket_queue_msg ?b len s) s2" unfolding s2_def
    by (rule upd_send_buf_ok [OF ok_inv [OF 1]]) (use assms(3) len in \<open>simp_all add: send_buf_length [OF assms(1)]\<close>)
  then have ok2: "ok s s2" by (rule ok_trans [OF 1])
  have radio: "radio s2 = radio s" by (simp add: s2_def aodv_socket_queue_msg_def)
  have "send_buf (sk s2) ! 0 = rq_type q"
    using assms(2,3) len by (simp add: s2_def q_def put_RREQ_def rreq_bytes_def get_RREQ_def nth_append)
  moreover have "can_send ty s2 = can_send ty s" for ty
    using ok2 by (intro can_send_cong [OF radio]) (simp add: ok_def)
  moreover have "take len (send_buf (sk s2)) = put_RREQ (q\<lparr>rq_hcnt := rq_hcnt q + 1\<rparr>) (take len ?b)"
    using assms(2,3) len by (simp add: s2_def q_def put_RREQ_simps)
  moreover have "rreq_forward len ttl s = for_enabled_devs (aodv_socket_send AODV_BROADCAST len (word_of_int ttl)) s2"
    by (simp add: rreq_forward_def Let_def s2_def)
  ultimately show ?thesis
    using broadcast_only [OF ok_inv [OF ok2], of len "word_of_int ttl" AODV_BROADCAST] radio_sent [OF radio]
      broadcast_sends [OF ok_inv [OF ok2], of AODV_BROADCAST len "word_of_int ttl"] by (auto simp: sends_only_def)
qed

text \<open>
  C11. Forwarding a request: with a TTL of at most one nothing is sent.  Otherwise every message
  sent is the received request with the hop count one higher, the TTL one lower and, if the node
  knows a newer sequence number for the destination, that number; and one is sent if the
  interfaces and the rate limit allow it.
\<close>

theorem rreq_pass_on_correct:
  assumes "wf_node s" and "24 \<le> len" and "len \<le> AODV_MSG_MAX_SIZE" and "q = get_RREQ (recv_buf (sk s))"
    and "\<And>f. fwd = Some f \<Longrightarrow> \<not> flag (rt_flags (rt s f)) RT_INET_DEST"
  defines "dseq \<equiv> (case fwd of None \<Rightarrow> ntohl (rq_dest_seqno q)
      | Some f \<Rightarrow> if seqno_newer (rt_dest_seqno (rt s f)) (ntohl (rq_dest_seqno q))
                  then rt_dest_seqno (rt s f) else ntohl (rq_dest_seqno q))"
  defines "q' \<equiv> q\<lparr>rq_dest_seqno := htonl dseq, rq_hcnt := rq_hcnt q + 1\<rparr>"
  shows "if ttl \<le> 1 then rreq_pass_on q len ttl fwd s = s
    else \<exists>new. sent (rreq_pass_on q len ttl fwd s) = sent s @ new \<and>
      (\<forall>x \<in> set new. fst x = put_RREQ q' (take len (recv_buf (sk s))) \<and>
         fst (snd (snd x)) = word_of_int (ttl - 1)) \<and>
      (rq_type q = AODV_RREQ \<and> can_send AODV_RREQ s \<longrightarrow> new \<noteq> [])"
proof -
  let ?b = "recv_buf (sk s)"
  have len: "length ?b = 812" by (rule recv_buf_length [OF assms(1)])
  define s1 where "s1 = (case fwd of None \<Rightarrow> s | Some f \<Rightarrow>
     if \<not> flag (rt_flags (rt s f)) RT_INET_DEST \<and> seqno_newer (rt_dest_seqno (rt s f)) (ntohl (rq_dest_seqno q))
     then upd_recv_buf (\<lambda>b. put_RREQ ((get_RREQ b)\<lparr>rq_dest_seqno := htonl (rt_dest_seqno (rt s f))\<rparr>) b) s else s)"
  have "ok s (upd_recv_buf (\<lambda>b. put_RREQ ((get_RREQ b)\<lparr>rq_dest_seqno := n\<rparr>) b) s)" for n
    by (rule upd_recv_buf_ok) (simp_all add: assms(1) len)
  then have ok1: "ok s s1" using ok_refl [OF assms(1)] by (auto simp: s1_def split: option.split)
  note wf1 = ok_inv [OF ok1]
  have b1: "recv_buf (sk s1) = put_RREQ (q\<lparr>rq_dest_seqno := htonl dseq\<rparr>) ?b"
    using assms(5) put_get_RREQ [of ?b] len
    by (auto simp: s1_def dseq_def assms(4) split: option.split)
  have radio: "radio s1 = radio s" by (simp add: s1_def split: option.split)
  have "can_send AODV_RREQ s1 = can_send AODV_RREQ s"
    using ok1 by (intro can_send_cong [OF radio]) (simp add: ok_def)
  moreover have "get_RREQ (recv_buf (sk s1)) = q\<lparr>rq_dest_seqno := htonl dseq\<rparr>"
    by (simp add: b1 get_put_RREQ assms(4))
  moreover have "put_RREQ q' (take len (recv_buf (sk s1))) = put_RREQ q' (take len ?b)"
    using assms(2,3) len by (simp add: b1 put_RREQ_simps)
  moreover have "rreq_pass_on q len ttl fwd s = (if ttl > 1 then rreq_forward len (ttl - 1) s1 else s)"
    by (simp add: rreq_pass_on_def Let_def flip: s1_def)
  ultimately show ?thesis
    using rreq_forward_only [OF wf1, of len "ttl - 1"] assms(2,3) radio_sent [OF radio] by (auto simp: q'_def)
qed

theorem rreq_pass_on_correct_witness:
  "\<exists>new. sent (rreq_pass_on demo_rreq 24 7 None demo_requested) = sent demo_requested @ new \<and> new \<noteq> [] \<and>
     (\<forall>x \<in> set new. fst (snd (snd x)) = 6)"
  using rreq_pass_on_correct [OF demo_requested_simps(1), of 24 demo_rreq None 7] demo_requested_simps(2)
    demo_requested_can_send
  by (auto simp: demo_rreq_def)

section \<open>Replying as the destination\<close>

lemma seqno_incr_newer:
  assumes "w \<noteq> 0" "w \<noteq> 0x7FFFFFFF"
  shows "seqno_newer (seqno_incr w) w"
proof (cases "w = 0xFFFFFFFF")
  case True
  then show ?thesis by (simp add: seqno_incr_def seqno_newer_def)
next
  case False
  have "sint w \<noteq> sint (0x7FFFFFFF :: u32)" using assms(2) signed_word_eqI by blast
  then have "sint w < 2147483647" "- 2147483648 \<le> sint w"
    using sint_lt [of w] sint_ge [of w] by simp_all
  then have "sint (w + 1) = sint w + 1"
    by (simp add: sint_word_ariths signed_take_bit_int_eq_self)
  with False assms(1) show ?thesis by (simp add: seqno_incr_def seqno_newer_def)
qed

lemma rreq_own_seqno_fresh:
  assumes "own \<noteq> 0" "own \<noteq> 0x7FFFFFFF"
  shows "\<not> seqno_newer own (rreq_own_seqno own d)" "d \<noteq> 0 \<Longrightarrow> \<not> seqno_newer d (rreq_own_seqno own d)"
  using seqno_incr_newer [OF assms] by (auto simp: rreq_own_seqno_def seqno_newer_def)

text \<open>A reply on a route that is not suspected to be unidirectional.\<close>

lemma rrep_send_plain:
  assumes "\<not> flag (rt_flags (rt s r)) RT_UNIDIR" "\<not> unidir_hack (conf s)" "\<not> optimized_hellos (conf s)"
    and "send_buf (sk s) ! 0 = AODV_RREP" "\<not> wait_on_reboot s"
    and "\<And>t. ttl_ok s (dev_sock (DEV_IFINDEX s (rt_ifindex (rt s r)))) t"
  shows "sent (rrep_send (Some r) None n s) = sent s @
     [(take n (send_buf (sk s)), rt_next_hop (rt s r), MAXTTL, dev_sock (DEV_IFINDEX s (rt_ifindex (rt s r))))]"
proof -
  have "rrep_send_unidir r s = s" using assms(1,2) by (simp add: rrep_send_unidir_def)
  then show ?thesis
    using assms(3) by (simp add: rrep_send_def Let_def aodv_socket_send_rrep [OF assms(4-6)])
qed

lemma take_put_RREP: "take 20 (put_RREP r b) = put_RREP r []"
  by (simp add: put_RREP_def)

lemma htonl_0_iff [simp]: "htonl x = 0 \<longleftrightarrow> x = 0"
proof -
  have "htonl 0 = 0" by (simp add: htonl_def)
  then show ?thesis by (metis htonl_inj)
qed

lemma rrep_create_buf:
  "send_buf (sk (rrep_create f pf h d n og l s)) =
     put_RREP \<lparr>rp_type = AODV_RREP, rp_res1 = 0, rp_a = (f AND RREP_ACK \<noteq> 0), rp_r = (f AND RREP_REPAIR \<noteq> 0),
       rp_prefix = pf, rp_res2 = 0, rp_hcnt = h, rp_dest_addr = d, rp_dest_seqno = htonl n, rp_orig_addr = og,
       rp_lifetime = htonl l\<rparr> (replicate 812 0)"
  by (simp add: rrep_create_def aodv_socket_new_msg_def)

text \<open>
  C12. A node that is asked for a route to itself answers with one reply to the next hop of the
  reverse route.  The reply names the node, a hop count of zero and its own sequence number,
  which is not older than before and not older than the one in the request.  (The number
  0x7FFFFFFF is excluded: its successor is negative in the comparison the code uses.)
\<close>

theorem rreq_as_dest_correct:
  assumes "wf_node s" and "\<not> flag (rt_flags (rt s r)) RT_UNIDIR" and "\<not> unidir_hack (conf s)"
    and "\<not> optimized_hellos (conf s)" and "\<not> wait_on_reboot s" and "\<And>fd t. ttl_ok s fd t"
    and "seqno (this_host s) \<noteq> 0" and "seqno (this_host s) \<noteq> 0x7FFFFFFF"
  shows "\<exists>msg. sent (rreq_as_dest q r s) = sent s @
      [(msg, rt_next_hop (rt s r), MAXTTL, dev_sock (DEV_IFINDEX s (rt_ifindex (rt s r))))] \<and>
    rp_type (get_RREP msg) = AODV_RREP \<and> rp_hcnt (get_RREP msg) = 0 \<and>
    rp_dest_addr (get_RREP msg) = ipaddr (DEV_IFINDEX s (rt_ifindex (rt s r))) \<and>
    rp_orig_addr (get_RREP msg) = rt_dest_addr (rt s r) \<and>
    \<not> seqno_newer (seqno (this_host s)) (ntohl (rp_dest_seqno (get_RREP msg))) \<and>
    (rq_dest_seqno q \<noteq> 0 \<longrightarrow> \<not> seqno_newer (ntohl (rq_dest_seqno q)) (ntohl (rp_dest_seqno (get_RREP msg))))"
proof -
  let ?own = "rreq_own_seqno (seqno (this_host s)) (ntohl (rq_dest_seqno q))"
  define s1 where "s1 = s\<lparr>this_host := (this_host s)\<lparr>seqno := ?own\<rparr>\<rparr>"
  have dev: "DEV_IFINDEX s1 i = DEV_IFINDEX s i" for i
    by (simp add: s1_def DEV_IFINDEX_def DEV_NR_def ifindex2devindex_def)
  define s2 where "s2 = rrep_create 0 0 0 (ipaddr (DEV_IFINDEX s (rt_ifindex (rt s r)))) ?own (rt_dest_addr (rt s r))
     (2 * ACTIVE_ROUTE_TIMEOUT s1) s1"
  have eq: "rreq_as_dest q r s = rrep_send (Some r) None RREP_SIZE s2"
    by (simp add: rreq_as_dest_def Let_def s2_def dev flip: s1_def) (simp add: s1_def)
  have frame: "rt_tbl s2 = rt_tbl s" "conf s2 = conf s" "sent s2 = sent s" "wait_on_reboot s2 = wait_on_reboot s"
    "DEV_IFINDEX s2 i = DEV_IFINDEX s i" "ttl_ok s2 = ttl_ok s" for i
    by (simp_all add: s2_def s1_def sent_def DEV_IFINDEX_def DEV_NR_def ifindex2devindex_def rrep_create_def
        aodv_socket_new_msg_def upd_send_buf_def)
  define m where "m = take RREP_SIZE (send_buf (sk s2))"
  have buf0: "send_buf (sk s2) ! 0 = AODV_RREP"
    by (simp add: s2_def rrep_create_buf put_RREP_def rrep_bytes_def)
  have m: "get_RREP m = \<lparr>rp_type = AODV_RREP, rp_res1 = 0, rp_a = False, rp_r = False, rp_prefix = 0, rp_res2 = 0,
     rp_hcnt = 0, rp_dest_addr = ipaddr (DEV_IFINDEX s (rt_ifindex (rt s r))), rp_dest_seqno = htonl ?own,
     rp_orig_addr = rt_dest_addr (rt s r), rp_lifetime = htonl (2 * ACTIVE_ROUTE_TIMEOUT s1)\<rparr>"
    by (simp add: m_def s2_def rrep_create_buf take_put_RREP get_put_RREP)
  have "sent (rreq_as_dest q r s) = sent s @
      [(m, rt_next_hop (rt s r), MAXTTL, dev_sock (DEV_IFINDEX s (rt_ifindex (rt s r))))]"
    using rrep_send_plain [of s2 r RREP_SIZE] assms buf0 by (simp add: eq frame m_def)
  then show ?thesis
    using rreq_own_seqno_fresh [OF assms(7,8), of "ntohl (rq_dest_seqno q)"]
    by (intro exI [of _ m]) (auto simp: m)
qed

theorem rreq_as_dest_correct_witness:
  "\<exists>msg. sent (rreq_as_dest demo_rreq 0 demo_requested) = sent demo_requested @ [(msg, 0x0200000A, 255, 5)] \<and>
     rp_hcnt (get_RREP msg) = 0"
proof -
  have r: "rt demo_requested 0 = neighbour_route"
    unfolding demo_requested_simps(3) by (simp add: demo_table_def)
  have "DEV_IFINDEX demo_requested 3 = demo_dev"
    by (simp add: DEV_IFINDEX_def DEV_NR_def ifindex2devindex_def demo_requested_def demo_routes_def
        demo_node_def demo_host_def)
  moreover have "seqno (this_host demo_requested) = 7"
    by (simp add: demo_requested_def demo_routes_def demo_node_def demo_host_def)
  ultimately show ?thesis
    using rreq_as_dest_correct [OF demo_requested_simps(1), of 0 demo_rreq] demo_requested_simps(4,5,7)
    by (auto simp: r neighbour_route_def no_route_def flag_def demo_conf_def demo_dev_def)
qed

section \<open>Reverse routes\<close>



section \<open>Starting a route discovery\<close>

definition rreq_for :: "addr \<Rightarrow> u32 \<Rightarrow> bytes \<Rightarrow> bool" where
  "rreq_for d n m \<longleftrightarrow> rq_type (get_RREQ m) = AODV_RREQ \<and> rq_dest_addr (get_RREQ m) = d \<and>
     ntohl (rq_dest_seqno (get_RREQ m)) = n \<and> rq_hcnt (get_RREQ m) = 0"

lemma aodv_socket_send_cases:
  assumes "wf_node s"
  shows "sent (aodv_socket_send dst len ttl dev s) = sent s \<or>
     sent (aodv_socket_send dst len ttl dev s) = sent s @ [(take len (send_buf (sk s)), dst, ttl, dev_sock dev)]"
proof -
  have "send_buf k = send_buf (sk s)" if "ratel_socket t ty (sk s) = Some k" for t ty k
    using ratel_socket_wf(2) [OF that invD(9) [OF assms]] .
  then show ?thesis
    by (auto simp: aodv_socket_send_def Let_def split: option.split) (auto simp: sent_def)
qed

text \<open>Sending one of the requests of a discovery on the given interface.\<close>

lemma rreq_send_step:
  fixes d :: addr and n :: u32 and f :: u8 and dev :: dev_info and ttl :: int
  assumes "wf_node s"
  defines "s' \<equiv> aodv_socket_send AODV_BROADCAST RREQ_SIZE (word_of_int ttl) dev (rreq_create f d n (ipaddr dev) s)"
  shows "wf_node s'"
    and "\<exists>new. sent s' = sent s @ new \<and> (\<forall>x \<in> set new. rreq_for d n (fst x) \<and> fst (snd x) = AODV_BROADCAST \<and>
        fst (snd (snd x)) = word_of_int ttl)"
    and "can_send AODV_RREQ s \<Longrightarrow> sent s' \<noteq> sent s"
proof -
  let ?s1 = "rreq_create f d n (ipaddr dev) s"
  note 1 = rreq_create_ok [OF assms(1), of f d n "ipaddr dev"]
  show "wf_node s'" unfolding s'_def by (rule ok_inv [OF ok_then [OF 1 aodv_socket_send_ok]])
  have "rreq_for d n (take 24 (send_buf (sk ?s1)))"
    by (simp add: rreq_for_def rreq_create_def Let_def put_RREQ_simps get_put_RREQ)
  moreover have radio: "radio ?s1 = radio s" by (simp add: rreq_create_def Let_def aodv_socket_new_msg_def)
  ultimately show "\<exists>new. sent s' = sent s @ new \<and> (\<forall>x \<in> set new. rreq_for d n (fst x) \<and>
      fst (snd x) = AODV_BROADCAST \<and> fst (snd (snd x)) = word_of_int ttl)"
    using aodv_socket_send_cases [OF ok_inv [OF 1], of AODV_BROADCAST RREQ_SIZE "word_of_int ttl" dev]
      radio_sent [OF radio] by (auto simp: s'_def)
  have "can_send AODV_RREQ ?s1 = can_send AODV_RREQ s"
    using 1 by (intro can_send_cong [OF radio]) (simp add: ok_def)
  moreover have "send_buf (sk ?s1) ! 0 = AODV_RREQ"
    by (simp add: rreq_create_def Let_def put_RREQ_def rreq_bytes_def)
  ultimately show "sent s' \<noteq> sent s" if "can_send AODV_RREQ s"
    using aodv_socket_send_sends [of ?s1 AODV_BROADCAST RREQ_SIZE "word_of_int ttl" dev] that radio_sent [OF radio]
    by (simp add: s'_def)
qed

lemma rreq_send_only:
  assumes "wf_node s"
  shows "\<exists>new. sent (rreq_send d n ttl f s) = sent s @ new \<and>
    (\<forall>x \<in> set new. rreq_for d n (fst x) \<and> fst (snd x) = AODV_BROADCAST \<and> fst (snd (snd x)) = word_of_int ttl)"
    (is "?P s (rreq_send d n ttl f s)")
    and "can_send AODV_RREQ s \<Longrightarrow> sent (rreq_send d n ttl f s) \<noteq> sent s"
proof -
  let ?f' = "if rreq_gratuitous (conf s) then f OR RREQ_GRATUITOUS else f"
  let ?g = "\<lambda>dev s. aodv_socket_send AODV_BROADCAST RREQ_SIZE (word_of_int ttl) dev (rreq_create ?f' d n (ipaddr dev) s)"
  let ?h = "\<lambda>i s. if enabled (DEV_NR s i) then ?g (DEV_NR s i) s else s"
  have eq: "rreq_send d n ttl f s = for_enabled_devs ?g s" by (simp add: rreq_send_def Let_def)
  have "?P s (fold ?h is s)" if "wf_node s" for "is" s
    using that
  proof (induction "is" arbitrary: s)
    case (Cons i "is")
    have 1: "?P s (?h i s)" "wf_node (?h i s)" using rreq_send_step(1,2) [OF Cons.prems] Cons.prems by auto
    obtain n1 where "sent (?h i s) = sent s @ n1"
      "\<forall>x \<in> set n1. rreq_for d n (fst x) \<and> fst (snd x) = AODV_BROADCAST \<and> fst (snd (snd x)) = word_of_int ttl"
      using 1(1) by blast
    moreover obtain n2 where "sent (fold ?h is (?h i s)) = sent (?h i s) @ n2"
      "\<forall>x \<in> set n2. rreq_for d n (fst x) \<and> fst (snd x) = AODV_BROADCAST \<and> fst (snd (snd x)) = word_of_int ttl"
      using Cons.IH [OF 1(2)] by blast
    ultimately show ?case by (intro exI [of _ "n1 @ n2"]) auto
  qed simp
  from this [OF assms] show "?P s (rreq_send d n ttl f s)" unfolding eq for_enabled_devs_def .
  assume can: "can_send AODV_RREQ s"
  show "sent (rreq_send d n ttl f s) \<noteq> sent s" unfolding eq
  proof (rule for_enabled_devs_sends [OF assms])
    show "wf_node (?g dev x) \<and> (\<exists>new. sent (?g dev x) = sent x @ new)" if "wf_node x" for dev x
      using rreq_send_step(1,2) [OF that] by blast
    show "sent (?g dev s) \<noteq> sent s" for dev by (rule rreq_send_step(3) [OF assms can])
    show "\<exists>i \<in> set [0..<MAX_NR_INTERFACES]. enabled (DEV_NR s i)" using can by (simp add: can_send_def)
  qed
qed

text \<open>The initial TTL of a search: from the routing table if there is an entry.\<close>

definition first_ttl :: "addr \<Rightarrow> node \<Rightarrow> int" where
  "first_ttl d s =
     (if \<not> expanding_ring_search (conf s) then NET_DIAMETER
      else case rt_table_find d s of
             None \<Rightarrow> ttl_start (conf s)
           | Some p \<Rightarrow> uint (rt_hcnt (rt s p)) + TTL_INCREMENT)"

definition known_seqno :: "addr \<Rightarrow> node \<Rightarrow> u32" where
  "known_seqno d s = (case rt_table_find d s of None \<Rightarrow> 0 | Some p \<Rightarrow> rt_dest_seqno (rt s p))"

text \<open>A search just put on the list, with its timer set.\<close>

lemma seek_list_insert_armed:
  fixes m :: int
  assumes "wf_node s" and "seek_list_find d s = None" and ins: "seek_list_insert d sq ttl fl ipd s = (e, s1)"
    and s2_def: "s2 = tm_set (Seek_timer e) m s1"
  shows "seek_list_find d s2 = Some e" "seek_ttl (pheap (seekhead s2) e) = ttl" "seek_reqs (pheap (seekhead s2) e) = 0"
    "sent s2 = sent s" "pending (Seek_timer e) s2 Route_discovery_timeout (usecs (clock s) + m * 1000)"
proof -
  note 1 = seek_list_insert_ok [OF assms(1,2) ins]
  have "seek_list_find d s1 = Some e" "seek_ttl (pheap (seekhead s1) e) = ttl" "seek_reqs (pheap (seekhead s1) e) = 0"
    "sent s1 = sent s"
    using ins by (auto simp: seek_list_insert_def Let_def seek_list_find_def pool_find_def sent_def)
  then show "seek_list_find d s2 = Some e" "seek_ttl (pheap (seekhead s2) e) = ttl" "seek_reqs (pheap (seekhead s2) e) = 0"
    "sent s2 = sent s"
    by (simp_all add: s2_def seek_list_find_def)
  have "handler (timers (tq s1) (Seek_timer e)) = Some Route_discovery_timeout"
    using timers_wfD(3) [OF invD(3) [OF ok_inv [OF 1(1)]], of "Seek_timer e"] 1(2) by simp
  then show "pending (Seek_timer e) s2 Route_discovery_timeout (usecs (clock s) + m * 1000)"
    using tm_set_effect(2,4) [OF invD(11) [OF ok_inv [OF 1(1)]], of "Seek_timer e" m] ok_statics(1) [OF 1(1)]
    by (simp add: s2_def pending_def)
qed

text \<open>
  C14. Starting a discovery for a destination that is not being sought: every message sent is a
  broadcast request for it with the initial TTL and the sequence number known; afterwards the
  destination is being sought, no retries counted, and the timer of the search is pending for
  the time a request may travel that far.  A request is sent if the interfaces and the rate limit
  allow it.  A destination that is being sought is left alone.
\<close>

theorem rreq_route_discovery_correct:
  assumes "wf_node s"
  shows "(seek_list_find d s \<noteq> None \<longrightarrow> rreq_route_discovery d fl ipd s = s) \<and>
    (seek_list_find d s = None \<longrightarrow>
      (\<exists>e new. let s' = rreq_route_discovery d fl ipd s; ttl = first_ttl d s in
         seek_list_find d s' = Some e \<and> seek_ttl (pheap (seekhead s') e) = ttl \<and>
         seek_reqs (pheap (seekhead s') e) = 0 \<and>
         pending (Seek_timer e) s' Route_discovery_timeout
           (usecs (clock s) + 1000 * (if expanding_ring_search (conf s) then 80 * (ttl + 2) else 2800)) \<and>
         sent s' = sent s @ new \<and>
         (\<forall>x \<in> set new. rreq_for d (known_seqno d s) (fst x) \<and> fst (snd x) = AODV_BROADCAST \<and>
            fst (snd (snd x)) = word_of_int ttl) \<and> (can_send AODV_RREQ s \<longrightarrow> new \<noteq> [])))"
  (is "_ \<and> (_ \<longrightarrow> (\<exists>e new. ?R e new))")
proof (intro conjI impI)
  assume none: "seek_list_find d s = None"
  let ?ttl = "first_ttl d s" and ?sq = "known_seqno d s"
  define s1 where "s1 = (case rt_table_find d s of None \<Rightarrow> s | Some p \<Rightarrow> rt_keep_waiting p s)"
  have 1: "ok s s1" using ok_refl [OF assms] rt_keep_waiting_ok [OF assms] rts.find_alive [OF assms]
    by (simp add: s1_def split: option.split)
  have fr: "seekhead s1 = seekhead s" "radio s1 = radio s" "clock s1 = clock s" "conf s1 = conf s"
    by (simp_all add: s1_def rt_keep_waiting_def split: option.split)
  define s2 where "s2 = rreq_send d ?sq ?ttl fl s1"
  have 2: "ok s s2" unfolding s2_def by (rule ok_then [OF 1 rreq_send_ok])
  obtain new where new: "sent s2 = sent s @ new"
    "\<forall>x \<in> set new. rreq_for d ?sq (fst x) \<and> fst (snd x) = AODV_BROADCAST \<and> fst (snd (snd x)) = word_of_int ?ttl"
    using rreq_send_only(1) [OF ok_inv [OF 1]] unfolding s2_def radio_sent [OF fr(2)] by blast
  have "can_send AODV_RREQ s1 = can_send AODV_RREQ s"
    using 1 by (intro can_send_cong [OF fr(2)]) (simp add: ok_def)
  then have go: "can_send AODV_RREQ s \<longrightarrow> new \<noteq> []"
    using rreq_send_only(2) [OF ok_inv [OF 1], of d ?sq ?ttl fl] new(1) unfolding s2_def radio_sent [OF fr(2)] by auto
  obtain e s3 where ins: "seek_list_insert d ?sq ?ttl fl ipd s2 = (e, s3)" by force
  have none2: "seek_list_find d s2 = None" using none by (simp add: seek_list_find_def s2_def fr)
  define m where "m = (if expanding_ring_search (conf s) then RING_TRAVERSAL_TIME ?ttl else NET_TRAVERSAL_TIME)"
  have eq: "rreq_route_discovery d fl ipd s = tm_set (Seek_timer e) m s3"
    using ins by (auto simp: rreq_route_discovery_def none Let_def s2_def s1_def m_def first_ttl_def known_seqno_def
        split: option.splits)
  have m: "m * 1000 = 1000 * (if expanding_ring_search (conf s) then 80 * (?ttl + 2) else 2800)"
    by (simp add: m_def RING_TRAVERSAL_TIME_def)
  note armed = seek_list_insert_armed [OF ok_inv [OF 2] none2 ins refl, of m]
  show "\<exists>e new. ?R e new"
    unfolding eq Let_def m [symmetric]
    using armed(1-4) armed(5) [unfolded ok_statics(1) [OF 2]] new go by (intro exI [of _ e] exI [of _ new] conjI) simp_all
qed (auto simp: rreq_route_discovery_def)

theorem rreq_route_discovery_correct_witness:
  "\<exists>e. let s' = rreq_route_discovery 0x0700000A 0 None demo_requested in
     sent s' \<noteq> sent demo_requested \<and> seek_list_find 0x0700000A s' = Some e \<and> seek_ttl (pheap (seekhead s') e) = 2 \<and>
     rreq_route_discovery 0x0700000A 0 None s' = s'"
proof -
  let ?s' = "rreq_route_discovery 0x0700000A 0 None demo_requested"
  have "seek_list_find 0x0700000A demo_requested = None"
    by (simp add: seek_list_find_def pool_find_def demo_requested_simps(8))
      (simp add: demo_node_def empty_pool_def)
  moreover have "rt_table_find 0x0700000A demo_requested = None"
    by (simp add: rts.find_None [OF demo_requested_simps(1)] demo_requested_simps(3) entries_demo_table)
      (simp add: demo_table_def far_route_def neighbour_route_def no_route_def)
  then have "first_ttl 0x0700000A demo_requested = 2"
    by (simp add: first_ttl_def demo_requested_simps(7) demo_conf_def)
  ultimately obtain e where "seek_list_find 0x0700000A ?s' = Some e" "seek_ttl (pheap (seekhead ?s') e) = 2"
    "sent ?s' \<noteq> sent demo_requested"
    using rreq_route_discovery_correct [OF demo_requested_simps(1), of "0x0700000A" 0 None] demo_requested_can_send
    by (auto simp: Let_def)
  moreover have "wf_node ?s'" by (rule ok_inv [OF rreq_route_discovery_ok [OF demo_requested_simps(1)]])
  ultimately show ?thesis
    using rreq_route_discovery_correct [of ?s' "0x0700000A" 0 None] by (auto simp: Let_def)
qed

end
