(* ===== verification/Rerr_Process.thy ===== *)
theory Rerr_Process
  imports Rreq
begin

text \<open>
  Receiving route errors, \<open>rerr_process\<close> of \<open>src/protocol/aodv_rerr.c\<close>.  The loop walks through
  the destinations of the message in the receive buffer and counts the field \<open>dest_count\<close> down
  there; destinations that others reach through this node are collected in a new route error in
  the send buffer.  The check of the length in front of the loop is what keeps both inside their
  buffers.
\<close>

section \<open>Operations\<close>

text \<open>Add a destination with precursors to the new route error, or start one with it.\<close>

definition rerr_relay :: "bool \<Rightarrow> ptr \<Rightarrow> bool \<times> addr \<times> node \<Rightarrow> bool \<times> addr \<times> node" where
  "rerr_relay n p st =
     (case st of (new_rerr, dst, s) \<Rightarrow>
        let e = rt s p in
        if rt_nprec e = 0 \<or> flag (rt_flags e) RT_REPAIR then (new_rerr, dst, s)
        else if \<not> new_rerr then
          (True, (if rt_nprec e = 1 then hd (rt_precursors e) else dst),
           rerr_create (if n then RERR_NODELETE else 0) (rt_dest_addr e) (rt_dest_seqno e) s)
        else
          (True, (if dst \<noteq> 0 \<and> (\<exists>a \<in> set (rt_precursors e). a \<noteq> dst) then 0 else dst),
           rerr_add_udest (rt_dest_addr e) (rt_dest_seqno e) s))"

text \<open>A valid route through the sender of the message is lost.\<close>

definition rerr_unreachable :: "bool \<Rightarrow> ptr \<Rightarrow> u32 \<Rightarrow> bool \<times> addr \<times> node \<Rightarrow> bool \<times> addr \<times> node" where
  "rerr_unreachable n p dest_seqno st =
     (case st of (new_rerr, dst, s) \<Rightarrow>
        let s1 = (if n then s else rt_table_invalidate p s);
            s2 = upd_rt p (\<lambda>e. e\<lparr>rt_dest_seqno := dest_seqno\<rparr>) s1;
            (new_rerr', dst', s3) = rerr_relay n p (new_rerr, dst, s2)
        in (new_rerr', dst', if rt_state (rt s3 p) = INVALID then precursor_list_destroy p s3 else s3))"

definition via :: "addr \<Rightarrow> rt_table \<Rightarrow> bool" where
  "via ip_src e \<longleftrightarrow> rt_state e = VALID \<and> rt_next_hop e = ip_src"

text \<open>The body of the loop for destination number \<open>i\<close>.\<close>

definition rerr_udest :: "addr \<Rightarrow> nat \<Rightarrow> bool \<times> addr \<times> node \<Rightarrow> bool \<times> addr \<times> node" where
  "rerr_udest ip_src i st =
     (case st of (new_rerr, dst, s) \<Rightarrow>
        let b = recv_buf (sk s);
            (udest_addr, m) = get_udest b i;
            (new_rerr', dst', s') =
              (case rt_table_find udest_addr s of
                 None \<Rightarrow> (new_rerr, dst, s)
               | Some p \<Rightarrow>
                   if via ip_src (rt s p) then rerr_unreachable (re_n (get_RERR b)) p (ntohl m) (new_rerr, dst, s)
                   else (new_rerr, dst, s))
        in (new_rerr', dst',
            upd_recv_buf (\<lambda>b. put_RERR ((get_RERR b)\<lparr>re_dest_count := re_dest_count (get_RERR b) - 1\<rparr>) b) s'))"

definition rerr_process :: "nat \<Rightarrow> addr \<Rightarrow> addr \<Rightarrow> node \<Rightarrow> node" where
  "rerr_process rerrlen ip_src ip_dst s =
     (let n = re_dest_count (get_RERR (recv_buf (sk s))) in
      if rerrlen < RERR_CALC_SIZE n then s
      else
        case fold (rerr_udest ip_src) [0..<unat n] (False, 0, s) of
          (new_rerr, dst, s') \<Rightarrow> if new_rerr then rerr_finish dst s' else s')"

section \<open>Invariant\<close>

lemma rerr_relay_ok: "wf_node s \<Longrightarrow> ok s (snd (snd (rerr_relay n p (r, d, s))))"
  by (simp add: rerr_relay_def Let_def ok_refl rerr_create_ok rerr_add_udest_ok)

lemma rerr_relay_frame [simp]:
  "rt_tbl (snd (snd (rerr_relay n p st))) = rt_tbl (snd (snd st))"
  "recv_buf (sk (snd (snd (rerr_relay n p st)))) = recv_buf (sk (snd (snd st)))"
  by (simp_all add: rerr_relay_def Let_def rerr_create_def rerr_add_udest_def upd_send_buf_def
      aodv_socket_new_msg_def split: prod.split)

lemma seqno_ok: "wf_node s \<Longrightarrow> ok s (upd_rt p (\<lambda>e. e\<lparr>rt_dest_seqno := m\<rparr>) s)"
  by (rule upd_rt_ok) (simp_all add: entry_wf_def)

lemma precursor_purge_ok: "ok s s' \<Longrightarrow> ok s (if b then precursor_list_destroy p s' else s')"
  using precursor_list_destroy_ok ok_inv ok_trans by auto

lemma rerr_unreachable_ok:
  assumes "wf_node s" "p \<in> live s"
  shows "ok s (snd (snd (rerr_unreachable n p m (r, d, s))))"
proof -
  have "ok s (if n then s else rt_table_invalidate p s)"
    using assms by (simp add: ok_refl rt_table_invalidate_ok)
  note precursor_purge_ok [OF ok_then [OF ok_then [OF this seqno_ok] rerr_relay_ok]]
  then show ?thesis unfolding rerr_unreachable_def Let_def case_prod_beta fst_conv snd_conv .
qed

lemma count_down_ok:
  "wf_node s \<Longrightarrow> ok s (upd_recv_buf (\<lambda>b. put_RERR ((get_RERR b)\<lparr>re_dest_count := c b\<rparr>) b) s)"
  by (rule upd_recv_buf_ok) (simp_all add: recv_buf_length)

lemma rerr_udest_ok:
  assumes "wf_node s"
  shows "ok s (snd (snd (rerr_udest ip_src i (r, d, s))))"
  using ok_then [OF rerr_unreachable_ok [OF assms rts.find_alive [OF assms]] count_down_ok]
    count_down_ok [OF assms]
  by (auto simp: rerr_udest_def Let_def case_prod_beta split: option.split)

lemma rerr_udests_ok:
  "wf_node s \<Longrightarrow> ok s (snd (snd (fold (rerr_udest ip_src) is (r, d, s))))"
proof (induction "is" arbitrary: r d s)
  case (Cons i "is")
  obtain r' d' s' where st: "rerr_udest ip_src i (r, d, s) = (r', d', s')" by (metis prod.exhaust)
  have "ok s s'" using rerr_udest_ok [OF Cons.prems, of ip_src i r d] st by simp
  from ok_then [OF this Cons.IH] show ?case by (simp add: st)
qed (simp add: ok_refl)

lemma rerr_process_ok: "wf_node s \<Longrightarrow> ok s (rerr_process len ip_src ip_dst s)"
proof -
  assume wf: "wf_node s"
  obtain r d s' where l: "fold (rerr_udest ip_src) [0..<unat (re_dest_count (get_RERR (recv_buf (sk s))))]
      (False, 0, s) = (r, d, s')" by (metis prod.exhaust)
  then have "ok s s'" using rerr_udests_ok [OF wf] by (metis snd_conv)
  then show ?thesis using ok_then [OF _ rerr_finish_ok] wf
    by (simp add: rerr_process_def Let_def l ok_refl)
qed

section \<open>The entries after a route error\<close>

text \<open>The entry of a lost destination; with the N bit set the route is kept.\<close>

definition told :: "bool \<Rightarrow> u32 \<Rightarrow> rt_table \<Rightarrow> rt_table" where
  "told n m e =
     (if n then e\<lparr>rt_dest_seqno := m\<rparr>
      else (invalidated e)\<lparr>rt_dest_seqno := m, rt_precursors := [],
             rt_nprec := rt_nprec e - int (length (rt_precursors e))\<rparr>)"

lemma told_simps [simp]:
  "rt_dest_addr (told n m e) = rt_dest_addr e" "via a (told True m e) = via a e"
  "\<not> via a (told False m e)" "told True m (told True m' e) = told True m e"
  by (simp_all add: told_def via_def invalidated_def)

lemma rerr_unreachable_entry:
  assumes "via a (rt s p)"
  shows "rt (snd (snd (rerr_unreachable n p m (r, d, s)))) v = (if v = p then told n m (rt s p) else rt s v)"
  using assms
  by (simp add: rerr_unreachable_def Let_def case_prod_beta precursor_list_destroy_eq
      rt_table_invalidate_entry via_def) (simp add: told_def invalidated_def)

lemma rerr_unreachable_recv [simp]:
  "recv_buf (sk (snd (snd (rerr_unreachable n p m st)))) = recv_buf (sk (snd (snd st)))"
  by (simp add: rerr_unreachable_def Let_def case_prod_beta split: prod.split)

lemma rerr_udest_recv:
  assumes "wf_node s" "rerr_udest ip_src i (r, d, s) = (r', d', s')"
  shows "get_udest (recv_buf (sk s')) j = get_udest (recv_buf (sk s)) j"
    and "re_n (get_RERR (recv_buf (sk s'))) = re_n (get_RERR (recv_buf (sk s)))"
proof -
  let ?b = "recv_buf (sk s)"
  have b: "recv_buf (sk s') = put_RERR ((get_RERR ?b)\<lparr>re_dest_count := re_dest_count (get_RERR ?b) - 1\<rparr>) ?b"
    using assms(2) by (auto simp: rerr_udest_def Let_def case_prod_beta split: option.splits if_splits)
  show "get_udest (recv_buf (sk s')) j = get_udest ?b j" "re_n (get_RERR (recv_buf (sk s'))) = re_n (get_RERR ?b)"
    using recv_buf_length [OF assms(1)] by (simp_all add: b get_udest_put_RERR get_put_RERR)
qed

lemma rerr_udest_entry:
  assumes "wf_node s" "v \<in> live s" "get_udest (recv_buf (sk s)) i = (a, m)"
  shows "rt (snd (snd (rerr_udest ip_src i (r, d, s)))) v =
    (if rt_dest_addr (rt s v) = a \<and> via ip_src (rt s v)
     then told (re_n (get_RERR (recv_buf (sk s)))) (ntohl m) (rt s v) else rt s v)"
proof (cases "rt_table_find a s")
  case None
  moreover have "rt_dest_addr (rt s v) \<noteq> a" using None rts.find_None [OF assms(1)] assms(2) by blast
  ultimately show ?thesis using assms(3) by (simp add: rerr_udest_def)
next
  case (Some p)
  then have p: "p = v \<longleftrightarrow> rt_dest_addr (rt s v) = a"
    using rts.find_iff [OF assms(1)] assms(2) by (metis option.inject)
  show ?thesis
    using Some assms(3) p rerr_unreachable_entry [of ip_src s p]
    by (auto simp: rerr_udest_def Let_def case_prod_beta)
qed

text \<open>
  The loop: of several entries of the message for one destination the first one counts, or the
  last one if the routes are kept.
\<close>

definition heard :: "bool \<Rightarrow> (addr \<times> u32) list \<Rightarrow> addr \<Rightarrow> u32 option" where
  "heard n ds = map_of (if n then rev ds else ds)"

definition after_rerr :: "addr \<Rightarrow> bool \<Rightarrow> (addr \<times> u32) list \<Rightarrow> rt_table \<Rightarrow> rt_table" where
  "after_rerr ip_src n ds e =
     (case heard n ds (rt_dest_addr e) of
        Some m \<Rightarrow> if via ip_src e then told n m e else e
      | None \<Rightarrow> e)"

lemma after_rerr_Cons:
  "after_rerr ip_src n ds (if rt_dest_addr e = a \<and> via ip_src e then told n m e else e) =
     after_rerr ip_src n ((a, m) # ds) e"
  by (cases n) (auto simp: after_rerr_def heard_def map_add_def split: option.split)

lemma rerr_udests_entry:
  assumes "wf_node s" "v \<in> live s"
  shows "rt (snd (snd (fold (rerr_udest ip_src) is (r, d, s)))) v =
    after_rerr ip_src (re_n (get_RERR (recv_buf (sk s))))
      (map (\<lambda>i. (fst (get_udest (recv_buf (sk s)) i), ntohl (snd (get_udest (recv_buf (sk s)) i)))) is) (rt s v)"
  using assms
proof (induction "is" arbitrary: r d s)
  case (Cons i "is")
  obtain r' d' s' where st: "rerr_udest ip_src i (r, d, s) = (r', d', s')" by (metis prod.exhaust)
  have ok: "ok s s'" using rerr_udest_ok [OF Cons.prems(1), of ip_src i r d] st by simp
  note recv = rerr_udest_recv [OF Cons.prems(1) st]
  have e: "rt s' v = (if rt_dest_addr (rt s v) = fst (get_udest (recv_buf (sk s)) i) \<and> via ip_src (rt s v)
      then told (re_n (get_RERR (recv_buf (sk s)))) (ntohl (snd (get_udest (recv_buf (sk s)) i))) (rt s v)
      else rt s v)"
    using rerr_udest_entry [OF Cons.prems surjective_pairing, of ip_src i r d] by (simp add: st)
  show ?case
    using Cons.IH [OF ok_inv [OF ok] ok_live [OF ok Cons.prems(2)], of r' d']
    by (simp add: st recv e after_rerr_Cons)
qed (simp add: after_rerr_def heard_def)

section \<open>The route error passed on\<close>

text \<open>The destinations of the message that others reach through this node.\<close>

definition passes :: "addr \<Rightarrow> node \<Rightarrow> addr \<Rightarrow> bool" where
  "passes ip_src s a \<longleftrightarrow>
     (case rt_table_find a s of
        None \<Rightarrow> False
      | Some p \<Rightarrow> via ip_src (rt s p) \<and> rt_nprec (rt s p) \<noteq> 0 \<and> \<not> flag (rt_flags (rt s p)) RT_REPAIR)"

definition rerr_has :: "bool \<Rightarrow> bool \<Rightarrow> node \<Rightarrow> (addr \<times> u32) list \<Rightarrow> bool" where
  "rerr_has n r s L \<longleftrightarrow> rerr_holds r s L \<and> (r \<longrightarrow> re_n (get_RERR (send_buf (sk s))) = n)"

lemma rerr_has_cong:
  "send_buf (sk s') = send_buf (sk s) \<Longrightarrow> rerr_has n r s' L = rerr_has n r s L"
  by (simp add: rerr_has_def rerr_holds_def rerr_view_def)

lemma rerr_n_create: "re_n (get_RERR (send_buf (sk (rerr_create f d m s)))) = (f AND RERR_NODELETE \<noteq> 0)"
  by (simp add: rerr_create_def aodv_socket_new_msg_def get_RERR_put_udest get_put_RERR)

lemma rerr_n_add: "wf_node s \<Longrightarrow> re_n (get_RERR (send_buf (sk (rerr_add_udest d m s)))) = re_n (get_RERR (send_buf (sk s)))"
  by (simp add: rerr_add_udest_def Let_def get_put_RERR)

lemma rerr_relay_has:
  assumes "wf_node s" "rerr_has n r s L" "length L < 101" "rerr_relay n p (r, d, s) = (r', d', s')"
  shows "rerr_has n r' s' (L @ (if rt_nprec (rt s p) \<noteq> 0 \<and> \<not> flag (rt_flags (rt s p)) RT_REPAIR
      then [(rt_dest_addr (rt s p), rt_dest_seqno (rt s p))] else []))
    \<and> status s' = status s \<and> radio s' = radio s"
proof (cases "rt_nprec (rt s p) = 0 \<or> flag (rt_flags (rt s p)) RT_REPAIR")
  case True
  then show ?thesis using assms(2,4) by (auto simp: rerr_relay_def Let_def)
next
  case False
  let ?a = "rt_dest_addr (rt s p)" and ?m = "rt_dest_seqno (rt s p)"
  show ?thesis
  proof (cases r)
    case True
    then have "s' = rerr_add_udest ?a ?m s" "r'" "rerr_view s = L" "unat (rerr_count s) = length L"
      "send_buf (sk s) ! 0 = AODV_RERR"
      using False assms(2,4) by (auto simp: rerr_relay_def Let_def rerr_has_def rerr_holds_def)
    then show ?thesis
      using rerr_view_add [OF assms(1)] rerr_n_add [OF assms(1)] assms(2,3) True False
      by (simp add: rerr_has_def rerr_holds_def)
  next
    case new: False
    then have "s' = rerr_create (if n then RERR_NODELETE else 0) ?a ?m s" "r'" "L = []"
      using False assms(2,4) by (auto simp: rerr_relay_def Let_def rerr_has_def rerr_holds_def)
    then show ?thesis
      using rerr_view_create [OF assms(1)] False
      by (simp add: rerr_has_def rerr_holds_def rerr_n_create RERR_NODELETE_def)
  qed
qed

lemma rerr_unreachable_has:
  assumes "wf_node s" "p \<in> live s" "via a (rt s p)" "rerr_has n r s L" "length L < 101"
    and "rerr_unreachable n p m (r, d, s) = (r', d', s')"
  shows "rerr_has n r' s' (L @ (if rt_nprec (rt s p) \<noteq> 0 \<and> \<not> flag (rt_flags (rt s p)) RT_REPAIR
      then [(rt_dest_addr (rt s p), m)] else []))
    \<and> status s' = status s \<and> radio s' = radio s"
proof -
  define s1 where "s1 = (if n then s else rt_table_invalidate p s)"
  define s2 where "s2 = upd_rt p (\<lambda>e. e\<lparr>rt_dest_seqno := m\<rparr>) s1"
  obtain r3 d3 s3 where rel: "rerr_relay n p (r, d, s2) = (r3, d3, s3)" by (metis prod.exhaust)
  have s': "r' = r3" "s' = (if rt_state (rt s3 p) = INVALID then precursor_list_destroy p s3 else s3)"
    using assms(6) rel by (simp_all add: rerr_unreachable_def Let_def s1_def [symmetric] s2_def [symmetric])
  have ok1: "ok s s1" using assms(1,2) by (simp add: s1_def ok_refl rt_table_invalidate_ok)
  have wf2: "wf_node s2" unfolding s2_def by (rule ok_inv [OF seqno_ok [OF ok_inv [OF ok1]]])
  have st: "sk s2 = sk s" "status s2 = status s" "radio s2 = radio s"
    using rt_table_invalidate_status [OF assms(1,2)] by (simp_all add: s2_def s1_def)
  have e: "rt_nprec (rt s2 p) = rt_nprec (rt s p)" "rt_flags (rt s2 p) = rt_flags (rt s p)"
    "rt_dest_addr (rt s2 p) = rt_dest_addr (rt s p)" "rt_dest_seqno (rt s2 p) = m"
    by (simp_all add: s2_def s1_def rt_table_invalidate_entry invalidated_def)
  have "rerr_has n r s2 L" using assms(4) rerr_has_cong [of s2 s] st by simp
  from rerr_relay_has [OF wf2 this assms(5) rel] st e
  have "rerr_has n r' s3 (L @ (if rt_nprec (rt s p) \<noteq> 0 \<and> \<not> flag (rt_flags (rt s p)) RT_REPAIR
      then [(rt_dest_addr (rt s p), m)] else [])) \<and> status s3 = status s \<and> radio s3 = radio s"
    by (auto simp: s' split: if_splits)
  moreover have "send_buf (sk s') = send_buf (sk s3)" "status s' = status s3" "radio s' = radio s3"
    by (simp_all add: s')
  ultimately show ?thesis using rerr_has_cong [of s' s3] by simp
qed

lemma rerr_udest_has:
  assumes "wf_node s" "rerr_has n r s L" "length L < 101" "n = re_n (get_RERR (recv_buf (sk s)))"
    and "get_udest (recv_buf (sk s)) i = (a, m)" "rerr_udest ip_src i (r, d, s) = (r', d', s')"
  shows "rerr_has n r' s' (L @ (if passes ip_src s a then [(a, ntohl m)] else []))
    \<and> status s' = status s \<and> radio s' = radio s"
proof (cases "\<exists>p. rt_table_find a s = Some p \<and> via ip_src (rt s p)")
  case True
  then obtain p where p: "rt_table_find a s = Some p" "via ip_src (rt s p)" by blast
  obtain r1 d1 s1 where un: "rerr_unreachable n p (ntohl m) (r, d, s) = (r1, d1, s1)" by (metis prod.exhaust)
  have s': "r' = r1" "send_buf (sk s') = send_buf (sk s1)" "status s' = status s1" "radio s' = radio s1"
    using assms(5,6) un p by (auto simp: rerr_udest_def Let_def assms(4) [symmetric])
  show ?thesis
    using rerr_unreachable_has [OF assms(1) rts.find_alive [OF assms(1) p(1)] p(2) assms(2,3) un]
      rts.find_key [OF assms(1) p(1)] p rerr_has_cong [OF s'(2)] s'
    by (auto simp: passes_def split: if_splits)
next
  case False
  then have "r' = r" "send_buf (sk s') = send_buf (sk s)" "status s' = status s" "radio s' = radio s"
    using assms(5,6)
    by (auto simp: rerr_udest_def Let_def split: option.splits)
  moreover have "\<not> passes ip_src s a" using False by (auto simp: passes_def split: option.splits)
  ultimately show ?thesis using assms(2) rerr_has_cong [of s' s] by simp
qed

lemma rerr_udest_passes:
  assumes "wf_node s" "get_udest (recv_buf (sk s)) i = (a, m)" "rerr_udest ip_src i (r, d, s) = (r', d', s')"
    and "a' \<noteq> a"
  shows "passes ip_src s' a' = passes ip_src s a'"
proof -
  have ok: "ok s s'" using rerr_udest_ok [OF assms(1), of ip_src i r d] assms(3) by simp
  have live: "live s' = live s"
    using assms(3)
    by (auto simp: rerr_udest_def rerr_unreachable_def Let_def case_prod_beta precursor_list_destroy_eq
        split: option.splits if_splits)
  have key: "rt_dest_addr (rt s' p) = rt_dest_addr (rt s p)" if "p \<in> live s" for p
    by (rule ok_dest [OF ok that])
  have find: "rt_table_find a' s' = rt_table_find a' s"
    by (rule rts.find_cong [OF assms(1) ok_inv [OF ok] live key])
  have "rt s' p = rt s p" if "rt_table_find a' s = Some p" for p
    using rerr_udest_entry [OF assms(1) rts.find_alive [OF assms(1) that] assms(2), of ip_src r d]
      rts.find_key [OF assms(1) that] assms(3,4) by simp
  then show ?thesis by (simp add: passes_def find split: option.split)
qed

lemma rerr_udests_has:
  assumes "wf_node s" "rerr_has n r s L" "n = re_n (get_RERR (recv_buf (sk s)))"
    and "length L + length is \<le> 101"
    and "fold (rerr_udest ip_src) is (r, d, s) = (r', d', s')"
  shows "status s' = status s \<and> radio s' = radio s \<and>
    (\<exists>M. rerr_has n r' s' (L @ M) \<and> length M \<le> length is \<and>
       (distinct (map (\<lambda>i. fst (get_udest (recv_buf (sk s)) i)) is) \<longrightarrow>
          M = filter (\<lambda>u. passes ip_src s (fst u)) (map (\<lambda>i. (fst (get_udest (recv_buf (sk s)) i),
                ntohl (snd (get_udest (recv_buf (sk s)) i)))) is)))"
  using assms
proof (induction "is" arbitrary: r d s L)
  case (Cons i "is")
  let ?g = "get_udest (recv_buf (sk s))"
  let ?M1 = "if passes ip_src s (fst (?g i)) then [(fst (?g i), ntohl (snd (?g i)))] else []"
  obtain r1 d1 s1 where st: "rerr_udest ip_src i (r, d, s) = (r1, d1, s1)" by (metis prod.exhaust)
  note recv = rerr_udest_recv [OF Cons.prems(1) st]
  have has1: "rerr_has n r1 s1 (L @ ?M1)" "status s1 = status s" "radio s1 = radio s"
    using rerr_udest_has [OF Cons.prems(1,2) _ Cons.prems(3) surjective_pairing st] Cons.prems(4) by simp_all
  have wf1: "wf_node s1" using ok_inv [OF rerr_udest_ok [OF Cons.prems(1), of ip_src i r d]] st by simp
  have len: "length (L @ ?M1) + length is \<le> 101" using Cons.prems(4) by auto
  obtain M where M: "rerr_has n r' s' ((L @ ?M1) @ M)" "length M \<le> length is"
    "distinct (map (\<lambda>i. fst (?g i)) is) \<longrightarrow>
       M = filter (\<lambda>u. passes ip_src s1 (fst u)) (map (\<lambda>i. (fst (?g i), ntohl (snd (?g i)))) is)"
    "status s' = status s1" "radio s' = radio s1"
    using Cons.IH [OF wf1 has1(1) _ len] Cons.prems(3,5) st by (auto simp: recv)
  have "?M1 @ M = filter (\<lambda>u. passes ip_src s (fst u)) (map (\<lambda>i. (fst (?g i), ntohl (snd (?g i)))) (i # is))"
    if "distinct (map (\<lambda>i. fst (?g i)) (i # is))"
  proof -
    have "fst (?g j) \<noteq> fst (?g i)" if "j \<in> set is" for j
      using that \<open>distinct (map (\<lambda>i. fst (?g i)) (i # is))\<close> by (simp add: image_iff) metis
    note rerr_udest_passes [OF Cons.prems(1) surjective_pairing st this]
    with M(3) that show ?thesis by (auto simp: filter_map comp_def cong: filter_cong)
  qed
  moreover have "length (?M1 @ M) \<le> length (i # is)" using M(2) by simp
  moreover have "rerr_has n r' s' (L @ ?M1 @ M)" using M(1) by (simp only: append_assoc)
  ultimately show ?case using M(4,5) has1(2,3) by (intro conjI impI exI [of _ "?M1 @ M"]) (simp_all only: simp_thms)
qed auto

section \<open>Properties\<close>

lemma rerr_dests_decode:
  "map (\<lambda>i. (fst (get_udest b i), ntohl (snd (get_udest b i)))) [0..<unat (re_dest_count (get_RERR b))] =
     rerr_decode b"
  by (simp add: rerr_decode_def rerr_dests_def case_prod_beta comp_def)

lemma rerr_process_run:
  assumes "wf_node s" "RERR_CALC_SIZE (re_dest_count (get_RERR (recv_buf (sk s)))) \<le> rerrlen"
    and "rerrlen \<le> AODV_MSG_MAX_SIZE"
  obtains r d s1 M where "rerr_process rerrlen ip_src ip_dst s = (if r then rerr_finish d s1 else s1)"
    and "ok s s1" "status s1 = status s" "radio s1 = radio s"
    and "rerr_has (re_n (get_RERR (recv_buf (sk s)))) r s1 M" "length M \<le> 101"
    and "distinct (map fst (rerr_decode (recv_buf (sk s)))) \<longrightarrow>
      M = filter (\<lambda>u. passes ip_src s (fst u)) (rerr_decode (recv_buf (sk s)))"
    and "\<And>v. v \<in> live s \<Longrightarrow> rt s1 v = after_rerr ip_src (re_n (get_RERR (recv_buf (sk s))))
      (rerr_decode (recv_buf (sk s))) (rt s v)"
proof -
  let ?b = "recv_buf (sk s)" and ?k = "unat (re_dest_count (get_RERR (recv_buf (sk s))))"
  obtain r d s1 where l: "fold (rerr_udest ip_src) [0..<?k] (False, 0, s) = (r, d, s1)" by (metis prod.exhaust)
  have k: "?k \<le> 101" using assms(2,3) by (simp add: RERR_CALC_SIZE_eq)
  have has0: "rerr_has (re_n (get_RERR ?b)) False s []" by (simp add: rerr_has_def rerr_holds_def)
  have fsts: "map (\<lambda>i. fst (get_udest ?b i)) [0..<?k] = map fst (rerr_decode ?b)"
    by (simp flip: rerr_dests_decode add: comp_def)
  obtain M where M: "rerr_has (re_n (get_RERR ?b)) r s1 M" "length M \<le> ?k"
    "distinct (map fst (rerr_decode ?b)) \<longrightarrow> M = filter (\<lambda>u. passes ip_src s (fst u)) (rerr_decode ?b)"
    "status s1 = status s" "radio s1 = radio s"
    using rerr_udests_has [OF assms(1) has0 refl _ l] k unfolding fsts rerr_dests_decode by auto
  have "ok s s1" using rerr_udests_ok [OF assms(1), of ip_src "[0..<?k]" False 0] l by simp
  moreover have "rt s1 v = after_rerr ip_src (re_n (get_RERR ?b)) (rerr_decode ?b) (rt s v)" if "v \<in> live s" for v
    using rerr_udests_entry [OF assms(1) that, of ip_src "[0..<?k]" False 0] l by (simp add: rerr_dests_decode)
  moreover have "rerr_process rerrlen ip_src ip_dst s = (if r then rerr_finish d s1 else s1)"
    using assms(2) by (simp add: rerr_process_def l)
  moreover have "length M \<le> 101" using M(2) k by simp
  ultimately show ?thesis using M that by blast
qed

text \<open>
  C21. Receiving a route error.  A message shorter than its destination count says is ignored.
  Otherwise, for every route: if it is valid, has the sender as its next hop and its destination
  is listed, it takes the sequence number listed and, unless the N bit asks to keep it, becomes
  invalid and loses its precursors; every other route is exactly as before.  Whatever the
  message, no buffer is overrun and no exit is taken.
\<close>

theorem rerr_process_correct:
  assumes "wf_node s" and "rerrlen \<le> AODV_MSG_MAX_SIZE"
    and "b = recv_buf (sk s)" and "n = re_n (get_RERR b)" and "s' = rerr_process rerrlen ip_src ip_dst s"
  shows "if rerrlen < RERR_CALC_SIZE (re_dest_count (get_RERR b)) then s' = s
    else wf_node s' \<and> status s' = status s \<and>
      (\<forall>v \<in> live s.
         if via ip_src (rt s v) \<and> rt_dest_addr (rt s v) \<in> fst ` set (rerr_decode b)
         then (rt_dest_addr (rt s v), rt_dest_seqno (rt s' v)) \<in> set (rerr_decode b) \<and>
              rt_state (rt s' v) = (if n then VALID else INVALID) \<and>
              (\<not> n \<longrightarrow> rt_precursors (rt s' v) = [])
         else rt s' v = rt s v)"
proof (cases "rerrlen < RERR_CALC_SIZE (re_dest_count (get_RERR b))")
  case False
  obtain r d s1 where run: "s' = (if r then rerr_finish d s1 else s1)" "status s1 = status s"
    "\<And>v. v \<in> live s \<Longrightarrow> rt s1 v = after_rerr ip_src n (rerr_decode b) (rt s v)"
    using rerr_process_run [OF assms(1) _ assms(2), of ip_src ip_dst] False unfolding assms(3-5) not_less by metis
  have e: "rt s' v = after_rerr ip_src n (rerr_decode b) (rt s v)" if "v \<in> live s" for v
    using run(1) run(3) [OF that] by simp
  have none: "heard n (rerr_decode b) a = None \<longleftrightarrow> a \<notin> fst ` set (rerr_decode b)" for a
    by (simp add: heard_def map_of_eq_None_iff)
  have some: "(a, m) \<in> set (rerr_decode b)" if "heard n (rerr_decode b) a = Some m" for a m
    using that map_of_SomeD [of "rev (rerr_decode b)" a m] map_of_SomeD [of "rerr_decode b" a m]
    by (simp add: heard_def split: if_splits)
  have wf: "wf_node s'" unfolding assms(5) by (rule ok_inv [OF rerr_process_ok [OF assms(1)]])
  have "if via ip_src (rt s v) \<and> rt_dest_addr (rt s v) \<in> fst ` set (rerr_decode b)
         then (rt_dest_addr (rt s v), rt_dest_seqno (rt s' v)) \<in> set (rerr_decode b) \<and>
              rt_state (rt s' v) = (if n then VALID else INVALID) \<and>
              (\<not> n \<longrightarrow> rt_precursors (rt s' v) = [])
         else rt s' v = rt s v" if "v \<in> live s" for v
  proof (cases "heard n (rerr_decode b) (rt_dest_addr (rt s v))")
    case None
    moreover have "rt_dest_addr (rt s v) \<notin> fst ` set (rerr_decode b)" using None none by blast
    ultimately show ?thesis by (simp add: e [OF that] after_rerr_def)
  next
    case (Some m)
    with none [of "rt_dest_addr (rt s v)"] some [OF Some] show ?thesis
      by (auto simp: e [OF that] after_rerr_def told_def invalidated_def via_def)
  qed
  moreover have "status s' = status s" using run by simp
  ultimately show ?thesis using False wf by (simp only: if_False) blast
qed (simp add: assms(3,5) rerr_process_def)

text \<open>
  C22. The route error passed on.  When no destination is listed twice, every message sent is a
  route error, with the N bit of the one received, that lists exactly those listed destinations
  which were routed through the sender, have precursors and are not under repair, in the same
  order and with the same sequence numbers; if there is none, nothing is sent, and if there is one
  and the interfaces and the rate limit allow it, something is.
\<close>

theorem rerr_process_relays:
  assumes "wf_node s" and "RERR_CALC_SIZE (re_dest_count (get_RERR b)) \<le> rerrlen"
    and "rerrlen \<le> AODV_MSG_MAX_SIZE" and "b = recv_buf (sk s)" and "distinct (map fst (rerr_decode b))"
    and "M = filter (\<lambda>u. passes ip_src s (fst u)) (rerr_decode b)"
  shows "\<exists>new. sent (rerr_process rerrlen ip_src ip_dst s) = sent s @ new \<and>
    (\<forall>x \<in> set new. rerr_decode (fst x) = M \<and> re_n (get_RERR (fst x)) = re_n (get_RERR b)) \<and>
    (M = [] \<longrightarrow> new = []) \<and> (M \<noteq> [] \<and> can_send AODV_RERR s \<longrightarrow> new \<noteq> [])"
proof -
  obtain r d s1 where run: "rerr_process rerrlen ip_src ip_dst s = (if r then rerr_finish d s1 else s1)"
    "ok s s1" "radio s1 = radio s" "rerr_has (re_n (get_RERR b)) r s1 M" "length M \<le> 101"
    using rerr_process_run [OF assms(1) _ assms(3), of ip_src ip_dst] assms(2,5,6) unfolding assms(4) by metis
  show ?thesis
  proof (cases r)
    case True
    then have v: "rerr_view s1 = M" "unat (rerr_count s1) = length M" "M \<noteq> []"
      "re_n (get_RERR (send_buf (sk s1))) = re_n (get_RERR b)" "send_buf (sk s1) ! 0 = AODV_RERR"
      "rerr_count s1 \<noteq> 0"
      using run(4) by (auto simp: rerr_has_def rerr_holds_def)
    have "can_send AODV_RERR s1 = can_send AODV_RERR s"
      using run(2) by (intro can_send_cong [OF run(3)]) (simp add: ok_def)
    with rerr_finish_sends [OF ok_inv [OF run(2)] _ v(5,6), of d]
    have go: "can_send AODV_RERR s \<Longrightarrow> sent (rerr_finish d s1) \<noteq> sent s1" by simp
    let ?bs = "take (RERR_CALC_SIZE (rerr_count s1)) (send_buf (sk s1))"
    have "rerr_decode ?bs = M"
      using rerr_decode_take [OF refl, of "send_buf (sk s1)"] v run(5) send_buf_length [OF ok_inv [OF run(2)]]
      by (simp add: RERR_CALC_SIZE_eq rerr_view_def)
    moreover have "re_n (get_RERR ?bs) = re_n (get_RERR b)"
      using v(4) by (simp add: get_RERR_def RERR_CALC_SIZE_eq)
    moreover obtain new where new: "sent (rerr_finish d s1) = sent s1 @ new" "\<forall>x \<in> set new. fst x = ?bs"
      using rerr_finish_only [OF ok_inv [OF run(2)], of d] unfolding sends_only_def by auto
    moreover from new(1) go have "can_send AODV_RERR s \<longrightarrow> new \<noteq> []" by auto
    ultimately show ?thesis using True run(1) radio_sent [OF run(3)] v(3) by auto
  next
    case False
    then show ?thesis using run radio_sent [OF run(3)] by (simp add: rerr_has_def rerr_holds_def)
  qed
qed

text \<open>The demonstration node when its neighbour reports 10.0.0.3 as unreachable.\<close>

definition demo_errored :: node where
  "demo_errored = demo_routes\<lparr>sk := demo_socket\<lparr>recv_buf := put_udest 0 (0x0300000A, htonl 12)
     (put_RERR \<lparr>re_type = AODV_RERR, re_res1 = 0, re_n = False, re_res2 = 0, re_dest_count = 1\<rparr>
       (replicate 812 0))\<rparr>\<rparr>"

lemma demo_errored_simps:
  "wf_node demo_errored" "rt_tbl demo_errored = demo_table" "1 \<in> live demo_errored"
  "rerr_decode (recv_buf (sk demo_errored)) = [(0x0300000A, 12)]"
  "\<not> re_n (get_RERR (recv_buf (sk demo_errored)))" "re_dest_count (get_RERR (recv_buf (sk demo_errored))) = 1"
proof -
  show "wf_node demo_errored" unfolding demo_errored_def
    by (rule ok_inv [OF upd_sk_ok [OF demo_routes_wf]]) (simp add: sock_wf_def demo_socket_def)
  show "rt_tbl demo_errored = demo_table" by (simp add: demo_errored_def demo_routes_def)
  then show "1 \<in> live demo_errored" by (simp add: entries_demo_table)
  have h: "get_RERR (recv_buf (sk demo_errored)) =
      \<lparr>re_type = AODV_RERR, re_res1 = 0, re_n = False, re_res2 = 0, re_dest_count = 1\<rparr>"
    by (simp add: demo_errored_def get_RERR_put_udest get_put_RERR)
  then show "\<not> re_n (get_RERR (recv_buf (sk demo_errored)))"
    "re_dest_count (get_RERR (recv_buf (sk demo_errored))) = 1" by simp_all
  have "get_udest (recv_buf (sk demo_errored)) 0 = (0x0300000A, htonl 12)"
    by (simp add: demo_errored_def get_udest_put)
  then show "rerr_decode (recv_buf (sk demo_errored)) = [(0x0300000A, 12)]"
    by (simp add: rerr_decode_def rerr_dests_def h)
qed

lemma demo_far_route: "rt demo_errored 1 = far_route"
  by (simp add: demo_errored_simps(2)) (simp add: demo_table_def)

theorem rerr_process_correct_witness:
  "rt_state (rt (rerr_process 12 0x0200000A 0xFFFFFFFF demo_errored) 1) = INVALID \<and>
   rt_dest_seqno (rt (rerr_process 12 0x0200000A 0xFFFFFFFF demo_errored) 1) = 12"
proof -
  have "via 0x0200000A (rt demo_errored 1)" "rt_dest_addr (rt demo_errored 1) = 0x0300000A"
    unfolding demo_far_route by (simp_all add: via_def far_route_def no_route_def)
  with rerr_process_correct [OF demo_errored_simps(1) _ refl refl refl, of 12 "0x0200000A" "0xFFFFFFFF"]
    demo_errored_simps show ?thesis by (auto simp: RERR_CALC_SIZE_eq)
qed

theorem rerr_process_relays_witness:
  "\<exists>new. sent (rerr_process 12 0x0200000A 0xFFFFFFFF demo_errored) = sent demo_errored @ new \<and> new \<noteq> [] \<and>
    (\<forall>x \<in> set new. rerr_decode (fst x) = [(0x0300000A, 12)])"
proof -
  have "rt_dest_addr (rt demo_errored 1) = 0x0300000A"
    unfolding demo_far_route by (simp add: far_route_def)
  then have "rt_table_find 0x0300000A demo_errored = Some 1"
    using rts.find_self [OF demo_errored_simps(1,3)] by simp
  then have "passes 0x0200000A demo_errored 0x0300000A"
    by (simp add: passes_def demo_far_route [simplified]) (simp add: far_route_def no_route_def via_def flag_def)
  moreover have "can_send AODV_RERR demo_errored"
    using demo_can_send [of AODV_RERR] by (simp add: can_send_def demo_errored_def demo_routes_def demo_node_def
        demo_socket_def DEV_NR_def ratel_socket_def)
  ultimately show ?thesis
    using rerr_process_relays [OF demo_errored_simps(1) _ _ refl _ refl, of 12 "0x0200000A" "0xFFFFFFFF"]
      demo_errored_simps by (auto simp: RERR_CALC_SIZE_eq)
qed

end
