(* ===== verification/Timeouts.thy ===== *)
theory Timeouts
  imports Rerr_Process
begin

text \<open>
  The timeout functions of \<open>src/protocol/aodv_timeout.c\<close>, the call of a handler through the
  pointers in a timer, and the part of \<open>src/utils/timer_queue.c\<close> that runs handlers
  (\<open>timer_timeout\<close>, \<open>timer_timeout_now\<close>, \<open>timer_age_queue\<close>).  The interface \<open>timer_host\<close> of the
  timer queue is interpreted on these handlers: each of them keeps the node in order and makes
  no timer expire again, so the loop over the expired timers ends.

  Of \<open>print_rt_table\<close> of \<open>src/utils/debug.c\<close> this theory has the part that changes the node: its timer is
  set again.  What it writes to its log file is in \<open>Table_Log\<close>.
\<close>

section \<open>Handlers\<close>

text \<open>Tell the precursors of the entry \<open>e\<close> that its destination is unreachable.\<close>

definition local_repair_rerr :: "rt_table \<Rightarrow> node \<Rightarrow> node" where
  "local_repair_rerr e s =
     (if rt_nprec e \<noteq> 0 then
        let s1 = rerr_create 0 (rt_dest_addr e) (rt_dest_seqno e) s;
            n = RERR_CALC_SIZE (rerr_count s1)
        in if rt_nprec e = 1
           then aodv_socket_send (hd (rt_precursors e)) n 1 (DEV_IFINDEX s1 (rt_ifindex e)) s1
           else for_enabled_devs (aodv_socket_send AODV_BROADCAST n 1) s1
      else s)"

definition local_repair_timeout :: "ptr \<Rightarrow> node \<Rightarrow> node" where
  "local_repair_timeout p s =
     (let s1 = upd_rt p (\<lambda>e. e\<lparr>rt_flags := rt_flags e AND NOT RT_REPAIR\<rparr>) s;
          e = rt s1 p;
          s2 = nl_send_del_route_msg (rt_dest_addr e) (rt_next_hop e) (rt_hcnt e) s1;
          s4 = precursor_list_destroy p (local_repair_rerr e s2)
      in tm_set (Rt_timer p) (DELETE_PERIOD s4) (tm_handler (Rt_timer p) Route_delete_timeout s4))"

text \<open>The search entry for the next attempt: a wider ring, or one more retry.\<close>

definition seek_retry :: "bool \<Rightarrow> seek_list \<Rightarrow> seek_list" where
  "seek_retry ring e =
     (if ring then
        if seek_ttl e < TTL_THRESHOLD then e\<lparr>seek_ttl := seek_ttl e + TTL_INCREMENT\<rparr>
        else e\<lparr>seek_ttl := NET_DIAMETER, seek_reqs := seek_reqs e + 1\<rparr>
      else e\<lparr>seek_reqs := seek_reqs e + 1\<rparr>)"

definition upd_seek :: "ptr \<Rightarrow> seek_list \<Rightarrow> node \<Rightarrow> node" where
  "upd_seek q e s = s\<lparr>seekhead := (seekhead s)\<lparr>pheap := (pheap (seekhead s))(q := e)\<rparr>\<rparr>"

definition route_discovery_timeout :: "ptr \<Rightarrow> node \<Rightarrow> node" where
  "route_discovery_timeout q s =
     (let e = pheap (seekhead s) q in
      if seek_reqs e < RREQ_RETRIES then
        let ring = expanding_ring_search (conf s);
            e' = seek_retry ring e;
            s1 = tm_set (Seek_timer q)
                   (if ring then RING_TRAVERSAL_TIME (seek_ttl e') else seek_reqs e' * 2 * NET_TRAVERSAL_TIME)
                   (upd_seek q e' s);
            s2 = (case rt_table_find (seek_dest_addr e') s1 of
                    None \<Rightarrow> s1
                  | Some p \<Rightarrow> rt_keep_waiting p s1)
        in rreq_send (seek_dest_addr e') (seek_dest_seqno e') (seek_ttl e') (seek_flags e') s2
      else
        let s1 = snd (nl_send_no_route_found_msg (seek_dest_addr e) s);
            repair_rt = rt_table_find (seek_dest_addr e) s1;
            s2 = snd (seek_list_remove (Some q) s1)
        in case repair_rt of
             None \<Rightarrow> s2
           | Some p \<Rightarrow> if flag (rt_flags (rt s2 p)) RT_REPAIR then local_repair_timeout p s2 else s2)"

definition route_expire_timeout :: "ptr \<Rightarrow> node \<Rightarrow> node" where
  "route_expire_timeout p s =
     (if rt_hcnt (rt s p) = 1 then neighbor_link_break p s
      else precursor_list_destroy p (rt_table_invalidate p s))"

definition route_delete_timeout :: "ptr \<Rightarrow> node \<Rightarrow> node" where
  "route_delete_timeout p s = rt_table_delete p s"

definition hello_timeout :: "ptr \<Rightarrow> node \<Rightarrow> node" where
  "hello_timeout p s =
     (if rt_state (rt s p) = VALID \<and> \<not> flag (rt_flags (rt s p)) RT_UNIDIR then
        neighbor_link_break p
          (if local_repair (conf s) \<and> uint (rt_hcnt (rt s p)) \<le> MAX_REPAIR_TTL
           then upd_rt p (\<lambda>e. e\<lparr>rt_flags := rt_flags e OR RT_REPAIR\<rparr>) s else s)
      else s)"

definition rrep_ack_timeout :: "ptr \<Rightarrow> node \<Rightarrow> node" where
  "rrep_ack_timeout p s = rreq_blacklist_insert (rt_dest_addr (rt s p)) s"

definition wait_on_reboot_timeout :: "node \<Rightarrow> node" where
  "wait_on_reboot_timeout s = s\<lparr>wait_on_reboot := False\<rparr>"

definition print_rt_table :: "node \<Rightarrow> node" where
  "print_rt_table s = tm_set Rt_log_timer (rt_log_interval (conf s)) s"

definition log_rt_table_init :: "node \<Rightarrow> node" where
  "log_rt_table_init s =
     tm_set Rt_log_timer (rt_log_interval (conf s)) (tm_init Rt_log_timer Print_rt_table A_NULL s)"

section \<open>Running timers\<close>

text \<open>
  The call \<open>t->handler(t->data)\<close>.  Called with the null pointer, most handlers of objects return at
  once and three dereference it; any other combination would be a handler that reads an object of
  the wrong type.
\<close>

fun call_handler :: "thandler \<Rightarrow> targ \<Rightarrow> node \<Rightarrow> node" where
  "call_handler Route_expire_timeout (A_rt p) s = route_expire_timeout p s"
| "call_handler Route_delete_timeout (A_rt p) s = route_delete_timeout p s"
| "call_handler Local_repair_timeout (A_rt p) s = local_repair_timeout p s"
| "call_handler Rrep_ack_timeout (A_rt p) s = rrep_ack_timeout p s"
| "call_handler Hello_timeout (A_rt p) s = hello_timeout p s"
| "call_handler Route_discovery_timeout (A_seek q) s = route_discovery_timeout q s"
| "call_handler Rreq_record_timeout (A_rec q) s = rreq_record_timeout q s"
| "call_handler Rreq_blacklist_timeout (A_bl q) s = rreq_blacklist_timeout q s"
| "call_handler Hello_send _ s = hello_send s"
| "call_handler Wait_on_reboot_timeout A_worb s = wait_on_reboot_timeout s"
| "call_handler Packet_queue_timeout _ s = packet_queue_timeout s"
| "call_handler Print_rt_table _ s = print_rt_table s"
| "call_handler h A_NULL s =
     (if h \<in> {Rreq_record_timeout, Rreq_blacklist_timeout, Wait_on_reboot_timeout} then abort Null_deref s else s)"
| "call_handler _ _ s = abort Null_deref s"

definition call_timer :: "timer_id \<Rightarrow> node \<Rightarrow> node" where
  "call_timer t s =
     (case handler (timers (tq s) t) of
        None \<Rightarrow> s
      | Some h \<Rightarrow> call_handler h (tdata (timers (tq s) t)) s)"

text \<open>One turn of the second loop of \<open>timer_timeout\<close>.\<close>

definition fire :: "timer_id \<Rightarrow> node \<Rightarrow> node" where
  "fire t s = (case timer_pop (tq s) of None \<Rightarrow> s | Some (u, q) \<Rightarrow> call_timer u (s\<lparr>tq := q\<rparr>))"

definition timer_timeout :: "timeval \<Rightarrow> node \<Rightarrow> node option" where
  "timer_timeout now s = timer_fire_loop tq fire (s\<lparr>tq := timer_expire now (tq s)\<rparr>)"

definition timer_timeout_now :: "timer_id \<Rightarrow> node \<Rightarrow> int \<times> node" where
  "timer_timeout_now t s =
     (case timer_remove t (tq s) of
        (removed, q) \<Rightarrow>
          if removed = 0 then (-1, s\<lparr>tq := q\<rparr>)
          else (1, case handler (timers q t) of
                     None \<Rightarrow> abort Null_deref (s\<lparr>tq := q\<rparr>)
                   | Some h \<Rightarrow> call_handler h (tdata (timers q t)) (s\<lparr>tq := q\<rparr>)))"

text \<open>The result is the time until the next timer is due, \<open>NULL\<close> when there is none.\<close>

definition timer_age_queue :: "node \<Rightarrow> (timeval option \<times> node) option" where
  "timer_age_queue s =
     (if TQ (tq s) = [] then Some (None, s)
      else map_option (\<lambda>s'. (timer_remaining (clock s) (tq s'), s')) (timer_timeout (clock s) s))"

section \<open>Invariant\<close>

lemma rt_flags_ok: "wf_node s \<Longrightarrow> ok s (upd_rt p (\<lambda>e. e\<lparr>rt_flags := f e\<rparr>) s)"
  by (rule upd_rt_ok) (simp_all add: entry_wf_def)

lemma local_repair_rerr_ok: "wf_node s \<Longrightarrow> ok s (local_repair_rerr e s)"
  using ok_then [OF rerr_create_ok aodv_socket_send_ok] ok_then [OF rerr_create_ok for_enabled_devs_send_ok]
  by (simp add: local_repair_rerr_def Let_def ok_refl)

lemma local_repair_rerr_frame [simp]:
  "rt_tbl (local_repair_rerr e s) = rt_tbl s" "conf (local_repair_rerr e s) = conf s"
  "clock (local_repair_rerr e s) = clock s" "seekhead (local_repair_rerr e s) = seekhead s"
  "PQ (local_repair_rerr e s) = PQ s"
  by (simp_all add: local_repair_rerr_def Let_def rerr_create_def aodv_socket_new_msg_def
      for_enabled_devs_frame [where g = rt_tbl] for_enabled_devs_frame [where g = conf]
      for_enabled_devs_frame [where g = clock] for_enabled_devs_frame [where g = seekhead]
      for_enabled_devs_frame [where g = PQ])

text \<open>The state in which \<open>local_repair_timeout\<close> sets the timer.\<close>

definition repair_failed :: "ptr \<Rightarrow> node \<Rightarrow> node" where
  "repair_failed p s =
     (let s1 = upd_rt p (\<lambda>e. e\<lparr>rt_flags := rt_flags e AND NOT RT_REPAIR\<rparr>) s; e = rt s1 p
      in precursor_list_destroy p
           (local_repair_rerr e (nl_send_del_route_msg (rt_dest_addr e) (rt_next_hop e) (rt_hcnt e) s1)))"

lemma local_repair_timeout_eq:
  "local_repair_timeout p s = tm_set (Rt_timer p) (DELETE_PERIOD s)
     (tm_handler (Rt_timer p) Route_delete_timeout (repair_failed p s))"
  by (simp add: local_repair_timeout_def repair_failed_def Let_def DELETE_PERIOD_def precursor_list_destroy_eq)

lemma repair_failed_ok: "wf_node s \<Longrightarrow> ok s (repair_failed p s)"
  unfolding repair_failed_def Let_def
  by (rule ok_then [OF ok_then [OF ok_then [OF rt_flags_ok nl_del_ok] local_repair_rerr_ok] precursor_list_destroy_ok])

lemma local_repair_timeout_ok:
  assumes "wf_node s" "p \<in> live s"
  shows "ok s (local_repair_timeout p s)"
proof -
  have 1: "ok s (tm_handler (Rt_timer p) Route_delete_timeout (repair_failed p s))"
    by (rule ok_then [OF repair_failed_ok [OF assms(1)] tm_handler_ok]) simp_all
  show ?thesis
    unfolding local_repair_timeout_eq by (rule ok_then [OF 1 tm_set_rt_ok(1) [OF _ ok_live [OF 1 assms(2)]]])
qed

lemma upd_seek_ok:
  assumes "wf_node s" "seek_dest_addr e = seek_dest_addr (pheap (seekhead s) q)"
  shows "ok s (upd_seek q e s)"
proof -
  have "(\<lambda>p. seek_dest_addr (((pheap (seekhead s))(q := e)) p)) = (\<lambda>p. seek_dest_addr (pheap (seekhead s) p))"
    using assms(2) by auto
  then show ?thesis
    using assms(1) by (simp add: upd_seek_def ok_def wf_node_def pool_wf_def statics_def)
qed

lemma seek_retry_simps [simp]:
  "seek_dest_addr (seek_retry b e) = seek_dest_addr e" "seek_dest_seqno (seek_retry b e) = seek_dest_seqno e"
  "seek_flags (seek_retry b e) = seek_flags e"
  by (simp_all add: seek_retry_def)

lemma upd_seek_simps [simp]:
  "plist (seekhead (upd_seek q e s)) = plist (seekhead s)"
  "pheap (seekhead (upd_seek q e s)) = (pheap (seekhead s))(q := e)"
  "rt_tbl (upd_seek q e s) = rt_tbl s" "tq (upd_seek q e s) = tq s" "conf (upd_seek q e s) = conf s"
  "sk (upd_seek q e s) = sk s" "clock (upd_seek q e s) = clock s"
  by (simp_all add: upd_seek_def)

lemma keep_waiting_if_ok:
  "ok s s1 \<Longrightarrow> ok s (case rt_table_find a s1 of None \<Rightarrow> s1 | Some p \<Rightarrow> rt_keep_waiting p s1)"
  using ok_then [OF _ rt_keep_waiting_ok] rts.find_alive by (auto split: option.split)

lemma no_route_found_ok: "wf_node s \<Longrightarrow> ok s (snd (nl_send_no_route_found_msg d s))"
  by (simp add: nl_send_no_route_found_msg_def packet_queue_set_verdict_ok)

lemma route_discovery_timeout_ok:
  assumes "wf_node s" "q \<in> seeking s"
  shows "ok s (route_discovery_timeout q s)"
proof -
  let ?e = "pheap (seekhead s) q"
  have retry: "ok s (rreq_send a m l f (case rt_table_find b s1 of None \<Rightarrow> s1 | Some p \<Rightarrow> rt_keep_waiting p s1))"
    if "s1 = tm_set (Seek_timer q) ms (upd_seek q e s)" "seek_dest_addr e = seek_dest_addr ?e"
    for a b m l f s1 ms e
  proof -
    have 1: "ok s (upd_seek q e s)" by (rule upd_seek_ok [OF assms(1) that(2)])
    have "ok s s1" unfolding that(1)
      by (rule ok_then [OF 1 tm_set_owned_ok]) (simp_all add: assms(2))
    from ok_then [OF keep_waiting_if_ok [OF this] rreq_send_ok] show ?thesis .
  qed
  define s1 where "s1 = snd (nl_send_no_route_found_msg (seek_dest_addr ?e) s)"
  define s2 where "s2 = snd (seek_list_remove (Some q) s1)"
  have 1: "ok s s1" unfolding s1_def by (rule no_route_found_ok [OF assms(1)])
  have 2: "ok s1 s2" unfolding s2_def by (rule seek_list_remove_ok [OF ok_inv [OF 1]])
  have "ok s (case rt_table_find a s1 of None \<Rightarrow> s2
      | Some p \<Rightarrow> if flag (rt_flags (rt s2 p)) RT_REPAIR then local_repair_timeout p s2 else s2)" for a
    using ok_trans [OF 1 2] ok_then [OF ok_trans [OF 1 2] local_repair_timeout_ok]
      ok_live [OF 2 rts.find_alive [OF ok_inv [OF 1]]]
    by (auto split: option.split)
  then show ?thesis
    using retry [OF refl]
    unfolding route_discovery_timeout_def Let_def s1_def [symmetric] s2_def [symmetric] by simp
qed

lemma route_expire_timeout_ok:
  assumes "wf_node s" "p \<in> live s"
  shows "ok s (route_expire_timeout p s)"
  using neighbor_link_break_ok [OF assms]
    ok_then [OF rt_table_invalidate_ok [OF assms] precursor_list_destroy_ok]
  by (simp add: route_expire_timeout_def)

lemma hello_timeout_ok:
  assumes "wf_node s" "p \<in> live s"
  shows "ok s (hello_timeout p s)"
  using neighbor_link_break_ok [OF assms] ok_then [OF rt_flags_ok [OF assms(1)] neighbor_link_break_ok] assms
  by (simp add: hello_timeout_def ok_refl)

lemma wait_on_reboot_timeout_ok: "wf_node s \<Longrightarrow> ok s (wait_on_reboot_timeout s)"
  by (simp add: wait_on_reboot_timeout_def upd_worb_ok)

lemma print_rt_table_ok:
  "wf_node s \<Longrightarrow> handler (timers (tq s) Rt_log_timer) \<noteq> None \<Longrightarrow> ok s (print_rt_table s)"
  unfolding print_rt_table_def by (rule tm_set_ok) (simp_all add: static_timer_def)

text \<open>What every handler keeps, also the one that frees a routing table entry.\<close>

definition keeps :: "node \<Rightarrow> node \<Rightarrow> bool" where
  "keeps s s' \<longleftrightarrow>
     wf_node s' \<and> set (expTQ (tq s')) \<subseteq> set (expTQ (tq s)) \<and>
     (Gc_timer \<in> attached (tq s) \<longrightarrow> Gc_timer \<in> attached (tq s')) \<and>
     (\<forall>t. static_timer t \<longrightarrow> handler (timers (tq s) t) \<noteq> None \<longrightarrow> handler (timers (tq s') t) \<noteq> None) \<and>
     statics s' = statics s \<and> (\<exists>evs. out s' = out s @ evs)"

lemma ok_keeps: "ok s s' \<Longrightarrow> keeps s s'"
  by (simp add: ok_def keeps_def)

lemma keeps_trans: "keeps s s' \<Longrightarrow> keeps s' s'' \<Longrightarrow> keeps s s''"
  unfolding keeps_def by (auto simp: subset_iff)

lemma rt_table_delete_out: "\<exists>evs. out (rt_table_delete p s) = out s @ evs"
  by (simp add: rt_table_delete_def Let_def precursor_list_destroy_eq tm_remove_def
      upd_active_def upd_rt_def nl_send_del_route_msg_def nl_kern_route_def nl_send_def emit_def)

lemma route_delete_timeout_keeps:
  assumes "wf_node s" "p \<in> live s"
  shows "keeps s (route_delete_timeout p s)"
proof -
  note del = rt_table_delete_wf [OF assms]
  have "statics (rt_table_delete p s) = statics s" by (simp add: statics_def rt_table_delete_parts)
  moreover have "handler (timers (tq (rt_table_delete p s)) t) = handler (timers (tq s) t)" for t
    by (simp add: rt_table_delete_parts timer_remove_simps)
  ultimately show ?thesis
    using del rt_table_delete_out [of p s] by (simp add: keeps_def route_delete_timeout_def)
qed

lemma call_timer_keeps:
  assumes "wf_node s" "node_timer s t" "timer_typed t (timers (tq s) t)" "t \<notin> attached (tq s)"
  shows "keeps s (call_timer t s)"
proof (cases t)
  case (Rt_timer p)
  with assms show ?thesis
    using route_delete_timeout_keeps route_expire_timeout_ok [THEN ok_keeps] local_repair_timeout_ok [THEN ok_keeps]
    by (auto simp: call_timer_def static_timer_def)
next
  case (Ack_timer p)
  with assms show ?thesis
    using rreq_blacklist_insert_ok [THEN ok_keeps] by (auto simp: call_timer_def rrep_ack_timeout_def)
next
  case (Hello_timer p)
  with assms show ?thesis
    using hello_timeout_ok [THEN ok_keeps] by (auto simp: call_timer_def static_timer_def)
next
  case (Seek_timer p)
  with assms show ?thesis
    using route_discovery_timeout_ok [THEN ok_keeps] by (auto simp: call_timer_def)
next
  case (Rec_timer p)
  with assms show ?thesis
    using rreq_record_timeout_ok [THEN ok_keeps] by (auto simp: call_timer_def)
next
  case (Bl_timer p)
  with assms show ?thesis
    using rreq_blacklist_timeout_ok [THEN ok_keeps] by (auto simp: call_timer_def)
next
  case Hello_send_timer
  with assms show ?thesis
    using hello_send_ok [THEN ok_keeps] by (auto simp: call_timer_def)
next
  case Worb_timer
  with assms show ?thesis
    using wait_on_reboot_timeout_ok [THEN ok_keeps] by (auto simp: call_timer_def)
next
  case Gc_timer
  with assms show ?thesis
    using packet_queue_timeout_ok [THEN ok_keeps] by (auto simp: call_timer_def)
next
  case Rt_log_timer
  with assms show ?thesis
    using print_rt_table_ok [THEN ok_keeps] by (auto simp: call_timer_def)
qed

lemma packet_queue_timeout_attached:
  assumes "wf_node s"
  shows "Gc_timer \<in> attached (tq (packet_queue_timeout s))"
proof -
  let ?s1 = "snd (packet_queue_garbage_collect s)"
  have "wf_node ?s1"
    by (rule ok_inv [where s = s]) (simp add: packet_queue_garbage_collect_def pq_sweep_ok assms)
  note wf = invD [OF this]
  have "handler (timers (tq ?s1) Gc_timer) \<noteq> None" using wf(4) by (simp add: static_ready_def)
  then obtain q' where "timer_set_timeout (clock ?s1) Gc_timer GARBAGE_COLLECT_TIME (tq ?s1) = Some q'"
    "set (TQ q') = insert Gc_timer (set (TQ (tq ?s1)))"
    by (rule timer_set_timeout_wf [OF wf(11)])
  then show ?thesis by (simp add: packet_queue_timeout_def tm_set_def attached_def)
qed

text \<open>Taking the first expired timer off its list.\<close>

lemma timer_pop_node:
  assumes "wf_node s" "expTQ (tq s) = t # ts"
  obtains q where "timer_pop (tq s) = Some (t, q)" "wf_node (s\<lparr>tq := q\<rparr>)" "expTQ q = ts" "TQ q = TQ (tq s)"
    and "attached q = attached (tq s) - {t}"
    and "\<And>u. handler (timers q u) = handler (timers (tq s) u) \<and> tdata (timers q u) = tdata (timers (tq s) u)"
proof -
  note wf = invD [OF assms(1)]
  let ?q = "upd_timer t (\<lambda>r. r\<lparr>used := False\<rparr>) ((tq s)\<lparr>expTQ := ts\<rparr>)"
  have pop: "timer_pop (tq s) = Some (t, ?q)" by (simp add: timer_pop_def assms(2))
  note pw = timer_pop_wf [OF wf(11) pop]
  have h: "handler (timers ?q u) = handler (timers (tq s) u) \<and> tdata (timers ?q u) = tdata (timers (tq s) u)" for u
    by (simp add: upd_timer_def)
  have "timers_wf ?q (live s) (seeking s) (set (plist (rreq_records s))) (set (plist (rreq_blacklist s)))"
    using timers_wfD(2) [OF wf(3) pw(3)] pw(2) h by (intro timers_wf_same_handlers [OF wf(3) pw(1)]) auto
  moreover have "static_ready ?q (wait_on_reboot s)" using wf(4) h by (simp add: static_ready_def)
  ultimately have "wf_node (s\<lparr>tq := ?q\<rparr>)" using assms(1) by (simp add: wf_node_def)
  then show ?thesis using that [OF pop] pw(2,4,5) assms(2) h by simp
qed

lemma fire_keeps:
  assumes "wf_node s" "expTQ (tq s) = t # ts"
  shows "wf_node (fire t s)" "set (expTQ (tq (fire t s))) \<subseteq> set ts" "statics (fire t s) = statics s"
    "\<exists>evs. out (fire t s) = out s @ evs"
    "Gc_timer \<in> attached (tq s) \<Longrightarrow> Gc_timer \<in> attached (tq (fire t s))"
proof -
  obtain q where q: "timer_pop (tq s) = Some (t, q)" "wf_node (s\<lparr>tq := q\<rparr>)" "expTQ q = ts"
    "TQ q = TQ (tq s)" "attached q = attached (tq s) - {t}"
    "\<And>u. handler (timers q u) = handler (timers (tq s) u) \<and> tdata (timers q u) = tdata (timers (tq s) u)"
    by (rule timer_pop_node [OF assms]) blast
  note wf = invD [OF assms(1)]
  have att: "t \<in> attached (tq s)" by (simp add: attached_def assms(2))
  have own: "node_timer s t" by (rule timers_wfD(2) [OF wf(3) att])
  moreover have "handler (timers (tq s) t) \<noteq> None" using wf(11) att by (auto simp: tq_wf_def)
  ultimately have "timer_typed t (timers (tq s) t)" using timers_wfD(3,4) [OF wf(3)] by blast
  then have typed: "timer_typed t (timers q t)" using q(6) timer_typed_cong by metis
  have k: "keeps (s\<lparr>tq := q\<rparr>) (fire t s)"
    using call_timer_keeps [OF q(2), of t] own typed q(5) by (simp add: fire_def q(1))
  then show "wf_node (fire t s)" "set (expTQ (tq (fire t s))) \<subseteq> set ts" "statics (fire t s) = statics s"
    "\<exists>evs. out (fire t s) = out s @ evs"
    using q(3) by (simp_all add: keeps_def statics_def)
  show "Gc_timer \<in> attached (tq (fire t s))" if "Gc_timer \<in> attached (tq s)"
  proof (cases "t = Gc_timer")
    case True
    then have "fire t s = packet_queue_timeout (s\<lparr>tq := q\<rparr>)"
      using typed by (simp add: fire_def q(1) call_timer_def)
    then show ?thesis using packet_queue_timeout_attached [OF q(2)] by simp
  next
    case False
    with that k q(5) show ?thesis by (simp add: keeps_def)
  qed
qed

section \<open>The loop over the expired timers\<close>

interpretation handlers: timer_host tq fire
  "\<lambda>s. wf_node s \<and> statics s = statics s0 \<and> (\<exists>evs. out s = out s0 @ evs) \<and>
     (Gc_timer \<in> attached (tq s0) \<longrightarrow> Gc_timer \<in> attached (tq s))" for s0
proof (unfold_locales, goal_cases)
  case (1 s t ts)
  then show ?case using fire_keeps [of s t ts] by (metis append_assoc)
next
  case (2 s t ts)
  then show ?case using fire_keeps(2) by blast
next
  case (3 s)
  then show ?case using invD(11) by blast
qed

lemma timer_expire_node:
  assumes "wf_node s" "expTQ (tq s) = []"
  shows "wf_node (s\<lparr>tq := timer_expire now (tq s)\<rparr>)"
proof -
  note wf = invD [OF assms(1)] and ex = timer_expire_split [OF invD(11) [OF assms(1)] assms(2), of now]
  have "timers_wf (timer_expire now (tq s)) (live s) (seeking s) (set (plist (rreq_records s)))
      (set (plist (rreq_blacklist s)))"
    using ex by (intro timers_wf_same_handlers [OF wf(3) ex(4), of Gc_timer]) (auto simp: static_timer_def)
  then show ?thesis using assms(1) wf(4) by (simp add: wf_node_def static_ready_def ex(2))
qed

lemma timer_timeout_total:
  assumes "wf_node s" "expTQ (tq s) = []"
  shows "\<exists>s'. timer_timeout now s = Some s' \<and> wf_node s' \<and> expTQ (tq s') = [] \<and> statics s' = statics s \<and>
    (\<exists>evs. out s' = out s @ evs) \<and> (Gc_timer \<in> set (TQ (tq s)) \<longrightarrow> Gc_timer \<in> set (TQ (tq s')))"
proof -
  let ?s1 = "s\<lparr>tq := timer_expire now (tq s)\<rparr>"
  have "attached (tq ?s1) = attached (tq s)" using timer_expire_split(3) [OF invD(11) [OF assms(1)] assms(2)] by simp
  then have "wf_node ?s1 \<and> statics ?s1 = statics s \<and> (\<exists>evs. out ?s1 = out s @ evs) \<and>
      (Gc_timer \<in> attached (tq s) \<longrightarrow> Gc_timer \<in> attached (tq ?s1))"
    using timer_expire_node [OF assms] by (simp add: statics_def)
  from handlers.fire_loop_terminates [OF this] obtain s' where
    "timer_timeout now s = Some s'" "wf_node s'" "expTQ (tq s') = []" "statics s' = statics s"
    "\<exists>evs. out s' = out s @ evs" "Gc_timer \<in> attached (tq s) \<longrightarrow> Gc_timer \<in> attached (tq s')"
    unfolding timer_timeout_def by blast
  then show ?thesis by (auto simp: attached_def assms(2))
qed

lemma timer_age_queue_total:
  assumes "wf_node s" "expTQ (tq s) = []" "Gc_timer \<in> set (TQ (tq s))"
  obtains r s' where "timer_age_queue s = Some (Some r, s')" "wf_node s'" "expTQ (tq s') = []"
    and "statics s' = statics s" "\<exists>evs. out s' = out s @ evs" "Gc_timer \<in> set (TQ (tq s'))"
proof -
  obtain s' where s': "timer_timeout (clock s) s = Some s'" "wf_node s'" "expTQ (tq s') = []"
    "statics s' = statics s" "\<exists>evs. out s' = out s @ evs" "Gc_timer \<in> set (TQ (tq s'))"
    using timer_timeout_total [OF assms(1,2)] assms(3) by blast
  obtain r where "timer_remaining (clock s) (tq s') = Some r"
    using s'(6) by (cases "TQ (tq s')") (simp_all add: timer_remaining_def Let_def)
  with s'(1) assms(3) have "timer_age_queue s = Some (Some r, s')" by (auto simp: timer_age_queue_def)
  then show ?thesis by (rule that [OF _ s'(2-6)])
qed

text \<open>
  C23. Running the timers always ends, whatever handlers are due and whatever timers they set or
  remove in turn, and leaves the node well formed, no expired timer behind and the timer of the
  packet queue pending; so the caller always gets a time to sleep (the main loop dereferences
  the result without a check for \<open>NULL\<close>).
\<close>

theorem timer_age_queue_terminates:
  assumes "wf_node s" and "expTQ (tq s) = []" and "Gc_timer \<in> set (TQ (tq s))"
  shows "\<exists>r s'. timer_age_queue s = Some (Some r, s') \<and> wf_node s' \<and> expTQ (tq s') = [] \<and>
    statics s' = statics s \<and> Gc_timer \<in> set (TQ (tq s'))"
  by (rule timer_age_queue_total [OF assms]) blast

theorem timer_age_queue_terminates_witness:
  "\<exists>r s'. timer_age_queue (demo_routes\<lparr>clock := \<lparr>tv_sec = 101, tv_usec = 5\<rparr>\<rparr>) = Some (Some r, s') \<and> wf_node s'"
proof -
  let ?s = "demo_routes\<lparr>clock := \<lparr>tv_sec = 101, tv_usec = 5\<rparr>\<rparr>"
  have "wf_node ?s" using demo_routes_wf by (simp add: wf_node_def)
  moreover have "expTQ (tq ?s) = []" "Gc_timer \<in> set (TQ (tq ?s))"
    by (simp_all add: demo_routes_def demo_tq_def)
  ultimately show ?thesis using timer_age_queue_terminates [of ?s] by blast
qed

section \<open>Route discovery ends\<close>

lemma local_repair_timeout_frame [simp]:
  "seekhead (local_repair_timeout p s) = seekhead s" "PQ (local_repair_timeout p s) = PQ s"
  by (simp_all add: local_repair_timeout_eq repair_failed_def Let_def precursor_list_destroy_eq)

text \<open>How many times the timer of a search makes it try again.\<close>

definition rounds_left :: "bool \<Rightarrow> seek_list \<Rightarrow> nat" where
  "rounds_left ring e =
     (if seek_reqs e < RREQ_RETRIES
      then (if ring \<and> seek_ttl e < TTL_THRESHOLD then nat ((8 - seek_ttl e) div 2) else 0) + nat (2 - seek_reqs e)
      else 0)"

lemma seek_retry_rounds:
  assumes "seek_reqs e < RREQ_RETRIES"
  shows "rounds_left ring e = Suc (rounds_left ring (seek_retry ring e))"
  using assms
  by (auto simp: rounds_left_def seek_retry_def nat_add_distrib [symmetric] Suc_nat_eq_nat_zadd1 nat_eq_iff)

lemma discovery_retry:
  assumes "seek_reqs (pheap (seekhead s) q) < RREQ_RETRIES"
  shows "seekhead (route_discovery_timeout q s) = (seekhead s)\<lparr>pheap := (pheap (seekhead s))
     (q := seek_retry (expanding_ring_search (conf s)) (pheap (seekhead s) q))\<rparr>"
  using assms by (simp add: route_discovery_timeout_def Let_def upd_seek_def split: option.split)

lemma discovery_end:
  assumes "wf_node s" "q \<in> seeking s" "\<not> seek_reqs (pheap (seekhead s) q) < RREQ_RETRIES"
    and "d = seek_dest_addr (pheap (seekhead s) q)"
  shows "seek_list_find d (route_discovery_timeout q s) = None \<and>
    (\<forall>p \<in> set (pq_head (PQ (route_discovery_timeout q s))). qp_dest_addr p \<noteq> d)"
proof -
  let ?s' = "route_discovery_timeout q s"
  define s1 where "s1 = snd (pq_sweep (\<lambda>qp. qp_dest_addr qp = d) NF_DROP s)"
  have sk: "seekhead ?s' = pool_detach q (seekhead s)" "PQ ?s' = PQ s1"
    using assms(3)
    by (simp_all add: route_discovery_timeout_def Let_def nl_send_no_route_found_msg_def packet_queue_set_verdict_def
        seek_list_remove_def flip: assms(4) s1_def split: option.split)
      (simp_all add: s1_def pq_sweep_eq Let_def released_def)
  have "\<forall>p \<in> set (pq_head (PQ ?s')). qp_dest_addr p \<noteq> d" by (simp add: sk s1_def)
  moreover have "seek_dest_addr (pheap (seekhead s) p) \<noteq> d" if "p \<in> seeking s" "p \<noteq> q" for p
    using seeks.key_inj [OF assms(1) that(1) assms(2)] that(2) assms(4) by blast
  then have "seek_list_find d ?s' = None"
    using pool_detach_set [OF invD(5) [OF assms(1)], of q]
    by (simp add: seeks.find_None [OF ok_inv [OF route_discovery_timeout_ok [OF assms(1,2)]]] sk)
  ultimately show ?thesis by simp
qed

lemma discovery_rounds:
  assumes "wf_node s" "q \<in> seeking s" "n = rounds_left (expanding_ring_search (conf s)) (pheap (seekhead s) q)"
    and "d = seek_dest_addr (pheap (seekhead s) q)" "s' = (route_discovery_timeout q ^^ Suc n) s"
  shows "wf_node s' \<and> seek_list_find d s' = None \<and> (\<forall>p \<in> set (pq_head (PQ s')). qp_dest_addr p \<noteq> d)"
  using assms
proof (induction n arbitrary: s)
  case 0
  then have "\<not> seek_reqs (pheap (seekhead s) q) < RREQ_RETRIES"
    using seek_retry_rounds by (metis Zero_not_Suc)
  from discovery_end [OF 0(1,2) this 0(4)] ok_inv [OF route_discovery_timeout_ok [OF 0(1,2)]] 0(5)
  show ?case by simp
next
  case (Suc n)
  let ?s1 = "route_discovery_timeout q s"
  show ?case
  proof (cases "seek_reqs (pheap (seekhead s) q) < RREQ_RETRIES")
    case True
    have ok: "ok s ?s1" by (rule route_discovery_timeout_ok [OF Suc.prems(1,2)])
    note sh = discovery_retry [OF True]
    have "n = rounds_left (expanding_ring_search (conf ?s1)) (pheap (seekhead ?s1) q)"
      using seek_retry_rounds [OF True] Suc.prems(3) ok_statics(5) [OF ok] by (simp add: sh)
    moreover have "s' = (route_discovery_timeout q ^^ Suc n) ?s1"
      using Suc.prems(5) by (simp add: funpow_swap1)
    ultimately show ?thesis
      using Suc.IH [OF ok_inv [OF ok]] Suc.prems(2,4) by (simp add: sh)
  next
    case False
    with Suc.prems(3) show ?thesis by (auto simp: rounds_left_def)
  qed
qed



section \<open>Expiry and failed repairs\<close>

text \<open>
  C25. When a route expires it becomes invalid.  If it was the route to a neighbour, no valid route
  has that neighbour as next hop any more; otherwise its precursors are forgotten, no other route
  changes and nothing is sent.
\<close>

theorem route_expire_timeout_correct:
  assumes "wf_node s" and "p \<in> live s" and "s' = route_expire_timeout p s"
  shows "wf_node s' \<and> rt_state (rt s' p) = INVALID \<and>
    (if rt_hcnt (rt s p) = 1
     then \<forall>u \<in> live s. rt_state (rt s' u) = VALID \<longrightarrow> rt_next_hop (rt s' u) \<noteq> rt_dest_addr (rt s p)
     else rt_precursors (rt s' p) = [] \<and> sent s' = sent s \<and> (\<forall>u. u \<noteq> p \<longrightarrow> rt s' u = rt s u))"
proof -
  have wf: "wf_node s'" unfolding assms(3) by (rule ok_inv [OF route_expire_timeout_ok [OF assms(1,2)]])
  show ?thesis
  proof (cases "rt_hcnt (rt s p) = 1")
    case True
    note e = neighbor_link_break_entries [OF assms(1,2) True]
    have s': "s' = neighbor_link_break p s" by (simp add: assms(3) route_expire_timeout_def True)
    have "rt_next_hop (rt s' u) \<noteq> rt_dest_addr (rt s p)" if u: "u \<in> live s" and v: "rt_state (rt s' u) = VALID" for u
    proof -
      have up: "u \<noteq> p" using v e(1) by (auto simp: s')
      then have "rt_dest_addr (rt s u) \<noteq> rt_dest_addr (rt s p)" using rts.key_inj [OF assms(1) u assms(2)] by blast
      with v e(2) [OF up u] show ?thesis by (auto simp: uses_link_def s' split: if_splits)
    qed
    with wf e(1) True show ?thesis by (simp add: s')
  next
    case False
    then have s': "s' = precursor_list_destroy p (rt_table_invalidate p s)"
      by (simp add: assms(3) route_expire_timeout_def)
    have "rt_state (rt s' p) = INVALID"
      by (cases "rt_state (rt s p)") (simp_all add: s' precursor_list_destroy_eq rt_table_invalidate_entry invalidated_def)
    moreover have "rt_precursors (rt s' p) = []" "sent s' = sent s" by (simp_all add: s' precursor_list_destroy_eq sent_def [symmetric])
    moreover have "rt s' u = rt s u" if "u \<noteq> p" for u
      using that by (simp add: s' precursor_list_destroy_eq rt_table_invalidate_entry)
    ultimately show ?thesis using wf False by simp
  qed
qed

theorem route_expire_timeout_correct_witness:
  "rt_state (rt (route_expire_timeout 1 demo_routes) 1) = INVALID \<and>
   rt (route_expire_timeout 1 demo_routes) 0 = rt demo_routes 0 \<and>
   rt_state (rt (route_expire_timeout 0 demo_routes) 0) = INVALID"
proof -
  have "0 \<in> live demo_routes" "1 \<in> live demo_routes" "rt_hcnt (rt demo_routes 1) = 2"
    by (simp_all add: demo_routes_def entries_demo_table) (simp add: demo_table_def far_route_def)
  then show ?thesis
    using route_expire_timeout_correct [OF demo_routes_wf _ refl, of 0]
      route_expire_timeout_correct [OF demo_routes_wf _ refl, of 1] by simp
qed

lemma local_repair_rerr_sent:
  assumes "wf_node s"
  shows "\<exists>new. sent (local_repair_rerr e s) = sent s @ new \<and> (rt_nprec e = 0 \<longrightarrow> new = []) \<and>
    (\<forall>x \<in> set new. rerr_decode (fst x) = [(rt_dest_addr e, rt_dest_seqno e)]) \<and>
    (rt_nprec e \<noteq> 0 \<and> can_send AODV_RERR s \<longrightarrow> new \<noteq> [])"
proof (cases "rt_nprec e = 0")
  case False
  let ?s1 = "rerr_create 0 (rt_dest_addr e) (rt_dest_seqno e) s"
  note 1 = rerr_create_ok [OF assms, of 0 "rt_dest_addr e" "rt_dest_seqno e"]
  note wf = ok_inv [OF 1] and v = rerr_view_create [OF assms, of 0 "rt_dest_addr e" "rt_dest_seqno e"]
  have "rerr_decode (take (RERR_CALC_SIZE (rerr_count ?s1)) (send_buf (sk ?s1))) = [(rt_dest_addr e, rt_dest_seqno e)]"
    using rerr_decode_take [OF refl, of "send_buf (sk ?s1)"] v send_buf_length [OF wf]
    by (simp add: RERR_CALC_SIZE_eq rerr_view_def)
  moreover have "sent ?s1 = sent s" by (simp add: sent_def)
  moreover have "can_send AODV_RERR ?s1 = can_send AODV_RERR s"
    using 1 by (intro can_send_cong) (simp_all add: ok_def)
  moreover have "sends_only (take (RERR_CALC_SIZE (rerr_count ?s1)) (send_buf (sk ?s1))) 1 ?s1 (local_repair_rerr e s)"
    using aodv_socket_send_only [OF wf] broadcast_only [OF wf] False by (simp add: local_repair_rerr_def Let_def)
  then obtain new where "sent (local_repair_rerr e s) = sent ?s1 @ new"
    "\<forall>x \<in> set new. fst x = take (RERR_CALC_SIZE (rerr_count ?s1)) (send_buf (sk ?s1))"
    unfolding sends_only_def by blast
  moreover have "sent (local_repair_rerr e s) \<noteq> sent ?s1" if "can_send AODV_RERR ?s1"
    using aodv_socket_send_sends [of ?s1] broadcast_sends [OF wf] that False v(3)
    by (simp add: local_repair_rerr_def Let_def)
  ultimately show ?thesis using False by auto
qed (simp add: local_repair_rerr_def)

text \<open>
  A local repair that failed: the route loses its repair mark and its precursors and is to be
  deleted after the deletion period; every message sent is a route error for exactly this
  destination, none if it had no precursors, and at least one if it had some and the interfaces and
  the rate limit allow it; no other route changes.
\<close>

theorem local_repair_timeout_correct:
  assumes "wf_node s" and "p \<in> live s" and "s' = local_repair_timeout p s"
  shows "wf_node s' \<and> \<not> flag (rt_flags (rt s' p)) RT_REPAIR \<and> rt_precursors (rt s' p) = [] \<and>
    pending (Rt_timer p) s' Route_delete_timeout (usecs (clock s) + DELETE_PERIOD s * 1000) \<and>
    (\<forall>u. u \<noteq> p \<longrightarrow> rt s' u = rt s u) \<and>
    (\<exists>new. sent s' = sent s @ new \<and> (rt_precursors (rt s p) = [] \<longrightarrow> new = []) \<and>
       (\<forall>x \<in> set new. rerr_decode (fst x) = [(rt_dest_addr (rt s p), rt_dest_seqno (rt s p))]) \<and>
       (rt_precursors (rt s p) \<noteq> [] \<and> can_send AODV_RERR s \<longrightarrow> new \<noteq> []))"
proof (intro conjI allI impI)
  let ?s1 = "repair_failed p s"
  have wf1: "wf_node ?s1" by (rule ok_inv [OF repair_failed_ok [OF assms(1)]])
  show "wf_node s'" unfolding assms(3) by (rule ok_inv [OF local_repair_timeout_ok [OF assms(1,2)]])
  have tbl: "rt_tbl s' = rt_tbl ?s1" "sent s' = sent ?s1" by (simp_all add: assms(3) local_repair_timeout_eq)
  have "flag (f AND NOT RT_REPAIR) RT_REPAIR = False" for f
    by (simp add: flag_def and.assoc)
  then show "\<not> flag (rt_flags (rt s' p)) RT_REPAIR" "rt_precursors (rt s' p) = []"
    by (simp_all add: tbl repair_failed_def Let_def precursor_list_destroy_eq)
  show "rt s' u = rt s u" if "u \<noteq> p" for u
    using that by (simp add: tbl repair_failed_def Let_def precursor_list_destroy_eq)
  have "clock ?s1 = clock s" by (rule ok_statics(1) [OF repair_failed_ok [OF assms(1)]])
  with set_with_handler_pending(1) [OF invD(11) [OF wf1], of "Rt_timer p" "DELETE_PERIOD s" Route_delete_timeout]
  show "pending (Rt_timer p) s' Route_delete_timeout (usecs (clock s) + DELETE_PERIOD s * 1000)"
    by (simp add: assms(3) local_repair_timeout_eq)
  define s2 where "s2 = nl_send_del_route_msg (rt_dest_addr (rt s p)) (rt_next_hop (rt s p)) (rt_hcnt (rt s p))
    (upd_rt p (\<lambda>e. e\<lparr>rt_flags := rt_flags e AND NOT RT_REPAIR\<rparr>) s)"
  define e where "e = (rt s p)\<lparr>rt_flags := rt_flags (rt s p) AND NOT RT_REPAIR\<rparr>"
  have s1: "?s1 = precursor_list_destroy p (local_repair_rerr e s2)"
    by (simp add: repair_failed_def Let_def s2_def e_def)
  have 2: "ok s s2" unfolding s2_def by (rule ok_then [OF rt_flags_ok [OF assms(1)] nl_del_ok])
  have radio: "radio s2 = radio s" by (simp add: s2_def)
  have "can_send AODV_RERR s2 = can_send AODV_RERR s" using 2 by (intro can_send_cong [OF radio]) (simp add: ok_def)
  moreover have "rt_nprec e = int (length (rt_precursors (rt s p)))"
    using table_wfD(4) [OF invD(2) [OF assms(1)] assms(2)] by (simp add: e_def entry_wf_def)
  ultimately show "\<exists>new. sent s' = sent s @ new \<and> (rt_precursors (rt s p) = [] \<longrightarrow> new = []) \<and>
       (\<forall>x \<in> set new. rerr_decode (fst x) = [(rt_dest_addr (rt s p), rt_dest_seqno (rt s p))]) \<and>
       (rt_precursors (rt s p) \<noteq> [] \<and> can_send AODV_RERR s \<longrightarrow> new \<noteq> [])"
    using local_repair_rerr_sent [OF ok_inv [OF 2], of e] radio_sent [OF radio] by (simp add: tbl s1 e_def)
qed

theorem local_repair_timeout_correct_witness:
  "rt_precursors (rt (local_repair_timeout 1 demo_routes) 1) = [] \<and>
   sent (local_repair_timeout 1 demo_routes) \<noteq> sent demo_routes \<and>
   pending (Rt_timer 1) (local_repair_timeout 1 demo_routes) Route_delete_timeout
     (usecs (clock demo_routes) + DELETE_PERIOD demo_routes * 1000)"
proof -
  have "1 \<in> live demo_routes" "rt_precursors (rt demo_routes 1) \<noteq> []"
    by (simp_all add: demo_routes_def entries_demo_table) (simp add: demo_table_def far_route_def)
  with local_repair_timeout_correct [OF demo_routes_wf _ refl, of 1] demo_can_send show ?thesis by auto
qed

end
