(* ===== verification/Table_Log.thy ===== *)
theory Table_Log
  imports Timeouts
begin

text \<open>
  The log of the routing table: what \<open>print_rt_table\<close> of \<open>src/utils/debug.c\<close> writes to its file, character by
  character.  The names of the interfaces and the local time are given by the system and are arguments of the
  model; that the function schedules itself again is part of \<open>Timeouts\<close>.  The static buffers the helpers
  share are large enough for one line.
\<close>

section \<open>Formats of \<open>printf\<close>\<close>

definition digit_char :: "nat \<Rightarrow> char" where
  "digit_char d = char_of (48 + d)"

text \<open>\<open>%u\<close>; then \<open>%-ws\<close>, \<open>%ws\<close> and \<open>%0wd\<close> for a width \<open>w\<close>.\<close>

fun dec :: "nat \<Rightarrow> string" where
  "dec n = (if n < 10 then [digit_char n] else dec (n div 10) @ [digit_char (n mod 10)])"

declare dec.simps [simp del]

text \<open>\<open>%d\<close>.\<close>

definition sdec :: "int \<Rightarrow> string" where
  "sdec i = (if i < 0 then ''-'' @ dec (nat (- i)) else dec (nat i))"

definition pad_right :: "nat \<Rightarrow> string \<Rightarrow> string" where
  "pad_right w s = s @ replicate (w - length s) (CHR '' '')"

definition pad_left :: "nat \<Rightarrow> string \<Rightarrow> string" where
  "pad_left w s = replicate (w - length s) (CHR '' '') @ s"

definition zero_left :: "nat \<Rightarrow> string \<Rightarrow> string" where
  "zero_left w s = replicate (w - length s) (CHR ''0'') @ s"

definition NL :: char where
  "NL = CHR 0x0A"

section \<open>The table\<close>

definition ip_to_str :: "addr \<Rightarrow> string" where
  "ip_to_str a =
     (let oct = (\<lambda>i. dec (unat (put32 a ! i)))
      in oct 0 @ ''.'' @ oct 1 @ ''.'' @ oct 2 @ ''.'' @ oct 3)"

definition rt_flags_to_str :: "u16 \<Rightarrow> string" where
  "rt_flags_to_str f =
     (if flag f RT_UNIDIR then ''U'' else []) @ (if flag f RT_REPAIR then ''R'' else []) @
     (if flag f RT_INET_DEST then ''I'' else []) @ (if flag f RT_GATEWAY then ''G'' else [])"

definition state_to_str :: "rt_state \<Rightarrow> string" where
  "state_to_str st = (case st of VALID \<Rightarrow> ''VAL'' | INVALID \<Rightarrow> ''INV'')"

definition devs_ip_to_str :: "node \<Rightarrow> string" where
  "devs_ip_to_str s =
     concat (map (\<lambda>i. if enabled (DEV_NR s i) then ip_to_str (ipaddr (DEV_NR s i)) @ '','' else []) [0..<MAX_NR_INTERFACES])"

text \<open>\<open>seqno_str\<close>, and the time to expiry, a \<open>long\<close> that is printed as \<open>%lu\<close>.\<close>

definition seqno_str :: "u32 \<Rightarrow> string" where
  "seqno_str sq = (if sq = 0 then ''-'' else dec (unat sq))"

definition rt_expire :: "node \<Rightarrow> ptr \<Rightarrow> nat" where
  "rt_expire s p =
     (if rt_hcnt (rt s p) = 255 then 0
      else nat (timeval_diff (timeout (timers (tq s) (Rt_timer p))) (clock s) mod 2 ^ 64))"

text \<open>The eight columns of an entry up to the name of the interface; a null pointer prints as \<open>(null)\<close>.\<close>

definition rt_columns :: "(u32 \<Rightarrow> string option) \<Rightarrow> node \<Rightarrow> ptr \<Rightarrow> string" where
  "rt_columns if_indextoname s p =
     pad_right 15 (ip_to_str (rt_dest_addr (rt s p))) @ '' '' @
     pad_right 15 (ip_to_str (rt_next_hop (rt s p))) @ '' '' @
     pad_right 3 (dec (unat (rt_hcnt (rt s p)))) @ '' '' @
     pad_right 3 (state_to_str (rt_state (rt s p))) @ '' '' @
     pad_right 5 (seqno_str (rt_dest_seqno (rt s p))) @ '' '' @
     pad_right 6 (dec (rt_expire s p)) @ '' '' @
     pad_right 5 (rt_flags_to_str (rt_flags (rt s p))) @ '' '' @
     pad_right 5 (case if_indextoname (rt_ifindex (rt s p)) of Some n \<Rightarrow> n | None \<Rightarrow> ''(null)'')"

definition prec_line :: "addr \<Rightarrow> string" where
  "prec_line a = pad_left 64 '' '' @ '' '' @ pad_right 15 (ip_to_str a)"

definition rt_lines :: "(u32 \<Rightarrow> string option) \<Rightarrow> node \<Rightarrow> ptr \<Rightarrow> string list" where
  "rt_lines if_indextoname s p =
     (case rt_precursors (rt s p) of
        [] \<Rightarrow> [rt_columns if_indextoname s p]
      | a # as \<Rightarrow> (rt_columns if_indextoname s p @ '' '' @ pad_right 15 (ip_to_str a)) # map prec_line as)"

text \<open>The two lines at the top, for the time of day \<open>(h, m, sec)\<close>.\<close>

definition log_header :: "nat \<times> nat \<times> nat \<Rightarrow> node \<Rightarrow> string" where
  "log_header tm s =
     (case tm of (h, m, sec) \<Rightarrow>
        ''# Time: '' @ zero_left 2 (dec h) @ '':'' @ zero_left 2 (dec m) @ '':'' @ zero_left 2 (dec sec) @ ''.'' @
        zero_left 3 (dec (nat (tv_usec (clock s) div 1000))) @ '' IP: '' @ devs_ip_to_str s @
        '' seqno: '' @ dec (unat (seqno (this_host s))) @
        '' entries/active: '' @ dec (unat (num_entries (rt_tbl s))) @ ''/'' @ dec (unat (num_active (rt_tbl s))))"

definition log_columns :: string where
  "log_columns =
     pad_right 15 ''Destination'' @ '' '' @ pad_right 15 ''Next hop'' @ '' '' @ pad_right 3 ''HC'' @ '' '' @
     pad_right 3 ''St.'' @ '' '' @ pad_right 5 ''Seqno'' @ '' '' @ pad_right 6 ''Expire'' @ '' '' @
     pad_right 5 ''Flags'' @ '' '' @ pad_right 5 ''Iface'' @ '' '' @ pad_right 15 ''Precursors''"

text \<open>All that one call writes.\<close>

definition rt_log_text :: "(u32 \<Rightarrow> string option) \<Rightarrow> nat \<times> nat \<times> nat \<Rightarrow> node \<Rightarrow> string" where
  "rt_log_text if_indextoname tm s =
     (if num_entries (rt_tbl s) = 0 then []
      else concat (map (\<lambda>l. l @ [NL])
        ([log_header tm s, log_columns] @ concat (map (rt_lines if_indextoname s) (entries (rt_tbl s))))))"

end
