(* ===== verification/Packet_Input.thy ===== *)
theory Packet_Input
  imports Timeouts
begin

text \<open>
  Data packets, \<open>src/network/packet_input.c\<close>, and the callback that receives them from the
  netfilter queue, \<open>nfqueue_packet_cb\<close> of \<open>src/network/nfqueue.c\<close>.  A packet is a list of bytes
  (\<open>None\<close> for a null pointer) with the length the library reports; the fields of the IP and UDP
  headers are read at their offsets.  \<open>nfq_get_msg_packet_hdr\<close> and its companions belong to
  libnetfilter_queue: what they return for a packet is an argument of the model.

  Shown here: which decision each packet gets, and that every packet handed to the callback is
  either decided once or in the queue.
\<close>

section \<open>Operations\<close>

definition NF_INET_FORWARD :: u32 where "NF_INET_FORWARD = 2"
definition PACKET_INPUT_QUEUED :: int where "PACKET_INPUT_QUEUED = -1"
definition IPPROTO_TCP :: u8 where "IPPROTO_TCP = 6"
definition IPPROTO_UDP :: u8 where "IPPROTO_UDP = 17"

text \<open>The fields of the headers: \<open>ihl\<close>, \<open>protocol\<close>, \<open>saddr\<close>, \<open>daddr\<close>, and \<open>ntohs\<close> of a port.\<close>

definition ip_hlen :: "bytes \<Rightarrow> nat" where
  "ip_hlen b = unat (b ! 0 AND 0xF) * 4"

definition ip_protocol :: "bytes \<Rightarrow> u8" where
  "ip_protocol b = b ! 9"

definition ip_saddr :: "bytes \<Rightarrow> addr" where
  "ip_saddr b = get32 b 12"

definition ip_daddr :: "bytes \<Rightarrow> addr" where
  "ip_daddr b = get32 b 16"

definition port_at :: "bytes \<Rightarrow> nat \<Rightarrow> u16" where
  "port_at b i = push_bit 8 (ucast (b ! i)) OR ucast (b ! Suc i)"

definition packet_is_aodv_control :: "bytes \<Rightarrow> int \<Rightarrow> bool" where
  "packet_is_aodv_control b len \<longleftrightarrow>
     ip_protocol b = IPPROTO_UDP \<and> \<not> len < int (ip_hlen b) + 8 \<and>
     (port_at b (ip_hlen b) = AODV_PORT \<or> port_at b (ip_hlen b + 2) = AODV_PORT)"

definition packet_is_broadcast :: "addr \<Rightarrow> u32 \<Rightarrow> node \<Rightarrow> bool" where
  "packet_is_broadcast dest_addr ifindex s \<longleftrightarrow>
     dest_addr = AODV_BROADCAST \<or>
     ifindex > 0 \<and> enabled (DEV_IFINDEX s ifindex) \<and> dest_addr = broadcast (DEV_IFINDEX s ifindex)"

definition packet_is_direct_subnet :: "addr \<Rightarrow> u32 \<Rightarrow> node \<Rightarrow> bool" where
  "packet_is_direct_subnet dest_addr ifindex s \<longleftrightarrow>
     \<not> (ifindex = 0 \<or> \<not> enabled (DEV_IFINDEX s ifindex)) \<and>
     (let mask = netmask (DEV_IFINDEX s ifindex); local = ipaddr (DEV_IFINDEX s ifindex)
      in dest_addr AND mask = local AND mask)"

definition packet_is_local_address :: "addr \<Rightarrow> node \<Rightarrow> bool" where
  "packet_is_local_address dest_addr s \<longleftrightarrow>
     (\<exists>i \<in> set [0..<nif (this_host s)]. enabled (DEV_NR s i) \<and> ipaddr (DEV_NR s i) = dest_addr)"

definition send_rerr_for_unknown_dest ::
  "addr \<Rightarrow> addr \<Rightarrow> ptr option \<Rightarrow> ptr option \<Rightarrow> u32 \<Rightarrow> node \<Rightarrow> node" where
  "send_rerr_for_unknown_dest src_addr dest_addr fwd_rt rev_rt ifindex s =
     (let s1 = (case fwd_rt of
                  Some f \<Rightarrow>
                    let s0 = rerr_create 0 (rt_dest_addr (rt s f)) (rt_dest_seqno (rt s f)) s
                    in rt_table_update_timeout f (word_of_int (DELETE_PERIOD s0)) s0
                | None \<Rightarrow> rerr_create 0 dest_addr 0 s);
          rerr_dest = (case rev_rt of
                         Some r \<Rightarrow> if rt_state (rt s1 r) = VALID then rt_next_hop (rt s1 r) else AODV_BROADCAST
                       | None \<Rightarrow> AODV_BROADCAST);
          s2 = aodv_socket_send rerr_dest (RERR_CALC_SIZE (rerr_count s1)) 1 (DEV_IFINDEX s1 ifindex) s1
      in if wait_on_reboot s2 then tm_set Worb_timer (DELETE_PERIOD s2) s2 else s2)"

text \<open>Packets that are not the business of the daemon.\<close>

definition packet_exempt :: "bytes \<Rightarrow> int \<Rightarrow> u32 \<Rightarrow> u32 \<Rightarrow> node \<Rightarrow> bool" where
  "packet_exempt b len ifindex outdev s \<longleftrightarrow>
     packet_is_local_address (ip_daddr b) s \<or> packet_is_broadcast (ip_daddr b) ifindex s \<or>
     packet_is_direct_subnet (ip_daddr b) outdev s \<or> packet_is_aodv_control b len"

text \<open>The entry cannot be used to send a packet.\<close>

definition no_usable_route :: "ptr option \<Rightarrow> node \<Rightarrow> bool" where
  "no_usable_route fwd_rt s \<longleftrightarrow>
     (case fwd_rt of
        None \<Rightarrow> True
      | Some f \<Rightarrow> rt_state (rt s f) = INVALID \<or> rt_hcnt (rt s f) = 1 \<and> flag (rt_flags (rt s f)) RT_UNIDIR)"

definition under_repair :: "ptr option \<Rightarrow> node \<Rightarrow> bool" where
  "under_repair fwd_rt s \<longleftrightarrow>
     (case fwd_rt of None \<Rightarrow> False | Some f \<Rightarrow> flag (rt_flags (rt s f)) RT_REPAIR)"

definition packet_input_handle_packet ::
  "u32 \<Rightarrow> bytes option \<Rightarrow> int \<Rightarrow> u32 \<Rightarrow> u32 \<Rightarrow> u32 \<Rightarrow> node \<Rightarrow> int \<times> node" where
  "packet_input_handle_packet packet_id payload len hook indev outdev s =
     (case payload of
        None \<Rightarrow> (uint NF_ACCEPT, s)
      | Some b \<Rightarrow>
          if len < 20 \<or> len < int (ip_hlen b) then (uint NF_ACCEPT, s)
          else
            let ifindex = (if hook = NF_INET_FORWARD then indev else outdev) in
            if packet_exempt b len ifindex outdev s then (uint NF_ACCEPT, s)
            else
              let rreq_flags = (if ip_protocol b = IPPROTO_TCP then RREQ_GRATUITOUS else 0);
                  rev_rt = rt_table_find (ip_saddr b) s;
                  fwd_rt = rt_table_find (ip_daddr b) s;
                  s1 = rt_table_update_route_timeouts fwd_rt rev_rt s
              in if \<not> no_usable_route fwd_rt s1 then (uint NF_ACCEPT, s1)
                 else if \<not> under_repair fwd_rt s1 \<and> hook = NF_INET_FORWARD then
                   (uint NF_DROP, send_rerr_for_unknown_dest (ip_saddr b) (ip_daddr b) fwd_rt rev_rt ifindex s1)
                 else
                   let s2 = packet_queue_add packet_id (ip_daddr b) s1
                   in (PACKET_INPUT_QUEUED,
                       if under_repair fwd_rt s2 then rreq_local_repair fwd_rt (ip_saddr b) None s2
                       else rreq_route_discovery (ip_daddr b) rreq_flags None s2))"

text \<open>
  The callback.  Its argument is what the library reads from the packet: the packet header with
  the identifier in network order and the hook (\<open>None\<close> when there is no header), the interfaces,
  the payload and its length.
\<close>

record nfq_data =
  nfq_hdr :: "(u32 \<times> u8) option"
  nfq_indev :: u32
  nfq_outdev :: u32
  nfq_payload :: "bytes option"
  nfq_payload_len :: int

definition nfqueue_packet_cb :: "nfq_data \<Rightarrow> node \<Rightarrow> node" where
  "nfqueue_packet_cb nfa s =
     (case nfq_hdr nfa of
        None \<Rightarrow> s
      | Some (nid, hook) \<Rightarrow>
          let packet_id = ntohl nid;
              (action, s1) = packet_input_handle_packet packet_id (nfq_payload nfa) (nfq_payload_len nfa)
                               (ucast hook) (nfq_indev nfa) (nfq_outdev nfa) s
          in if action = PACKET_INPUT_QUEUED then s1
             else nfqueue_set_packet_verdict packet_id (word_of_int action) s1)"

section \<open>Invariant\<close>

lemma send_rerr_for_unknown_dest_ok:
  assumes "wf_node s" "\<And>f. fwd = Some f \<Longrightarrow> f \<in> live s"
  shows "ok s (send_rerr_for_unknown_dest a d fwd bwd i s)"
proof -
  have c: "ok s (rerr_create 0 x m s)" for x m by (rule rerr_create_ok [OF assms(1)])
  have u: "ok s (rt_table_update_timeout f l (rerr_create 0 x m s))" if "fwd = Some f" for f l x m
    by (rule ok_then [OF c rt_table_update_timeout_ok [OF _ ok_live [OF c assms(2) [OF that]]]])
  define s1 where "s1 = (case fwd of
       Some f \<Rightarrow> let s0 = rerr_create 0 (rt_dest_addr (rt s f)) (rt_dest_seqno (rt s f)) s
                in rt_table_update_timeout f (word_of_int (DELETE_PERIOD s0)) s0
     | None \<Rightarrow> rerr_create 0 d 0 s)"
  have "ok s s1" using c u by (simp add: s1_def Let_def split: option.split)
  then have 2: "ok s (aodv_socket_send x n t v s1)" for x n t v by (rule ok_then [OF _ aodv_socket_send_ok])
  have "ok s (if wait_on_reboot s2 then tm_set Worb_timer m s2 else s2)" if "ok s s2" for s2 m
    using that ok_then [OF that tm_set_ok] invD(4) [OF ok_inv [OF that]]
    by (simp add: static_ready_def static_timer_def)
  from this [OF 2] show ?thesis
    unfolding send_rerr_for_unknown_dest_def Let_def s1_def [unfolded Let_def, symmetric] .
qed

lemma timeouts_found_ok:
  "wf_node s \<Longrightarrow> ok s (rt_table_update_route_timeouts (rt_table_find a s) (rt_table_find b s) s)"
  using rts.find_alive by (intro rt_table_update_route_timeouts_ok) blast+

lemma packet_input_handle_packet_ok:
  assumes "wf_node s"
  shows "ok s (snd (packet_input_handle_packet i p len hook ind outd s))"
proof -
  have *: "ok s (snd (let rev_rt = rt_table_find a s; fwd_rt = rt_table_find d s;
        s1 = rt_table_update_route_timeouts fwd_rt rev_rt s
      in if \<not> no_usable_route fwd_rt s1 then (uint NF_ACCEPT, s1)
         else if \<not> under_repair fwd_rt s1 \<and> fw then
           (uint NF_DROP, send_rerr_for_unknown_dest a d fwd_rt rev_rt ix s1)
         else let s2 = packet_queue_add i d s1
              in (PACKET_INPUT_QUEUED, if under_repair fwd_rt s2 then rreq_local_repair fwd_rt a None s2
                                       else rreq_route_discovery d fl None s2)))" for a d fw ix fl
  proof -
    define f where "f = rt_table_find d s"
    define r where "r = rt_table_find a s"
    define s1 where "s1 = rt_table_update_route_timeouts f r s"
    define s2 where "s2 = packet_queue_add i d s1"
    have 1: "ok s s1" unfolding s1_def f_def r_def by (rule timeouts_found_ok [OF assms])
    have 2: "ok s s2" unfolding s2_def by (rule ok_then [OF 1 packet_queue_add_ok])
    have f: "f = Some x \<Longrightarrow> x \<in> live s" for x unfolding f_def by (rule rts.find_alive [OF assms])
    have 3: "ok s (send_rerr_for_unknown_dest a d f r ix s1)"
      by (rule ok_then [OF 1 send_rerr_for_unknown_dest_ok]) (use f ok_live [OF 1] in blast)+
    have 4: "ok s (rreq_local_repair f a None s2)"
      by (rule ok_then [OF 2 rreq_local_repair_ok]) (use f ok_live [OF 2] in blast)+
    have 5: "ok s (rreq_route_discovery d fl None s2)" by (rule ok_then [OF 2 rreq_route_discovery_ok])
    show ?thesis
      unfolding Let_def f_def [symmetric] r_def [symmetric] s1_def [symmetric] s2_def [symmetric]
      using 1 3 4 5 by simp
  qed
  show ?thesis
    using ok_refl [OF assms] *
    by (simp add: packet_input_handle_packet_def Let_def split: option.split)
qed

lemma set_packet_verdict_ok: "wf_node s \<Longrightarrow> ok s (nfqueue_set_packet_verdict i v s)"
  by (simp add: nfqueue_set_packet_verdict_def ok_refl emit_ok)

lemma nfqueue_packet_cb_ok:
  assumes "wf_node s"
  shows "ok s (nfqueue_packet_cb nfa s)"
  using packet_input_handle_packet_ok [OF assms] ok_then [OF packet_input_handle_packet_ok [OF assms] set_packet_verdict_ok]
  by (simp add: nfqueue_packet_cb_def Let_def case_prod_beta ok_refl assms split: option.split)

section \<open>What a packet does to the queue\<close>

text \<open>The queue and the verdicts given so far; routing messages do not touch them.\<close>

definition queue_view :: "node \<Rightarrow> packet_queue \<times> bool \<times> u32 list" where
  "queue_view s = (PQ s, nfq_open s, List.map_filter verdict_id (out s))"

lemma accounted_view: "queue_view s' = queue_view s \<Longrightarrow> accounted s' = accounted s"
  by (simp add: accounted_def queue_view_def)

lemma queue_view_ops [simp]:
  "queue_view (tm_set t m s) = queue_view s" "queue_view (tm_init t f d s) = queue_view s"
  "queue_view (tm_handler t f s) = queue_view s" "queue_view (upd_send_buf g s) = queue_view s"
  "queue_view (aodv_socket_new_msg s) = queue_view s"
  "queue_view (aodv_socket_send a n l v s) = queue_view s"
  "queue_view (s\<lparr>this_host := h\<rparr>) = queue_view s" "queue_view (s\<lparr>seekhead := k\<rparr>) = queue_view s"
proof -
  show "queue_view (tm_set t m s) = queue_view s"
    by (simp add: tm_set_def queue_view_def abort_def split: option.split)
  show "queue_view (aodv_socket_send a n l v s) = queue_view s"
    by (simp add: aodv_socket_send_def queue_view_def Let_def emit_def map_filter_append map_filter_simps
        split: option.split)
qed (simp_all add: queue_view_def tm_init_def tm_handler_def upd_send_buf_def aodv_socket_new_msg_def)

lemma queue_view_more [simp]:
  "queue_view (rt_table_update_timeout p l s) = queue_view s"
  "queue_view (rt_keep_waiting p s) = queue_view s"
  "queue_view (rerr_create f d m s) = queue_view s"
  "queue_view (rreq_create fl d m a s) = queue_view s"
  "queue_view (rreq_send d m i fl s) = queue_view s"
  "queue_view (snd (seek_list_insert d m i fl ipd s)) = queue_view s"
  by (simp_all add: rt_table_update_timeout_def rt_keep_waiting_def rerr_create_def rreq_create_def Let_def
      rreq_send_def for_enabled_devs_frame [where g = queue_view] seek_list_insert_def)

lemma rreq_route_discovery_queue [simp]: "queue_view (rreq_route_discovery d fl ipd s) = queue_view s"
  by (simp add: rreq_route_discovery_def Let_def case_prod_beta split: option.split)

lemma rreq_local_repair_queue [simp]: "queue_view (rreq_local_repair r a ipd s) = queue_view s"
  by (simp add: rreq_local_repair_def Let_def case_prod_beta split: option.split)

lemma update_route_timeouts_frame:
  assumes "\<And>p l s. g (rt_table_update_timeout p l s) = g s"
  shows "g (rt_table_update_route_timeouts f r s) = g s"
proof -
  have "g (if b then rt_table_update_timeout p l s else s) = g s" for b p l s by (simp add: assms)
  then have "g (update_fwd_timeouts p s) = g s" "g (update_rev_timeouts p s) = g s" for p s
    unfolding update_fwd_timeouts_def update_rev_timeouts_def Let_def by (simp_all only: simp_thms split: option.split)
  then show ?thesis by (simp add: rt_table_update_route_timeouts_def Let_def split: option.split)
qed

lemma update_route_timeouts_simps [simp]:
  "rt_tbl (rt_table_update_route_timeouts f r s) = rt_tbl s"
  "queue_view (rt_table_update_route_timeouts f r s) = queue_view s"
  "radio (rt_table_update_route_timeouts f r s) = radio s"
  "clock (rt_table_update_route_timeouts f r s) = clock s"
  "seekhead (rt_table_update_route_timeouts f r s) = seekhead s"
  by (rule update_route_timeouts_frame, simp)+

lemma send_rerr_queue [simp]: "queue_view (send_rerr_for_unknown_dest a d f r i s) = queue_view s"
  by (simp add: send_rerr_for_unknown_dest_def Let_def split: option.split)

lemma packet_queue_add_frame [simp]:
  "rt_tbl (packet_queue_add i d s) = rt_tbl s" "nfq_open (packet_queue_add i d s) = nfq_open s"
  "seekhead (packet_queue_add i d s) = seekhead s"
  by (simp_all add: packet_queue_add_def Let_def pq_release_released released_def split: list.split)

lemma packet_queue_add_accounted:
  assumes "pq_wf (PQ s)" "nfq_open s"
  shows "accounted (packet_queue_add i a s) = add_mset i (accounted s)"
proof (cases "length (pq_head (PQ s)) = 512")
  case True
  then obtain qp qs where "pq_head (PQ s) = qp # qs" by (cases "pq_head (PQ s)") auto
  then show ?thesis using True assms packet_queue_add_parts(1,2) [OF assms(1), of i a]
    by (simp add: accounted_def map_filter_append map_filter_simps)
qed (use packet_queue_add_parts(1,2) [OF assms(1), of i a] in
    \<open>simp add: accounted_def map_filter_append map_filter_simps\<close>)

lemma handle_packet_accounted:
  assumes "wf_node s" "nfq_open s" "packet_input_handle_packet i p len hook ind outd s = (a, s')"
  shows "nfq_open s' \<and> accounted s' = (if a = PACKET_INPUT_QUEUED then add_mset i (accounted s) else accounted s)"
proof -
  have keep: "nfq_open x \<and> accounted x = accounted s" if "queue_view x = queue_view s" for x
    using that assms(2) accounted_view [OF that] by (simp add: queue_view_def)
  define s1 where "s1 d b = rt_table_update_route_timeouts (rt_table_find d s) (rt_table_find b s) s" for d b
  have add: "nfq_open x \<and> accounted x = add_mset i (accounted s)"
    if "queue_view x = queue_view (packet_queue_add i d (s1 d b))" for x d b
  proof -
    have v: "queue_view (s1 d b) = queue_view s" by (simp add: s1_def)
    then have "accounted (packet_queue_add i d (s1 d b)) = add_mset i (accounted s)"
      using packet_queue_add_accounted [of "s1 d b" i d] invD(8) [OF assms(1)] assms(2) accounted_view [OF v]
      by (simp add: queue_view_def)
    then show ?thesis using that accounted_view [OF that] v assms(2) by (simp add: queue_view_def)
  qed
  have ne: "uint NF_ACCEPT \<noteq> PACKET_INPUT_QUEUED" "uint NF_DROP \<noteq> PACKET_INPUT_QUEUED"
    by (simp_all add: NF_ACCEPT_def NF_DROP_def PACKET_INPUT_QUEUED_def)
  show ?thesis
    using assms(3) ne keep [OF refl] keep [of "s1 d b" for d b]
      keep [of "send_rerr_for_unknown_dest x y f r ix (s1 d b)" for x y f r ix d b] add
    unfolding packet_input_handle_packet_def Let_def s1_def
    by (auto split: option.splits if_splits)
qed

text \<open>
  C26. No packet is lost or decided twice: a packet that the netfilter queue hands to the callback
  afterwards is in the packet queue, or has got its verdict, exactly once, and the same holds for
  every packet before it.
\<close>

theorem nfqueue_packet_cb_accounts:
  assumes "wf_node s" and "nfq_open s"
  shows "accounted (nfqueue_packet_cb nfa s) =
    (case nfq_hdr nfa of None \<Rightarrow> accounted s | Some (nid, hook) \<Rightarrow> add_mset (ntohl nid) (accounted s))"
proof (cases "nfq_hdr nfa")
  case (Some h)
  obtain nid hook where h: "h = (nid, hook)" by fastforce
  obtain a s1 where r: "packet_input_handle_packet (ntohl nid) (nfq_payload nfa) (nfq_payload_len nfa)
      (ucast hook) (nfq_indev nfa) (nfq_outdev nfa) s = (a, s1)" by fastforce
  note acc = handle_packet_accounted [OF assms r]
  have "accounted (nfqueue_set_packet_verdict i v s1) = add_mset i (accounted s1)" for i v
    using acc by (simp add: nfqueue_set_packet_verdict_def accounted_def emit_def map_filter_append map_filter_simps)
  then show ?thesis using acc by (simp add: nfqueue_packet_cb_def Some h r)
qed (simp add: nfqueue_packet_cb_def)

section \<open>Decisions\<close>

lemma route_view_timeouts [simp]:
  "no_usable_route f (rt_table_update_route_timeouts g r s) = no_usable_route f s"
  "under_repair f (rt_table_update_route_timeouts g r s) = under_repair f s"
  "under_repair f (packet_queue_add i d s) = under_repair f s"
  by (simp_all add: no_usable_route_def under_repair_def split: option.split)

lemma rreq_route_discovery_seeks: "seek_list_find d (rreq_route_discovery d fl ipd s) \<noteq> None"
  by (simp add: rreq_route_discovery_def Let_def case_prod_beta seek_list_insert_def seek_list_find_def pool_find_def
      split: option.split)

lemma rreq_local_repair_seeks:
  assumes "flag (rt_flags (rt s p)) RT_REPAIR"
  shows "seek_list_find (rt_dest_addr (rt s p)) (rreq_local_repair (Some p) a ipd s) \<noteq> None"
  using assms
  by (simp add: rreq_local_repair_def Let_def case_prod_beta seek_list_insert_def seek_list_find_def pool_find_def
      split: option.split)

lemma send_rerr_sent:
  assumes "wf_node s" "fwd = rt_table_find d s"
  shows "\<exists>new. sent (send_rerr_for_unknown_dest a d fwd bwd i s) = sent s @ new \<and>
    (\<forall>x \<in> set new. rerr_decode (fst x) = [(d, known_seqno d s)]) \<and>
    (can_send AODV_RERR s \<longrightarrow> new \<noteq> [])"
proof -
  define s0 where "s0 = rerr_create 0 d (known_seqno d s) s"
  define s1 where "s1 = (case fwd of None \<Rightarrow> s0
    | Some f \<Rightarrow> rt_table_update_timeout f (word_of_int (DELETE_PERIOD s0)) s0)"
  have ok0: "ok s s0" unfolding s0_def by (rule rerr_create_ok [OF assms(1)])
  note wf0 = ok_inv [OF ok0]
  have live: "f \<in> live s0" if "fwd = Some f" for f
    using rts.find_alive [OF assms(1)] that assms(2) by (simp add: s0_def)
  have ok1: "ok s s1"
    using ok0 ok_trans [OF ok0 rt_table_update_timeout_ok [OF wf0 live]] by (simp add: s1_def split: option.split)
  note wf1 = ok_inv [OF ok1]
  have s1: "sk s1 = sk s0" "radio s1 = radio s"
    by (simp_all add: s1_def s0_def split: option.split)
  have can: "can_send AODV_RERR s1 = can_send AODV_RERR s"
    using ok1 by (intro can_send_cong [OF s1(2)]) (simp add: ok_def)
  have dec: "rerr_decode (take (RERR_CALC_SIZE (rerr_count s1)) (send_buf (sk s1))) = [(d, known_seqno d s)]"
    using rerr_decode_take [OF refl, of "send_buf (sk s1)"] send_buf_length [OF wf1]
      rerr_view_create [OF assms(1), of 0 d "known_seqno d s"]
    by (simp add: s1 RERR_CALC_SIZE_eq rerr_view_def flip: s0_def)
  have key: "rt_dest_addr (rt s f) = d" if "fwd = Some f" for f
    using rts.find_key [OF assms(1)] that assms(2) by simp
  have eq: "(case fwd of
       Some f \<Rightarrow> let s0 = rerr_create 0 (rt_dest_addr (rt s f)) (rt_dest_seqno (rt s f)) s
                in rt_table_update_timeout f (word_of_int (DELETE_PERIOD s0)) s0
     | None \<Rightarrow> rerr_create 0 d 0 s) = s1"
    using key by (simp add: s1_def s0_def known_seqno_def Let_def assms(2) split: option.split)
  define rd where "rd = (case bwd of
      Some r \<Rightarrow> if rt_state (rt s1 r) = VALID then rt_next_hop (rt s1 r) else AODV_BROADCAST
    | None \<Rightarrow> AODV_BROADCAST)"
  let ?s2 = "aodv_socket_send rd (RERR_CALC_SIZE (rerr_count s1)) 1 (DEV_IFINDEX s1 i) s1"
  have "sent (send_rerr_for_unknown_dest a d fwd bwd i s) = sent ?s2"
    unfolding send_rerr_for_unknown_dest_def eq rd_def by (simp add: Let_def)
  moreover obtain new where "sent ?s2 = sent s1 @ new"
    "\<forall>x \<in> set new. fst x = take (RERR_CALC_SIZE (rerr_count s1)) (send_buf (sk s1))"
    using aodv_socket_send_only [OF wf1, of "RERR_CALC_SIZE (rerr_count s1)" 1 rd "DEV_IFINDEX s1 i"]
    by (auto simp: sends_only_def)
  moreover have "sent ?s2 \<noteq> sent s1" if "can_send AODV_RERR s1"
    using aodv_socket_send_sends [of s1 rd "RERR_CALC_SIZE (rerr_count s1)" 1 "DEV_IFINDEX s1 i"] that
      rerr_view_create(3) [OF assms(1), of 0 d "known_seqno d s"] by (simp add: s1(1) flip: s0_def)
  ultimately show ?thesis using radio_sent [OF s1(2)] can dec by auto
qed

text \<open>
  C27. The decision on a packet with a complete IP header.  Packets for this host, broadcasts,
  packets for the subnet of the outgoing interface and AODV's own messages are accepted without
  effect, and so is a packet with a usable route (only timeouts change).  Otherwise a packet in
  transit whose route is not under repair is dropped, and every message sent is a route error for
  exactly its destination, which is sent if the interfaces and the rate limit allow it; any other
  packet is put at the end of the queue and its destination is being sought afterwards.
\<close>

theorem packet_input_decides:
  assumes "wf_node s" and "20 \<le> len" and "int (ip_hlen b) \<le> len" and "d = ip_daddr b"
    and "ifindex = (if hook = NF_INET_FORWARD then indev else outdev)" and "f = rt_table_find d s"
    and "packet_input_handle_packet i (Some b) len hook indev outdev s = (action, s')"
  shows "if packet_exempt b len ifindex outdev s then action = 1 \<and> s' = s
    else if \<not> no_usable_route f s then action = 1 \<and> PQ s' = PQ s \<and> rt_tbl s' = rt_tbl s \<and> sent s' = sent s
    else if hook = NF_INET_FORWARD \<and> \<not> under_repair f s then
      action = 0 \<and> PQ s' = PQ s \<and>
      (\<exists>new. sent s' = sent s @ new \<and> (\<forall>x \<in> set new. rerr_decode (fst x) = [(d, known_seqno d s)]) \<and>
         (can_send AODV_RERR s \<longrightarrow> new \<noteq> []))
    else action = -1 \<and> seek_list_find d s' \<noteq> None \<and>
      last (pq_head (PQ s')) = \<lparr>qp_dest_addr = d, qp_q_time = clock s, qp_packet_id = i\<rparr>"
proof -
  define s1 where "s1 = rt_table_update_route_timeouts f (rt_table_find (ip_saddr b) s) s"
  define s2 where "s2 = packet_queue_add i d s1"
  define fl where "fl = (if ip_protocol b = IPPROTO_TCP then RREQ_GRATUITOUS else 0)"
  have r: "(action, s') = (if packet_exempt b len ifindex outdev s then (uint NF_ACCEPT, s)
     else if \<not> no_usable_route f s then (uint NF_ACCEPT, s1)
     else if \<not> under_repair f s \<and> hook = NF_INET_FORWARD then
       (uint NF_DROP, send_rerr_for_unknown_dest (ip_saddr b) d f (rt_table_find (ip_saddr b) s) ifindex s1)
     else (PACKET_INPUT_QUEUED, if under_repair f s then rreq_local_repair f (ip_saddr b) None s2
                                else rreq_route_discovery d fl None s2))"
    unfolding assms(4-6) assms(7) [symmetric] s1_def s2_def fl_def using assms(2,3)
    by (simp add: packet_input_handle_packet_def Let_def not_less)
  have v: "queue_view s1 = queue_view s" "rt_tbl s1 = rt_tbl s" "radio s1 = radio s" "clock s1 = clock s"
    by (simp_all add: s1_def)
  have ok1: "ok s s1" unfolding s1_def assms(6) by (rule timeouts_found_ok [OF assms(1)])
  note wf1 = ok_inv [OF ok1]
  have can: "can_send AODV_RERR s1 = can_send AODV_RERR s"
    using ok1 by (intro can_send_cong [OF v(3)]) (simp add: ok_def)
  from v have PQ: "PQ x = PQ s" if "queue_view x = queue_view s1" for x
    using that by (simp add: queue_view_def)
  have find: "f = rt_table_find d s1" "known_seqno d s1 = known_seqno d s"
    using rt_table_find_frame [OF v(2), of d] unfolding assms(6) known_seqno_def v(2) by simp_all
  have queued: "last (pq_head (PQ x)) = \<lparr>qp_dest_addr = d, qp_q_time = clock s, qp_packet_id = i\<rparr>"
    if "queue_view x = queue_view s2" for x
    using that packet_queue_add_parts(1) [OF invD(8) [OF wf1], of i d] v(4) by (simp add: s2_def queue_view_def)
  have repair: "seek_list_find d (rreq_local_repair f a None s2) \<noteq> None" if rep: "under_repair f s" for a
  proof -
    obtain p where p: "f = Some p" "flag (rt_flags (rt s2 p)) RT_REPAIR"
      using rep by (auto simp: under_repair_def s2_def v(2) split: option.splits)
    moreover have "rt_dest_addr (rt s2 p) = d"
      using rts.find_key [OF assms(1)] p(1) by (simp add: assms(6) s2_def v(2))
    ultimately show ?thesis using rreq_local_repair_seeks [of s2 p a None] by simp
  qed
  note err = send_rerr_sent [OF wf1 find(1), unfolded radio_sent [OF v(3)] find(2) can]
  show ?thesis
    using r PQ [of s1] PQ [of "send_rerr_for_unknown_dest (ip_saddr b) d f (rt_table_find (ip_saddr b) s) ifindex s1"]
      queued [of s'] repair rreq_route_discovery_seeks v(1,2,4) radio_sent [OF v(3)] err
    by (auto simp: NF_ACCEPT_def NF_DROP_def PACKET_INPUT_QUEUED_def split: if_splits)
qed

text \<open>A locally generated packet from 10.0.0.1 to 192.168.0.7.\<close>

definition demo_packet :: bytes where
  "demo_packet = [0x45, 0, 0, 20, 0, 0, 0, 0, 64, 1, 0, 0, 10, 0, 0, 1, 192, 168, 0, 7]"

lemma demo_packet_simps:
  "ip_hlen demo_packet = 20" "ip_daddr demo_packet = 0x0700A8C0" "ip_protocol demo_packet = 1"
  by (simp_all add: demo_packet_def ip_hlen_def ip_daddr_def ip_protocol_def get32_def) (simp add: numeral_eq_Suc)?

lemma demo_packet_not_exempt: "\<not> packet_exempt demo_packet 20 3 3 demo_routes"
  by (simp add: packet_exempt_def demo_packet_simps packet_is_aodv_control_def packet_is_local_address_def
      packet_is_broadcast_def packet_is_direct_subnet_def Let_def DEV_IFINDEX_def DEV_NR_def
      ifindex2devindex_def demo_routes_def demo_node_def demo_host_def demo_dev_def IPPROTO_UDP_def)

lemma demo_packet_no_route: "rt_table_find 0x0700A8C0 demo_routes = None"
  by (simp add: rts.find_None [OF demo_routes_wf])
    (simp add: demo_routes_def entries_demo_table demo_table_def far_route_def neighbour_route_def no_route_def)

theorem packet_input_decides_witness:
  "\<exists>s'. packet_input_handle_packet 77 (Some demo_packet) 20 3 0 3 demo_routes = (-1, s') \<and>
     seek_list_find 0x0700A8C0 s' \<noteq> None"
proof -
  obtain a s' where r: "packet_input_handle_packet 77 (Some demo_packet) 20 3 0 3 demo_routes = (a, s')" by fastforce
  have "no_usable_route (rt_table_find 0x0700A8C0 demo_routes) demo_routes"
    by (simp add: no_usable_route_def demo_packet_no_route)
  with packet_input_decides [OF demo_routes_wf _ _ refl refl refl r] demo_packet_not_exempt r show ?thesis
    by (auto simp: demo_packet_simps NF_INET_FORWARD_def)
qed

theorem nfqueue_packet_cb_accounts_witness:
  "accounted (nfqueue_packet_cb \<lparr>nfq_hdr = Some (htonl 77, 3), nfq_indev = 0, nfq_outdev = 3,
     nfq_payload = Some demo_packet, nfq_payload_len = 20\<rparr> demo_routes) = {#77#}"
proof -
  have "nfq_open demo_routes" "accounted demo_routes = {#}"
    by (simp_all add: accounted_def demo_routes_def demo_node_def map_filter_simps)
  with nfqueue_packet_cb_accounts [OF demo_routes_wf] show ?thesis by simp
qed

end
