(* ===== verification/Daemon.thy ===== *)
theory Daemon
  imports Packet_Input
begin

text \<open>
  The daemon as a whole: dispatching received messages (\<open>aodv_socket_process_packet\<close> and
  \<open>aodv_socket_read\<close> of \<open>src/network/aodv_socket.c\<close>), initialisation and the main loop
  (\<open>src/core/main.c\<close>).  The state is the list of registered callbacks and the node.

  What the operating system answers (interface addresses, sockets, whether a buffer size is
  accepted, the messages and packets received, the descriptors \<open>pselect\<close> finds readable, the time)
  is an argument of the model.  The command line is the subject of \<open>Lifecycle\<close>: here the configuration it yields is
  an argument, and so is the interface list, which \<open>host_init\<close> otherwise looks up itself (\<open>Host_Probe\<close>).

  The invariant of the earlier theories is shown to hold after initialisation and after every
  turn of the main loop, for every sequence of inputs.
\<close>

section \<open>Receiving messages\<close>

definition aodv_socket_process_packet :: "nat \<Rightarrow> addr \<Rightarrow> addr \<Rightarrow> int \<Rightarrow> u32 \<Rightarrow> node \<Rightarrow> node" where
  "aodv_socket_process_packet len src dst ttl ifindex s =
     (let ty = recv_buf (sk s) ! 0 in
      if ty = AODV_RREP \<and> ttl = 1 \<and> dst = AODV_BROADCAST then hello_process len ifindex s
      else
        let s1 = neighbor_add src ifindex s in
        if ty = AODV_RREQ then rreq_process len src dst ttl ifindex s1
        else if ty = AODV_RREP then rrep_process len src dst ttl ifindex s1
        else if ty = AODV_RERR then rerr_process len src dst s1
        else if ty = AODV_RREP_ACK then rrep_ack_process src s1
        else s1)"

text \<open>The control messages that matter, and what \<open>recvmsg\<close> delivers.\<close>

datatype cmsg = IP_TTL u8 | IP_PKTINFO addr | Other_cmsg

record recvd =
  rm_data :: bytes
  rm_src :: addr
  rm_cmsgs :: "cmsg list"

fun read_cmsg :: "cmsg \<Rightarrow> int \<times> addr \<Rightarrow> int \<times> addr" where
  "read_cmsg (IP_TTL t) (ttl, dst) = (uint t, dst)"
| "read_cmsg (IP_PKTINFO a) (ttl, dst) = (ttl, a)"
| "read_cmsg Other_cmsg st = st"

text \<open>\<open>recvmsg\<close> writes at most the size of the buffer and leaves what lies behind.\<close>

definition recvmsg :: "bytes \<Rightarrow> node \<Rightarrow> nat \<times> node" where
  "recvmsg data s =
     (let bs = take AODV_MSG_MAX_SIZE data
      in (length bs, upd_recv_buf (\<lambda>b. bs @ drop (length bs) b) s))"

text \<open>A message that \<open>DEBUG\<close> logs at level \<open>LOG_ERR\<close> ends the program (\<open>alog\<close>).\<close>

definition aodv_socket_read :: "int \<Rightarrow> recvd option \<Rightarrow> node \<Rightarrow> node" where
  "aodv_socket_read fd msgh s =
     (case msgh of
        None \<Rightarrow> s
      | Some m \<Rightarrow>
          let (len, s1) = recvmsg (rm_data m) s;
              (ttl, dst) = fold read_cmsg (rm_cmsgs m) (- 1, 0xFFFFFFFF)
          in if ttl < 0 then s1
             else if \<exists>i \<in> set [0..<MAX_NR_INTERFACES]. enabled (DEV_NR s1 i) \<and> rm_src m = ipaddr (DEV_NR s1 i) then s1
             else
               case devfromsock s1 fd of
                 None \<Rightarrow> abort Exited s1
               | Some dev \<Rightarrow> aodv_socket_process_packet len (rm_src m) dst ttl (dev_ifindex dev) s1)"

lemma aodv_socket_process_packet_ok:
  assumes "wf_node s" "len \<le> AODV_MSG_MAX_SIZE"
  shows "ok s (aodv_socket_process_packet len src dst ttl i s)"
proof -
  note n = neighbor_add_ok [OF assms(1)]
  show ?thesis
    using hello_process_ok [OF assms(1)] n ok_then [OF n rreq_process_ok [OF _ assms(2)]]
      ok_then [OF n rrep_process_ok [OF _ assms(2)]] ok_then [OF n rerr_process_ok]
      ok_then [OF n rrep_ack_process_ok]
    by (simp add: aodv_socket_process_packet_def Let_def)
qed

lemma recvmsg_ok:
  assumes "wf_node s" "recvmsg d s = (len, s1)"
  shows "ok s s1" "len \<le> AODV_MSG_MAX_SIZE"
proof -
  show "len \<le> AODV_MSG_MAX_SIZE" using assms(2) by (auto simp: recvmsg_def Let_def)
  have "ok s (upd_recv_buf (\<lambda>b. take AODV_MSG_MAX_SIZE d @ drop (length (take AODV_MSG_MAX_SIZE d)) b) s)"
    by (rule upd_recv_buf_ok [OF assms(1)]) (simp add: recv_buf_length [OF assms(1)])
  then show "ok s s1" using assms(2) by (auto simp: recvmsg_def Let_def)
qed

lemma devfromsock_statics: "statics s' = statics s \<Longrightarrow> devfromsock s' fd = devfromsock s fd"
  by (simp add: statics_def devfromsock_def DEV_NR_def [abs_def])

lemma aodv_socket_read_ok:
  assumes "wf_node s" "devfromsock s fd \<noteq> None"
  shows "ok s (aodv_socket_read fd msgh s)"
proof (cases msgh)
  case (Some m)
  obtain len s1 where r: "recvmsg (rm_data m) s = (len, s1)" by fastforce
  note 1 = recvmsg_ok [OF assms(1) r]
  obtain dev where "devfromsock s1 fd = Some dev" using devfromsock_statics [of s1 s fd] 1(1) assms(2) by (auto simp: ok_def)
  then show ?thesis
    using 1(1) ok_then [OF 1(1) aodv_socket_process_packet_ok [OF _ 1(2)]]
    by (simp add: aodv_socket_read_def Some r Let_def case_prod_beta)
qed (simp add: aodv_socket_read_def ok_refl assms(1))

section \<open>Callbacks\<close>

datatype callback = Aodv_socket_read | Nl_rt_callback | Nfqueue_fd_callback

type_synonym daemon = "(int \<times> callback) list \<times> node"

definition CALLBACK_FUNCS :: nat where "CALLBACK_FUNCS = 5"

definition attach_callback_func :: "int \<Rightarrow> callback \<Rightarrow> daemon \<Rightarrow> daemon" where
  "attach_callback_func fd func d =
     (case d of (cbs, s) \<Rightarrow>
        if CALLBACK_FUNCS \<le> length cbs then (cbs, abort Exited s) else (cbs @ [(fd, func)], s))"

section \<open>Initialisation\<close>

text \<open>
  What the operating system answers during initialisation; \<open>None\<close> and \<open>False\<close> are failures.  \<open>os_proc\<close>
  says whether a file below \<open>/proc\<close> can be opened and written.
\<close>

record os =
  os_ifindex :: "string \<Rightarrow> u32 option"
  os_ifaddr :: "string \<Rightarrow> addr option"
  os_netmask :: "string \<Rightarrow> addr option"
  os_brdaddr :: "string \<Rightarrow> addr option"
  os_proc :: "string \<Rightarrow> bool"
  os_netlink :: "int option"
  os_nfqueue :: "int option"
  os_socket :: "nat \<Rightarrow> int option"
  os_rcvbuf :: "nat \<Rightarrow> bool"

text \<open>The next statement is only reached when the program has not been left.\<close>

definition seq :: "('a \<times> node \<Rightarrow> 'a \<times> node) \<Rightarrow> 'a \<times> node \<Rightarrow> 'a \<times> node" where
  "seq f d = (if status (snd d) = Running then f d else d)"

definition on_node :: "(node \<Rightarrow> node) \<Rightarrow> 'a \<times> node \<Rightarrow> 'a \<times> node" where
  "on_node f d = (fst d, f (snd d))"

definition upd_dev :: "nat \<Rightarrow> (dev_info \<Rightarrow> dev_info) \<Rightarrow> node \<Rightarrow> node" where
  "upd_dev k f s = s\<lparr>this_host := (this_host s)\<lparr>devs := (devs (this_host s))[k := f (DEV_NR s k)]\<rparr>\<rparr>"

text \<open>\<open>strtok\<close> with a comma as delimiter: the non-empty pieces.\<close>

fun strtok :: "string \<Rightarrow> string \<Rightarrow> string list" where
  "strtok [] acc = (if acc = [] then [] else [rev acc])"
| "strtok (c # cs) acc =
     (if c = CHR '','' then (if acc = [] then strtok cs [] else rev acc # strtok cs [])
      else strtok cs (c # acc))"

definition IFNAMSIZ :: nat where "IFNAMSIZ = 16"

text \<open>The next free slot takes the interface index.\<close>

definition register_iface :: "u32 \<Rightarrow> node \<Rightarrow> node" where
  "register_iface ix s =
     (let n = nif (this_host s);
          s1 = upd_dev n (\<lambda>d. d\<lparr>dev_ifindex := ix\<rparr>) s
      in s1\<lparr>dev_indices := (dev_indices s1)[n := ix], this_host := (this_host s1)\<lparr>nif := n + 1\<rparr>\<rparr>)"

text \<open>The body of the loop over the interface names.\<close>

definition host_init_iface :: "os \<Rightarrow> string \<Rightarrow> node \<Rightarrow> node" where
  "host_init_iface E iface s =
     (if IFNAMSIZ \<le> length iface then abort Overrun s
      else
        case os_ifindex E iface of
          None \<Rightarrow> abort Exited s
        | Some ix \<Rightarrow>
            let s2 = register_iface ix s;
                k = ifindex2devindex s2 ix;
                s3 = upd_dev k (\<lambda>d. d\<lparr>ifname := iface\<rparr>) s2
            in case os_ifaddr E iface of
                 None \<Rightarrow> abort Exited s3
               | Some a \<Rightarrow>
                   let s4 = upd_dev k (\<lambda>d. d\<lparr>ipaddr := a\<rparr>) s3 in
                   case os_netmask E iface of
                     None \<Rightarrow> abort Exited s4
                   | Some m \<Rightarrow>
                       let s5 = upd_dev k (\<lambda>d. d\<lparr>netmask := m\<rparr>) s4 in
                       case os_brdaddr E iface of
                         None \<Rightarrow> abort Exited s5
                       | Some b \<Rightarrow> upd_dev k (\<lambda>d. d\<lparr>broadcast := b, enabled := True\<rparr>) s5)"

fun host_init_ifaces :: "os \<Rightarrow> string list \<Rightarrow> node \<Rightarrow> node" where
  "host_init_ifaces E [] s = s"
| "host_init_ifaces E (n # ns) s =
     (let s1 = host_init_iface E n s in
      if status s1 \<noteq> Running \<or> MAX_NR_INTERFACES \<le> nif (this_host s1) then s1
      else host_init_ifaces E ns s1)"

definition zero_dev :: dev_info where
  "zero_dev = \<lparr>enabled = False, dev_sock = 0, dev_ifindex = 0, ifname = [], ipaddr = 0, netmask = 0,
     broadcast = 0\<rparr>"

text \<open>
  \<open>set_kernel_options\<close>: the files written, each with one character, until one cannot be opened or
  written.
\<close>

definition redirect_file :: "string \<Rightarrow> string \<Rightarrow> string" where
  "redirect_file name opt = ''/proc/sys/net/ipv4/conf/'' @ name @ ''/'' @ opt"

definition kernel_options :: "node \<Rightarrow> (string \<times> char) list" where
  "kernel_options s =
     [(''/proc/sys/net/ipv4/ip_forward'', CHR ''1'')] @
     concat (map (\<lambda>i. if enabled (DEV_NR s i)
                      then [(redirect_file (ifname (DEV_NR s i)) ''send_redirects'', CHR ''0''),
                            (redirect_file (ifname (DEV_NR s i)) ''accept_redirects'', CHR ''0'')]
                      else []) [0..<MAX_NR_INTERFACES]) @
     [(redirect_file ''all'' ''send_redirects'', CHR ''0''), (redirect_file ''all'' ''accept_redirects'', CHR ''0'')]"

definition set_kernel_options :: "os \<Rightarrow> node \<Rightarrow> int" where
  "set_kernel_options E s = (if list_all (\<lambda>(file, c). os_proc E file) (kernel_options s) then 0 else -1)"

definition host_init :: "os \<Rightarrow> string \<Rightarrow> node \<Rightarrow> node" where
  "host_init E ifnames s =
     (if (IFNAMSIZ + 1) * MAX_NR_INTERFACES \<le> length ifnames then abort Overrun s
      else
        let s1 = s\<lparr>this_host := \<lparr>seqno = 1, bcast_time = clock s, fwd_time = tv_zero, host_rreq_id = 0, nif = 0,
                                 devs = replicate (MAX_NR_INTERFACES + 1) zero_dev\<rparr>,
                    dev_indices := replicate MAX_NR_INTERFACES 0\<rparr>
        in case strtok ifnames [] of
             [] \<Rightarrow> abort Null_deref s1
           | names \<Rightarrow>
               let s2 = host_init_ifaces E names s1
               in if status s2 = Running \<and> set_kernel_options E s2 < 0 then abort Exited s2 else s2)"

definition nl_init :: "os \<Rightarrow> daemon \<Rightarrow> daemon" where
  "nl_init E d =
     (case os_netlink E of
        None \<Rightarrow> on_node (abort Exited) d
      | Some fd \<Rightarrow> attach_callback_func fd Nl_rt_callback (on_node (\<lambda>s. s\<lparr>nl_seq := 0\<rparr>) d))"

text \<open>\<open>packet_input_init\<close> with \<open>nfqueue_init\<close>; \<open>main\<close> leaves the program when it fails.\<close>

definition packet_input_init :: "os \<Rightarrow> daemon \<Rightarrow> daemon" where
  "packet_input_init E d =
     (case os_nfqueue E of
        None \<Rightarrow> on_node (abort Exited) d
      | Some fd \<Rightarrow> attach_callback_func fd Nfqueue_fd_callback (on_node (\<lambda>s. s\<lparr>nfq_open := True\<rparr>) d))"

text \<open>
  The loop that looks for an acceptable size of the receive buffer.  Sizes are multiples of
  1024, so the subtraction never passes zero.
\<close>

function rcvbuf_loop :: "(nat \<Rightarrow> bool) \<Rightarrow> nat \<Rightarrow> nat option" where
  "rcvbuf_loop accept bufsize =
     (if accept bufsize then Some bufsize
      else if bufsize < AODV_MSG_MAX_SIZE then None
      else rcvbuf_loop accept (bufsize - 1024))"
  by pat_completeness auto
termination by (relation "measure snd") auto

declare rcvbuf_loop.simps [simp del]

definition aodv_socket_init_dev :: "os \<Rightarrow> nat \<Rightarrow> nat \<times> daemon \<Rightarrow> nat \<times> daemon" where
  "aodv_socket_init_dev E i st =
     (case st of (bufsize, d) \<Rightarrow>
        if status (snd d) \<noteq> Running \<or> \<not> enabled (DEV_NR (snd d) i) then (bufsize, d)
        else
          case os_socket E i of
            None \<Rightarrow> (bufsize, on_node (abort Exited) d)
          | Some fd \<Rightarrow>
              let d1 = on_node (upd_dev i (\<lambda>v. v\<lparr>dev_sock := fd\<rparr>)) d
              in case rcvbuf_loop (os_rcvbuf E) bufsize of
                   None \<Rightarrow> (bufsize, on_node (abort Exited) d1)
                 | Some n \<Rightarrow> (n, attach_callback_func fd Aodv_socket_read d1))"

definition SO_RECVBUF_SIZE :: nat where "SO_RECVBUF_SIZE = 256 * 1024"

definition aodv_socket_init :: "os \<Rightarrow> daemon \<Rightarrow> daemon" where
  "aodv_socket_init E d =
     (if nif (this_host (snd d)) = 0 then on_node (abort Exited) d
      else
        let d1 = snd (fold (aodv_socket_init_dev E) [0..<MAX_NR_INTERFACES] (SO_RECVBUF_SIZE, d))
        in seq (on_node (\<lambda>s. s\<lparr>sk := (sk s)\<lparr>num_rreq := 0, num_rerr := 0\<rparr>\<rparr>)) d1)"

text \<open>
  \<open>main\<close> up to the loop.  The static data of the program is zero at the start, apart from the
  configuration and \<open>wait_on_reboot\<close>, which the command line may have changed.
\<close>

definition start_node ::
  "config \<Rightarrow> bool \<Rightarrow> timeval \<Rightarrow> nat \<Rightarrow> (int \<Rightarrow> u8 \<Rightarrow> bool) \<Rightarrow> (nat \<Rightarrow> int) \<Rightarrow> node" where
  "start_node cf worb now lim ttlok rnd =
     \<lparr>clock = now,
      this_host = \<lparr>seqno = 0, bcast_time = tv_zero, fwd_time = tv_zero, host_rreq_id = 0, nif = 0,
        devs = replicate (MAX_NR_INTERFACES + 1) zero_dev\<rparr>,
      dev_indices = replicate MAX_NR_INTERFACES 0, conf = cf, wait_on_reboot = worb,
      tq = \<lparr>TQ = [], expTQ = [], timers = (\<lambda>_. \<lparr>used = False, timeout = tv_zero, handler = None, tdata = A_NULL\<rparr>)\<rparr>,
      rt_tbl = \<lparr>num_entries = 0, num_active = 0, tbl = replicate RT_TABLESIZE [],
        rt_heap = (\<lambda>_. \<lparr>rt_dest_addr = 0, rt_dest_seqno = 0, rt_ifindex = 0, rt_next_hop = 0, rt_hcnt = 0,
          rt_flags = 0, rt_state = INVALID, rt_last_hello_time = tv_zero, rt_hello_cnt = 0, rt_hash = 0,
          rt_nprec = 0, rt_precursors = []\<rparr>), rt_next = 0\<rparr>,
      rt_heap_limit = lim,
      seekhead = \<lparr>pheap = (\<lambda>_. \<lparr>seek_dest_addr = 0, seek_dest_seqno = 0, seek_flags = 0, seek_reqs = 0,
        seek_ttl = 0, seek_ipd = None\<rparr>), pnext = 0, plist = []\<rparr>,
      rreq_records = \<lparr>pheap = (\<lambda>_. \<lparr>rec_orig_addr = 0, rec_rreq_id = 0\<rparr>), pnext = 0, plist = []\<rparr>,
      rreq_blacklist = \<lparr>pheap = (\<lambda>_. \<lparr>bl_dest_addr = 0\<rparr>), pnext = 0, plist = []\<rparr>,
      PQ = \<lparr>pq_head = [], pq_len = 0\<rparr>,
      sk = \<lparr>recv_buf = replicate AODV_MSG_MAX_SIZE 0, send_buf = replicate AODV_MSG_MAX_SIZE 0,
        rreq_ratel = replicate (RREQ_RATELIMIT - 1) tv_zero, rerr_ratel = replicate (RERR_RATELIMIT - 1) tv_zero,
        num_rreq = 0, num_rerr = 0\<rparr>,
      nl_seq = 0, nfq_open = False, ttl_ok = ttlok, random = rnd, random_pos = 0, out = [], status = Running\<rparr>"

definition start_worb :: "node \<Rightarrow> node" where
  "start_worb s =
     (if wait_on_reboot s
      then tm_set Worb_timer (DELETE_PERIOD s) (tm_init Worb_timer Wait_on_reboot_timeout A_worb s) else s)"

definition start_hellos :: "node \<Rightarrow> node" where
  "start_hellos s = (if \<not> optimized_hellos (conf s) \<and> \<not> llfeedback (conf s) then hello_start s else s)"

definition start_rt_log :: "node \<Rightarrow> node" where
  "start_rt_log s = (if rt_log_interval (conf s) \<noteq> 0 then log_rt_table_init s else s)"

definition main_init :: "os \<Rightarrow> string \<Rightarrow> node \<Rightarrow> daemon" where
  "main_init E ifnames s =
     (seq (on_node start_rt_log) \<circ> seq (on_node start_hellos) \<circ> seq (on_node start_worb) \<circ>
      seq (aodv_socket_init E) \<circ> seq (packet_input_init E) \<circ> seq (nl_init E) \<circ>
      seq (on_node (host_init E ifnames)))
       ([], packet_queue_init (rt_table_init s))"

section \<open>The main loop\<close>

text \<open>
  The inputs of one turn: the time when timers are run, the descriptors \<open>pselect\<close> reports
  (\<open>None\<close> when it fails, as after a signal), the time when callbacks run, and what the callbacks
  receive.  \<open>nl_rt_callback\<close> only logs what it receives (theory \<open>Host_Probe\<close>).
\<close>

record turn =
  tn_now :: timeval
  tn_ready :: "(int \<Rightarrow> bool) option"
  tn_later :: timeval
  tn_msg :: "int \<Rightarrow> recvd option"
  tn_packets :: "nfq_data list"

fun run_callback :: "turn \<Rightarrow> int \<times> callback \<Rightarrow> node \<Rightarrow> node" where
  "run_callback t (fd, Aodv_socket_read) s = aodv_socket_read fd (tn_msg t fd) s"
| "run_callback t (fd, Nl_rt_callback) s = s"
| "run_callback t (fd, Nfqueue_fd_callback) s = fold nfqueue_packet_cb (tn_packets t) s"

text \<open>One turn; \<open>None\<close> if running the timers does not end.\<close>

definition main_turn :: "turn \<Rightarrow> daemon \<Rightarrow> daemon option" where
  "main_turn t d =
     (case d of (cbs, s) \<Rightarrow>
        case timer_age_queue (s\<lparr>clock := tn_now t\<rparr>) of
          None \<Rightarrow> None
        | Some (None, s1) \<Rightarrow> Some (cbs, abort Null_deref s1)
        | Some (Some r, s1) \<Rightarrow>
            Some (cbs,
              case tn_ready t of
                None \<Rightarrow> s1
              | Some ready \<Rightarrow>
                  fold (run_callback t) (filter (\<lambda>(fd, f). ready fd) cbs) (s1\<lparr>clock := tn_later t\<rparr>)))"

inductive runs :: "daemon \<Rightarrow> daemon \<Rightarrow> bool" where
  start: "runs d d"
| turn: "runs d d' \<Longrightarrow> main_turn t d' = Some d'' \<Longrightarrow> runs d d''"

section \<open>The invariant of the main loop\<close>

definition loop_inv :: "node \<Rightarrow> bool" where
  "loop_inv s \<longleftrightarrow> wf_node s \<and> expTQ (tq s) = [] \<and> Gc_timer \<in> set (TQ (tq s))"

lemma loop_inv_ok:
  assumes "loop_inv s" "ok s s'"
  shows "loop_inv s'"
proof -
  have "expTQ (tq s') = []" "Gc_timer \<in> attached (tq s')"
    using assms by (auto simp: loop_inv_def ok_def attached_def)
  then show ?thesis using ok_inv [OF assms(2)] by (auto simp: loop_inv_def attached_def)
qed

lemma loop_inv_clock: "loop_inv s \<Longrightarrow> loop_inv (s\<lparr>clock := t\<rparr>)"
  by (simp add: loop_inv_def wf_node_def)

text \<open>The socket of every registered \<open>aodv_socket_read\<close> belongs to an interface.\<close>

definition sockets_known :: "(int \<times> callback) list \<Rightarrow> node \<Rightarrow> bool" where
  "sockets_known cbs s \<longleftrightarrow> (\<forall>fd. (fd, Aodv_socket_read) \<in> set cbs \<longrightarrow> devfromsock s fd \<noteq> None)"

lemma sockets_known_statics: "devs (this_host s') = devs (this_host s) \<Longrightarrow> nif (this_host s') = nif (this_host s) \<Longrightarrow>
    sockets_known cbs s' = sockets_known cbs s"
  by (simp add: sockets_known_def devfromsock_def DEV_NR_def [abs_def])

definition daemon_inv :: "daemon \<Rightarrow> bool" where
  "daemon_inv d \<longleftrightarrow> loop_inv (snd d) \<and> sockets_known (fst d) (snd d)"

lemma daemon_inv_ok:
  assumes "daemon_inv (cbs, s)" "ok s s'"
  shows "daemon_inv (cbs, s')"
  using assms loop_inv_ok sockets_known_statics [of s' s cbs] by (auto simp: daemon_inv_def ok_def statics_def)

lemma daemon_inv_clock: "daemon_inv (cbs, s) \<Longrightarrow> daemon_inv (cbs, s\<lparr>clock := t\<rparr>)"
  using sockets_known_statics [of "s\<lparr>clock := t\<rparr>" s cbs] by (simp add: daemon_inv_def loop_inv_clock)

lemma run_callback_inv:
  assumes "daemon_inv (cbs, s)" "c \<in> set cbs"
  shows "daemon_inv (cbs, run_callback t c s)"
proof (cases "(t, c, s)" rule: run_callback.cases)
  case (1 u fd x)
  then have "wf_node s" "devfromsock s fd \<noteq> None"
    using assms by (auto simp: daemon_inv_def loop_inv_def sockets_known_def)
  then show ?thesis using 1 daemon_inv_ok [OF assms(1) aodv_socket_read_ok] by simp
next
  case (3 u fd x)
  have "daemon_inv (cbs, fold nfqueue_packet_cb ps y)" if "daemon_inv (cbs, y)" for ps y
    using that
  proof (induction ps arbitrary: y)
    case (Cons p ps)
    have "wf_node y" using Cons.prems by (simp add: daemon_inv_def loop_inv_def)
    then show ?case using Cons.IH [OF daemon_inv_ok [OF Cons.prems nfqueue_packet_cb_ok]] by simp
  qed simp
  then show ?thesis using 3 assms(1) by simp
qed (use assms in simp)

lemma run_callbacks_inv:
  "daemon_inv (cbs, s) \<Longrightarrow> set cs \<subseteq> set cbs \<Longrightarrow> daemon_inv (cbs, fold (run_callback t) cs s)"
  by (induction cs arbitrary: s) (simp_all add: run_callback_inv)

lemma main_turn_inv:
  assumes "daemon_inv d"
  shows "\<exists>d'. main_turn t d = Some d' \<and> daemon_inv d'"
proof -
  obtain cbs s where d: "d = (cbs, s)" by fastforce
  let ?s0 = "s\<lparr>clock := tn_now t\<rparr>"
  have 0: "daemon_inv (cbs, ?s0)" by (rule daemon_inv_clock) (use assms in \<open>simp add: d\<close>)
  then have "wf_node ?s0" "expTQ (tq ?s0) = []" "Gc_timer \<in> set (TQ (tq ?s0))" by (simp_all add: daemon_inv_def loop_inv_def)
  from timer_age_queue_total [OF this] obtain r s1 where r: "timer_age_queue ?s0 = Some (Some r, s1)" "wf_node s1"
    "expTQ (tq s1) = []" "Gc_timer \<in> set (TQ (tq s1))" "statics s1 = statics ?s0" by metis
  then have 1: "daemon_inv (cbs, s1)"
    using 0 sockets_known_statics [of s1 ?s0 cbs] by (simp add: daemon_inv_def loop_inv_def statics_def)
  have "daemon_inv (cbs, fold (run_callback t) (filter p cbs) (s1\<lparr>clock := tn_later t\<rparr>))" for p
    by (rule run_callbacks_inv [OF daemon_inv_clock [OF 1]]) auto
  with r(1) 1 show ?thesis by (simp add: main_turn_def d split: option.split)
qed

section \<open>Initialisation reaches the invariant\<close>

text \<open>
  Until the reboot timer is initialised the invariant holds but for that timer.  The only timer
  pending is that of the packet queue.
\<close>

definition booting :: "node \<Rightarrow> bool" where
  "booting s \<longleftrightarrow>
     wf_node (s\<lparr>wait_on_reboot := False\<rparr>) \<and> TQ (tq s) = [Gc_timer] \<and> expTQ (tq s) = [] \<and>
     handler (timers (tq s) Rt_log_timer) = None"

definition boot_tq :: "timeval \<Rightarrow> (timer_id, thandler, targ) tqueue" where
  "boot_tq now =
     \<lparr>TQ = [Gc_timer], expTQ = [],
      timers = (\<lambda>_. \<lparr>used = False, timeout = tv_zero, handler = None, tdata = A_NULL\<rparr>)
        (Gc_timer := \<lparr>used = True, timeout = due_at now GARBAGE_COLLECT_TIME, handler = Some Packet_queue_timeout,
          tdata = A_PQ\<rparr>)\<rparr>"

lemma packet_queue_init_start:
  "packet_queue_init (rt_table_init (start_node cf worb now lim tok rnd)) =
     (start_node cf worb now lim tok rnd)\<lparr>tq := boot_tq now\<rparr>"
  by (simp add: packet_queue_init_def rt_table_init_def start_node_def tm_init_def timer_init_def tm_set_def
      timer_set_timeout_def timer_add_def upd_timer_def due_at_def boot_tq_def Let_def)

lemma boot_tq_wf: "timers_wf (boot_tq now) {} {} {} {}"
proof -
  have "tq_wf (boot_tq now)"
    by (auto simp: tq_wf_def boot_tq_def attached_def ms_sorted_def)
  moreover have "\<not> owned {} {} {} {} t" for t by (cases t) simp_all
  ultimately show ?thesis
    unfolding timers_wf_def by (simp add: boot_tq_def attached_def static_timer_def)
qed

lemma booting_start:
  assumes "lim < 2 ^ 32"
  shows "booting (packet_queue_init (rt_table_init (start_node cf worb now lim tok rnd)))"
  unfolding packet_queue_init_start booting_def
  using assms boot_tq_wf [of now]
  by (simp add: wf_node_def start_node_def table_wf_def entries_def static_ready_def pool_wf_def pq_wf_def
      sock_wf_def host_wf_def) (simp add: boot_tq_def)

text \<open>Steps that change nothing but the host data, the descriptors and the status.\<close>

lemma booting_host:
  assumes "booting s" "host_wf h ix" "sock_wf k"
  shows "booting (s\<lparr>this_host := h, dev_indices := ix, sk := k, nl_seq := n, nfq_open := b\<rparr>)"
  using assms by (simp add: booting_def wf_node_def)

definition host_only :: "node \<Rightarrow> node \<Rightarrow> bool" where
  "host_only s s' \<longleftrightarrow>
     (\<exists>h ix st. s' = s\<lparr>this_host := h, dev_indices := ix, status := st\<rparr> \<and> host_wf h ix)"

lemma host_onlyI:
  "s' = s\<lparr>this_host := this_host s', dev_indices := dev_indices s', status := status s'\<rparr> \<Longrightarrow>
     host_wf (this_host s') (dev_indices s') \<Longrightarrow> host_only s s'"
  unfolding host_only_def by blast

lemma host_only_trans: "host_only s s' \<Longrightarrow> host_only s' s'' \<Longrightarrow> host_only s s''"
proof -
  assume "host_only s s'" "host_only s' s''"
  then obtain h ix st where "s'' = s\<lparr>this_host := h, dev_indices := ix, status := st\<rparr>" "host_wf h ix"
    by (auto simp: host_only_def)
  then show ?thesis unfolding host_only_def by blast
qed

lemma host_only_booting:
  assumes "host_only s s'" "booting s" "status s' = Running" "status s = Running"
  shows "booting s'"
  using assms by (auto simp: host_only_def booting_def wf_node_def)

lemma upd_dev_simps [simp]:
  "nif (this_host (upd_dev k f s)) = nif (this_host s)" "dev_indices (upd_dev k f s) = dev_indices s"
  "length (devs (this_host (upd_dev k f s))) = length (devs (this_host s))"
  "status (upd_dev k f s) = status s"
  by (simp_all add: upd_dev_def)

lemma host_only_upd_dev: "host_wf (this_host s) (dev_indices s) \<Longrightarrow> host_only s (upd_dev k f s)"
  by (rule host_onlyI) (simp_all add: upd_dev_def host_wf_def)

lemma host_only_abort: "host_wf (this_host s) (dev_indices s) \<Longrightarrow> host_only s (abort st s)"
  by (rule host_onlyI) (simp_all add: abort_def)

lemma host_only_wf: "host_only s s' \<Longrightarrow> host_wf (this_host s') (dev_indices s')"
  by (auto simp: host_only_def)

lemma host_only_then:
  "host_only s s' \<Longrightarrow> (host_wf (this_host s') (dev_indices s') \<Longrightarrow> host_only s' s'') \<Longrightarrow> host_only s s''"
  using host_only_trans host_only_wf by blast

lemma host_init_iface_only:
  assumes "host_wf (this_host s) (dev_indices s)" "nif (this_host s) < MAX_NR_INTERFACES"
  shows "host_only s (host_init_iface E n s)"
proof (cases "IFNAMSIZ \<le> length n \<or> os_ifindex E n = None")
  case True
  then show ?thesis using host_only_abort [OF assms(1)] by (auto simp: host_init_iface_def split: option.split)
next
  case False
  then obtain ix where ix: "os_ifindex E n = Some ix" "\<not> IFNAMSIZ \<le> length n" by auto
  have 2: "host_only s (register_iface ix s)"
    using assms by (intro host_onlyI) (simp_all add: register_iface_def Let_def upd_dev_def host_wf_def)
  have u: "host_only s (upd_dev k f x)" if "host_only s x" for k f x
    using that by (rule host_only_then) (rule host_only_upd_dev)
  have a: "host_only s (abort st x)" if "host_only s x" for st x
    using that by (rule host_only_then) (rule host_only_abort)
  show ?thesis
    using 2 u a by (simp add: host_init_iface_def Let_def ix split: option.split)
qed

lemma host_init_ifaces_only:
  assumes "host_wf (this_host s) (dev_indices s)" "nif (this_host s) < MAX_NR_INTERFACES"
  shows "host_only s (host_init_ifaces E ns s)"
  using assms
proof (induction ns arbitrary: s)
  case Nil
  then show ?case by (intro host_onlyI) simp_all
next
  case (Cons n ns)
  note 1 = host_init_iface_only [OF Cons.prems, of E n]
  show ?case
    using 1 host_only_then [OF 1 Cons.IH] by (auto simp: Let_def not_le)
qed

lemma host_init_only:
  assumes "host_wf (this_host s) (dev_indices s)"
  shows "host_only s (host_init E ifs s)"
proof -
  define s1 where "s1 = s\<lparr>this_host := \<lparr>seqno = 1, bcast_time = clock s, fwd_time = tv_zero, host_rreq_id = 0,
    nif = 0, devs = replicate (MAX_NR_INTERFACES + 1) zero_dev\<rparr>, dev_indices := replicate MAX_NR_INTERFACES 0\<rparr>"
  have 1: "host_only s s1" by (rule host_onlyI) (simp_all add: s1_def host_wf_def)
  have 2: "host_only s (host_init_ifaces E ns s1)" for ns
    by (rule host_only_then [OF 1 host_init_ifaces_only]) (simp_all add: s1_def)
  have a: "host_only s (abort st x)" if "host_only s x" for st x
    using that by (rule host_only_then) (rule host_only_abort)
  show ?thesis
    unfolding host_init_def Let_def s1_def [symmetric]
    using host_only_abort [OF assms] 2 a [OF 1] a [OF 2]
    by (simp split: list.split del: host_init_ifaces.simps)
qed

text \<open>Each step of \<open>main\<close> keeps \<open>booting\<close> unless it leaves the program.\<close>

definition booted :: "daemon \<Rightarrow> bool" where
  "booted d \<longleftrightarrow> (status (snd d) = Running \<longrightarrow> booting (snd d))"

lemma booted_seq: "booted d \<Longrightarrow> (booting (snd d) \<Longrightarrow> status (snd d) = Running \<Longrightarrow> booted (f d)) \<Longrightarrow> booted (seq f d)"
  by (simp add: booted_def seq_def)

lemma booting_host_wf: "booting s \<Longrightarrow> host_wf (this_host s) (dev_indices s)"
  by (simp add: booting_def wf_node_def)

lemma booted_host_init:
  assumes "booting s" "status s = Running"
  shows "booted (cbs, host_init E ifs s)"
  using host_only_booting [OF host_init_only [OF booting_host_wf [OF assms(1)]] assms(1) _ assms(2)]
  by (simp add: booted_def)

lemma status_abort_exited [simp]: "status (abort Exited s) \<noteq> Running"
  by (simp add: abort_def)

lemma booted_attach: "booting s \<Longrightarrow> booted (attach_callback_func fd f (cbs, s))"
  by (simp add: booted_def attach_callback_func_def)

lemma booted_nl_init: "booting (snd d) \<Longrightarrow> booted (nl_init E d)"
  using booted_attach [of "(snd d)\<lparr>nl_seq := 0\<rparr>" _ Nl_rt_callback "fst d"]
  by (simp add: nl_init_def on_node_def booted_def booting_def wf_node_def split: option.split)

lemma booted_packet_input_init: "booting (snd d) \<Longrightarrow> booted (packet_input_init E d)"
  using booted_attach [of "(snd d)\<lparr>nfq_open := True\<rparr>" _ Nfqueue_fd_callback "fst d"]
  by (simp add: packet_input_init_def on_node_def booted_def booting_def wf_node_def split: option.split)

lemma booting_upd_dev: "booting s \<Longrightarrow> booting (upd_dev k f s)"
  by (simp add: upd_dev_def booting_def wf_node_def host_wf_def)

lemma booted_socket_init_dev:
  assumes "booted (snd st)"
  shows "booted (snd (aodv_socket_init_dev E i st))"
proof -
  obtain n cbs s where st: "st = (n, cbs, s)" by (metis prod.exhaust)
  show ?thesis
    using assms booted_attach [OF booting_upd_dev]
    by (auto simp: st aodv_socket_init_dev_def on_node_def Let_def booted_def split: option.split)
qed

lemma booted_socket_init:
  assumes "booting (snd d)"
  shows "booted (aodv_socket_init E d)"
proof -
  have "booted (snd (fold (aodv_socket_init_dev E) is st))" if "booted (snd st)" for "is" st
    using that by (induction "is" arbitrary: st) (simp_all add: booted_socket_init_dev)
  moreover have "booted d" using assms by (simp add: booted_def)
  ultimately have "booted (snd (fold (aodv_socket_init_dev E) [0..<MAX_NR_INTERFACES] (SO_RECVBUF_SIZE, d)))"
    by simp
  then have "booted (seq (on_node (\<lambda>s. s\<lparr>sk := (sk s)\<lparr>num_rreq := 0, num_rerr := 0\<rparr>\<rparr>))
      (snd (fold (aodv_socket_init_dev E) [0..<MAX_NR_INTERFACES] (SO_RECVBUF_SIZE, d))))"
    by (rule booted_seq) (simp add: booted_def on_node_def booting_def wf_node_def sock_wf_def)
  then show ?thesis by (simp add: aodv_socket_init_def Let_def on_node_def booted_def)
qed

text \<open>A static timer that is not pending may be initialised.\<close>

lemma tm_init_static_wf:
  assumes "wf_node (s\<lparr>wait_on_reboot := False\<rparr>)" "t \<notin> attached (tq s)" "static_timer t"
    and "timer_typed t \<lparr>used = False, timeout = tv_zero, handler = Some f, tdata = d\<rparr>"
    and "wait_on_reboot s \<Longrightarrow> t = Worb_timer \<or> handler (timers (tq s) Worb_timer) \<noteq> None"
  shows "wf_node (tm_init t f d s)"
proof -
  note wf = invD [OF assms(1)]
  have "\<not> owned (live s) (seeking s) (set (plist (rreq_records s))) (set (plist (rreq_blacklist s))) t"
    using assms(3) by (auto simp: static_timer_def)
  then have "timers_wf (timer_init t f d (tq s)) (live s) (seeking s) (set (plist (rreq_records s)))
      (set (plist (rreq_blacklist s)))"
    using wf(3) assms(2,4) by (intro timers_wf_init) simp_all
  then show ?thesis
    using assms(1,5) by (auto simp: wf_node_def tm_init_def static_ready_def)
qed

lemma tm_set_static_inv:
  assumes "wf_node s" "expTQ (tq s) = []" "Gc_timer \<in> set (TQ (tq s))" "static_timer t"
    and "handler (timers (tq s) t) \<noteq> None"
  shows "loop_inv (tm_set t m s)"
proof -
  have "loop_inv s" using assms(1-3) by (simp add: loop_inv_def)
  then show ?thesis using tm_set_ok [OF assms(1) _ assms(5)] assms(4) by (blast intro: loop_inv_ok)
qed

lemma start_worb_inv:
  assumes "booting s"
  shows "loop_inv (start_worb s) \<and> handler (timers (tq (start_worb s)) Rt_log_timer) = None"
proof (cases "wait_on_reboot s")
  case True
  let ?s1 = "tm_init Worb_timer Wait_on_reboot_timeout A_worb s"
  have s1: "wf_node ?s1" "expTQ (tq ?s1) = []" "Gc_timer \<in> set (TQ (tq ?s1))"
    "handler (timers (tq ?s1) Worb_timer) \<noteq> None" "handler (timers (tq ?s1) Rt_log_timer) = None"
    using assms tm_init_static_wf [of s Worb_timer Wait_on_reboot_timeout A_worb]
    by (simp_all add: booting_def attached_def static_timer_def tm_init_def)
  have "handler (timers (tq (tm_set Worb_timer m ?s1)) Rt_log_timer) = None" for m
    using tm_set_effect(4) [OF invD(11) [OF s1(1)] s1(4), of m] s1(5) by simp
  then show ?thesis
    using tm_set_static_inv [OF s1(1-3) _ s1(4)] True by (simp add: start_worb_def static_timer_def)
next
  case False
  then have "s\<lparr>wait_on_reboot := False\<rparr> = s" by simp
  with assms False show ?thesis by (simp add: start_worb_def booting_def loop_inv_def)
qed

lemma hello_ifaces_tq: "tq (snd (snd (fold hello_iface ds st))) = tq (snd (snd st))"
proof -
  have f: "tq (fold f ps s) = tq s" if "\<And>p s. tq (f p s) = tq s" for f :: "ptr \<Rightarrow> node \<Rightarrow> node" and ps s
    by (induction ps arbitrary: s) (simp_all add: that)
  have "tq (snd (snd (hello_iface d st))) = tq (snd (snd st))" for d st
    by (cases st) (simp add: hello_iface_def hello_neighbor_set_def Let_def case_prod_beta f)
  then show ?thesis by (induction ds arbitrary: st) simp_all
qed

lemma handler_tm_set [simp]: "handler (timers (tq (tm_set t m s)) u) = handler (timers (tq s) u)"
  by (simp add: tm_set_def timer_set_timeout_def timer_add_def timer_remove_def upd_timer_def Let_def
      split: option.split)

lemma hello_start_handlers:
  assumes "u \<noteq> Hello_send_timer"
  shows "handler (timers (tq (hello_start s)) u) = handler (timers (tq s) u)"
  using assms
  by (simp add: hello_start_def hello_send_def Let_def case_prod_beta hello_ifaces_tq hello_stop_def tm_remove_def
      timer_remove_def upd_timer_def tm_init_def)

lemma log_rt_table_init_inv:
  assumes "loop_inv s" "handler (timers (tq s) Rt_log_timer) = None"
  shows "loop_inv (log_rt_table_init s)"
proof -
  let ?s1 = "tm_init Rt_log_timer Print_rt_table A_NULL s"
  have wf: "wf_node s" "tq_wf (tq s)" using assms(1) invD(11) by (simp_all add: loop_inv_def)
  then have "Rt_log_timer \<notin> attached (tq s)" using assms(2) by (auto simp: tq_wf_def)
  then have "wf_node ?s1"
    using wf(1) ok_inv [OF upd_worb_ok [OF wf(1)]] invD(4) [OF wf(1)]
    by (intro tm_init_static_wf) (simp_all add: static_timer_def static_ready_def)
  then show ?thesis
    unfolding log_rt_table_init_def using assms(1)
    by (intro tm_set_static_inv) (simp_all add: loop_inv_def static_timer_def tm_init_def)
qed

text \<open>The part of \<open>main_init\<close> that sets up interfaces and sockets.\<close>

definition open_all :: "os \<Rightarrow> string \<Rightarrow> node \<Rightarrow> daemon" where
  "open_all E ifs s = (seq (aodv_socket_init E) \<circ> seq (packet_input_init E) \<circ> seq (nl_init E) \<circ>
      seq (on_node (host_init E ifs))) ([], packet_queue_init (rt_table_init s))"

lemma main_init_parts:
  assumes "lim < 2 ^ 32" "d = main_init E ifs (start_node cf worb now lim tok rnd)" "status (snd d) = Running"
  obtains d4 where "d4 = open_all E ifs (start_node cf worb now lim tok rnd)" "booting (snd d4)" "fst d = fst d4"
    and "snd d = start_rt_log (start_hellos (start_worb (snd d4)))"
proof -
  define d4 where "d4 = open_all E ifs (start_node cf worb now lim tok rnd)"
  have "booted ([], packet_queue_init (rt_table_init (start_node cf worb now lim tok rnd)))"
    using booting_start [OF assms(1)] by (simp add: booted_def)
  then have 4: "booted d4"
    unfolding d4_def open_all_def comp_def
    by (intro booted_seq booted_socket_init booted_packet_input_init booted_nl_init)
      (simp_all add: on_node_def booted_host_init)
  have d: "d = seq (on_node start_rt_log) (seq (on_node start_hellos) (seq (on_node start_worb) d4))"
    by (simp add: assms(2) main_init_def d4_def open_all_def)
  have run: "status (snd x) = Running \<and> seq f x = f x" if "status (snd (seq f x)) = Running" for f and x :: daemon
    using that by (simp add: seq_def split: if_splits)
  have "status (snd d4) = Running \<and> d = on_node start_rt_log (on_node start_hellos (on_node start_worb d4))"
    using assms(3) run unfolding d by metis
  then show ?thesis using 4 that [OF d4_def] by (simp add: booted_def on_node_def case_prod_beta)
qed

lemma statics_tm: "statics (tm_set t m s) = statics s" "statics (tm_init t f a s) = statics s"
  by (simp_all add: statics_def tm_set_def tm_init_def abort_def split: option.split)

lemma start_hellos_inv:
  assumes "booting s"
  shows "loop_inv (start_hellos (start_worb s))" "handler (timers (tq (start_hellos (start_worb s))) Rt_log_timer) = None"
    "statics (start_hellos (start_worb s)) = statics s"
proof -
  let ?s5 = "start_worb s"
  note 5 = start_worb_inv [OF assms]
  have st: "statics ?s5 = statics s" by (simp add: start_worb_def statics_tm)
  have h: "ok ?s5 (hello_start ?s5)" using 5 by (intro hello_start_ok) (simp add: loop_inv_def)
  show "loop_inv (start_hellos ?s5)" "handler (timers (tq (start_hellos ?s5)) Rt_log_timer) = None"
    using 5 loop_inv_ok [OF _ h] hello_start_handlers [of Rt_log_timer ?s5] by (simp_all add: start_hellos_def)
  show "statics (start_hellos ?s5) = statics s" using h st by (simp add: start_hellos_def ok_def)
qed

lemma start_inv:
  assumes "booting s"
  shows "loop_inv (start_rt_log (start_hellos (start_worb s)))" "statics (start_rt_log (start_hellos (start_worb s))) = statics s"
proof -
  note h = start_hellos_inv [OF assms]
  show "loop_inv (start_rt_log (start_hellos (start_worb s)))"
    using h(1) log_rt_table_init_inv [OF h(1,2)] by (simp add: start_rt_log_def)
  show "statics (start_rt_log (start_hellos (start_worb s))) = statics s"
    unfolding h(3) [symmetric] by (simp add: start_rt_log_def log_rt_table_init_def statics_tm)
qed

text \<open>
  While interfaces are set up, those that are enabled are among the first \<open>nif\<close>; while their sockets are opened, each socket
  registered so far is that of one of the first \<open>i\<close> interfaces.
\<close>

definition enabled_known :: "node \<Rightarrow> bool" where
  "enabled_known s \<longleftrightarrow> (\<forall>i \<le> MAX_NR_INTERFACES. enabled (DEV_NR s i) \<longrightarrow> i < nif (this_host s))"

lemma enabled_known_upd:
  assumes "enabled_known s" "\<And>v. enabled (f v) \<Longrightarrow> enabled v \<or> k < nif (this_host s)" "host_wf (this_host s) (dev_indices s)"
  shows "enabled_known (upd_dev k f s)"
  using assms by (cases "k < length (devs (this_host s))")
    (auto simp: enabled_known_def upd_dev_def DEV_NR_def nth_list_update not_less list_update_beyond)

lemma enabled_known_abort [simp]: "enabled_known (abort st s) = enabled_known s"
  by (simp add: enabled_known_def abort_def DEV_NR_def)

lemma find_Some_mem: "List.find P xs = Some x \<Longrightarrow> x \<in> set xs"
  by (induction xs) (auto split: if_splits)

lemma register_iface_known:
  assumes "enabled_known s" "host_wf (this_host s) (dev_indices s)" "nif (this_host s) < MAX_NR_INTERFACES"
  shows "enabled_known (register_iface ix s)" "ifindex2devindex (register_iface ix s) ix < nif (this_host (register_iface ix s))"
proof -
  let ?n = "nif (this_host s)"
  have "enabled_known (upd_dev ?n (\<lambda>d. d\<lparr>dev_ifindex := ix\<rparr>) s)" by (rule enabled_known_upd [OF assms(1) _ assms(2)]) simp
  then show "enabled_known (register_iface ix s)"
    by (auto simp: enabled_known_def register_iface_def Let_def DEV_NR_def intro: less_SucI)
  have "dev_indices (register_iface ix s) ! ?n = ix" "nif (this_host (register_iface ix s)) = Suc ?n"
    using assms(2,3) by (simp_all add: register_iface_def Let_def host_wf_def)
  then show "ifindex2devindex (register_iface ix s) ix < nif (this_host (register_iface ix s))"
    using find_Some_mem by (fastforce simp: ifindex2devindex_def find_None_iff split: option.split)
qed

lemma host_init_iface_known:
  assumes "enabled_known s" "host_wf (this_host s) (dev_indices s)" "nif (this_host s) < MAX_NR_INTERFACES"
  shows "enabled_known (host_init_iface E n s)"
proof -
  have u: "enabled_known (upd_dev k f x) \<and> host_wf (this_host (upd_dev k f x)) (dev_indices (upd_dev k f x))"
    if "enabled_known x" "host_wf (this_host x) (dev_indices x)" "\<And>v. enabled (f v) \<Longrightarrow> enabled v \<or> k < nif (this_host x)" for k f x
    using enabled_known_upd [OF that(1,3,2)] that(2) by (simp add: host_wf_def)
  have r: "host_wf (this_host (register_iface ix s)) (dev_indices (register_iface ix s))" for ix
    using assms(2,3) by (simp add: register_iface_def Let_def host_wf_def)
  show ?thesis using assms(1) register_iface_known [OF assms] r
    by (auto simp: host_init_iface_def Let_def split: option.split intro!: u [THEN conjunct1] u [THEN conjunct2])
qed

lemma host_init_ifaces_known:
  assumes "enabled_known s" "host_wf (this_host s) (dev_indices s)" "nif (this_host s) < MAX_NR_INTERFACES"
  shows "enabled_known (host_init_ifaces E ns s)"
  using assms
proof (induction ns arbitrary: s)
  case (Cons n ns)
  note k = host_init_iface_known [OF Cons.prems, of E n] and w = host_only_wf [OF host_init_iface_only [OF Cons.prems(2,3), of E n]]
  show ?case using k Cons.IH [OF k w] by (simp add: Let_def not_le)
qed simp

lemma host_init_known: "enabled_known s \<Longrightarrow> enabled_known (host_init E ifs s)"
  using host_init_ifaces_known [of "s\<lparr>this_host := \<lparr>seqno = 1, bcast_time = clock s, fwd_time = tv_zero, host_rreq_id = 0,
    nif = 0, devs = replicate (MAX_NR_INTERFACES + 1) zero_dev\<rparr>, dev_indices := replicate MAX_NR_INTERFACES 0\<rparr>" E "strtok ifs []"]
  by (auto simp: host_init_def Let_def enabled_known_def [of "_\<lparr>this_host := _, dev_indices := _\<rparr>"] DEV_NR_def host_wf_def
    zero_dev_def simp del: host_init_ifaces.simps split: list.split)

definition registered_below :: "nat \<Rightarrow> daemon \<Rightarrow> bool" where
  "registered_below i d \<longleftrightarrow>
     enabled_known (snd d) \<and> host_wf (this_host (snd d)) (dev_indices (snd d)) \<and>
     (\<forall>fd. (fd, Aodv_socket_read) \<in> set (fst d) \<longrightarrow> (\<exists>j < i. j < nif (this_host (snd d)) \<and> dev_sock (DEV_NR (snd d) j) = fd))"

lemma registered_below_step:
  assumes "registered_below i d" "i < MAX_NR_INTERFACES"
  shows "registered_below (Suc i) (snd (aodv_socket_init_dev E i (n, d)))"
proof -
  obtain cbs s where d: "d = (cbs, s)" by fastforce
  have keep: "registered_below (Suc i) (cbs, s)"
    using assms(1) less_SucI unfolding registered_below_def d fst_conv snd_conv by blast
  have sock: "registered_below (Suc i) (cbs, upd_dev i (\<lambda>v. v\<lparr>dev_sock := fd\<rparr>) s)" for fd
    using assms enabled_known_upd [of s "\<lambda>v. v\<lparr>dev_sock := fd\<rparr>" i]
    by (force simp: registered_below_def d DEV_NR_def upd_dev_def host_wf_def nth_list_update)
  have abort: "registered_below (Suc i) (cbs', abort st s')" if "registered_below (Suc i) (cbs', s')" for cbs' s' st
    using that by (auto simp: registered_below_def abort_def DEV_NR_def enabled_known_def)
  have "registered_below (Suc i) (attach_callback_func fd Aodv_socket_read (cbs, upd_dev i (\<lambda>v. v\<lparr>dev_sock := fd\<rparr>) s))"
    if "enabled (DEV_NR s i)" for fd
  proof -
    have "i < nif (this_host s)" "i < length (devs (this_host s))"
      using assms that by (auto simp: registered_below_def d enabled_known_def host_wf_def)
    then have "dev_sock (DEV_NR (upd_dev i (\<lambda>v. v\<lparr>dev_sock := fd\<rparr>) s) i) = fd" "i < nif (this_host (upd_dev i (\<lambda>v. v\<lparr>dev_sock := fd\<rparr>) s))"
      by (simp_all add: DEV_NR_def upd_dev_def)
    then show ?thesis using sock [of fd] abort [OF sock] unfolding attach_callback_func_def
      by (auto simp: registered_below_def)
  qed
  then show ?thesis using keep abort [OF keep] sock abort [OF sock]
    by (auto simp: aodv_socket_init_dev_def on_node_def d Let_def split: option.split)
qed

lemma registered_below_devs:
  "k \<le> MAX_NR_INTERFACES \<Longrightarrow> registered_below 0 d \<Longrightarrow>
     registered_below k (snd (fold (aodv_socket_init_dev E) [0..<k] (n, d)))"
proof (induction k)
  case (Suc k)
  obtain n1 d1 where f: "fold (aodv_socket_init_dev E) [0..<k] (n, d) = (n1, d1)" by (metis prod.exhaust)
  from Suc registered_below_step [of k d1 E n1] show ?case by (simp add: f)
qed simp

lemma registered_below_known:
  assumes "registered_below i d"
  shows "sockets_known (fst d) (snd d)"
  using assms by (force simp: registered_below_def sockets_known_def devfromsock_def find_None_iff)

lemma registered_seq: "registered_below i d \<Longrightarrow> (registered_below i d \<Longrightarrow> registered_below i (f d)) \<Longrightarrow> registered_below i (seq f d)"
  by (simp add: seq_def)

lemma registered_attach:
  assumes "registered_below i (cbs, s)" "f \<noteq> Aodv_socket_read"
  shows "registered_below i (attach_callback_func fd f (cbs, s))"
  using assms by (auto simp: attach_callback_func_def registered_below_def abort_def enabled_known_def DEV_NR_def)

lemma registered_socket_init:
  assumes "registered_below 0 d"
  shows "registered_below MAX_NR_INTERFACES (aodv_socket_init E d)"
proof -
  have a: "registered_below MAX_NR_INTERFACES (on_node (abort Exited) d)"
    using assms by (auto simp: registered_below_def on_node_def abort_def enabled_known_def DEV_NR_def case_prod_beta)
  have f: "registered_below i (seq (on_node (\<lambda>s. s\<lparr>sk := g s\<rparr>)) x) = registered_below i x" for i g x
    by (simp add: seq_def on_node_def registered_below_def enabled_known_def DEV_NR_def case_prod_beta)
  show ?thesis using a registered_below_devs [OF order.refl assms]
    by (simp add: aodv_socket_init_def f Let_def)
qed

lemma registered_frame:
  "registered_below i (on_node (\<lambda>s. s\<lparr>nl_seq := a\<rparr>) x) = registered_below i x"
  "registered_below i (on_node (\<lambda>s. s\<lparr>nfq_open := b\<rparr>) x) = registered_below i x"
  "registered_below i (on_node (abort st) x) = registered_below i x"
  by (simp_all add: on_node_def registered_below_def enabled_known_def DEV_NR_def abort_def case_prod_beta)

lemma registered_inits:
  assumes "registered_below i d"
  shows "registered_below i (nl_init E d)" "registered_below i (packet_input_init E d)"
proof -
  have att: "registered_below i (attach_callback_func fd f x)" if "registered_below i x" "f \<noteq> Aodv_socket_read" for fd f x
    using registered_attach [of i "fst x" "snd x" f fd] that by simp
  show "registered_below i (nl_init E d)" "registered_below i (packet_input_init E d)"
    using assms by (auto simp: nl_init_def packet_input_init_def registered_frame att split: option.split)
qed

lemma open_all_known:
  "sockets_known (fst (open_all E ifs (start_node cf worb now lim tok rnd))) (snd (open_all E ifs (start_node cf worb now lim tok rnd)))"
proof -
  let ?s0 = "packet_queue_init (rt_table_init (start_node cf worb now lim tok rnd))"
  have 0: "enabled_known ?s0" "host_wf (this_host ?s0) (dev_indices ?s0)"
    unfolding packet_queue_init_start
    by (simp_all add: start_node_def enabled_known_def DEV_NR_def host_wf_def zero_dev_def del: replicate.simps)
  then have "registered_below 0 ([], ?s0)" "registered_below 0 (on_node (host_init E ifs) ([], ?s0))"
    using host_init_known [OF 0(1)] host_only_wf [OF host_init_only [OF 0(2)]] by (simp_all add: registered_below_def on_node_def)
  then have "registered_below 0 (seq (packet_input_init E) (seq (nl_init E) (seq (on_node (host_init E ifs)) ([], ?s0))))"
    by (intro registered_seq registered_inits)
  moreover have "sockets_known (fst (seq (aodv_socket_init E) d)) (snd (seq (aodv_socket_init E) d))" if "registered_below 0 d" for d
    using registered_below_known [OF that] registered_below_known [OF registered_socket_init [OF that]] by (simp add: seq_def)
  ultimately show ?thesis by (simp add: open_all_def)
qed

lemma main_init_inv:
  assumes "lim < 2 ^ 32" "d = main_init E ifs (start_node cf worb now lim tok rnd)" "status (snd d) = Running"
  shows "daemon_inv d"
proof -
  obtain d4 where d4: "d4 = open_all E ifs (start_node cf worb now lim tok rnd)" "booting (snd d4)" "fst d = fst d4"
    "snd d = start_rt_log (start_hellos (start_worb (snd d4)))" by (rule main_init_parts [OF assms])
  have "sockets_known (fst d4) (snd d4)" unfolding d4(1) by (rule open_all_known)
  then show ?thesis
    using start_inv [OF d4(2)] sockets_known_statics [of "snd d" "snd d4" "fst d"] d4(3,4) by (simp add: daemon_inv_def statics_def)
qed

lemma runs_inv: "runs d d' \<Longrightarrow> daemon_inv d \<Longrightarrow> daemon_inv d'"
proof (induction rule: runs.induct)
  case (turn d d' t d'')
  then show ?case using main_turn_inv [of d' t] by auto
qed

section \<open>Properties\<close>

definition demo_os :: os where
  "demo_os = \<lparr>os_ifindex = (\<lambda>_. Some 3), os_ifaddr = (\<lambda>_. Some 0x0100000A), os_netmask = (\<lambda>_. Some 0x00FFFFFF),
     os_brdaddr = (\<lambda>_. Some 0xFF00000A), os_proc = (\<lambda>_. True), os_netlink = Some 3, os_nfqueue = Some 4,
     os_socket = (\<lambda>i. Some (int i + 5)), os_rcvbuf = (\<lambda>_. True)\<rparr>"

definition demo_booted :: "node \<Rightarrow> node" where
  "demo_booted s = s\<lparr>this_host := \<lparr>seqno = 1, bcast_time = clock s, fwd_time = tv_zero, host_rreq_id = 0, nif = 1,
       devs = demo_dev\<lparr>dev_sock := 0\<rparr> # replicate 10 zero_dev\<rparr>,
     dev_indices := 3 # replicate 9 0\<rparr>"

lemma demo_host_init:
  assumes "status s = Running"
  shows "host_init demo_os ''wlan0'' s = demo_booted s"
proof -
  have "replicate 11 zero_dev = zero_dev # replicate 10 zero_dev" "replicate 10 (0 :: u32) = 0 # replicate 9 0"
    by (simp_all add: numeral_eq_Suc)
  then show ?thesis
    using assms
    by (simp add: host_init_def demo_booted_def set_kernel_options_def list_all_iff IFNAMSIZ_def host_init_iface_def register_iface_def upd_dev_def Let_def
        DEV_NR_def ifindex2devindex_def demo_os_def zero_dev_def demo_dev_def)
qed

lemma demo_socket_init:
  assumes "status s = Running"
  shows "\<exists>s'. aodv_socket_init demo_os ([(3, Nl_rt_callback), (4, Nfqueue_fd_callback)], demo_booted s) =
     ([(3, Nl_rt_callback), (4, Nfqueue_fd_callback), (5, Aodv_socket_read)], s') \<and> status s' = Running \<and>
     conf s' = conf s \<and> wait_on_reboot s' = wait_on_reboot s"
  using assms
  by (simp add: aodv_socket_init_def demo_booted_def on_node_def numeral_eq_Suc aodv_socket_init_dev_def DEV_NR_def Let_def
     demo_os_def demo_dev_def zero_dev_def rcvbuf_loop.simps attach_callback_func_def CALLBACK_FUNCS_def seq_def upd_dev_def)

lemma demo_main_init:
  assumes "optimized_hellos k" "rt_log_interval k = 0"
  shows "status (snd (main_init demo_os ''wlan0'' (start_node k False now lim tok rnd))) = Running"
proof -
  define s0 where "s0 = packet_queue_init (rt_table_init (start_node k False now lim tok rnd))"
  have s0: "status s0 = Running" "conf s0 = k" "\<not> wait_on_reboot s0"
    by (simp_all add: s0_def packet_queue_init_start) (simp_all add: start_node_def)
  let ?s1 = "s0\<lparr>nl_seq := 0, nfq_open := True\<rparr>"
  obtain s2 where s2: "aodv_socket_init demo_os ([(3, Nl_rt_callback), (4, Nfqueue_fd_callback)], demo_booted ?s1) =
     ([(3, Nl_rt_callback), (4, Nfqueue_fd_callback), (5, Aodv_socket_read)], s2)" "status s2 = Running" "conf s2 = conf s0" "\<not> wait_on_reboot s2"
    using demo_socket_init [of ?s1] s0(1,3) by auto
  have init: "nl_init demo_os ([], demo_booted s0) = ([(3, Nl_rt_callback)], demo_booted (s0\<lparr>nl_seq := 0\<rparr>))"
    "packet_input_init demo_os ([(3, Nl_rt_callback)], demo_booted (s0\<lparr>nl_seq := 0\<rparr>)) =
       ([(3, Nl_rt_callback), (4, Nfqueue_fd_callback)], demo_booted ?s1)"
    "status (demo_booted s) = status s" for s
    by (simp_all add: nl_init_def packet_input_init_def demo_os_def on_node_def attach_callback_func_def
        CALLBACK_FUNCS_def demo_booted_def)
  have "start_worb s2 = s2" "start_hellos s2 = s2" "start_rt_log s2 = s2"
    using s2(3,4) s0(2) assms by (simp_all add: start_worb_def start_hellos_def start_rt_log_def)
  then show ?thesis
    using s0(1) s2(2) by (simp add: main_init_def seq_def on_node_def demo_host_init init s2(1) flip: s0_def)
qed

lemma nth_update_beyond: "length xs \<le> k \<Longrightarrow> xs[i := v] ! k = xs ! k"
proof (induction xs arbitrary: i k)
  case (Cons x xs)
  then show ?case by (cases i; cases k) simp_all
qed simp

lemma socket_init_dev_count:
  assumes "aodv_socket_init_dev E i (n, d) = (n', d')" "status (snd d') = Running"
  shows "status (snd d) = Running" "\<And>k. enabled (DEV_NR (snd d') k) = enabled (DEV_NR (snd d) k)"
    "length (fst d') = length (fst d) + (if enabled (DEV_NR (snd d) i) then 1 else 0)"
    "length (fst d) \<le> CALLBACK_FUNCS \<Longrightarrow> length (fst d') \<le> CALLBACK_FUNCS"
proof -
  obtain cbs s where d: "d = (cbs, s)" by fastforce
  have en: "enabled (DEV_NR (upd_dev i (\<lambda>v. v\<lparr>dev_sock := fd\<rparr>) s) k) = enabled (DEV_NR s k)" for fd k
    using nth_update_beyond [of "devs (this_host s)" k i]
    by (cases "k < length (devs (this_host s))"; cases "k = i") (simp_all add: upd_dev_def DEV_NR_def)
  show "status (snd d) = Running" "\<And>k. enabled (DEV_NR (snd d') k) = enabled (DEV_NR (snd d) k)"
    "length (fst d') = length (fst d) + (if enabled (DEV_NR (snd d) i) then 1 else 0)"
    "length (fst d) \<le> CALLBACK_FUNCS \<Longrightarrow> length (fst d') \<le> CALLBACK_FUNCS"
    using assms en
    by (auto simp: d aodv_socket_init_dev_def on_node_def Let_def attach_callback_func_def
        split: if_splits option.splits)
qed

lemma socket_init_count:
  assumes "fold (aodv_socket_init_dev E) is (n, d) = (n', d')" "status (snd d') = Running"
    and "length (fst d) \<le> CALLBACK_FUNCS"
  shows "length (fst d) + length (filter (\<lambda>i. enabled (DEV_NR (snd d) i)) is) \<le> CALLBACK_FUNCS"
proof -
  have "status (snd d) = Running \<and>
      length (fst d) + length (filter (\<lambda>i. enabled (DEV_NR (snd d) i)) is) \<le> CALLBACK_FUNCS"
    using assms
  proof (induction "is" arbitrary: n d)
    case (Cons i "is")
    obtain n1 d1 where 1: "aodv_socket_init_dev E i (n, d) = (n1, d1)" by (metis prod.exhaust)
    have r: "fold (aodv_socket_init_dev E) is (n1, d1) = (n', d')" using Cons.prems(1) by (simp add: 1)
    have st: "status (snd d1) = Running"
    proof -
      have "status (snd (snd (fold (aodv_socket_init_dev E) js (m, x)))) \<noteq> Running"
        if "status (snd x) \<noteq> Running" for js m x
        using that by (induction js arbitrary: m x) (simp_all add: aodv_socket_init_dev_def)
      then show ?thesis using r Cons.prems(2) by (metis snd_conv)
    qed
    note c = socket_init_dev_count [OF 1 st]
    from Cons.IH [OF r Cons.prems(2) c(4) [OF Cons.prems(3)]] c(1-3) show ?case by auto
  qed simp
  then show ?thesis by simp
qed

text \<open>
  The limit on callbacks is met before the limit on interfaces: with the two callbacks that
  \<open>main\<close> has registered before (netlink and netfilter queue), initialising the sockets of more
  than three enabled interfaces always leaves the program, although ten interfaces are provided for.
\<close>

theorem too_many_interfaces:
  assumes "length cbs = 2" and "3 < length (filter (\<lambda>i. enabled (DEV_NR s i)) [0..<MAX_NR_INTERFACES])"
    and "status s = Running"
  shows "status (snd (aodv_socket_init E (cbs, s))) \<noteq> Running"
proof
  assume run: "status (snd (aodv_socket_init E (cbs, s))) = Running"
  obtain n d where f: "fold (aodv_socket_init_dev E) [0..<MAX_NR_INTERFACES] (SO_RECVBUF_SIZE, cbs, s) = (n, d)"
    by (metis prod.exhaust)
  then have "status (snd d) = Running"
    using run by (simp add: aodv_socket_init_def seq_def on_node_def Let_def split: if_splits)
  from socket_init_count [OF f this] assms(1,2) show False by (simp add: CALLBACK_FUNCS_def)
qed

theorem too_many_interfaces_witness:
  "status (snd (aodv_socket_init demo_os ([(3, Nl_rt_callback), (4, Nfqueue_fd_callback)],
     demo_node\<lparr>this_host := demo_host\<lparr>nif := 4, devs := replicate 4 demo_dev @ replicate 7 zero_dev\<rparr>\<rparr>))) \<noteq> Running"
  by (rule too_many_interfaces)
    (simp_all add: DEV_NR_def numeral_eq_Suc demo_dev_def zero_dev_def, simp_all add: demo_node_def)

end
