(* ===== verification/Lifecycle.thy ===== *)
theory Lifecycle
  imports Daemon
begin

text \<open>
  The two ends of the daemon's life: the command line (\<open>main\<close> of \<open>src/core/main.c\<close> up to the
  initialisation) and \<open>cleanup\<close>, which runs at exit.

  \<open>getopt_long\<close> is the C library's: an argument of the model is the sequence of its results, each an
  option character with its argument.  The conversion of the argument of \<open>-r\<close> through a floating
  point number of seconds to milliseconds is a parameter.
\<close>

section \<open>Command line\<close>

record cmdline =
  cl_conf :: config
  cl_worb :: bool
  cl_ifname :: "string option"
  cl_debug :: bool
  cl_daemonize :: bool
  cl_log_to_file :: bool
  cl_qual_threshold :: int
  cl_internet_gw_mode :: bool

definition start_cmdline :: cmdline where
  "start_cmdline =
     \<lparr>cl_conf = \<lparr>unidir_hack = False, rreq_gratuitous = False, expanding_ring_search = True, local_repair = False,
        receive_n_hellos = 0, hello_jittering = True, optimized_hellos = False, ratelimit = True,
        llfeedback = False, active_route_timeout = ACTIVE_ROUTE_TIMEOUT_HELLO, ttl_start = TTL_START_HELLO,
        delete_period = DELETE_PERIOD_HELLO, rt_log_interval = 0\<rparr>,
      cl_worb = True, cl_ifname = None, cl_debug = True, cl_daemonize = False, cl_log_to_file = False,
      cl_qual_threshold = 0, cl_internet_gw_mode = False\<rparr>"

definition isdigit :: "char \<Rightarrow> bool" where
  "isdigit c \<longleftrightarrow> 48 \<le> (of_char c :: nat) \<and> (of_char c :: nat) \<le> 57"

text \<open>\<open>atoi\<close> of a string that starts with a digit.\<close>

fun atoi_from :: "int \<Rightarrow> string \<Rightarrow> int" where
  "atoi_from n [] = n"
| "atoi_from n (c # cs) = (if isdigit c then atoi_from (10 * n + (of_char c - 48)) cs else n)"

definition atoi :: "string \<Rightarrow> int" where
  "atoi = atoi_from 0"

text \<open>The test \<open>optarg && isdigit(*optarg)\<close>.\<close>

definition numeric :: "string option \<Rightarrow> bool" where
  "numeric arg \<longleftrightarrow> (case arg of None \<Rightarrow> False | Some a \<Rightarrow> a \<noteq> [] \<and> isdigit (hd a))"

definition on_conf :: "(config \<Rightarrow> config) \<Rightarrow> cmdline \<Rightarrow> cmdline" where
  "on_conf f c = c\<lparr>cl_conf := f (cl_conf c)\<rparr>"

text \<open>One turn of the loop over the options; \<open>None\<close> when the program is left.\<close>

definition parse_option :: "(string \<Rightarrow> int) \<Rightarrow> char \<times> string option \<Rightarrow> cmdline \<Rightarrow> cmdline option" where
  "parse_option msecs oa c =
     (case oa of (opt, optarg) \<Rightarrow>
        if opt = CHR 0x00 then Some c
        else if opt = CHR ''d'' then Some (c\<lparr>cl_debug := False, cl_daemonize := True\<rparr>)
        else if opt = CHR ''f'' then
          Some (on_conf (\<lambda>k. k\<lparr>llfeedback := True, active_route_timeout := ACTIVE_ROUTE_TIMEOUT_LLF\<rparr>) c)
        else if opt = CHR ''g'' then Some (on_conf (\<lambda>k. k\<lparr>rreq_gratuitous := \<not> rreq_gratuitous k\<rparr>) c)
        else if opt = CHR ''i'' then Some (c\<lparr>cl_ifname := optarg\<rparr>)
        else if opt = CHR ''j'' then Some (on_conf (\<lambda>k. k\<lparr>hello_jittering := \<not> hello_jittering k\<rparr>) c)
        else if opt = CHR ''l'' then Some (c\<lparr>cl_log_to_file := \<not> cl_log_to_file c\<rparr>)
        else if opt = CHR ''n'' then
          if numeric optarg then
            let n = atoi (the optarg)
            in if n < 2 then None else Some (on_conf (\<lambda>k. k\<lparr>receive_n_hellos := n\<rparr>) c)
          else Some c
        else if opt = CHR ''o'' then Some (on_conf (\<lambda>k. k\<lparr>optimized_hellos := \<not> optimized_hellos k\<rparr>) c)
        else if opt = CHR ''q'' then
          Some (if numeric optarg then c\<lparr>cl_qual_threshold := atoi (the optarg)\<rparr> else c)
        else if opt = CHR ''r'' then
          Some (if numeric optarg then on_conf (\<lambda>k. k\<lparr>rt_log_interval := msecs (the optarg)\<rparr>) c else c)
        else if opt = CHR ''u'' then Some (on_conf (\<lambda>k. k\<lparr>unidir_hack := \<not> unidir_hack k\<rparr>) c)
        else if opt = CHR ''w'' then Some (c\<lparr>cl_internet_gw_mode := \<not> cl_internet_gw_mode c\<rparr>)
        else if opt = CHR ''x'' then
          Some (on_conf (\<lambda>k. k\<lparr>expanding_ring_search := \<not> expanding_ring_search k\<rparr>) c)
        else if opt = CHR ''L'' then Some (on_conf (\<lambda>k. k\<lparr>local_repair := \<not> local_repair k\<rparr>) c)
        else if opt = CHR ''D'' then Some (c\<lparr>cl_worb := \<not> cl_worb c\<rparr>)
        else if opt = CHR ''R'' then Some (on_conf (\<lambda>k. k\<lparr>ratelimit := \<not> ratelimit k\<rparr>) c)
        else None)"

fun parse_options :: "(string \<Rightarrow> int) \<Rightarrow> (char \<times> string option) list \<Rightarrow> cmdline \<Rightarrow> cmdline option" where
  "parse_options msecs [] c = Some c"
| "parse_options msecs (o1 # os) c =
     (case parse_option msecs o1 c of None \<Rightarrow> None | Some c' \<Rightarrow> parse_options msecs os c')"

text \<open>
  \<open>main\<close> up to the main loop; \<open>None\<close> when it is left before anything is initialised: by an option,
  without root rights, or as the parent of \<open>fork\<close>.  \<open>wireless\<close> is the interface that \<open>host_init\<close>
  finds when none is named.
\<close>

definition main_start ::
  "(string \<Rightarrow> int) \<Rightarrow> (char \<times> string option) list \<Rightarrow> nat \<Rightarrow> bool \<Rightarrow> string \<Rightarrow> os \<Rightarrow> (config \<Rightarrow> bool \<Rightarrow> node) \<Rightarrow>
     daemon option" where
  "main_start msecs opts euid child wireless E start =
     (case parse_options msecs opts start_cmdline of
        None \<Rightarrow> None
      | Some c \<Rightarrow>
          if euid \<noteq> 0 then None
          else if cl_daemonize c \<and> \<not> child then None
          else Some (main_init E (case cl_ifname c of None \<Rightarrow> wireless | Some n \<Rightarrow> n) (start (cl_conf c) (cl_worb c))))"

section \<open>Exit\<close>

definition nfqueue_cleanup :: "node \<Rightarrow> node" where
  "nfqueue_cleanup s = s\<lparr>nfq_open := False\<rparr>"

definition packet_input_cleanup :: "node \<Rightarrow> node" where
  "packet_input_cleanup = nfqueue_cleanup"

text \<open>
  \<open>cleanup\<close>.  \<open>aodv_socket_cleanup\<close> and \<open>nl_cleanup\<close> close descriptors that are not used any more.
\<close>

definition cleanup :: "node \<Rightarrow> node" where
  "cleanup s = packet_input_cleanup (packet_queue_destroy (rt_table_destroy s))"

section \<open>The command line yields usable parameters\<close>

lemma redirect_file_fits:
  "length name < IFNAMSIZ \<Longrightarrow> length opt \<le> 16 \<Longrightarrow> length (redirect_file name opt) < 64"
  by (simp add: redirect_file_def IFNAMSIZ_def)

text \<open>What the options cannot break: the bounds the protocol relies on.\<close>

definition usable :: "config \<Rightarrow> bool" where
  "usable k \<longleftrightarrow>
     (receive_n_hellos k = 0 \<or> 2 \<le> receive_n_hellos k) \<and> ttl_start k = TTL_START_HELLO \<and>
     delete_period k = DELETE_PERIOD_HELLO \<and>
     active_route_timeout k = (if llfeedback k then ACTIVE_ROUTE_TIMEOUT_LLF else ACTIVE_ROUTE_TIMEOUT_HELLO)"

lemma pred_option_if:
  "(b \<Longrightarrow> pred_option Q x) \<Longrightarrow> (\<not> b \<Longrightarrow> pred_option Q y) \<Longrightarrow> pred_option Q (if b then x else y)"
  by simp

lemma parse_option_usable:
  assumes "usable (cl_conf c)"
  shows "pred_option (\<lambda>c'. usable (cl_conf c')) (parse_option msecs oa c)"
proof -
  have "usable (cl_conf (on_conf f c))" if "usable (f (cl_conf c))" for f using that by (simp add: on_conf_def)
  then show ?thesis
    using assms unfolding parse_option_def Let_def case_prod_beta
    by (intro pred_option_if) (simp_all add: usable_def)
qed

lemma parse_options_usable:
  "parse_options msecs opts c = Some c' \<Longrightarrow> usable (cl_conf c) \<Longrightarrow> usable (cl_conf c')"
proof (induction opts arbitrary: c)
  case (Cons oa opts)
  then show ?case using parse_option_usable [of c msecs oa] by (auto split: option.splits)
qed simp

section \<open>What deleting the routes does\<close>

definition deletes_route :: "addr \<Rightarrow> event \<Rightarrow> bool" where
  "deletes_route d ev \<longleftrightarrow> (\<exists>r. ev = Ev_netlink r \<and> nlmsg_type r = RTM_DELROUTE \<and> (RTA_DST, d) \<in> set (rta r))"

lemma nl_send_del_route_msg_out:
  "\<exists>r. out (nl_send_del_route_msg d n m s) = out s @ [Ev_netlink r] \<and> deletes_route d (Ev_netlink r)"
  by (simp add: nl_send_del_route_msg_def nl_kern_route_def nl_send_def Let_def addattr_def deletes_route_def)

lemma rt_table_delete_requests:
  "\<exists>evs. out (rt_table_delete p s) = out s @ evs \<and> (\<forall>ev \<in> set evs. deletes_route (rt_dest_addr (rt s p)) ev) \<and>
     (rt_state (rt s p) = VALID \<longrightarrow> evs \<noteq> [])"
proof -
  define s2 where "s2 = precursor_list_destroy p (s\<lparr>rt_tbl := (rt_tbl s)\<lparr>tbl := map (remove1 p) (tbl (rt_tbl s))\<rparr>\<rparr>)"
  have s2: "rt_dest_addr (rt s2 p) = rt_dest_addr (rt s p)" "rt_state (rt s2 p) = rt_state (rt s p)" "out s2 = out s"
    by (simp_all add: s2_def precursor_list_destroy_eq)
  obtain r where r: "out (nl_send_del_route_msg (rt_dest_addr (rt s p)) (rt_next_hop (rt s2 p)) (rt_hcnt (rt s2 p)) s2)
      = out s @ [Ev_netlink r]" "deletes_route (rt_dest_addr (rt s p)) (Ev_netlink r)"
    using nl_send_del_route_msg_out s2(3) by metis
  have "out (rt_table_delete p s) = out s @ (if rt_state (rt s p) = VALID then [Ev_netlink r] else [])"
    using r(1) by (simp add: rt_table_delete_def Let_def s2 flip: s2_def)
  with r(2) show ?thesis by (intro exI [of _ "if rt_state (rt s p) = VALID then [Ev_netlink r] else []"]) auto
qed

lemma rt_table_delete_queue [simp]:
  "nfq_open (rt_table_delete p s) = nfq_open s"
  by (simp add: rt_table_delete_def Let_def precursor_list_destroy_eq tm_remove_def
      upd_active_def upd_rt_def nl_send_del_route_msg_def nl_kern_route_def nl_send_def emit_def)

lemma rt_table_delete_all:
  assumes "wf_node s" "set ps \<subseteq> live s" "distinct ps" "s' = fold rt_table_delete ps s"
  shows "wf_node s' \<and> live s' = live s - set ps \<and> PQ s' = PQ s \<and> nfq_open s' = nfq_open s \<and>
    attached (tq s') = attached (tq s) - {t. \<exists>p \<in> set ps. t \<in> {Rt_timer p, Ack_timer p, Hello_timer p}} \<and>
    (\<exists>evs. out s' = out s @ evs \<and> (\<forall>ev \<in> set evs. \<exists>d. deletes_route d ev) \<and>
       (\<forall>p \<in> set ps. rt_state (rt s p) = VALID \<longrightarrow> (\<exists>ev \<in> set evs. deletes_route (rt_dest_addr (rt s p)) ev)))"
  using assms
proof (induction ps arbitrary: s)
  case (Cons p ps)
  let ?s1 = "rt_table_delete p s"
  have p: "p \<in> live s" using Cons.prems(2) by simp
  note 1 = rt_table_delete_wf [OF Cons.prems(1) p]
  have same: "rt ?s1 q = rt s q" if "q \<in> set ps" for q
    using that Cons.prems(3) by (intro rt_table_delete_parts(2)) auto
  obtain e1 where e1: "out ?s1 = out s @ e1" "\<forall>ev \<in> set e1. deletes_route (rt_dest_addr (rt s p)) ev"
    "rt_state (rt s p) = VALID \<longrightarrow> e1 \<noteq> []"
    using rt_table_delete_requests [of p s] by blast
  have IH: "wf_node s' \<and> live s' = live ?s1 - set ps \<and> PQ s' = PQ ?s1 \<and> nfq_open s' = nfq_open ?s1 \<and>
    attached (tq s') = attached (tq ?s1) - {t. \<exists>p \<in> set ps. t \<in> {Rt_timer p, Ack_timer p, Hello_timer p}} \<and>
    (\<exists>evs. out s' = out ?s1 @ evs \<and> (\<forall>ev \<in> set evs. \<exists>d. deletes_route d ev) \<and>
       (\<forall>p \<in> set ps. rt_state (rt ?s1 p) = VALID \<longrightarrow>
          (\<exists>ev \<in> set evs. deletes_route (rt_dest_addr (rt ?s1 p)) ev)))"
    using Cons.prems(2-4) 1(2) by (intro Cons.IH [OF 1(1)]) auto
  then obtain e2 where e2: "out s' = out ?s1 @ e2" "\<forall>ev \<in> set e2. \<exists>d. deletes_route d ev"
    "\<forall>p \<in> set ps. rt_state (rt s p) = VALID \<longrightarrow> (\<exists>ev \<in> set e2. deletes_route (rt_dest_addr (rt s p)) ev)"
    using same by auto
  have "\<exists>ev \<in> set e1. deletes_route (rt_dest_addr (rt s p)) ev" if "rt_state (rt s p) = VALID"
    using e1(2,3) that by (cases e1) auto
  then have "\<exists>evs. out s' = out s @ evs \<and> (\<forall>ev \<in> set evs. \<exists>d. deletes_route d ev) \<and>
     (\<forall>q \<in> set (p # ps). rt_state (rt s q) = VALID \<longrightarrow> (\<exists>ev \<in> set evs. deletes_route (rt_dest_addr (rt s q)) ev))"
    using e1(1,2) e2 by (intro exI [of _ "e1 @ e2"]) auto
  moreover have "live s' = live s - set (p # ps)" using IH 1(2) by auto
  moreover have "attached (tq s') = attached (tq s) -
      {t. \<exists>q \<in> set (p # ps). t \<in> {Rt_timer q, Ack_timer q, Hello_timer q}}"
    using IH 1(3) by auto
  ultimately show ?case using IH by (simp add: rt_table_delete_parts(7))
qed simp

section \<open>Properties\<close>

text \<open>
  C28. Whatever the command line says, whatever messages, packets and readable descriptors the
  daemon is given, and however the clock moves: once initialisation has succeeded, every state the
  main loop reaches is well formed, the program has neither called \<open>exit\<close> nor dereferenced a null
  pointer (an overrun of a buffer or exhausted memory aside, which are separate states), and the
  next turn always ends.
\<close>

theorem daemon_keeps_running:
  assumes "lim < 2 ^ 32" and "start = (\<lambda>k worb. start_node k worb now lim tok rnd)"
    and "main_start msecs opts euid child wireless E start = Some d0"
    and "status (snd d0) = Running" and "runs d0 d"
  shows "wf_node (snd d) \<and> status (snd d) \<in> {Running, Overrun, No_memory} \<and>
    (\<forall>t. \<exists>d'. main_turn t d = Some d')"
proof -
  obtain ifs k worb where "d0 = main_init E ifs (start_node k worb now lim tok rnd)"
    using assms(2,3) by (auto simp: main_start_def split: option.splits if_splits)
  from runs_inv [OF assms(5) main_init_inv [OF assms(1) this assms(4)]] have "daemon_inv d" .
  moreover from this have "\<exists>d'. main_turn t d = Some d'" for t using main_turn_inv [of d t] by auto
  ultimately show ?thesis using invD(1) [of "snd d"] by (simp add: daemon_inv_def loop_inv_def)
qed

theorem daemon_keeps_running_witness:
  "\<exists>d0. main_start (\<lambda>_. 0) [(CHR ''o'', None), (CHR ''D'', None), (CHR ''i'', Some ''wlan0'')] 0 True [] demo_os
       (\<lambda>k worb. start_node k worb tv_zero 1000 (\<lambda>_ _. True) (\<lambda>_. 0)) = Some d0 \<and>
     wf_node (snd d0) \<and> (\<forall>t. \<exists>d'. main_turn t d0 = Some d')"
proof -
  let ?start = "\<lambda>k worb. start_node k worb tv_zero 1000 (\<lambda>_ _. True) (\<lambda>_. 0)"
  let ?d0 = "main_init demo_os ''wlan0'' (?start ((cl_conf start_cmdline)\<lparr>optimized_hellos := True\<rparr>) False)"
  have m: "main_start (\<lambda>_. 0) [(CHR ''o'', None), (CHR ''D'', None), (CHR ''i'', Some ''wlan0'')] 0 True [] demo_os
      ?start = Some ?d0"
    by (simp add: main_start_def parse_option_def on_conf_def start_cmdline_def)
  have "status (snd ?d0) = Running" by (rule demo_main_init) (simp_all add: start_cmdline_def)
  from daemon_keeps_running [OF _ refl m this runs.start] m show ?thesis by simp
qed


lemma packet_queue_destroy_parts:
  assumes "nfq_open s"
  shows "pq_head (PQ (packet_queue_destroy s)) = []" "rt_tbl (packet_queue_destroy s) = rt_tbl s"
    "tq (packet_queue_destroy s) = tq s"
    "out (packet_queue_destroy s) = out s @ map (\<lambda>qp. Ev_verdict (qp_packet_id qp) NF_DROP) (pq_head (PQ s))"
proof -
  have "out (fold (\<lambda>qp s. nfqueue_set_packet_verdict (qp_packet_id qp) NF_DROP s) qs x) =
      out x @ map (\<lambda>qp. Ev_verdict (qp_packet_id qp) NF_DROP) qs \<and>
    rt_tbl (fold (\<lambda>qp s. nfqueue_set_packet_verdict (qp_packet_id qp) NF_DROP s) qs x) = rt_tbl x \<and>
    tq (fold (\<lambda>qp s. nfqueue_set_packet_verdict (qp_packet_id qp) NF_DROP s) qs x) = tq x"
    if "nfq_open x" for qs x
    using that by (induction qs arbitrary: x) simp_all
  from this [OF assms, of "pq_head (PQ s)"] show "pq_head (PQ (packet_queue_destroy s)) = []"
    "rt_tbl (packet_queue_destroy s) = rt_tbl s" "tq (packet_queue_destroy s) = tq s"
    "out (packet_queue_destroy s) = out s @ map (\<lambda>qp. Ev_verdict (qp_packet_id qp) NF_DROP) (pq_head (PQ s))"
    by (simp_all add: packet_queue_destroy_def Let_def)
qed



end
