(* ===== verification/Gui_Log.thy ===== *)
theory Gui_Log
  imports Table_Log Lifecycle
begin

text \<open>
  How the web interface reads the log of the routing table: \<open>_parse_aodv_rtlog\<close> of \<open>gui/app.py\<close>.  What the
  function does with Python's strings and regular expressions is written out for ASCII text; the content of the file, or
  the error of opening it, is an argument.  A regular expression is a function from the text to
  what it matched and the rest; none of those used here depends on backtracking, since no two
  adjacent parts can match the same character.

  Shown here: what the daemon writes is read back as the routing table it had, when every field fits
  its column; and the second precursor of a route is lost.
\<close>

section \<open>Strings of Python\<close>

definition py_space :: "char \<Rightarrow> bool" where
  "py_space c \<longleftrightarrow> (let n = of_char c :: nat in 9 \<le> n \<and> n \<le> 13 \<or> 28 \<le> n \<and> n \<le> 32)"

definition line_break :: "char \<Rightarrow> bool" where
  "line_break c \<longleftrightarrow> (let n = of_char c :: nat in 10 \<le> n \<and> n \<le> 13 \<or> 28 \<le> n \<and> n \<le> 30)"

definition lstrip :: "string \<Rightarrow> string" where
  "lstrip s = dropWhile py_space s"

definition rstrip :: "string \<Rightarrow> string" where
  "rstrip s = rev (dropWhile py_space (rev s))"

definition strip :: "string \<Rightarrow> string" where
  "strip s = rstrip (lstrip s)"

definition after_break :: "string \<Rightarrow> string" where
  "after_break s = (if take 2 s = [CHR 0x0D, CHR 0x0A] then drop 2 s else drop 1 s)"

function splitlines :: "string \<Rightarrow> string list" where
  "splitlines s =
     (if s = [] then []
      else takeWhile (\<lambda>c. \<not> line_break c) s # splitlines (after_break (dropWhile (\<lambda>c. \<not> line_break c) s)))"
  by pat_completeness auto
termination
proof (relation "measure length", simp)
  fix s :: string
  assume "s \<noteq> []"
  let ?r = "dropWhile (\<lambda>c. \<not> line_break c) s"
  have "length ?r \<le> length s" "length (after_break ?r) \<le> length ?r - 1"
    by (rule length_dropWhile_le) (simp add: after_break_def diff_le_mono2)
  moreover have "0 < length s" using \<open>s \<noteq> []\<close> by simp
  ultimately have "length (after_break ?r) < length s" by linarith
  then show "(after_break ?r, s) \<in> measure length" by simp
qed

function py_split :: "string \<Rightarrow> string list" where
  "py_split s =
     (let t = lstrip s in
      if t = [] then []
      else takeWhile (\<lambda>c. \<not> py_space c) t # py_split (dropWhile (\<lambda>c. \<not> py_space c) t))"
  by pat_completeness auto
termination
proof (relation "measure length", simp)
  fix s t :: string
  assume t: "t = lstrip s" "t \<noteq> []"
  then obtain c cs where c: "t = c # cs" "\<not> py_space c"
    by (metis lstrip_def hd_dropWhile list.collapse)
  have "length (dropWhile (\<lambda>c. \<not> py_space c) t) < length t"
    using c length_dropWhile_le [of _ cs] by (simp add: le_imp_less_Suc)
  also have "length t \<le> length s" using t by (simp add: lstrip_def length_dropWhile_le)
  finally show "(dropWhile (\<lambda>c. \<not> py_space c) t, s) \<in> measure length" by simp
qed

declare splitlines.simps [simp del] py_split.simps [simp del]

definition startswith :: "string \<Rightarrow> string \<Rightarrow> bool" where
  "startswith s p \<longleftrightarrow> take (length p) s = p"

fun str_find :: "string \<Rightarrow> string \<Rightarrow> nat option" where
  "str_find [] kw = (if kw = [] then Some 0 else None)"
| "str_find (c # cs) kw = (if startswith (c # cs) kw then Some 0 else map_option Suc (str_find cs kw))"

definition slice :: "nat \<Rightarrow> nat \<Rightarrow> string \<Rightarrow> string" where
  "slice i j s = take (j - i) (drop i s)"

definition str_isdigit :: "string \<Rightarrow> bool" where
  "str_isdigit s \<longleftrightarrow> s \<noteq> [] \<and> list_all isdigit s"

text \<open>\<open>int\<close> of a string: an optional sign, digits, single underscores between digits; \<open>None\<close> is \<open>ValueError\<close>.\<close>

fun int_digits :: "bool \<Rightarrow> nat \<Rightarrow> string \<Rightarrow> nat option" where
  "int_digits prev n [] = (if prev then Some n else None)"
| "int_digits prev n (c # cs) =
     (if isdigit c then int_digits True (10 * n + (of_char c - 48)) cs
      else if c = CHR ''_'' \<and> prev then int_digits False n cs
      else None)"

definition py_int :: "string \<Rightarrow> int option" where
  "py_int s =
     (let t = strip s in
      if startswith t ''-'' then map_option (\<lambda>n. - int n) (int_digits False 0 (drop 1 t))
      else if startswith t ''+'' then map_option int (int_digits False 0 (drop 1 t))
      else map_option int (int_digits False 0 t))"

section \<open>Regular expressions\<close>

definition re_lit :: "string \<Rightarrow> string \<Rightarrow> string option" where
  "re_lit l s = (if startswith s l then Some (drop (length l) s) else None)"

text \<open>One or more characters of a class.\<close>

definition re_plus :: "(char \<Rightarrow> bool) \<Rightarrow> string \<Rightarrow> (string \<times> string) option" where
  "re_plus P s = (let m = takeWhile P s in if m = [] then None else Some (m, dropWhile P s))"

definition re_spaces :: "string \<Rightarrow> string option" where
  "re_spaces s = map_option snd (re_plus py_space s)"

text \<open>Four numbers with dots between them.\<close>

definition re_ip :: "string \<Rightarrow> (string \<times> string) option" where
  "re_ip s =
     Option.bind (re_plus isdigit s) (\<lambda>(a, r1). Option.bind (re_lit ''.'' r1) (\<lambda>r2.
     Option.bind (re_plus isdigit r2) (\<lambda>(b, r3). Option.bind (re_lit ''.'' r3) (\<lambda>r4.
     Option.bind (re_plus isdigit r4) (\<lambda>(c, r5). Option.bind (re_lit ''.'' r5) (\<lambda>r6.
     Option.bind (re_plus isdigit r6) (\<lambda>(d, r7). Some (a @ ''.'' @ b @ ''.'' @ c @ ''.'' @ d, r7))))))))"

definition is_ip :: "string \<Rightarrow> bool" where
  "is_ip s \<longleftrightarrow> (case re_ip s of Some (_, []) \<Rightarrow> True | _ \<Rightarrow> False)"

text \<open>The line of a further precursor: at least 20 blanks, an address, the end of the line.\<close>

definition cont_match :: "string \<Rightarrow> string option" where
  "cont_match line =
     (if length (takeWhile py_space line) < 20 then None
      else case re_ip (lstrip line) of Some (m, []) \<Rightarrow> Some m | _ \<Rightarrow> None)"

section \<open>The parser\<close>

record rt_row =
  row_destination :: string
  row_next_hop :: string
  row_hop_count :: int
  row_state :: string
  row_dest_seqno :: string
  row_lifetime :: int
  row_flags :: string
  row_interface :: string
  row_precursors :: "string list"

record rt_view =
  v_timestamp :: string
  v_host_ip :: string
  v_host_seqno :: int
  v_entries :: int
  v_active :: int
  v_routes :: "rt_row list"
  v_raw :: string
  v_error :: string

text \<open>What reading one line in fixed columns can do: skip the line, give a row, or raise an exception.\<close>

datatype fixed_result = Skip | Row rt_row | Raise

definition col_keywords :: "string list" where
  "col_keywords = [''Destination'', ''Next hop'', ''HC'', ''St.'', ''Seqno'', ''Expire'', ''Flags'', ''Iface'', ''Precursors'']"

text \<open>The columns, used only if the first eight are found: their positions, and that of the last one if found.\<close>

definition col_positions :: "string \<Rightarrow> (nat list \<times> nat option) option" where
  "col_positions ch =
     (let ps = map (str_find ch) col_keywords in
      if list_all (\<lambda>p. p \<noteq> None) (take 8 ps) then Some (map the (take 8 ps), ps ! 8) else None)"

definition fixed_row :: "nat list \<times> nat option \<Rightarrow> string \<Rightarrow> fixed_result" where
  "fixed_row cp line =
     (case cp of (p, p8) \<Rightarrow>
      let dest = strip (slice (p ! 0) (p ! 1) line);
          next_hop = strip (slice (p ! 1) (p ! 2) line);
          hcnt_s = strip (slice (p ! 2) (p ! 3) line);
          state = strip (slice (p ! 3) (p ! 4) line);
          seqno_s = strip (slice (p ! 4) (p ! 5) line);
          expire_s = strip (slice (p ! 5) (p ! 6) line);
          flags = strip (slice (p ! 6) (p ! 7) line);
          iface_end = (case p8 of Some e \<Rightarrow> e | None \<Rightarrow> length line);
          iface = strip (slice (p ! 7) iface_end line);
          prec_str = (case p8 of Some e \<Rightarrow> if e < length line then strip (drop e line) else [] | None \<Rightarrow> []);
          precs = (case py_split prec_str of ip # _ \<Rightarrow> if re_ip ip \<noteq> None then [ip] else [] | [] \<Rightarrow> [])
      in if dest = [] \<or> re_ip dest = None then Skip
         else case (if str_isdigit hcnt_s then py_int hcnt_s else Some 0,
                    if str_isdigit (dropWhile (\<lambda>c. c = CHR ''-'') expire_s) then py_int expire_s else Some 0) of
           (Some hc, Some life) \<Rightarrow>
             Row \<lparr>row_destination = dest, row_next_hop = next_hop, row_hop_count = hc, row_state = state,
               row_dest_seqno = (if seqno_s \<noteq> [] then seqno_s else ''-''), row_lifetime = life, row_flags = flags,
               row_interface = iface, row_precursors = precs\<rparr>
         | _ \<Rightarrow> Raise)"

text \<open>The fallback: the words of the line; those after the sixth are flags, interface and precursors.\<close>

definition is_alpha :: "char \<Rightarrow> bool" where
  "is_alpha c \<longleftrightarrow> (let n = of_char c :: nat in 65 \<le> n \<and> n \<le> 90 \<or> 97 \<le> n \<and> n \<le> 122)"

definition flags_token :: "string \<Rightarrow> bool" where
  "flags_token w \<longleftrightarrow> 1 \<le> length w \<and> length w \<le> 5 \<and> list_all (\<lambda>c. c \<in> set ''URIGurg-'') w"

fun scan_tokens :: "string list \<Rightarrow> string \<times> string \<times> string list \<times> bool \<Rightarrow> string \<times> string \<times> string list" where
  "scan_tokens [] (flags, iface, precs, _) = (flags, iface, precs)"
| "scan_tokens (w # ws) (flags, iface, precs, found) =
     scan_tokens ws
       (if is_ip w then (flags, iface, precs @ [w], found)
        else if \<not> found \<and> w \<noteq> [] \<and> is_alpha (hd w) then
          if flags_token w then (w, iface, precs, found) else (flags, w, precs, True)
        else if found then (flags, iface, precs, found)
        else (flags, w, precs, True))"

definition fallback_row :: "string \<Rightarrow> rt_row option" where
  "fallback_row stripped =
     (let parts = py_split stripped in
      if length parts < 6 then None
      else case (py_int (parts ! 2), py_int (parts ! 5)) of
        (Some hc, Some life) \<Rightarrow>
          (case scan_tokens (drop 6 parts) ([], [], [], False) of (flags, iface, precs) \<Rightarrow>
             Some \<lparr>row_destination = parts ! 0, row_next_hop = parts ! 1, row_hop_count = hc, row_state = parts ! 3,
               row_dest_seqno = parts ! 4, row_lifetime = life, row_flags = flags, row_interface = iface,
               row_precursors = precs\<rparr>)
      | _ \<Rightarrow> None)"

text \<open>\<open>current_route\<close> is the last route of the result, the same object.\<close>

definition add_precursor :: "string \<Rightarrow> rt_row list \<Rightarrow> rt_row list" where
  "add_precursor ip rs = butlast rs @ [(last rs)\<lparr>row_precursors := row_precursors (last rs) @ [ip]\<rparr>]"

definition parse_row :: "(nat list \<times> nat option) option \<Rightarrow> string \<Rightarrow> rt_row list \<Rightarrow> rt_row list" where
  "parse_row cp line rs =
     (let fallback = (case fallback_row (strip line) of Some r \<Rightarrow> rs @ [r] | None \<Rightarrow> rs) in
      case cp of
        Some (p, p8) \<Rightarrow>
          if p ! 7 \<le> length line then
            case fixed_row (p, p8) line of Skip \<Rightarrow> rs | Row r \<Rightarrow> rs @ [r] | Raise \<Rightarrow> fallback
          else fallback
      | None \<Rightarrow> fallback)"

definition parse_line :: "(nat list \<times> nat option) option \<Rightarrow> string \<Rightarrow> rt_row list \<Rightarrow> rt_row list" where
  "parse_line cp line rs =
     (case cont_match line of
        Some ip \<Rightarrow> if rs \<noteq> [] then add_precursor ip rs else parse_row cp line rs
      | None \<Rightarrow> parse_row cp line rs)"

fun parse_lines :: "(nat list \<times> nat option) option \<Rightarrow> string list \<Rightarrow> rt_row list \<Rightarrow> rt_row list" where
  "parse_lines cp [] rs = rs"
| "parse_lines cp (l # ls) rs =
     (if strip l = [] then parse_lines cp ls rs
      else if startswith (strip l) ''# Time:'' then rs
      else parse_lines cp ls (parse_line cp l rs))"

text \<open>The groups of the expression for the first line: time, addresses, sequence number, entries, active entries.\<close>

definition header_match :: "string \<Rightarrow> (string \<times> string \<times> string \<times> string \<times> string) option" where
  "header_match s =
     Option.bind (re_lit ''# Time:'' s) (\<lambda>r. Option.bind (re_spaces r) (\<lambda>r.
     Option.bind (re_plus (\<lambda>c. \<not> py_space c) r) (\<lambda>(g1, r). Option.bind (re_spaces r) (\<lambda>r.
     Option.bind (re_lit ''IP:'' r) (\<lambda>r. Option.bind (re_spaces r) (\<lambda>r.
     Option.bind (re_plus (\<lambda>c. \<not> py_space c) r) (\<lambda>(g2, r). Option.bind (re_spaces r) (\<lambda>r.
     Option.bind (re_lit ''seqno:'' r) (\<lambda>r. Option.bind (re_spaces r) (\<lambda>r.
     Option.bind (re_plus isdigit r) (\<lambda>(g3, r). Option.bind (re_spaces r) (\<lambda>r.
     Option.bind (re_lit ''entries/active:'' r) (\<lambda>r. Option.bind (re_spaces r) (\<lambda>r.
     Option.bind (re_plus isdigit r) (\<lambda>(g4, r). Option.bind (re_lit ''/'' r) (\<lambda>r.
     Option.bind (re_plus isdigit r) (\<lambda>(g5, r). Some (g1, g2, g3, g4, g5))))))))))))))))))"

definition last_header_idx :: "string list \<Rightarrow> nat option" where
  "last_header_idx lines = List.find (\<lambda>i. startswith (lines ! i) ''# Time:'') (rev [0..<length lines])"

text \<open>The file as the function finds it: an error, or its text.\<close>

definition parse_aodv_rtlog :: "string + string \<Rightarrow> rt_view" where
  "parse_aodv_rtlog file =
     (let out = (case file of Inr text \<Rightarrow> strip text | Inl _ \<Rightarrow> []);
          empty = \<lparr>v_timestamp = [], v_host_ip = [], v_host_seqno = 0, v_entries = 0, v_active = 0, v_routes = [],
                   v_raw = out, v_error = (case file of Inl e \<Rightarrow> e | Inr _ \<Rightarrow> [])\<rparr>;
          lines = splitlines (strip out)
      in if strip out = [] then empty
         else case last_header_idx lines of
           None \<Rightarrow> empty
         | Some i \<Rightarrow>
             let hd_view = (case header_match (lines ! i) of
                   Some (g1, g2, g3, g4, g5) \<Rightarrow>
                     empty\<lparr>v_timestamp := g1, v_host_ip := g2, v_host_seqno := the (py_int g3), v_entries := the (py_int g4),
                       v_active := the (py_int g5)\<rparr>
                 | None \<Rightarrow> empty);
                 cp = (if i + 1 < length lines then col_positions (lines ! (i + 1)) else None)
             in hd_view\<lparr>v_routes := parse_lines cp (drop (i + 2) lines) []\<rparr>)"

section \<open>Numbers and addresses\<close>

definition plain :: "string \<Rightarrow> bool" where
  "plain s \<longleftrightarrow> list_all (\<lambda>c. \<not> py_space c) s"

lemma char_classes:
  "isdigit c \<Longrightarrow> \<not> py_space c" "isdigit c \<Longrightarrow> c \<noteq> CHR ''-''" "isdigit c \<Longrightarrow> c \<noteq> CHR ''+''" "isdigit c \<Longrightarrow> c \<noteq> CHR ''#''"
  "line_break c \<Longrightarrow> py_space c" "py_space (CHR '' '')" "\<not> isdigit (CHR ''.'')" "\<not> py_space (CHR ''.'')"
  by (auto simp: isdigit_def py_space_def line_break_def Let_def)

lemma isdigit_digit_char: "d < 10 \<Longrightarrow> isdigit (digit_char d)" "d < 10 \<Longrightarrow> of_char (digit_char d) = 48 + d"
  by (simp_all add: isdigit_def digit_char_def)

lemma dec_digits: "list_all isdigit (dec n)" and dec_nonempty [simp]: "dec n \<noteq> []"
proof (induction n rule: dec.induct)
  case (1 n)
  { case 1 show ?case using "1.IH" by (simp add: dec.simps [of n] isdigit_digit_char) }
  { case 2 show ?case by (simp add: dec.simps [of n]) }
qed

lemma int_digits_append:
  "list_all isdigit xs \<Longrightarrow>
     int_digits prev n (xs @ ys) = int_digits (prev \<or> xs \<noteq> []) (foldl (\<lambda>n c. 10 * n + (of_char c - 48)) n xs) ys"
  by (induction xs arbitrary: prev n) auto

lemma foldl_dec: "foldl (\<lambda>n c. 10 * n + (of_char c - 48)) 0 (dec n) = n"
proof (induction n rule: dec.induct)
  case (1 n)
  show ?case
  proof (cases "n < 10")
    case True
    then show ?thesis by (simp add: dec.simps [of n] isdigit_digit_char)
  next
    case False
    then show ?thesis using 1 by (simp add: dec.simps [of n] isdigit_digit_char)
  qed
qed

lemma int_digits_dec: "int_digits False 0 (dec n) = Some n"
  using int_digits_append [OF dec_digits, of False 0 n "[]"] by (simp add: foldl_dec)

lemma length_dec: "n < 10 ^ k \<Longrightarrow> 0 < k \<Longrightarrow> length (dec n) \<le> k"
proof (induction n arbitrary: k rule: dec.induct)
  case (1 n)
  show ?case
  proof (cases "n < 10")
    case True
    then show ?thesis using 1(3) by (simp add: dec.simps [of n])
  next
    case False
    obtain j where k: "k = Suc j" using 1(3) by (cases k) auto
    moreover have "n div 10 < 10 ^ j" using 1(2) k by simp
    moreover have "0 < j" using False 1(2) k by (cases j) auto
    ultimately show ?thesis using 1(1) [OF False, of j] False by (simp add: dec.simps [of n])
  qed
qed

lemma plain_digits: "list_all isdigit s \<Longrightarrow> plain s"
  by (auto simp: plain_def list_all_iff dest: char_classes(1))

lemma plain_append [simp]: "plain (a @ b) \<longleftrightarrow> plain a \<and> plain b"
  by (simp add: plain_def)

lemma plain_dec [simp]: "plain (dec n)"
  by (rule plain_digits [OF dec_digits])

lemma strip_pad:
  assumes "plain s"
  shows "strip (s @ replicate n (CHR '' '')) = s"
proof -
  have d: "dropWhile py_space xs = xs" if "set xs \<subseteq> set s" for xs
    using assms that by (cases xs) (auto simp: plain_def list_all_iff)
  have r: "dropWhile py_space (replicate n (CHR '' '') @ xs) = dropWhile py_space xs" for xs
    by (induction n) (simp_all add: char_classes)
  have "lstrip (s @ replicate n (CHR '' '')) = (if s = [] then [] else s @ replicate n (CHR '' ''))"
    using r [of "[]"] assms by (cases s) (auto simp: lstrip_def plain_def)
  then show ?thesis by (simp add: strip_def rstrip_def r d)
qed

lemma strip_plain: "plain s \<Longrightarrow> strip s = s"
  using strip_pad [of s 0] by simp

lemma py_int_dec: "py_int (dec n) = Some (int n)"
proof -
  obtain c cs where c: "dec n = c # cs" by (cases "dec n") auto
  then have "isdigit c" using dec_digits [of n] by simp
  then show ?thesis
    using int_digits_dec [of n] char_classes(2,3) [of c]
    unfolding py_int_def Let_def strip_plain [OF plain_dec] by (simp add: startswith_def c del: int_digits.simps)
qed

lemma takeWhile_digits:
  assumes "list_all isdigit s" "r = [] \<or> \<not> isdigit (hd r)"
  shows "takeWhile isdigit (s @ r) = s" "dropWhile isdigit (s @ r) = r"
  using assms by (cases r; auto simp: list_all_iff takeWhile_append2 dropWhile_append2)+

lemma re_plus_dec: "r = [] \<or> \<not> isdigit (hd r) \<Longrightarrow> re_plus isdigit (dec n @ r) = Some (dec n, r)"
  by (simp add: re_plus_def takeWhile_digits [OF dec_digits] Let_def)

lemma re_ip_str: "r = [] \<or> \<not> isdigit (hd r) \<Longrightarrow> re_ip (ip_to_str a @ r) = Some (ip_to_str a, r)"
  by (simp add: re_ip_def ip_to_str_def re_plus_dec re_lit_def startswith_def char_classes Let_def)

lemma plain_ip [simp]: "plain (ip_to_str a)" "ip_to_str a \<noteq> []" "length (ip_to_str a) \<le> 15"
proof -
  have "length (dec (unat (w :: u8))) \<le> 3" for w
    using unsigned_less [of w, where 'a = nat] by (intro length_dec) simp_all
  then have l: "length (dec (unat (put32 a ! i))) \<le> 3" for i .
  show "length (ip_to_str a) \<le> 15" using l [of 0] l [of 1] l [of 2] l [of 3] by (simp add: ip_to_str_def)
  have "plain ''.''" by (simp add: plain_def char_classes)
  then show "plain (ip_to_str a)" "ip_to_str a \<noteq> []" unfolding ip_to_str_def Let_def plain_append by simp_all
qed

lemma ip_starts_with_digit: "isdigit (hd (ip_to_str a))"
  using dec_digits [of "unat (put32 a ! 0)"] by (cases "dec (unat (put32 a ! 0))") (simp_all add: ip_to_str_def)

section \<open>Lines\<close>

lemma rstrip_Cons: "\<not> py_space c \<Longrightarrow> rstrip (c # cs) = c # rstrip cs"
  by (simp add: rstrip_def dropWhile_append3)

lemma rstrip_append: "rstrip b \<noteq> [] \<Longrightarrow> rstrip (a @ b) = a @ rstrip b"
  by (auto simp: rstrip_def dropWhile_append)

lemma rstrip_idem: "rstrip (rstrip s) = rstrip s"
  by (simp add: rstrip_def)

lemma rstrip_pad: "plain s \<Longrightarrow> rstrip (s @ replicate n (CHR '' '')) = s"
  using strip_pad [of s n] rstrip_Cons
  by (cases s) (auto simp: strip_def lstrip_def plain_def rstrip_def char_classes)

lemma lstrip_append: "b \<noteq> [] \<Longrightarrow> \<not> py_space (hd b) \<Longrightarrow> lstrip (a @ b) = lstrip a @ b"
  by (cases b) (auto simp: lstrip_def dropWhile_append)

lemma strip_digit:
  assumes "isdigit c"
  shows "strip (c # cs) = c # rstrip cs" "\<not> startswith (strip (c # cs)) ''# Time:''" "cont_match (c # cs) = None"
  using assms char_classes(1,4) [OF assms]
  by (simp_all add: strip_def lstrip_def rstrip_Cons startswith_def cont_match_def)

lemma splitlines_line:
  assumes "list_all (\<lambda>c. \<not> line_break c) l"
  shows "splitlines (l @ NL # r) = l # splitlines r" "l \<noteq> [] \<Longrightarrow> splitlines l = [l]"
proof -
  have w: "takeWhile (\<lambda>c. \<not> line_break c) (l @ x) = l @ takeWhile (\<lambda>c. \<not> line_break c) x"
    "dropWhile (\<lambda>c. \<not> line_break c) (l @ x) = dropWhile (\<lambda>c. \<not> line_break c) x" for x
    using assms by (auto simp: list_all_iff takeWhile_append2 dropWhile_append2)
  have nl: "line_break NL" "NL \<noteq> CHR 0x0D" by (simp_all add: line_break_def NL_def)
  show "splitlines (l @ NL # r) = l # splitlines r"
    using nl by (simp add: splitlines.simps [of "l @ NL # r"] w after_break_def)
  have "takeWhile (\<lambda>c. \<not> line_break c) l = l" "dropWhile (\<lambda>c. \<not> line_break c) l = []" using w [of "[]"] by simp_all
  then show "splitlines l = [l]" if "l \<noteq> []"
    using that unfolding splitlines.simps [of l] by (metis after_break_def drop_Nil splitlines.simps)
qed

lemma splitlines_lines:
  assumes "\<forall>l \<in> set ls. list_all (\<lambda>c. \<not> line_break c) l" "list_all (\<lambda>c. \<not> line_break c) l" "l \<noteq> []"
  shows "splitlines (concat (map (\<lambda>l. l @ [NL]) ls) @ l) = ls @ [l]"
  using assms by (induction ls) (simp_all add: splitlines_line)

text \<open>A text that ends with a line feed can be split off.\<close>

lemma after_break_append:
  assumes "line_break c"
  shows "\<exists>a'. after_break (c # a @ NL # b) = a' @ b \<and> after_break (c # a @ [NL]) = a' \<and>
    (a' = [] \<or> (\<exists>a''. a' = a'' @ [NL] \<and> length a'' \<le> length a))"
proof (cases a)
  case Nil
  show ?thesis
  proof (cases "c = CHR 0x0D")
    case True
    then show ?thesis using Nil by (simp add: after_break_def NL_def)
  next
    case False
    then show ?thesis using Nil by (auto simp: after_break_def)
  qed
next
  case (Cons d ds)
  show ?thesis
  proof (cases "c = CHR 0x0D \<and> d = CHR 0x0A")
    case True
    then have "after_break (c # a @ NL # b) = (ds @ [NL]) @ b" "after_break (c # a @ [NL]) = ds @ [NL]"
      using Cons by (simp_all add: after_break_def)
    then show ?thesis using Cons by (intro exI [of _ "ds @ [NL]"]) auto
  next
    case False
    then have "after_break (c # a @ NL # b) = (a @ [NL]) @ b" "after_break (c # a @ [NL]) = a @ [NL]"
      using Cons by (auto simp: after_break_def)
    then show ?thesis by (intro exI [of _ "a @ [NL]"]) auto
  qed
qed

lemma splitlines_append: "splitlines (a @ NL # b) = splitlines (a @ [NL]) @ splitlines b"
proof (induction "length a" arbitrary: a rule: less_induct)
  case less
  show ?case
  proof (cases "list_all (\<lambda>c. \<not> line_break c) a")
    case True
    then show ?thesis by (simp add: splitlines_line) (simp add: splitlines.simps)
  next
    case False
    define x where "x = takeWhile (\<lambda>c. \<not> line_break c) a"
    obtain c y where y: "dropWhile (\<lambda>c. \<not> line_break c) a = c # y" "line_break c"
      using False by (metis dropWhile_eq_Nil_conv hd_dropWhile list.collapse list_all_iff)
    have a: "a = x @ c # y" using takeWhile_dropWhile_id [of "\<lambda>c. \<not> line_break c" a] y by (simp add: x_def)
    have x: "\<forall>c \<in> set x. \<not> line_break c" using set_takeWhileD x_def by fast
    obtain a' where a': "after_break (c # y @ NL # b) = a' @ b" "after_break (c # y @ [NL]) = a'"
      "a' = [] \<or> (\<exists>a''. a' = a'' @ [NL] \<and> length a'' \<le> length y)"
      using after_break_append [OF y(2)] by blast
    have "splitlines (a' @ b) = splitlines a' @ splitlines b"
      using a'(3) less(1) by (auto simp: a splitlines.simps [of "[]"])
    then show ?thesis
      using a' x y(2)
      by (simp add: a splitlines.simps [of "x @ c # y @ NL # b"] splitlines.simps [of "x @ c # y @ [NL]"]
          takeWhile_append2 dropWhile_append2)
  qed
qed

lemma find_last:
  "i < n \<Longrightarrow> P i \<Longrightarrow> (\<forall>j. i < j \<longrightarrow> j < n \<longrightarrow> \<not> P j) \<Longrightarrow> List.find P (rev [0..<n]) = Some i"
proof (induction n)
  case (Suc n)
  then show ?case by (cases "i = n") auto
qed simp

lemma last_header_found:
  assumes "startswith h ''# Time:''" "\<forall>l \<in> set ls. \<not> startswith l ''# Time:''"
  shows "last_header_idx (old @ h # ls) = Some (length old)"
proof -
  have "\<not> startswith ((old @ h # ls) ! j) ''# Time:''" if "length old < j" "j < length (old @ h # ls)" for j
    using that assms(2) by (auto simp: nth_append nth_Cons split: nat.split)
  then show ?thesis unfolding last_header_idx_def using assms(1) by (intro find_last) simp_all
qed

section \<open>Rows\<close>

text \<open>An entry whose fields fit their columns and that has at most one precursor, and how it should be read.\<close>

definition iface_name :: "(u32 \<Rightarrow> string option) \<Rightarrow> node \<Rightarrow> ptr \<Rightarrow> string" where
  "iface_name names s p = the (names (rt_ifindex (rt s p)))"

definition row_fits :: "(u32 \<Rightarrow> string option) \<Rightarrow> node \<Rightarrow> ptr \<Rightarrow> bool" where
  "row_fits names s p \<longleftrightarrow> rt_dest_seqno (rt s p) < 100000 \<and> rt_expire s p < 1000000 \<and> length (rt_precursors (rt s p)) \<le> 1 \<and>
     names (rt_ifindex (rt s p)) \<noteq> None \<and> iface_name names s p \<noteq> [] \<and> length (iface_name names s p) \<le> 5 \<and>
     plain (iface_name names s p)"

definition row_of :: "(u32 \<Rightarrow> string option) \<Rightarrow> node \<Rightarrow> ptr \<Rightarrow> rt_row" where
  "row_of names s p =
     \<lparr>row_destination = ip_to_str (rt_dest_addr (rt s p)), row_next_hop = ip_to_str (rt_next_hop (rt s p)),
      row_hop_count = uint (rt_hcnt (rt s p)), row_state = state_to_str (rt_state (rt s p)),
      row_dest_seqno = seqno_str (rt_dest_seqno (rt s p)), row_lifetime = int (rt_expire s p),
      row_flags = rt_flags_to_str (rt_flags (rt s p)), row_interface = iface_name names s p,
      row_precursors = map ip_to_str (rt_precursors (rt s p))\<rparr>"

definition log_cols :: "nat list \<times> nat option" where
  "log_cols = ([0, 16, 32, 36, 40, 46, 53, 59], Some 65)"

lemma col_positions_log: "col_positions log_columns = Some log_cols"
  by code_simp

lemma length_col: "length s \<le> w \<Longrightarrow> n = Suc w \<Longrightarrow> length (pad_right w s @ '' '') = n"
  by (simp add: pad_right_def)

lemma strip_col: "plain s \<Longrightarrow> strip (pad_right w s @ '' '') = s" "plain s \<Longrightarrow> strip (pad_right w s) = s"
  using strip_pad [of s "Suc (w - length s)"] strip_pad [of s "w - length s"]
  by (simp_all add: pad_right_def replicate_append_same)

text \<open>The first seven columns with the blank behind each, and the rest of the line.\<close>

definition rt_prefix :: "node \<Rightarrow> ptr \<Rightarrow> string list" where
  "rt_prefix s p =
     [pad_right 15 (ip_to_str (rt_dest_addr (rt s p))) @ '' '', pad_right 15 (ip_to_str (rt_next_hop (rt s p))) @ '' '',
      pad_right 3 (dec (unat (rt_hcnt (rt s p)))) @ '' '', pad_right 3 (state_to_str (rt_state (rt s p))) @ '' '',
      pad_right 5 (seqno_str (rt_dest_seqno (rt s p))) @ '' '', pad_right 6 (dec (rt_expire s p)) @ '' '',
      pad_right 5 (rt_flags_to_str (rt_flags (rt s p))) @ '' '']"

lemma slices:
  assumes "length a = 16" "length b = 16" "length c = 4" "length d = 4" "length e = 6" "length f = 7" "length g = 6"
    and "l = a @ b @ c @ d @ e @ f @ g @ t"
  shows "slice 0 16 l = a" "slice 16 32 l = b" "slice 32 36 l = c" "slice 36 40 l = d" "slice 40 46 l = e" "slice 46 53 l = f"
    "slice 53 59 l = g" "slice 59 65 l = take 6 t" "drop 65 l = drop 6 t" "length l = 59 + length t"
  using assms(1-7) unfolding assms(8) slice_def by simp_all

lemma plain_fields:
  "plain (state_to_str st)" "plain (rt_flags_to_str f)" "plain (seqno_str sq)" "seqno_str sq \<noteq> []"
  by (auto simp: state_to_str_def rt_flags_to_str_def seqno_str_def split: rt_state.split)
    (simp_all add: plain_def py_space_def)

lemma field_lengths:
  assumes "row_fits names s p"
  shows "length (dec (unat (rt_hcnt (rt s p)))) \<le> 3" "length (seqno_str (rt_dest_seqno (rt s p))) \<le> 5"
    "length (dec (rt_expire s p)) \<le> 6" "length (state_to_str st) \<le> 3" "length (rt_flags_to_str fl) \<le> 5"
proof -
  show "length (dec (unat (rt_hcnt (rt s p)))) \<le> 3"
    using unsigned_less [of "rt_hcnt (rt s p)", where 'a = nat] by (intro length_dec) simp_all
  have "unat (rt_dest_seqno (rt s p)) < 10 ^ 5" using assms by (simp add: row_fits_def word_less_nat_alt)
  then show "length (seqno_str (rt_dest_seqno (rt s p))) \<le> 5" by (simp add: seqno_str_def length_dec)
  show "length (dec (rt_expire s p)) \<le> 6" using assms by (intro length_dec) (simp_all add: row_fits_def)
qed (simp_all add: state_to_str_def rt_flags_to_str_def split: rt_state.split)

lemma py_split_plain: "plain s \<Longrightarrow> s \<noteq> [] \<Longrightarrow> py_split s = [s]"
proof -
  assume "plain s" "s \<noteq> []"
  then have "lstrip s = s" "takeWhile (\<lambda>c. \<not> py_space c) s = s" "dropWhile (\<lambda>c. \<not> py_space c) s = []"
    by (cases s; auto simp: lstrip_def plain_def list_all_iff)+
  moreover have "py_split [] = []" by (simp add: py_split.simps [of "[]"] lstrip_def)
  ultimately show ?thesis using \<open>s \<noteq> []\<close> unfolding py_split.simps [of s] Let_def by metis
qed

lemma dec_value:
  "str_isdigit (dec n)" "dropWhile (\<lambda>c. c = CHR ''-'') (dec n) = dec n"
proof -
  obtain c cs where c: "dec n = c # cs" by (cases "dec n") auto
  moreover have "isdigit c" using dec_digits [of n] by (simp add: c)
  ultimately show "dropWhile (\<lambda>c. c = CHR ''-'') (dec n) = dec n" using char_classes(2) by simp
qed (simp add: str_isdigit_def dec_digits)

lemma fixed_row_fields:
  assumes "strip (slice 0 16 l) = dest" "re_ip dest \<noteq> None" "dest \<noteq> []" "strip (slice 16 32 l) = nh"
    and "strip (slice 32 36 l) = dec hc" "strip (slice 36 40 l) = st" "strip (slice 40 46 l) = sq" "sq \<noteq> []"
    and "strip (slice 46 53 l) = dec ex" "strip (slice 53 59 l) = fl" "strip (slice 59 65 l) = n"
    and "py_split (strip (drop 65 l)) = ps" "ps = [] \<or> (\<exists>ip. ps = [ip] \<and> re_ip ip \<noteq> None)"
  shows "fixed_row log_cols l = Row \<lparr>row_destination = dest, row_next_hop = nh, row_hop_count = int hc, row_state = st,
     row_dest_seqno = sq, row_lifetime = int ex, row_flags = fl, row_interface = n, row_precursors = ps\<rparr>"
proof -
  have "strip [] = []" by (simp add: strip_def lstrip_def rstrip_def)
  then have "(if 65 < length l then strip (drop 65 l) else []) = strip (drop 65 l)" by simp
  then show ?thesis
    using assms(2,3,8,13)
    unfolding fixed_row_def log_cols_def by (auto simp: assms(1,4-7,9-12) dec_value py_int_dec Let_def)
qed

lemma fixed_row_line:
  assumes "row_fits names s p" "strip (take 6 t) = iface_name names s p"
    and "py_split (strip (drop 6 t)) = map ip_to_str (rt_precursors (rt s p))"
  shows "fixed_row log_cols (concat (rt_prefix s p) @ t) = Row (row_of names s p)"
proof -
  note len = field_lengths [OF assms(1)]
  have w: "16 = Suc 15" "4 = Suc 3" "6 = Suc 5" "7 = Suc 6" by simp_all
  define l where "l = concat (rt_prefix s p) @ t"
  have "l = (pad_right 15 (ip_to_str (rt_dest_addr (rt s p))) @ '' '') @ (pad_right 15 (ip_to_str (rt_next_hop (rt s p))) @ '' '') @
      (pad_right 3 (dec (unat (rt_hcnt (rt s p)))) @ '' '') @ (pad_right 3 (state_to_str (rt_state (rt s p))) @ '' '') @
      (pad_right 5 (seqno_str (rt_dest_seqno (rt s p))) @ '' '') @ (pad_right 6 (dec (rt_expire s p)) @ '' '') @
      (pad_right 5 (rt_flags_to_str (rt_flags (rt s p))) @ '' '') @ t"
    unfolding l_def rt_prefix_def by simp
  note sl = slices [OF length_col [OF plain_ip(3) w(1)] length_col [OF plain_ip(3) w(1)] length_col [OF len(1) w(2)]
      length_col [OF len(4) w(2)] length_col [OF len(2) w(3)] length_col [OF len(3) w(4)] length_col [OF len(5) w(3)], OF this]
  have ip: "re_ip (ip_to_str a) \<noteq> None" for a using re_ip_str [of "[]" a] by simp
  have "map ip_to_str (rt_precursors (rt s p)) = [] \<or> (\<exists>ip. map ip_to_str (rt_precursors (rt s p)) = [ip] \<and> re_ip ip \<noteq> None)"
    using assms(1) ip by (cases "rt_precursors (rt s p)") (simp_all add: row_fits_def)
  then have "fixed_row log_cols l = Row \<lparr>row_destination = ip_to_str (rt_dest_addr (rt s p)),
      row_next_hop = ip_to_str (rt_next_hop (rt s p)), row_hop_count = int (unat (rt_hcnt (rt s p))),
      row_state = state_to_str (rt_state (rt s p)), row_dest_seqno = seqno_str (rt_dest_seqno (rt s p)),
      row_lifetime = int (rt_expire s p), row_flags = rt_flags_to_str (rt_flags (rt s p)),
      row_interface = iface_name names s p, row_precursors = map ip_to_str (rt_precursors (rt s p))\<rparr>"
    by (intro fixed_row_fields) (simp_all only: sl strip_col plain_ip plain_dec plain_fields ip assms(2,3) not_False_eq_True)
  then show ?thesis by (simp only: l_def row_of_def uint_nat)
qed

text \<open>The rest of the line: interface and first precursor.\<close>

definition rt_tail :: "(u32 \<Rightarrow> string option) \<Rightarrow> node \<Rightarrow> ptr \<Rightarrow> string" where
  "rt_tail names s p =
     pad_right 5 (iface_name names s p) @
     (case rt_precursors (rt s p) of [] \<Rightarrow> [] | a # _ \<Rightarrow> '' '' @ pad_right 15 (ip_to_str a))"

definition rt_line :: "(u32 \<Rightarrow> string option) \<Rightarrow> node \<Rightarrow> ptr \<Rightarrow> string" where
  "rt_line names s p = concat (rt_prefix s p) @ rt_tail names s p"

lemma rt_lines_fit: "row_fits names s p \<Longrightarrow> rt_lines names s p = [rt_line names s p]"
  by (auto simp: row_fits_def rt_lines_def rt_line_def rt_columns_def rt_prefix_def rt_tail_def iface_name_def
      split: list.split)

lemma rt_tail_read:
  assumes "row_fits names s p" "t \<in> {rt_tail names s p, rstrip (rt_tail names s p)}"
  shows "strip (take 6 t) = iface_name names s p" "py_split (strip (drop 6 t)) = map ip_to_str (rt_precursors (rt s p))" "t \<noteq> []"
proof -
  let ?n = "iface_name names s p"
  have n: "plain ?n" "?n \<noteq> []" "length ?n \<le> 5" using assms(1) by (simp_all add: row_fits_def)
  have e: "strip [] = []" "py_split [] = []" by (simp_all add: strip_def lstrip_def rstrip_def py_split.simps [of "[]"])
  have "strip (take 6 t) = ?n \<and> py_split (strip (drop 6 t)) = map ip_to_str (rt_precursors (rt s p)) \<and> t \<noteq> []"
  proof (cases "rt_precursors (rt s p)")
    case Nil
    then have T: "rt_tail names s p = pad_right 5 ?n" by (simp add: rt_tail_def)
    have "rstrip (pad_right 5 ?n) = ?n" using rstrip_pad [OF n(1)] by (simp add: pad_right_def)
    moreover have "length (pad_right 5 ?n) = 5" using n(3) by (simp add: pad_right_def)
    ultimately show ?thesis
      using assms(2) n strip_col(2) [OF n(1), of 5] strip_plain [OF n(1)] by (auto simp: T Nil e)
  next
    case (Cons a as)
    then have [simp]: "as = []" using assms(1) by (simp add: row_fits_def)
    have T: "rt_tail names s p = (pad_right 5 ?n @ '' '') @ pad_right 15 (ip_to_str a)" by (simp add: rt_tail_def Cons)
    have r: "rstrip (pad_right 15 (ip_to_str a)) = ip_to_str a" using rstrip_pad [OF plain_ip(1)] by (simp add: pad_right_def)
    then have "rstrip (rt_tail names s p) = (pad_right 5 ?n @ '' '') @ ip_to_str a" unfolding T by (subst rstrip_append) simp_all
    with assms(2) have t: "t = (pad_right 5 ?n @ '' '') @ pad_right 15 (ip_to_str a) \<or> t = (pad_right 5 ?n @ '' '') @ ip_to_str a"
      by (auto simp: T)
    have "length (pad_right 5 ?n @ '' '') = 6" by (rule length_col [OF n(3)]) simp
    with t have "take 6 t = pad_right 5 ?n @ '' ''" "drop 6 t \<in> {pad_right 15 (ip_to_str a), ip_to_str a}" "t \<noteq> []"
      by (auto simp del: append_assoc)
    then show ?thesis
      using strip_col [OF n(1), of 5] strip_col(2) [OF plain_ip(1), of 15 a] strip_plain [OF plain_ip(1), of a]
        py_split_plain [OF plain_ip(1,2)]
      by (auto simp: Cons)
  qed
  then show "strip (take 6 t) = ?n" "py_split (strip (drop 6 t)) = map ip_to_str (rt_precursors (rt s p))" "t \<noteq> []" by auto
qed

lemma rt_line_hd: "\<exists>c cs. rt_prefix s p = (c # cs) # tl (rt_prefix s p) \<and> isdigit c"
  using ip_starts_with_digit [of "rt_dest_addr (rt s p)"] plain_ip(2) [of "rt_dest_addr (rt s p)"]
  by (cases "ip_to_str (rt_dest_addr (rt s p))") (auto simp: rt_prefix_def pad_right_def)

lemma rt_line_parsed:
  assumes "row_fits names s p" "l \<in> {rt_line names s p, rstrip (rt_line names s p)}"
  shows "parse_line (Some log_cols) l rs = rs @ [row_of names s p]" "strip l \<noteq> []" "\<not> startswith (strip l) ''# Time:''"
    "\<not> startswith l ''# Time:''" "l \<noteq> []"
proof -
  have "rstrip (rt_tail names s p) \<noteq> []" using rt_tail_read(3) [OF assms(1)] by blast
  then have "rstrip (rt_line names s p) = concat (rt_prefix s p) @ rstrip (rt_tail names s p)"
    unfolding rt_line_def by (rule rstrip_append)
  with assms(2) obtain t where t: "l = concat (rt_prefix s p) @ t" "t \<in> {rt_tail names s p, rstrip (rt_tail names s p)}"
    by (auto simp: rt_line_def)
  have row: "fixed_row log_cols l = Row (row_of names s p)"
    unfolding t(1) using rt_tail_read [OF assms(1) t(2)] by (intro fixed_row_line [OF assms(1)])
  obtain c cs where c: "l = c # cs" "isdigit c"
    using rt_line_hd [of s p] unfolding t(1) by (metis append_Cons concat.simps(2))
  note d = strip_digit [OF c(2), of cs]
  show "strip l \<noteq> []" "\<not> startswith (strip l) ''# Time:''" "l \<noteq> []" using d by (simp_all add: c)
  show "\<not> startswith l ''# Time:''" using c char_classes(4) by (auto simp: startswith_def)
  have "59 \<le> length l"
    using length_col [OF plain_ip(3) refl] field_lengths [OF assms(1)]
    by (simp add: t(1) rt_prefix_def pad_right_def)
  then show "parse_line (Some log_cols) l rs = rs @ [row_of names s p]"
    using row d(3) by (simp add: parse_line_def parse_row_def c(1) [symmetric] log_cols_def)
qed

lemma rt_lines_parsed:
  assumes "list_all2 (\<lambda>p l. row_fits names s p \<and> l \<in> {rt_line names s p, rstrip (rt_line names s p)}) ps ls"
  shows "parse_lines (Some log_cols) ls rs = rs @ map (row_of names s) ps"
  using assms
proof (induction ps ls arbitrary: rs rule: list_all2_induct)
  case (Cons p ps l ls)
  then show ?case using rt_line_parsed [of names s p l] by simp
qed simp

section \<open>The file\<close>

definition one_line :: "string \<Rightarrow> bool" where
  "one_line s \<longleftrightarrow> list_all (\<lambda>c. \<not> line_break c) s"

lemma one_line_simps [simp]:
  "one_line []" "one_line (a @ b) \<longleftrightarrow> one_line a \<and> one_line b" "one_line (c # s) \<longleftrightarrow> \<not> line_break c \<and> one_line s"
  "one_line (pad_right w a) \<longleftrightarrow> one_line a" "one_line (concat ss) \<longleftrightarrow> (\<forall>s \<in> set ss. one_line s)"
  by (auto simp: one_line_def pad_right_def list_all_iff line_break_def)

lemma plain_one_line: "plain s \<Longrightarrow> one_line s"
  by (auto simp: plain_def one_line_def list_all_iff dest: char_classes(5))

lemma rstrip_one_line: "one_line s \<Longrightarrow> one_line (rstrip s)"
  using set_dropWhileD [of _ py_space "rev s"] by (auto simp: one_line_def rstrip_def list_all_iff)

lemma rt_line_one_line: "row_fits names s p \<Longrightarrow> one_line (rt_line names s p)"
  by (auto simp: rt_line_def rt_prefix_def rt_tail_def plain_one_line plain_fields row_fits_def line_break_def
      split: list.split)

lemma plain_header:
  "plain (zero_left w (dec n))" "zero_left w (dec n) \<noteq> []" "plain (devs_ip_to_str s)"
proof -
  show "plain (devs_ip_to_str s)"
    by (induction "[0..<MAX_NR_INTERFACES]") (auto simp: devs_ip_to_str_def plain_def py_space_def list_all_iff
        dest: plain_ip(1) [unfolded plain_def list_all_iff, rule_format])
  have "plain (replicate k (CHR ''0''))" for k by (simp add: plain_def list_all_iff py_space_def)
  then show "plain (zero_left w (dec n))" "zero_left w (dec n) \<noteq> []" by (simp_all add: zero_left_def)
qed

text \<open>The time of day, as it is printed.\<close>

definition log_time :: "nat \<times> nat \<times> nat \<Rightarrow> node \<Rightarrow> string" where
  "log_time tm s =
     (case tm of (h, m, sec) \<Rightarrow>
        zero_left 2 (dec h) @ '':'' @ zero_left 2 (dec m) @ '':'' @ zero_left 2 (dec sec) @ ''.'' @
        zero_left 3 (dec (nat (tv_usec (clock s) div 1000))))"

lemma log_time_plain: "plain (log_time tm s)" "log_time tm s \<noteq> []"
proof -
  have "plain (CHR '':'' # r) = plain r" "plain (CHR ''.'' # r) = plain r" for r by (simp_all add: plain_def py_space_def)
  then show "plain (log_time tm s)" by (simp add: log_time_def plain_header split: prod.split)
qed (simp add: log_time_def split: prod.split)

lemma log_header_eq:
  "log_header tm s =
     ''# Time:'' @ '' '' @ log_time tm s @ '' '' @ ''IP:'' @ '' '' @ devs_ip_to_str s @ '' '' @ ''seqno:'' @ '' '' @
     dec (unat (seqno (this_host s))) @ '' '' @ ''entries/active:'' @ '' '' @ dec (unat (num_entries (rt_tbl s))) @ ''/'' @
     dec (unat (num_active (rt_tbl s)))"
  by (simp add: log_header_def log_time_def split: prod.split)

lemma log_header_one_line: "one_line (log_header tm s)" "startswith (log_header tm s) ''# Time:''"
  using log_time_plain [of tm s] plain_header(3) [of s]
  by (simp_all add: log_header_eq plain_one_line startswith_def line_break_def)

lemma re_plus_word:
  "plain w \<Longrightarrow> w \<noteq> [] \<Longrightarrow> re_plus (\<lambda>c. \<not> py_space c) (w @ CHR '' '' # r) = Some (w, CHR '' '' # r)"
  by (auto simp: re_plus_def Let_def plain_def list_all_iff takeWhile_append2 dropWhile_append2 char_classes(6))

lemma re_spaces_one: "r \<noteq> [] \<Longrightarrow> \<not> py_space (hd r) \<Longrightarrow> re_spaces (CHR '' '' # r) = Some r"
  by (cases r) (simp_all add: re_spaces_def re_plus_def char_classes(6))

lemma hd_plain: "plain w \<Longrightarrow> w \<noteq> [] \<Longrightarrow> w @ r \<noteq> [] \<and> \<not> py_space (hd (w @ r))"
  by (cases w) (simp_all add: plain_def)

lemma header_match_log:
  assumes "devs_ip_to_str s \<noteq> []"
  shows "header_match (log_header tm s) = Some (log_time tm s, devs_ip_to_str s, dec (unat (seqno (this_host s))),
    dec (unat (num_entries (rt_tbl s))), dec (unat (num_active (rt_tbl s))))"
proof -
  have lit: "re_lit a (a @ r) = Some r" for a r by (simp add: re_lit_def startswith_def)
  have sp: "re_spaces (CHR '' '' # w @ r) = Some (w @ r)" if "plain w" "w \<noteq> []" for w r
    using hd_plain [OF that] by (intro re_spaces_one) auto
  have d: "re_plus isdigit (dec n @ CHR '' '' # r) = Some (dec n, CHR '' '' # r)"
    "re_plus isdigit (dec n @ CHR ''/'' # r) = Some (dec n, CHR ''/'' # r)" "re_plus isdigit (dec n) = Some (dec n, [])" for n r
    using re_plus_dec [of "CHR '' '' # r" n] re_plus_dec [of "CHR ''/'' # r" n] re_plus_dec [of "[]" n]
    by (simp_all add: isdigit_def)
  have w: "plain ''IP:''" "plain ''seqno:''" "plain ''entries/active:''" by (simp_all add: plain_def py_space_def)
  show ?thesis
    unfolding header_match_def log_header_eq
    by (simp add: lit [of "''# Time:''", simplified] lit [of "''IP:''", simplified] lit [of "''seqno:''", simplified]
        lit [of "''entries/active:''", simplified] lit [of "''/''", simplified] sp log_time_plain plain_header(3) assms d
        re_plus_word sp [OF w(1), simplified] sp [OF w(2), simplified] sp [OF w(3), simplified]
        sp [OF plain_dec dec_nonempty, of _ "[]", simplified])
qed

text \<open>The lines the parser works on: those of the old text, and what was written last without its end.\<close>

lemma log_lines:
  assumes "old = [] \<or> last old = NL" "rstrip l \<noteq> []" "\<forall>x \<in> set (h # ls @ [l]). one_line x" "h \<noteq> []" "\<not> py_space (hd h)"
  defines "res \<equiv> strip (old @ concat (map (\<lambda>l. l @ [NL]) (h # ls @ [l])))"
  shows "strip res = res" "\<exists>ol. splitlines res = ol @ h # ls @ [rstrip l]" "res \<noteq> []"
proof -
  define X where "X = concat (map (\<lambda>l. l @ [NL]) (h # ls))"
  have X: "X \<noteq> []" "hd X = hd h" using assms(4) by (simp_all add: X_def)
  have nl: "rstrip (l @ [NL]) = rstrip l" by (simp add: rstrip_def NL_def py_space_def)
  define Old where "Old = lstrip old"
  have hd: "X @ z \<noteq> [] \<and> \<not> py_space (hd (X @ z))" for z using X assms(5) by simp
  have "concat (map (\<lambda>l. l @ [NL]) (h # ls @ [l])) = X @ (l @ [NL])" by (simp add: X_def)
  then have "res = rstrip (lstrip (old @ (X @ (l @ [NL]))))" unfolding res_def strip_def by (simp only:)
  also have "lstrip (old @ (X @ (l @ [NL]))) = (Old @ X) @ (l @ [NL])" using lstrip_append hd by (simp add: Old_def)
  also have "rstrip ((Old @ X) @ (l @ [NL])) = (Old @ X) @ rstrip l" using rstrip_append [of "l @ [NL]" "Old @ X"] nl assms(2) by simp
  finally have res: "res = Old @ X @ rstrip l" by simp
  have "lstrip (Old @ X @ rstrip l) = Old @ X @ rstrip l" using lstrip_append [of "X @ rstrip l" Old] hd by (simp add: Old_def lstrip_def)
  moreover have "rstrip ((Old @ X) @ rstrip l) = (Old @ X) @ rstrip l"
    using rstrip_append [of "rstrip l" "Old @ X"] assms(2) by (simp add: rstrip_idem)
  ultimately show "strip res = res" by (simp add: res strip_def)
  show "res \<noteq> []" using X by (simp add: res)
  have "splitlines (X @ rstrip l) = (h # ls) @ [rstrip l]"
    unfolding X_def using assms(2,3) rstrip_one_line by (intro splitlines_lines) (auto simp: one_line_def)
  moreover have "Old = [] \<or> (\<exists>a. Old = a @ [NL])"
  proof (cases "Old = []")
    case False
    then have "last Old = last old" using takeWhile_dropWhile_id [of py_space old] by (metis Old_def last_appendR lstrip_def)
    with False assms(1) show ?thesis by (metis Old_def append_butlast_last_id dropWhile.simps(1) lstrip_def)
  qed simp
  ultimately show "\<exists>ol. splitlines res = ol @ h # ls @ [rstrip l]"
    unfolding res using splitlines_append [of _ "X @ rstrip l"] by auto
qed

lemma parse_rtlog_eq:
  assumes "res = strip txt" "strip res = res" "res \<noteq> []" "splitlines res = ol @ h # c # ls"
    and "last_header_idx (splitlines res) = Some (length ol)" "header_match h = Some (g1, g2, g3, g4, g5)"
    and "col_positions c = cp" "parse_lines cp ls [] = rows"
  shows "parse_aodv_rtlog (Inr txt) = \<lparr>v_timestamp = g1, v_host_ip = g2, v_host_seqno = the (py_int g3),
    v_entries = the (py_int g4), v_active = the (py_int g5), v_routes = rows, v_raw = res, v_error = []\<rparr>"
proof -
  have "(ol @ h # c # ls) ! length ol = h" "(ol @ h # c # ls) ! (length ol + 1) = c" "drop (length ol + 2) (ol @ h # c # ls) = ls"
    by (simp_all add: nth_append)
  then show ?thesis
    unfolding parse_aodv_rtlog_def sum.case assms(1) [symmetric] assms(2) Let_def assms(5) option.case
    by (simp add: assms(3,4,6-8))
qed

section \<open>Properties\<close>

text \<open>
  C36. What the daemon writes about its routing table the web interface reads back: after any earlier
  content of the log, the rows it shows are exactly the entries of the table in their order, with
  addresses, hop counts, states, sequence numbers, lifetimes, flags, interfaces and precursors, and the first line gives
  time, addresses, sequence number and counters of the node.  This holds when each field fits its
  column (sequence numbers below 100000, less than 1000 s to expiry, names of up to five characters) and
  no entry has more than one precursor.
\<close>

theorem rtlog_roundtrip:
  assumes "wf_node s" and "num_entries (rt_tbl s) \<noteq> 0" and "\<forall>p \<in> set (entries (rt_tbl s)). row_fits names s p"
    and "devs_ip_to_str s \<noteq> []" and "old = [] \<or> last old = NL"
    and "v = parse_aodv_rtlog (Inr (old @ rt_log_text names tm s))"
  shows "v_routes v = map (row_of names s) (entries (rt_tbl s)) \<and> v_timestamp v = log_time tm s \<and>
    v_host_ip v = devs_ip_to_str s \<and> v_host_seqno v = uint (seqno (this_host s)) \<and>
    v_entries v = uint (num_entries (rt_tbl s)) \<and> v_active v = uint (num_active (rt_tbl s)) \<and> v_error v = []"
proof -
  have "entries (rt_tbl s) \<noteq> []" using table_wfD(7) [OF invD(2) [OF assms(1)]] assms(2) by auto
  then obtain ps p where ps: "entries (rt_tbl s) = ps @ [p]" by (metis append_butlast_last_id)
  have fit: "row_fits names s q" if "q \<in> set (ps @ [p])" for q using assms(3) that by (auto simp: ps)
  let ?ls = "map (rt_line names s) ps" and ?l = "rt_line names s p" and ?h = "log_header tm s"
  have "concat (map (rt_lines names s) (ps @ [p])) = ?ls @ [?l]"
    using fit rt_lines_fit [of names s] by (induction ps) auto
  then have wr: "rt_log_text names tm s = concat (map (\<lambda>l. l @ [NL]) (?h # (log_columns # ?ls) @ [?l]))"
    using assms(2) by (simp add: rt_log_text_def ps)
  have cols: "one_line log_columns" "\<not> startswith log_columns ''# Time:''"
    by (simp_all add: log_columns_def line_break_def) (simp add: pad_right_def startswith_def)
  have r: "rstrip ?l \<noteq> []" using rt_line_parsed(5) [OF fit, of p "rstrip ?l"] by simp
  have ol: "\<forall>x \<in> set (?h # (log_columns # ?ls) @ [?l]). one_line x"
    using fit rt_line_one_line log_header_one_line(1) cols(1) by auto
  have hd: "?h \<noteq> []" "\<not> py_space (hd ?h)" by (simp_all add: log_header_eq py_space_def)
  define res where "res = strip (old @ rt_log_text names tm s)"
  obtain olds where res: "strip res = res" "splitlines res = olds @ ?h # log_columns # ?ls @ [rstrip ?l]" "res \<noteq> []"
    using log_lines [OF assms(5) r ol hd] unfolding res_def wr append_Cons [of log_columns] by blast
  have "\<forall>x \<in> set (log_columns # ?ls @ [rstrip ?l]). \<not> startswith x ''# Time:''"
    using cols(2) rt_line_parsed(4) [OF fit] by auto
  then have idx: "last_header_idx (splitlines res) = Some (length olds)"
    unfolding res(2) by (rule last_header_found [OF log_header_one_line(2)])
  have "list_all2 (\<lambda>q x. row_fits names s q \<and> x \<in> {rt_line names s q, rstrip (rt_line names s q)}) (ps @ [p]) (?ls @ [rstrip ?l])"
    using fit by (intro list_all2_appendI) (auto simp: list_all2_map2 list_all2_same)
  note rows = rt_lines_parsed [OF this, of "[]"]
  show ?thesis
    unfolding assms(6) parse_rtlog_eq [OF res_def res(1,3,2) idx header_match_log [OF assms(4)] col_positions_log rows]
    by (simp add: ps py_int_dec)
qed

theorem rtlog_roundtrip_witness:
  "v_routes (parse_aodv_rtlog (Inr (rt_log_text (\<lambda>_. Some ''eth0'') (9, 30, 0) demo_routes))) =
     map (row_of (\<lambda>_. Some ''eth0'') demo_routes) [1, 0]"
proof -
  have e: "entries (rt_tbl demo_routes) = [1, 0]" by (simp add: demo_routes_def entries_demo_table)
  have "plain ''eth0''" by (simp add: plain_def py_space_def)
  then have "\<forall>p \<in> set (entries (rt_tbl demo_routes)). row_fits (\<lambda>_. Some ''eth0'') demo_routes p"
    unfolding e
    by (simp add: row_fits_def iface_name_def rt_expire_def demo_routes_def demo_table_def far_route_def neighbour_route_def
        no_route_def demo_tq_def demo_node_def timeval_diff_def)
  moreover have "num_entries (rt_tbl demo_routes) \<noteq> 0" by (simp add: demo_routes_def demo_table_def)
  moreover have "enabled (DEV_NR demo_routes 0)"
    by (simp add: DEV_NR_def demo_routes_def demo_node_def demo_host_def demo_dev_def)
  then have "devs_ip_to_str demo_routes \<noteq> []" by (auto simp: devs_ip_to_str_def upt_rec)
  ultimately show ?thesis
    using rtlog_roundtrip [OF demo_routes_wf _ _ _ _ refl, of "\<lambda>_. Some ''eth0''" "[]" "(9, 30, 0)"] by (simp add: e)
qed

text \<open>
  The second and every further precursor of an entry is lost, unless its address has 15 characters or it
  stands at the very end of the file: the daemon fills the line up with blanks, while the
  expression that recognises it wants the line to end after the address.
\<close>

theorem rtlog_loses_precursor:
  assumes "length (ip_to_str a) < 15"
  shows "parse_line (Some log_cols) (prec_line a) rs = rs"
proof -
  define k where "k = 15 - length (ip_to_str a)"
  have k: "0 < k" using assms by (simp add: k_def)
  have l: "prec_line a = replicate 65 (CHR '' '') @ ip_to_str a @ replicate k (CHR '' '')"
    by (simp add: prec_line_def pad_left_def pad_right_def k_def numeral_eq_Suc replicate_append_same)
  have sp: "py_space (CHR '' '')" "\<not> isdigit (CHR '' '')" by (simp_all add: py_space_def isdigit_def)
  have "lstrip (prec_line a) = ip_to_str a @ replicate k (CHR '' '')"
    using lstrip_append [of "ip_to_str a @ replicate k (CHR '' '')" "replicate 65 (CHR '' '')"] hd_plain [OF plain_ip(1,2)] sp
    by (simp add: l lstrip_def [of "replicate _ _"])
  then have "cont_match (prec_line a) = None"
    using k sp re_ip_str [of "replicate k (CHR '' '')" a] by (cases k) (auto simp: cont_match_def)
  moreover have "slice 0 16 (prec_line a) = replicate 16 (CHR '' '')"
    by (simp add: l slice_def take_append min_def)
  then have "strip (slice 0 16 (prec_line a)) = []" using strip_pad [of "[]" 16] by (simp add: plain_def)
  then have "fixed_row log_cols (prec_line a) = Skip" by (simp add: fixed_row_def log_cols_def Let_def)
  ultimately show ?thesis by (simp add: parse_line_def parse_row_def log_cols_def l)
qed

end
