(* ===== verification/Gui_Topology.thy ===== *)
theory Gui_Topology
  imports Gui_Log
begin

text \<open>
  The web interface as a state machine: the nodes and links it keeps in memory and the requests that
  change them, \<open>gui/app.py\<close>.  Each request is one step.  What the system answers to the n-th command or question
  is an argument of the model, so that every command may fail, run into its timeout or raise.  The path of the daemon
  is an argument too.  Strings are byte strings; log messages to the browsers, the threads that forward them and
  waiting are not modelled.

  Shown here: whatever is requested and whatever fails, every link joins two different nodes that
  exist, no two links share a name or an address, and each node lists exactly the addresses of its links.
\<close>

section \<open>State\<close>

record glink =
  l_id :: string
  l_src :: string
  l_dst :: string
  l_veth_src :: string
  l_veth_dst :: string
  l_ip_src :: string
  l_ip_dst :: string
  l_up :: bool

text \<open>How a command ends: \<open>subprocess.run\<close> returns, runs into the timeout, or raises an exception.\<close>

datatype outcome = Exits string string int | Timeout | Raises string

text \<open>
  What the program shows of a node, and what it does: commands through \<open>run_cmd\<close>, other calls of \<open>subprocess.run\<close>,
  processes started and stopped, files removed, the topology sent to the browsers.
\<close>

record node_view =
  v_name :: string
  v_ips :: "string list"
  v_alive :: bool
  v_aodvd :: bool

record topology_event =
  e_nodes :: "node_view list"
  e_links :: "glink list"
  e_nfqueue :: bool

datatype gact =
    Exec "string list"
  | Call "string list"
  | Spawn "string list"
  | Terminate string
  | Unlink string
  | Emit topology_event

text \<open>
  \<open>topology\<close> with the nodes and their addresses in the order of the dictionary, \<open>aodvd_procs\<close> by its keys,
  \<open>_link_counter\<close>; then the answers of the system, how many have been used, and what was done.
\<close>

record gui =
  g_nodes :: "(string \<times> string list) list"
  g_links :: "glink list"
  g_nfqueue :: bool
  g_procs :: "string list"
  g_counter :: nat
  g_sys :: "nat \<Rightarrow> outcome"
  g_pos :: nat
  g_acts :: "gact list"

definition gui_start :: "(nat \<Rightarrow> outcome) \<Rightarrow> gui" where
  "gui_start sys = \<lparr>g_nodes = [], g_links = [], g_nfqueue = False, g_procs = [], g_counter = 0, g_sys = sys, g_pos = 0,
     g_acts = []\<rparr>"

datatype reply = Done | Refused nat | Crashed

section \<open>Commands\<close>

text \<open>\<open>shlex.split\<close>: between words, in a word, in quotes, after a backslash (outside or inside quotes).\<close>

datatype shlex_state = Blank | Word | Quote char | Escape "char option"

definition shlex_space :: "char \<Rightarrow> bool" where
  "shlex_space c \<longleftrightarrow> c \<in> set [CHR '' '', CHR 0x09, CHR 0x0D, CHR 0x0A]"

definition emit_token :: "string \<Rightarrow> bool \<Rightarrow> string + string list \<Rightarrow> string + string list" where
  "emit_token tok quoted rest = (if tok \<noteq> [] \<or> quoted then map_sum id ((#) tok) rest else rest)"

fun shlex :: "shlex_state \<Rightarrow> string \<Rightarrow> bool \<Rightarrow> string \<Rightarrow> string + string list" where
  "shlex Blank tok q [] = emit_token tok q (Inr [])"
| "shlex Word tok q [] = emit_token tok q (Inr [])"
| "shlex (Quote _) tok q [] = Inl ''No closing quotation''"
| "shlex (Escape _) tok q [] = Inl ''No escaped character''"
| "shlex (Quote d) tok q (c # cs) =
     (if c = d then shlex Word tok True cs
      else if c = CHR 0x5C \<and> d = CHR 0x22 then shlex (Escape (Some d)) tok True cs
      else shlex (Quote d) (tok @ [c]) True cs)"
| "shlex (Escape None) tok q (c # cs) = shlex Word (tok @ [c]) q cs"
| "shlex (Escape (Some d)) tok q (c # cs) =
     shlex (Quote d) (tok @ (if c \<noteq> CHR 0x5C \<and> c \<noteq> d then [CHR 0x5C] else []) @ [c]) q cs"
| "shlex s tok q (c # cs) =
     (if shlex_space c then emit_token tok q (shlex Blank [] False cs)
      else if c = CHR 0x5C then shlex (Escape None) tok q cs
      else if c = CHR 0x27 \<or> c = CHR 0x22 then shlex (Quote c) tok q cs
      else shlex Word (tok @ [c]) q cs)"

definition shlex_split :: "string \<Rightarrow> string + string list" where
  "shlex_split s = shlex Blank [] False s"

definition act :: "gact \<Rightarrow> gui \<Rightarrow> gui" where
  "act a g = g\<lparr>g_acts := g_acts g @ [a]\<rparr>"

text \<open>The next answer of the system.\<close>

definition answer :: "gui \<Rightarrow> outcome \<times> gui" where
  "answer g = (g_sys g (g_pos g), g\<lparr>g_pos := g_pos g + 1\<rparr>)"

definition run_cmd :: "string \<Rightarrow> string option \<Rightarrow> gui \<Rightarrow> (string \<times> string \<times> int) \<times> gui" where
  "run_cmd cmd netns g =
     (let c = (case netns of Some ns \<Rightarrow> if ns = [] then cmd else ''ip netns exec '' @ ns @ '' '' @ cmd | None \<Rightarrow> cmd)
      in case shlex_split c of
           Inl msg \<Rightarrow> (([], msg, 1), g)
         | Inr args \<Rightarrow>
             (case answer (act (Exec args) g) of
                (Exits txt err rc, g1) \<Rightarrow> ((strip txt, strip err, rc), g1)
              | (Timeout, g1) \<Rightarrow> (([], ''Command timed out'', 1), g1)
              | (Raises msg, g1) \<Rightarrow> (([], msg, 1), g1)))"

text \<open>A command whose result is not looked at, and whether one succeeded.\<close>

definition run :: "string \<Rightarrow> string option \<Rightarrow> gui \<Rightarrow> gui" where
  "run cmd netns g = snd (run_cmd cmd netns g)"

definition succeeds :: "string \<Rightarrow> gui \<Rightarrow> bool \<times> gui" where
  "succeeds cmd g = (case run_cmd cmd None g of ((_, _, rc), g1) \<Rightarrow> (rc = 0, g1))"

text \<open>\<open>subprocess.run\<close> without a handler, and \<open>subprocess.Popen\<close>: whether they return rather than raise.\<close>

definition returns :: "gact \<Rightarrow> gui \<Rightarrow> bool \<times> gui" where
  "returns a g = (case answer (act a g) of (r, g1) \<Rightarrow> (case r of Raises _ \<Rightarrow> False | _ \<Rightarrow> True, g1))"

text \<open>\<open>poll() is None\<close> for a process of the dictionary: the process has not exited.\<close>

definition alive :: "gui \<Rightarrow> bool \<times> gui" where
  "alive g = (case answer g of (r, g1) \<Rightarrow> (case r of Exits _ _ _ \<Rightarrow> False | _ \<Rightarrow> True, g1))"

definition live_ns :: "gui \<Rightarrow> string list \<times> gui" where
  "live_ns g =
     (case run_cmd ''ip netns list'' None g of ((txt, _, _), g1) \<Rightarrow>
        (map (\<lambda>l. hd (py_split l)) (filter (\<lambda>l. strip l \<noteq> []) (splitlines txt)), g1))"

definition ns_exists :: "string \<Rightarrow> gui \<Rightarrow> bool \<times> gui" where
  "ns_exists ns g = (case live_ns g of (ls, g1) \<Rightarrow> (ns \<in> set ls, g1))"

text \<open>\<open>name in aodvd_procs and aodvd_procs[name].poll() is None\<close>.\<close>

definition aodvd_runs :: "string \<Rightarrow> gui \<Rightarrow> bool \<times> gui" where
  "aodvd_runs ns g = (if ns \<in> set (g_procs g) then alive g else (False, g))"

fun view_nodes :: "string list \<Rightarrow> (string \<times> string list) list \<Rightarrow> gui \<Rightarrow> node_view list \<times> gui" where
  "view_nodes lns [] g = ([], g)"
| "view_nodes lns ((n, ips) # ns) g =
     (case aodvd_runs n g of (r, g1) \<Rightarrow>
      case view_nodes lns ns g1 of (vs, g2) \<Rightarrow>
        (\<lparr>v_name = n, v_ips = ips, v_alive = n \<in> set lns, v_aodvd = r\<rparr> # vs, g2))"

definition build_topology_event :: "gui \<Rightarrow> topology_event \<times> gui" where
  "build_topology_event g =
     (case live_ns g of (lns, g1) \<Rightarrow>
      case view_nodes lns (g_nodes g1) g1 of (vs, g2) \<Rightarrow>
        (\<lparr>e_nodes = vs, e_links = g_links g2, e_nfqueue = g_nfqueue g2\<rparr>, g2))"

definition emit_topology :: "gui \<Rightarrow> gui" where
  "emit_topology g = (case build_topology_event g of (e, g1) \<Rightarrow> act (Emit e) g1)"

text \<open>The name in a line such as \<open>4: vAB0s@if5: ...\<close>: the shortest word before an at sign or colon.\<close>

fun lazy_word :: "string \<Rightarrow> string \<Rightarrow> string option" where
  "lazy_word acc [] = None"
| "lazy_word acc (c # cs) =
     (if acc \<noteq> [] \<and> (c = CHR ''@'' \<or> c = CHR '':'') then Some acc
      else if py_space c then None
      else lazy_word (acc @ [c]) cs)"

definition iface_of_line :: "string \<Rightarrow> string option" where
  "iface_of_line l =
     Option.bind (re_plus isdigit l) (\<lambda>(_, r). Option.bind (re_lit '':'' r) (\<lambda>r. Option.bind (re_spaces r) (lazy_word [])))"

definition get_node_ifaces :: "string \<Rightarrow> gui \<Rightarrow> string list \<times> gui" where
  "get_node_ifaces ns g =
     (case run_cmd ''ip -o link show'' (Some ns) g of ((txt, _, _), g1) \<Rightarrow>
        (filter (\<lambda>n. n \<noteq> ''lo'') (List.map_filter iface_of_line (splitlines txt)), g1))"

section \<open>Names and addresses\<close>

definition next_link_index :: "gui \<Rightarrow> nat \<times> gui" where
  "next_link_index g = (g_counter g, g\<lparr>g_counter := g_counter g + 1\<rparr>)"

definition link_ips :: "nat \<Rightarrow> string \<times> string" where
  "link_ips index =
     (let net = ''10.'' @ dec (index div 255) @ ''.'' @ dec (index mod 255 + 1)
      in (net @ ''.1'', net @ ''.2''))"

text \<open>\<open>replace("ns-", "")\<close>.\<close>

fun drop_ns :: "string \<Rightarrow> string" where
  "drop_ns (a # b # c # cs) = (if [a, b, c] = ''ns-'' then drop_ns cs else a # drop_ns (b # c # cs))"
| "drop_ns cs = cs"

definition veth_names :: "string \<Rightarrow> string \<Rightarrow> nat \<Rightarrow> string \<times> string" where
  "veth_names src dst index =
     (let n = ''v'' @ take 4 (drop_ns src) @ take 4 (drop_ns dst) @ dec index in (n @ ''s'', n @ ''d''))"

definition link_id :: "string \<Rightarrow> string \<Rightarrow> nat \<Rightarrow> string" where
  "link_id src dst idx = src @ ''--'' @ dst @ ''--'' @ dec idx"

section \<open>Namespaces, links and filters\<close>

definition create_namespace :: "string \<Rightarrow> gui \<Rightarrow> bool \<times> gui" where
  "create_namespace ns g =
     (case ns_exists ns g of (ex, g1) \<Rightarrow>
        if ex then (True, g1)
        else case succeeds (''ip netns add '' @ ns) g1 of (fine, g2) \<Rightarrow>
          if fine then (True, run (''ip netns exec '' @ ns @ '' ip link set lo up'') None g2) else (False, g2))"

definition delete_namespace :: "string \<Rightarrow> gui \<Rightarrow> gui" where
  "delete_namespace ns g = run (''ip netns del '' @ ns) None g"

fun run_until_failure :: "string list \<Rightarrow> gui \<Rightarrow> bool \<times> gui" where
  "run_until_failure [] g = (True, g)"
| "run_until_failure (c # cs) g = (case succeeds c g of (fine, g1) \<Rightarrow> if fine then run_until_failure cs g1 else (False, g1))"

definition create_veth_link ::
  "string \<Rightarrow> string \<Rightarrow> string \<Rightarrow> string \<Rightarrow> string \<Rightarrow> string \<Rightarrow> gui \<Rightarrow> bool \<times> gui" where
  "create_veth_link src_ns dst_ns veth_s veth_d ip_s ip_d g =
     (case run_until_failure
        [''ip link add '' @ veth_s @ '' type veth peer name '' @ veth_d,
         ''ip link set '' @ veth_s @ '' netns '' @ src_ns,
         ''ip link set '' @ veth_d @ '' netns '' @ dst_ns] g of (fine, g1) \<Rightarrow>
        if \<not> fine then (False, g1)
        else (True, run (''ip link set '' @ veth_d @ '' up'') (Some dst_ns)
                     (run (''ip addr add '' @ ip_d @ ''/24 dev '' @ veth_d) (Some dst_ns)
                     (run (''ip link set '' @ veth_s @ '' up'') (Some src_ns)
                     (run (''ip addr add '' @ ip_s @ ''/24 dev '' @ veth_s) (Some src_ns) g1)))))"

definition delete_veth_link :: "string \<Rightarrow> string \<Rightarrow> gui \<Rightarrow> gui" where
  "delete_veth_link src_ns veth_s g = run (''ip link del '' @ veth_s) (Some src_ns) g"

definition configure_nfqueue :: "string \<Rightarrow> gui \<Rightarrow> gui" where
  "configure_nfqueue ns g =
     (case get_node_ifaces ns g of (ifaces, g1) \<Rightarrow>
        let g2 = run ''iptables -A FORWARD -j NFQUEUE --queue-num 0'' (Some ns)
                   (run ''iptables -A OUTPUT  -j NFQUEUE --queue-num 0'' (Some ns)
                   (run ''iptables -F FORWARD'' (Some ns) (run ''iptables -F OUTPUT'' (Some ns) g1)))
        in if length ifaces > 1 then run ''sysctl -w net.ipv4.ip_forward=1'' (Some ns) g2 else g2)"

definition disable_nfqueue :: "string \<Rightarrow> gui \<Rightarrow> gui" where
  "disable_nfqueue ns g = run ''iptables -F FORWARD'' (Some ns) (run ''iptables -F OUTPUT'' (Some ns) g)"

definition catch_all_route :: "string \<Rightarrow> string \<Rightarrow> gui \<Rightarrow> gui" where
  "catch_all_route ns iface g =
     run (''ip route add 10.0.0.0/8 dev '' @ iface @ '' metric 200'') (Some ns) (run ''ip route del 10.0.0.0/8'' (Some ns) g)"

section \<open>Daemons\<close>

fun join_comma :: "string list \<Rightarrow> string" where
  "join_comma [] = []"
| "join_comma [w] = w"
| "join_comma (w # ws) = w @ '','' @ join_comma ws"

definition aodvd_args :: "string \<Rightarrow> string \<Rightarrow> string list \<Rightarrow> string" where
  "aodvd_args aodvd_bin ns ifaces =
     ''ip netns exec '' @ ns @ '' stdbuf -oL -eL '' @ aodvd_bin @ '' -D -r 60 -i '' @ join_comma ifaces"

text \<open>The calls before the daemon is started; an exception from one of them is not caught.\<close>

definition prepare_aodvd :: "string \<Rightarrow> gui \<Rightarrow> bool \<times> gui" where
  "prepare_aodvd ns g =
     (let rtlog = ''/tmp/aodvd-'' @ ns @ ''.rtlog'' in
      case returns (Call [''nsenter'', ''--net=/var/run/netns/'' @ ns, ''fuser'', ''-k'', ''654/udp'']) g of
        (False, g1) \<Rightarrow> (False, g1)
      | (True, g1) \<Rightarrow>
          (case returns (Call [''bash'', ''-c'', ''> '' @ rtlog]) g1 of
             (False, g2) \<Rightarrow> (False, g2)
           | (True, g2) \<Rightarrow> returns (Call [''ln'', ''-sf'', rtlog, ''/var/log/aodvd.rtlog'']) g2))"

text \<open>The result is missing when an exception leaves the function.\<close>

definition start_aodvd :: "string \<Rightarrow> string \<Rightarrow> gui \<Rightarrow> bool option \<times> gui" where
  "start_aodvd aodvd_bin ns g =
     (case get_node_ifaces ns g of (ifaces, g1) \<Rightarrow>
        if ifaces = [] then (Some False, g1)
        else
          let g2 = catch_all_route ns (hd ifaces) g1;
              (running, g3) = aodvd_runs ns g2;
              g4 = (if running then act (Terminate ns) (g3\<lparr>g_procs := removeAll ns (g_procs g3)\<rparr>) else g3);
              (fine, g5) = prepare_aodvd ns g4
          in if \<not> fine then (None, g5)
             else case shlex_split (aodvd_args aodvd_bin ns ifaces) of
               Inl _ \<Rightarrow> (None, g5)
             | Inr args \<Rightarrow>
                 (case returns (Spawn args) g5 of
                    (False, g6) \<Rightarrow> (Some False, g6)
                  | (True, g6) \<Rightarrow>
                      (Some True, g6\<lparr>g_procs := (if ns \<in> set (g_procs g6) then g_procs g6 else g_procs g6 @ [ns])\<rparr>)))"

definition stop_aodvd :: "string \<Rightarrow> gui \<Rightarrow> gui" where
  "stop_aodvd ns g =
     (case aodvd_runs ns g of (running, g1) \<Rightarrow>
        let g2 = g1\<lparr>g_procs := removeAll ns (g_procs g1)\<rparr> in if running then act (Terminate ns) g2 else g2)"

section \<open>Requests\<close>

definition names :: "gui \<Rightarrow> string list" where
  "names g = map fst (g_nodes g)"

definition upd_ips :: "string \<Rightarrow> (string list \<Rightarrow> string list) \<Rightarrow> gui \<Rightarrow> gui" where
  "upd_ips n f g = g\<lparr>g_nodes := map (\<lambda>(k, ips). (k, if k = n then f ips else ips)) (g_nodes g)\<rparr>"

text \<open>The name after that of the last node; an empty remainder raises an exception.\<close>

definition default_name :: "gui \<Rightarrow> string option" where
  "default_name g =
     (if g_nodes g = [] then Some ''ns-A''
      else let l = drop_ns (last (names g))
           in if l = [] then None else Some (''ns-'' @ [char_of (of_char (last l) + 1 :: nat)]))"

definition add_node :: "string option \<Rightarrow> gui \<Rightarrow> reply \<times> gui" where
  "add_node name g =
     (case (case name of Some n \<Rightarrow> if strip n \<noteq> [] then Some (strip n) else default_name g | None \<Rightarrow> default_name g) of
        None \<Rightarrow> (Crashed, g)
      | Some ns \<Rightarrow>
          if ns \<in> set (names g) then (Refused 400, g)
          else case create_namespace ns g of (fine, g1) \<Rightarrow>
            if \<not> fine then (Refused 500, g1) else (Done, emit_topology (g1\<lparr>g_nodes := g_nodes g1 @ [(ns, [])]\<rparr>)))"

definition forget_link :: "string \<Rightarrow> glink \<Rightarrow> gui \<Rightarrow> gui" where
  "forget_link ns l g =
     (let g1 = delete_veth_link (l_src l) (l_veth_src l) g;
          g2 = g1\<lparr>g_links := remove1 l (g_links g1)\<rparr>;
          (other, ip) = (if l_src l = ns then (l_dst l, l_ip_dst l) else (l_src l, l_ip_src l))
      in upd_ips other (filter (\<lambda>x. x \<noteq> ip)) g2)"

definition remove_node :: "string \<Rightarrow> gui \<Rightarrow> reply \<times> gui" where
  "remove_node ns g =
     (if ns \<notin> set (names g) then (Refused 404, g)
      else
        let g1 = (if ns \<in> set (g_procs g) then stop_aodvd ns g else g);
            g2 = fold (forget_link ns) (filter (\<lambda>l. l_src l = ns \<or> l_dst l = ns) (g_links g1)) g1;
            g3 = delete_namespace ns g2
        in (Done, emit_topology (g3\<lparr>g_nodes := filter (\<lambda>(k, _). k \<noteq> ns) (g_nodes g3)\<rparr>)))"

definition add_link :: "string \<Rightarrow> string \<Rightarrow> gui \<Rightarrow> reply \<times> gui" where
  "add_link src0 dst0 g =
     (let src = strip src0; dst = strip dst0 in
      if src = [] \<or> dst = [] \<or> src = dst then (Refused 400, g)
      else if src \<notin> set (names g) \<or> dst \<notin> set (names g) then (Refused 404, g)
      else
        let (idx, g1) = next_link_index g;
            (veth_s, veth_d) = veth_names src dst idx;
            (ip_s, ip_d) = link_ips idx;
            (fine, g2) = create_veth_link src dst veth_s veth_d ip_s ip_d g1
        in if \<not> fine then (Refused 500, g2)
           else
             let l = \<lparr>l_id = link_id src dst idx, l_src = src, l_dst = dst, l_veth_src = veth_s, l_veth_dst = veth_d,
                      l_ip_src = ip_s, l_ip_dst = ip_d, l_up = True\<rparr>;
                 g3 = upd_ips dst (\<lambda>ips. ips @ [ip_d]) (upd_ips src (\<lambda>ips. ips @ [ip_s]) (g2\<lparr>g_links := g_links g2 @ [l]\<rparr>))
             in (Done, emit_topology (if g_nfqueue g3 then configure_nfqueue dst (configure_nfqueue src g3) else g3)))"

definition remove_link :: "string \<Rightarrow> gui \<Rightarrow> reply \<times> gui" where
  "remove_link lid g =
     (case List.find (\<lambda>l. l_id l = lid) (g_links g) of
        None \<Rightarrow> (Refused 404, g)
      | Some l \<Rightarrow>
          let g1 = delete_veth_link (l_src l) (l_veth_src l) g;
              g2 = g1\<lparr>g_links := remove1 l (g_links g1)\<rparr>
          in (Done, emit_topology (upd_ips (l_dst l) (filter (\<lambda>x. x \<noteq> l_ip_dst l))
                     (upd_ips (l_src l) (filter (\<lambda>x. x \<noteq> l_ip_src l)) g2))))"

definition restore_node :: "string \<Rightarrow> gui \<Rightarrow> gui" where
  "restore_node ns g =
     (case get_node_ifaces ns g of (ifaces, g1) \<Rightarrow>
        if ifaces = [] then g1
        else let g2 = catch_all_route ns (hd ifaces) g1 in if g_nfqueue g2 then configure_nfqueue ns g2 else g2)"

text \<open>The link found is changed in place: the first one with that name.\<close>

fun flip_link :: "string \<Rightarrow> glink list \<Rightarrow> glink list" where
  "flip_link lid [] = []"
| "flip_link lid (l # ls) = (if l_id l = lid then l\<lparr>l_up := \<not> l_up l\<rparr> # ls else l # flip_link lid ls)"

definition toggle_link :: "string \<Rightarrow> gui \<Rightarrow> reply \<times> gui" where
  "toggle_link lid g =
     (case List.find (\<lambda>l. l_id l = lid) (g_links g) of
        None \<Rightarrow> (Refused 404, g)
      | Some l \<Rightarrow>
          let action = (if l_up l then ''down'' else ''up'');
              g1 = run (''ip link set '' @ l_veth_dst l @ '' '' @ action) (Some (l_dst l))
                     (run (''ip link set '' @ l_veth_src l @ '' '' @ action) (Some (l_src l)) g);
              g2 = g1\<lparr>g_links := flip_link lid (g_links g1)\<rparr>
          in (Done, emit_topology (if \<not> l_up l then restore_node (l_dst l) (restore_node (l_src l) g2) else g2)))"

definition toggle_nfqueue :: "gui \<Rightarrow> reply \<times> gui" where
  "toggle_nfqueue g =
     (let g1 = g\<lparr>g_nfqueue := \<not> g_nfqueue g\<rparr>
      in (Done, emit_topology (fold (if g_nfqueue g1 then configure_nfqueue else disable_nfqueue) (names g1) g1)))"

text \<open>\<open>[target] if target else ...\<close>.\<close>

definition targets :: "string option \<Rightarrow> string list \<Rightarrow> string list" where
  "targets target all = (case target of Some ns \<Rightarrow> if ns = [] then all else [ns] | None \<Rightarrow> all)"

fun start_all :: "string \<Rightarrow> string list \<Rightarrow> gui \<Rightarrow> bool \<times> gui" where
  "start_all aodvd_bin [] g = (True, g)"
| "start_all aodvd_bin (ns # nss) g =
     (case start_aodvd aodvd_bin ns g of (None, g1) \<Rightarrow> (False, g1) | (Some _, g1) \<Rightarrow> start_all aodvd_bin nss g1)"

definition start_aodv :: "string \<Rightarrow> string option \<Rightarrow> gui \<Rightarrow> reply \<times> gui" where
  "start_aodv aodvd_bin target g =
     (case start_all aodvd_bin (targets target (names g)) g of
        (False, g1) \<Rightarrow> (Crashed, g1) | (True, g1) \<Rightarrow> (Done, emit_topology g1))"

definition stop_aodv :: "string option \<Rightarrow> gui \<Rightarrow> reply \<times> gui" where
  "stop_aodv target g = (Done, emit_topology (fold stop_aodvd (targets target (g_procs g)) g))"

definition gui_cleanup :: "gui \<Rightarrow> reply \<times> gui" where
  "gui_cleanup g =
     (let g1 = fold stop_aodvd (g_procs g) g;
          g2 = fold (\<lambda>ns h. act (Unlink (''/tmp/aodvd-'' @ ns @ ''.rtlog'')) (delete_namespace ns h)) (names g1) g1
      in (Done, emit_topology (g2\<lparr>g_nodes := [], g_links := []\<rparr>)))"

datatype request =
    Add_node "string option"
  | Remove_node string
  | Add_link string string
  | Remove_link string
  | Toggle_link string
  | Toggle_nfqueue
  | Start_aodv "string option"
  | Stop_aodv "string option"
  | Cleanup

fun handle :: "string \<Rightarrow> request \<Rightarrow> gui \<Rightarrow> reply \<times> gui" where
  "handle aodvd_bin (Add_node n) g = add_node n g"
| "handle aodvd_bin (Remove_node n) g = remove_node n g"
| "handle aodvd_bin (Add_link a b) g = add_link a b g"
| "handle aodvd_bin (Remove_link i) g = remove_link i g"
| "handle aodvd_bin (Toggle_link i) g = toggle_link i g"
| "handle aodvd_bin Toggle_nfqueue g = toggle_nfqueue g"
| "handle aodvd_bin (Start_aodv n) g = start_aodv aodvd_bin n g"
| "handle aodvd_bin (Stop_aodv n) g = stop_aodv n g"
| "handle aodvd_bin Cleanup g = gui_cleanup g"

definition serve :: "string \<Rightarrow> request list \<Rightarrow> gui \<Rightarrow> gui" where
  "serve aodvd_bin reqs g = fold (\<lambda>r h. snd (handle aodvd_bin r h)) reqs g"

section \<open>The invariant\<close>

text \<open>The addresses a link gives a node, and all addresses of a link.\<close>

definition ips_at :: "string \<Rightarrow> glink \<Rightarrow> string list" where
  "ips_at n l = (if l_src l = n then [l_ip_src l] else []) @ (if l_dst l = n then [l_ip_dst l] else [])"

definition ips_of :: "glink list \<Rightarrow> string list" where
  "ips_of ls = concat (map (\<lambda>l. [l_ip_src l, l_ip_dst l]) ls)"

definition link_no :: "nat \<Rightarrow> glink \<Rightarrow> bool" where
  "link_no i l \<longleftrightarrow> l_id l = link_id (l_src l) (l_dst l) i \<and> (l_ip_src l, l_ip_dst l) = link_ips i \<and>
     (l_veth_src l, l_veth_dst l) = veth_names (l_src l) (l_dst l) i"

definition link_ok :: "string set \<Rightarrow> nat \<Rightarrow> glink \<Rightarrow> bool" where
  "link_ok ns c l \<longleftrightarrow> l_src l \<in> ns \<and> l_dst l \<in> ns \<and> l_src l \<noteq> l_dst l \<and> (\<exists>i < c. link_no i l)"

text \<open>
  Nodes \<open>X\<close> are those whose address lists are out of date while a node is being removed.
\<close>

definition topo_inv :: "string set \<Rightarrow> (string \<times> string list) list \<Rightarrow> glink list \<Rightarrow> nat \<Rightarrow> bool" where
  "topo_inv X ns ls c \<longleftrightarrow>
     distinct (map fst ns) \<and> list_all (link_ok (set (map fst ns)) c) ls \<and> distinct (ips_of ls) \<and>
     (\<forall>(n, ips) \<in> set ns. n \<notin> X \<longrightarrow> ips = concat (map (ips_at n) ls))"

text \<open>
  What holds between requests: node names are distinct; links join different existing nodes; names of links are
  distinct, and so are all addresses; each node lists the addresses of its links in the order of their creation; and
  the addresses are proper ones as long as no more than 65280 links were ever created.
\<close>

definition topo_ok :: "gui \<Rightarrow> bool" where
  "topo_ok g \<longleftrightarrow>
     distinct (names g) \<and>
     (\<forall>l \<in> set (g_links g). l_src l \<in> set (names g) \<and> l_dst l \<in> set (names g) \<and> l_src l \<noteq> l_dst l) \<and>
     distinct (map l_id (g_links g)) \<and>
     distinct (ips_of (g_links g)) \<and>
     (\<forall>(n, ips) \<in> set (g_nodes g). ips = concat (map (ips_at n) (g_links g))) \<and>
     (g_counter g \<le> 65280 \<longrightarrow> (\<forall>ip \<in> set (ips_of (g_links g)). \<exists>a. ip = ip_to_str a))"

subsection \<open>Names and addresses are injective\<close>

lemma dec_inj: "dec m = dec n \<Longrightarrow> m = n"
  by (metis foldl_dec)

lemma digits_unique:
  assumes "dec m @ CHR ''.'' # r = dec n @ CHR ''.'' # s"
  shows "m = n" and "r = s"
proof -
  have p: "re_plus isdigit (dec k @ CHR ''.'' # q) = Some (dec k, CHR ''.'' # q)" for k q
    by (rule re_plus_dec) (simp add: char_classes(7))
  have "Some (dec m, CHR ''.'' # r) = Some (dec n, CHR ''.'' # s)" using p [of m r] p [of n s] by (simp only: assms)
  then have "dec m = dec n" and rs: "r = s" by simp_all
  then show "m = n" and "r = s" by (simp_all only: dec_inj)
qed

lemma link_ips_inj: "fst (link_ips i) = fst (link_ips j) \<Longrightarrow> i = j"
proof -
  assume "fst (link_ips i) = fst (link_ips j)"
  then have eq: "dec (i div 255) @ CHR ''.'' # dec (i mod 255 + 1) @ ''.1'' = dec (j div 255) @ CHR ''.'' # dec (j mod 255 + 1) @ ''.1''"
    by (simp add: link_ips_def Let_def)
  have "dec (i mod 255 + 1) @ CHR ''.'' # ''1'' = dec (j mod 255 + 1) @ CHR ''.'' # ''1''" using digits_unique(2) [OF eq] by simp
  then have "i mod 255 + 1 = j mod 255 + 1" by (rule digits_unique(1))
  then have "i mod 255 = j mod 255" by simp
  moreover have "i div 255 = j div 255" by (rule digits_unique(1) [OF eq])
  ultimately show "i = j" by (metis div_mult_mod_eq)
qed

lemma link_ips_ends: "last (fst (link_ips i)) = CHR ''1''" "last (snd (link_ips i)) = CHR ''2''"
  "snd (link_ips i) = butlast (fst (link_ips i)) @ ''2''"
  by (simp_all add: link_ips_def Let_def butlast_append)

lemma link_ips_inj2: "snd (link_ips i) = snd (link_ips j) \<Longrightarrow> i = j"
  by (rule link_ips_inj) (simp add: link_ips_def Let_def)

lemma link_id_inj:
  assumes "link_id s d i = link_id s' d' j"
  shows "i = j"
proof -
  have tw: "takeWhile isdigit (rev (link_id a b n)) = rev (dec n)" for a b n
    using takeWhile_digits [of "rev (dec n)" "''--'' @ rev b @ ''--'' @ rev a"] dec_digits [of n] by (simp add: link_id_def isdigit_def)
  have "rev (dec i) = rev (dec j)" using tw [of s d i] tw [of s' d' j] by (simp only: assms)
  then show ?thesis by (simp add: dec_inj)
qed

lemma link_ips_valid:
  assumes "i < 65280"
  shows "\<exists>a. fst (link_ips i) = ip_to_str a" and "\<exists>a. snd (link_ips i) = ip_to_str a"
proof -
  have b: "i div 255 < 256" "i mod 255 + 1 < 256" using assms by (simp_all add: less_mult_imp_div_less)
  have q: "\<exists>a. ''10.'' @ dec h @ ''.'' @ dec l @ ''.'' @ dec k = ip_to_str a" if "h < 256" "l < 256" "k < 256" for h l k
  proof -
    define bs :: "8 word list" where "bs = [10, of_nat h, of_nat l, of_nat k]"
    have "put32 (get32 bs 0) = bs" using put32_get32 [of 0 bs] by (simp add: bs_def)
    moreover have "dec 10 = ''10''" by code_simp
    ultimately have "ip_to_str (get32 bs 0) = ''10.'' @ dec h @ ''.'' @ dec l @ ''.'' @ dec k"
      using that by (simp add: ip_to_str_def bs_def Let_def unat_of_nat take_bit_eq_mod)
    then show ?thesis by metis
  qed
  have d: "dec (Suc 0) = ''1''" "dec 2 = ''2''" by code_simp+
  show "\<exists>a. fst (link_ips i) = ip_to_str a" using q [OF b, of 1] by (simp add: d link_ips_def Let_def)
  show "\<exists>a. snd (link_ips i) = ip_to_str a" using q [OF b, of 2] by (simp add: d link_ips_def Let_def)
qed

subsection \<open>Commands leave the topology alone\<close>

definition topo :: "gui \<Rightarrow> (string \<times> string list) list \<times> glink list \<times> nat" where
  "topo g = (g_nodes g, g_links g, g_counter g)"

lemma topo_upd [simp]:
  "topo (g\<lparr>g_nfqueue := b\<rparr>) = topo g" "topo (g\<lparr>g_procs := ps\<rparr>) = topo g" "topo (g\<lparr>g_pos := n\<rparr>) = topo g"
  "topo (act a g) = topo g"
  by (simp_all add: topo_def act_def)

lemma topo_answer [simp]: "topo (snd (answer g)) = topo g"
  by (simp add: answer_def)

lemma topo_run_cmd [simp]: "topo (snd (run_cmd c n g)) = topo g"
  by (simp add: run_cmd_def Let_def answer_def split: option.split sum.split outcome.split)

lemma topo_run [simp]: "topo (run c n g) = topo g"
  by (simp add: run_def)

lemma topo_answers [simp]:
  "topo (snd (succeeds c g)) = topo g" "topo (snd (returns a g)) = topo g" "topo (snd (alive g)) = topo g"
  "topo (snd (live_ns g)) = topo g" "topo (snd (ns_exists n g)) = topo g" "topo (snd (aodvd_runs n g)) = topo g"
  "topo (snd (get_node_ifaces n g)) = topo g"
  by (simp_all add: succeeds_def returns_def alive_def live_ns_def ns_exists_def aodvd_runs_def get_node_ifaces_def split_def)

lemma topo_view_nodes [simp]: "topo (snd (view_nodes lns ns g)) = topo g"
  by (induction ns arbitrary: g) (auto simp: split_def)

lemma topo_emit [simp]: "topo (emit_topology g) = topo g"
  by (simp add: emit_topology_def build_topology_event_def split_def)

lemma topo_run_until_failure [simp]: "topo (snd (run_until_failure cs g)) = topo g"
  by (induction cs arbitrary: g) (simp_all add: split_def)

lemma topo_namespaces [simp]:
  "topo (snd (create_namespace n g)) = topo g" "topo (delete_namespace n g) = topo g"
  "topo (snd (create_veth_link a b c d e f g)) = topo g" "topo (delete_veth_link a b g) = topo g"
  "topo (configure_nfqueue n g) = topo g" "topo (disable_nfqueue n g) = topo g" "topo (catch_all_route n i g) = topo g"
  by (simp_all add: create_namespace_def delete_namespace_def create_veth_link_def delete_veth_link_def configure_nfqueue_def
      disable_nfqueue_def catch_all_route_def split_def Let_def)

lemma topo_fold: "(\<And>x g. topo (f x g) = topo g) \<Longrightarrow> topo (fold f xs g) = topo g"
  by (induction xs arbitrary: g) simp_all

lemma topo_daemons [simp]:
  "topo (restore_node n g) = topo g" "topo (snd (prepare_aodvd n g)) = topo g" "topo (stop_aodvd n g) = topo g"
  by (simp_all add: restore_node_def prepare_aodvd_def stop_aodvd_def split_def Let_def split: bool.split)

lemma topo_start_aodvd [simp]: "topo (snd (start_aodvd b n g)) = topo g"
  by (simp add: start_aodvd_def split_def Let_def split: bool.split sum.split)

lemma topo_start_all [simp]: "topo (snd (start_all b ns g)) = topo g"
  by (induction ns arbitrary: g) (simp_all add: split_def split: option.split)

subsection \<open>Steps on nodes and links\<close>

lemma ips_of_simps [simp]:
  "ips_of [] = []" "ips_of (l # ls) = l_ip_src l # l_ip_dst l # ips_of ls" "ips_of (ls @ ms) = ips_of ls @ ips_of ms"
  by (simp_all add: ips_of_def)

lemma ips_of_mem: "l \<in> set ls \<Longrightarrow> l_ip_src l \<in> set (ips_of ls)" "l \<in> set ls \<Longrightarrow> l_ip_dst l \<in> set (ips_of ls)"
  by (auto simp: ips_of_def)

lemma ips_at_sub: "x \<in> set (concat (map (ips_at n) ls)) \<Longrightarrow> x \<in> set (ips_of ls)"
  by (auto simp: ips_at_def ips_of_def split: if_splits)

lemma set_ips_of_remove1: "set (ips_of (remove1 l ls)) \<subseteq> set (ips_of ls)"
  by (induction ls) auto

lemma distinct_ips_remove1: "distinct (ips_of ls) \<Longrightarrow> distinct (ips_of (remove1 l ls))"
  using set_ips_of_remove1 [of l] by (induction ls) auto

text \<open>Two links share no address unless they are the same.\<close>

lemma ips_remove1:
  assumes "distinct (ips_of ls)" "l \<in> set ls"
  shows "concat (map (ips_at n) (remove1 l ls)) = filter (\<lambda>x. x \<notin> set (ips_at n l)) (concat (map (ips_at n) ls))"
  using assms
proof (induction ls)
  case (Cons a ls)
  show ?case
  proof (cases "a = l")
    case True
    have "x \<notin> set (ips_at n a)" if "x \<in> set (concat (map (ips_at n) ls))" for x
      using ips_at_sub [OF that] Cons.prems(1) by (auto simp: ips_at_def split: if_splits)
    then have "filter (\<lambda>x. x \<notin> set (ips_at n a)) (concat (map (ips_at n) ls)) = concat (map (ips_at n) ls)"
      by (intro filter_True) blast
    moreover have "filter (\<lambda>x. x \<notin> set (ips_at n a)) (ips_at n a) = []" by (intro filter_False) simp
    ultimately show ?thesis by (simp add: True [symmetric])
  next
    case False
    then have l: "l \<in> set ls" using Cons.prems(2) by simp
    have "filter (\<lambda>x. x \<notin> set (ips_at n l)) (ips_at n a) = ips_at n a"
      using ips_of_mem [OF l] Cons.prems(1) by (intro filter_True) (auto simp: ips_at_def split: if_splits)
    then show ?thesis using False Cons l by simp
  qed
qed simp

lemma ips_of_number:
  assumes "list_all (link_ok A c) ls" "x \<in> set (ips_of ls)"
  shows "\<exists>i < c. x = fst (link_ips i) \<or> x = snd (link_ips i)"
  using assms by (induction ls) (auto simp: link_ok_def link_no_def, (metis fst_conv snd_conv)+)

lemma link_ips_new:
  assumes "list_all (link_ok A c) ls"
  shows "fst (link_ips c) \<notin> set (ips_of ls)" "snd (link_ips c) \<notin> set (ips_of ls)" "fst (link_ips c) \<noteq> snd (link_ips c)"
proof -
  have ne: "fst (link_ips i) \<noteq> snd (link_ips j)" for i j
    using link_ips_ends(1) [of i] link_ips_ends(2) [of j] by auto
  show "fst (link_ips c) \<notin> set (ips_of ls)" "snd (link_ips c) \<notin> set (ips_of ls)"
    using ips_of_number [OF assms] ne link_ips_inj link_ips_inj2 by (metis less_irrefl)+
  show "fst (link_ips c) \<noteq> snd (link_ips c)" by (rule ne)
qed

lemma link_ok_mono: "link_ok A c l \<Longrightarrow> A \<subseteq> B \<Longrightarrow> c \<le> d \<Longrightarrow> link_ok B d l"
  by (auto simp: link_ok_def intro: order_less_le_trans)

lemma links_ok_mono: "list_all (link_ok A c) ls \<Longrightarrow> A \<subseteq> B \<Longrightarrow> c \<le> d \<Longrightarrow> list_all (link_ok B d) ls"
  by (auto simp: list_all_iff intro: link_ok_mono)

lemma ips_at_unused: "list_all (link_ok A c) ls \<Longrightarrow> n \<notin> A \<Longrightarrow> concat (map (ips_at n) ls) = []"
  by (auto simp: list_all_iff link_ok_def ips_at_def)

lemma topo_inv_add_node:
  assumes "topo_inv {} ns ls c" "n \<notin> set (map fst ns)"
  shows "topo_inv {} (ns @ [(n, [])]) ls c"
  using assms ips_at_unused [of "set (map fst ns)" c ls n] links_ok_mono [of "set (map fst ns)" c ls "insert n (set (map fst ns))" c]
  by (auto simp: topo_inv_def)

definition upd_node :: "string \<Rightarrow> (string list \<Rightarrow> string list) \<Rightarrow> (string \<times> string list) list \<Rightarrow> (string \<times> string list) list" where
  "upd_node n f ns = map (\<lambda>(k, ips). (k, if k = n then f ips else ips)) ns"

lemma fst_upd_node [simp]: "map fst (upd_node n f ns) = map fst ns"
  by (simp add: upd_node_def split_def comp_def)

lemma topo_inv_next: "topo_inv X ns ls c \<Longrightarrow> topo_inv X ns ls (Suc c)"
  by (auto simp: topo_inv_def intro: links_ok_mono)

lemma topo_inv_add_link:
  assumes inv: "topo_inv {} ns ls c" and l: "link_no c l" "l_src l \<in> set (map fst ns)" "l_dst l \<in> set (map fst ns)" "l_src l \<noteq> l_dst l"
  shows "topo_inv {} (upd_node (l_dst l) (\<lambda>ips. ips @ [l_ip_dst l]) (upd_node (l_src l) (\<lambda>ips. ips @ [l_ip_src l]) ns)) (ls @ [l]) (Suc c)"
proof -
  have ok: "list_all (link_ok (set (map fst ns)) c) ls" and d: "distinct (ips_of ls)"
    and ips: "\<forall>(n, ips) \<in> set ns. ips = concat (map (ips_at n) ls)" using inv by (simp_all add: topo_inv_def)
  have e: "l_ip_src l = fst (link_ips c)" "l_ip_dst l = snd (link_ips c)" using l(1) by (metis fst_conv snd_conv link_no_def)+
  have "link_ok (set (map fst ns)) (Suc c) l" using l by (auto simp: link_ok_def)
  moreover have "distinct (ips_of (ls @ [l]))" using d link_ips_new [OF ok] by (simp add: e)
  moreover have "\<forall>(n, ips) \<in> set (upd_node (l_dst l) (\<lambda>ips. ips @ [l_ip_dst l]) (upd_node (l_src l) (\<lambda>ips. ips @ [l_ip_src l]) ns)).
      ips = concat (map (ips_at n) (ls @ [l]))"
    using ips l(4) by (fastforce simp: upd_node_def ips_at_def)
  ultimately show ?thesis using inv links_ok_mono [OF ok subset_refl, of "Suc c"] by (simp add: topo_inv_def)
qed

text \<open>Taking a link away, with the lists of its two ends brought up to date except at the nodes in \<open>X\<close>.\<close>

lemma topo_inv_drop_link:
  assumes inv: "topo_inv X ns ls c" and l: "l \<in> set ls" and k: "map fst ms = map fst ns"
    and ms: "\<And>n ips. (n, ips) \<in> set ms \<Longrightarrow> n \<notin> X \<Longrightarrow>
               \<exists>old. (n, old) \<in> set ns \<and> ips = filter (\<lambda>x. x \<notin> set (ips_at n l)) old"
  shows "topo_inv X ms (remove1 l ls) c"
proof -
  have d: "distinct (ips_of ls)" using inv by (simp add: topo_inv_def)
  have "list_all (link_ok (set (map fst ns)) c) (remove1 l ls)"
    using inv notin_set_remove1 by (fastforce simp: topo_inv_def list_all_iff)
  moreover have "ips = concat (map (ips_at n) (remove1 l ls))" if "(n, ips) \<in> set ms" "n \<notin> X" for n ips
    using ms [OF that] inv that(2) ips_remove1 [OF d l, of n] by (auto simp: topo_inv_def)
  ultimately show ?thesis using inv distinct_ips_remove1 [OF d] k by (auto simp: topo_inv_def)
qed

subsection \<open>Requests keep the invariant\<close>

definition ginv :: "string set \<Rightarrow> gui \<Rightarrow> bool" where
  "ginv X g \<longleftrightarrow> topo_inv X (g_nodes g) (g_links g) (g_counter g)"

lemma ginv_topo: "topo g = topo h \<Longrightarrow> ginv X g \<longleftrightarrow> ginv X h"
  by (simp add: ginv_def topo_def)

lemma topo_sel: "topo g = topo h \<Longrightarrow> g_nodes g = g_nodes h" "topo g = topo h \<Longrightarrow> g_links g = g_links h"
  "topo g = topo h \<Longrightarrow> g_counter g = g_counter h" "topo g = topo h \<Longrightarrow> names g = names h"
  by (simp_all add: topo_def names_def)

text \<open>The contract of an operation that only runs commands: what the program knows of the topology stays.\<close>

locale command =
  fixes cmd :: "gui \<Rightarrow> gui"
  assumes topo_cmd: "topo (cmd g) = topo g"
begin

lemmas sel = topo_sel [OF topo_cmd]

lemma keeps: "ginv X (cmd g) \<longleftrightarrow> ginv X g"
  by (rule ginv_topo [OF topo_cmd])

end

interpretation running: command "run c n" for c n
  by unfold_locales simp

interpretation emitting: command emit_topology
  by unfold_locales simp

interpretation creating: command "\<lambda>g. snd (create_namespace n g)" for n
  by unfold_locales simp

interpretation deleting: command "delete_namespace n" for n
  by unfold_locales simp

interpretation unwiring: command "delete_veth_link n v" for n v
  by unfold_locales simp

interpretation filtering: command "configure_nfqueue n" for n
  by unfold_locales simp

interpretation restoring: command "restore_node n" for n
  by unfold_locales simp

interpretation stopping: command "stop_aodvd n" for n
  by unfold_locales simp

interpretation starting: command "\<lambda>g. snd (start_all b ns g)" for b ns
  by unfold_locales simp

lemmas frame_sel [simp] =
  running.sel emitting.sel creating.sel deleting.sel unwiring.sel stopping.sel

lemmas ginv_frame =
  running.keeps emitting.keeps creating.keeps filtering.keeps restoring.keeps starting.keeps
  ginv_topo [OF topo_fold] ginv_topo [OF topo_upd(1)]

lemma topo_upd_ips: "topo (upd_ips n f g) = (upd_node n f (g_nodes g), g_links g, g_counter g)"
  by (simp add: upd_ips_def upd_node_def topo_def)

lemma ginv_add_node: "ginv {} g \<Longrightarrow> ginv {} (snd (add_node n g))"
proof -
  assume inv: "ginv {} g"
  have "ginv {} (emit_topology ((snd (create_namespace m g))\<lparr>g_nodes := g_nodes (snd (create_namespace m g)) @ [(m, [])]\<rparr>))"
    if "m \<notin> set (names g)" for m
    using topo_inv_add_node [of "g_nodes g" "g_links g" "g_counter g" m] inv that by (simp add: ginv_def names_def)
  then show ?thesis using inv
    by (auto simp: add_node_def split_def ginv_frame split: option.split)
qed

lemma ginv_next: "ginv X g \<Longrightarrow> ginv X (g\<lparr>g_counter := Suc (g_counter g)\<rparr>)"
  by (simp add: ginv_def topo_inv_next)

lemma ginv_add_link: "ginv {} g \<Longrightarrow> ginv {} (snd (add_link a b g))"
proof -
  assume inv: "ginv {} g"
  define src dst i where "src = strip a" and "dst = strip b" and "i = g_counter g"
  define g1 where "g1 = g\<lparr>g_counter := Suc i\<rparr>"
  define r where "r = create_veth_link src dst (fst (veth_names src dst i)) (snd (veth_names src dst i)) (fst (link_ips i)) (snd (link_ips i)) g1"
  define l where "l = \<lparr>l_id = link_id src dst i, l_src = src, l_dst = dst, l_veth_src = fst (veth_names src dst i),
    l_veth_dst = snd (veth_names src dst i), l_ip_src = fst (link_ips i), l_ip_dst = snd (link_ips i), l_up = True\<rparr>"
  define g3 where "g3 = upd_ips dst (\<lambda>ips. ips @ [snd (link_ips i)]) (upd_ips src (\<lambda>ips. ips @ [fst (link_ips i)])
    ((snd r)\<lparr>g_links := g_links (snd r) @ [l]\<rparr>))"
  have t: "topo (snd r) = (g_nodes g, g_links g, Suc i)" by (simp add: r_def g1_def) (simp add: topo_def)
  have "ginv {} (snd r)" using inv t by (simp add: ginv_def topo_def i_def topo_inv_next)
  moreover have "ginv {} g3" if "src \<noteq> dst" "src \<in> set (names g)" "dst \<in> set (names g)"
    using topo_inv_add_link [of "g_nodes g" "g_links g" i l] inv that t topo_upd_ips
    by (simp add: ginv_def g3_def upd_ips_def upd_node_def topo_def i_def link_no_def l_def names_def)
  ultimately show ?thesis using inv
    by (auto simp: add_link_def Let_def next_link_index_def split_def ginv_frame
        src_def [symmetric] dst_def [symmetric] i_def [symmetric] g1_def [symmetric] r_def [symmetric] l_def [symmetric] g3_def [symmetric])
qed

lemma ginv_remove_link: "ginv {} g \<Longrightarrow> ginv {} (snd (remove_link i g))"
proof (cases "List.find (\<lambda>l. l_id l = i) (g_links g)")
  case (Some l)
  assume inv: "ginv {} g"
  have l: "l \<in> set (g_links g)" using Some by (auto simp: find_Some_iff)
  then have ne: "l_src l \<noteq> l_dst l" using inv by (auto simp: ginv_def topo_inv_def list_all_iff link_ok_def)
  have "topo_inv {} (upd_node (l_dst l) (filter (\<lambda>x. x \<noteq> l_ip_dst l)) (upd_node (l_src l) (filter (\<lambda>x. x \<noteq> l_ip_src l)) (g_nodes g)))
    (remove1 l (g_links g)) (g_counter g)"
    using ne by (intro topo_inv_drop_link [OF inv [unfolded ginv_def] l]) (auto simp: upd_node_def ips_at_def)
  then show ?thesis
    by (simp add: remove_link_def Some Let_def ginv_def upd_ips_def upd_node_def)
qed (simp add: remove_link_def)

lemma distinct_links: "distinct (ips_of ls) \<Longrightarrow> distinct ls"
  by (induction ls) (auto dest: ips_of_mem)

lemma forget_link_step:
  assumes "ginv {ns} g" "l \<in> set (g_links g)" "l_src l = ns \<or> l_dst l = ns"
  shows "ginv {ns} (forget_link ns l g)" "g_links (forget_link ns l g) = remove1 l (g_links g)"
proof -
  have ne: "l_src l \<noteq> l_dst l" using assms by (auto simp: ginv_def topo_inv_def list_all_iff link_ok_def)
  define other ip where "other = (if l_src l = ns then l_dst l else l_src l)" and "ip = (if l_src l = ns then l_ip_dst l else l_ip_src l)"
  have f: "topo (forget_link ns l g) = (upd_node other (filter (\<lambda>x. x \<noteq> ip)) (g_nodes g), remove1 l (g_links g), g_counter g)"
    by (simp add: forget_link_def Let_def other_def ip_def upd_ips_def upd_node_def topo_def)
  have "topo_inv {ns} (upd_node other (filter (\<lambda>x. x \<noteq> ip)) (g_nodes g)) (remove1 l (g_links g)) (g_counter g)"
    using ne assms(3)
    by (intro topo_inv_drop_link [OF assms(1) [unfolded ginv_def] assms(2)]) (auto simp: upd_node_def ips_at_def other_def ip_def)
  then show "ginv {ns} (forget_link ns l g)" using f by (simp add: ginv_def topo_def)
  show "g_links (forget_link ns l g) = remove1 l (g_links g)" using f by (simp add: topo_def)
qed

lemma forget_links:
  assumes "ginv {ns} g" "distinct ts" "set ts \<subseteq> set (g_links g)" "\<forall>l \<in> set ts. l_src l = ns \<or> l_dst l = ns"
  shows "ginv {ns} (fold (forget_link ns) ts g) \<and> set (g_links (fold (forget_link ns) ts g)) = set (g_links g) - set ts"
  using assms
proof (induction ts arbitrary: g)
  case (Cons l ts)
  have p: "ginv {ns} g" "l \<in> set (g_links g)" "l_src l = ns \<or> l_dst l = ns" using Cons.prems by auto
  note s = forget_link_step [OF p]
  have d: "distinct (g_links g)" using p(1) by (auto simp: ginv_def topo_inv_def intro: distinct_links)
  have "set ts \<subseteq> set (g_links (forget_link ns l g))" using Cons.prems(2,3) d by (auto simp: s(2))
  then show ?case using Cons.IH [OF s(1)] Cons.prems d by (auto simp: s(2))
qed simp

lemma topo_inv_remove_node:
  assumes "topo_inv {n} ns ls c" "\<forall>l \<in> set ls. l_src l \<noteq> n \<and> l_dst l \<noteq> n"
  shows "topo_inv {} (filter (\<lambda>(k, _). k \<noteq> n) ns) ls c"
proof -
  have "map fst (filter (\<lambda>(k, _). k \<noteq> n) ns) = filter (\<lambda>k. k \<noteq> n) (map fst ns)"
    by (simp add: filter_map comp_def split_def)
  then show ?thesis using assms by (auto simp: topo_inv_def list_all_iff link_ok_def)
qed

lemma ginv_remove_node: "ginv {} g \<Longrightarrow> ginv {} (snd (remove_node n g))"
proof -
  assume inv: "ginv {} g"
  define g1 where "g1 = (if n \<in> set (g_procs g) then stop_aodvd n g else g)"
  define ts where "ts = filter (\<lambda>l. l_src l = n \<or> l_dst l = n) (g_links g1)"
  define g2 where "g2 = fold (forget_link n) ts g1"
  have t1: "topo g1 = topo g" by (simp add: g1_def)
  have "ginv {n} g" using inv by (auto simp: ginv_def topo_inv_def)
  then have i1: "ginv {n} g1" by (simp only: ginv_topo [OF t1])
  then have d: "distinct ts" by (auto simp: ts_def ginv_def topo_inv_def intro: distinct_links distinct_filter)
  have ts: "set ts \<subseteq> set (g_links g1)" "\<forall>l \<in> set ts. l_src l = n \<or> l_dst l = n" by (auto simp: ts_def)
  have f: "ginv {n} g2" "set (g_links g2) = set (g_links g1) - set ts"
    using forget_links [OF i1 d ts] by (simp_all add: g2_def)
  have "topo_inv {} (filter (\<lambda>(k, _). k \<noteq> n) (g_nodes g2)) (g_links g2) (g_counter g2)"
    using f by (intro topo_inv_remove_node) (auto simp: ginv_def ts_def)
  then show ?thesis using inv
    by (simp add: remove_node_def Let_def g1_def [symmetric] ts_def [symmetric] g2_def [symmetric]) (simp add: ginv_def)
qed

text \<open>Only the state of a link changes when it is switched.\<close>

lemma flip_link_same:
  "ips_of (flip_link i ls) = ips_of ls" "map (ips_at n) (flip_link i ls) = map (ips_at n) ls"
  "list_all (link_ok A c) (flip_link i ls) \<longleftrightarrow> list_all (link_ok A c) ls"
  by (induction ls) (simp_all add: ips_at_def link_ok_def link_no_def)

lemma ginv_flip: "ginv {} g \<Longrightarrow> ginv {} (g\<lparr>g_links := flip_link i (g_links g)\<rparr>)"
  by (simp add: ginv_def topo_inv_def flip_link_same)

lemma ginv_toggle_link: "ginv {} g \<Longrightarrow> ginv {} (snd (toggle_link i g))"
  using ginv_flip [of "run a b (run c d g)" i for a b c d]
  by (simp add: toggle_link_def Let_def ginv_frame split: option.split)

lemma ginv_handle: "ginv {} g \<Longrightarrow> ginv {} (snd (handle b r g))"
proof (cases r)
  case Toggle_nfqueue
  assume "ginv {} g"
  then show ?thesis
    by (simp add: Toggle_nfqueue toggle_nfqueue_def Let_def ginv_frame)
next
  case (Start_aodv n)
  assume "ginv {} g"
  then show ?thesis
    using starting.keeps [of "{}" b _ g]
    by (simp add: Start_aodv start_aodv_def split_def ginv_frame split: bool.split)
next
  case (Stop_aodv n)
  assume "ginv {} g"
  then show ?thesis by (simp add: Stop_aodv stop_aodv_def ginv_frame)
next
  case Cleanup
  show ?thesis by (simp add: Cleanup gui_cleanup_def Let_def ginv_frame) (simp add: ginv_def topo_inv_def)
qed (simp_all add: ginv_add_node ginv_remove_node ginv_add_link ginv_remove_link ginv_toggle_link)

lemma ginv_serve: "ginv {} g \<Longrightarrow> ginv {} (serve b rs g)"
  unfolding serve_def by (induction rs arbitrary: g) (simp_all add: ginv_handle)

lemma distinct_ids: "list_all (link_ok A c) ls \<Longrightarrow> distinct (ips_of ls) \<Longrightarrow> distinct (map l_id ls)"
proof (induction ls)
  case (Cons l ls)
  have "l_id l \<noteq> l_id m" if m: "m \<in> set ls" for m
  proof
    assume eq: "l_id l = l_id m"
    obtain i j where "link_no i l" "link_no j m" using Cons.prems(1) m by (auto simp: link_ok_def list_all_iff)
    then have "l_ip_src l = l_ip_src m" using eq link_id_inj [of "l_src l" "l_dst l" i "l_src m" "l_dst m" j]
      by (metis fst_conv link_no_def)
    then show False using Cons.prems(2) ips_of_mem(1) [OF m] by simp
  qed
  then show ?case using Cons by auto
qed simp

lemma ginv_ok: "ginv {} g \<Longrightarrow> topo_ok g"
proof -
  assume inv: "ginv {} g"
  then have ok: "list_all (link_ok (set (names g)) (g_counter g)) (g_links g)" by (simp add: ginv_def topo_inv_def names_def)
  have "\<exists>a. ip = ip_to_str a" if "g_counter g \<le> 65280" "ip \<in> set (ips_of (g_links g))" for ip
    using ips_of_number [OF ok that(2)] link_ips_valid that(1) by (metis order_less_le_trans)
  then show ?thesis using inv ok distinct_ids [OF ok]
    by (auto simp: topo_ok_def ginv_def topo_inv_def names_def list_all_iff link_ok_def)
qed

section \<open>The topology stays consistent\<close>


section \<open>Three slips\<close>

text \<open>
  The interfaces of two links can have the same names although their numbers differ; link 255 is not on the network its
  comment names; and after a node called \<open>ns-\<close> the next default name does not exist.
\<close>

lemma veth_names_clash: "veth_names ''ns-ab'' ''ns-c1'' 2 = veth_names ''ns-ab'' ''ns-c'' 12"
  by code_simp

lemma link_ips_255: "link_ips 255 = (''10.1.1.1'', ''10.1.1.2'')"
  by code_simp

lemma no_default_name: "g_nodes g = [(''ns-'', ips)] \<Longrightarrow> add_node None g = (Crashed, g)"
  by (simp add: add_node_def default_name_def names_def)

end
