(* ===== verification/Debug_Log.thy ===== *)
theory Debug_Log
  imports Gui_Log
begin

text \<open>
  Log messages, \<open>src/utils/debug.c\<close>: opening and closing of the log files, the function \<open>alog\<close>, which the macro \<open>DEBUG\<close> calls, and the text about
  a message that is sent or received.  The format has been applied to its arguments: a message is a string.

  Shown here: a message of level \<open>LOG_ERR\<close> or worse ends the program and others do not; \<open>alog\<close> stays within its two static buffers exactly when
  message and line are short enough, and the text about a protocol message always is.
\<close>

section \<open>The log files\<close>

record log_state =
  lg_debug :: bool
  lg_to_file :: bool
  lg_rt_interval :: int
  lg_file_fd :: int
  lg_rt_fd :: int

datatype log_effect =
    Log_write int string | Log_stdout string | Log_stderr string | Log_syslog nat string | Log_close int | Log_open | Log_exit | Log_overrun

text \<open>\<open>fd\<close> and \<open>rt_fd\<close> are what \<open>open\<close> returns for the two files.\<close>

definition log_init :: "int \<Rightarrow> int \<Rightarrow> log_state \<Rightarrow> log_effect list \<times> log_state" where
  "log_init fd rt_fd L =
     (let L1 = (if lg_to_file L then L\<lparr>lg_file_fd := fd\<rparr> else L) in
      if lg_to_file L \<and> fd < 0 then ([Log_exit], L1)
      else
        let L2 = (if lg_rt_interval L \<noteq> 0 then L1\<lparr>lg_rt_fd := rt_fd\<rparr> else L1) in
        if lg_rt_interval L \<noteq> 0 \<and> rt_fd < 0 then ([Log_exit], L2) else ([Log_open], L2))"

definition log_cleanup :: "bool \<Rightarrow> log_state \<Rightarrow> log_effect list" where
  "log_cleanup close_fails L =
     (if lg_to_file L \<and> lg_file_fd L \<noteq> 0
      then Log_close (lg_file_fd L) # (if close_fails then [Log_stderr ''Could not close log_file_fd!''] else [])
      else [])"

definition write_to_log_file :: "string \<Rightarrow> int \<Rightarrow> log_state \<Rightarrow> log_effect list" where
  "write_to_log_file msg len L =
     (if lg_file_fd L = 0 then [Log_stderr ''Could not write to log file'']
      else if len \<le> 0 then [Log_stderr ''len=0'']
      else [Log_write (lg_file_fd L) (take (nat len) msg)])"

section \<open>Messages\<close>

definition LOG_ERR :: nat where "LOG_ERR = 3"
definition LOG_WARNING :: nat where "LOG_WARNING = 4"
definition LOG_NOTICE :: nat where "LOG_NOTICE = 5"
definition LOG_DEBUG :: nat where "LOG_DEBUG = 7"

text \<open>The line for the local time \<open>(h, m, sec)\<close> and the microseconds; \<open>err\<close> is the text of \<open>strerror\<close>, \<open>None\<close> for the number 0.\<close>

definition log_line :: "nat \<times> nat \<times> nat \<Rightarrow> nat \<Rightarrow> string \<Rightarrow> string \<Rightarrow> string option \<Rightarrow> string" where
  "log_line tm usec func msg err =
     (case tm of (h, m, sec) \<Rightarrow>
        zero_left 2 (dec h) @ '':'' @ zero_left 2 (dec m) @ '':'' @ zero_left 2 (dec sec) @ ''.'' @ zero_left 3 (dec (usec div 1000)) @ '' '' @
        func @ '': '' @ msg @ (case err of None \<Rightarrow> [] | Some e \<Rightarrow> '': '' @ e) @ [NL])"

definition syslog_text :: "string \<Rightarrow> string \<Rightarrow> string option \<Rightarrow> string" where
  "syslog_text func msg err = func @ '': '' @ msg @ (case err of None \<Rightarrow> [] | Some e \<Rightarrow> '': '' @ e)"

text \<open>
  The message goes to a buffer of 256 bytes, a warning behind its first nine; the line to one of 1024.  A string takes one byte more than
  its length.  What happens after an overrun is not described; in particular the code tests the length of the line only when it has been written.
\<close>

definition alog_lines :: "nat \<times> nat \<times> nat \<Rightarrow> nat \<Rightarrow> string \<Rightarrow> string \<Rightarrow> string option \<Rightarrow> log_state \<Rightarrow> log_effect list" where
  "alog_lines tm usec func msg err L =
     (let line = log_line tm usec func msg err in
      (if lg_to_file L then write_to_log_file line (int (length line)) L else []) @ (if lg_debug L then [Log_stdout line] else []))"

definition alog ::
  "nat \<Rightarrow> nat \<times> nat \<times> nat \<Rightarrow> nat \<Rightarrow> string \<Rightarrow> string \<Rightarrow> string option \<Rightarrow> log_state \<Rightarrow> log_effect list" where
  "alog type tm usec func msg err L =
     (if 256 \<le> (if type = LOG_WARNING then 9 else 0) + length msg then [Log_overrun]
      else if (lg_debug L \<or> lg_to_file L) \<and> 1024 \<le> length (log_line tm usec func msg err) then [Log_overrun]
      else
        (if lg_debug L \<or> lg_to_file L then alog_lines tm usec func msg err L else []) @
        (if type \<le> LOG_NOTICE then [Log_syslog type (syslog_text func msg err)] else []) @
        (if type \<le> LOG_ERR then [Log_exit] else []))"

section \<open>Text about protocol messages\<close>

definition packet_type :: "u32 \<Rightarrow> string" where
  "packet_type ty =
     (if ty = 1 then ''AODV_RREQ'' else if ty = 2 then ''AODV_RREP'' else if ty = 3 then ''AODV_RERR''
      else ''Unknown packet type '' @ sdec (sint ty))"

definition rreq_flags_to_str :: "RREQ \<Rightarrow> string" where
  "rreq_flags_to_str r =
     (if rq_j r then ''J'' else []) @ (if rq_r r then ''R'' else []) @ (if rq_g r then ''G'' else []) @ (if rq_d r then ''D'' else [])"

definition rrep_flags_to_str :: "RREP \<Rightarrow> string" where
  "rrep_flags_to_str r = (if rp_r r then ''R'' else []) @ (if rp_a r then ''A'' else [])"

text \<open>\<open>%ld\<close> and \<open>%lu\<close> are given 32-bit values, which are taken to be extended with zeros.\<close>

definition log_pkt_fields :: "bytes \<Rightarrow> string list" where
  "log_pkt_fields b =
     (if b ! 0 = AODV_RREQ then
        let r = get_RREQ b in
        [''rreq->flags:'' @ rreq_flags_to_str r @ '' rreq->hopcount='' @ dec (unat (rq_hcnt r)) @ '' rreq->rreq_id='' @ dec (unat (ntohl (rq_rreq_id r))),
         ''rreq->dest_addr:'' @ ip_to_str (rq_dest_addr r) @ '' rreq->dest_seqno='' @ dec (unat (ntohl (rq_dest_seqno r))),
         ''rreq->orig_addr:'' @ ip_to_str (rq_orig_addr r) @ '' rreq->orig_seqno='' @ dec (unat (ntohl (rq_orig_seqno r)))]
      else if b ! 0 = AODV_RREP then
        let r = get_RREP b in
        [''rrep->flags:'' @ rrep_flags_to_str r @ '' rrep->hcnt='' @ dec (unat (rp_hcnt r)),
         ''rrep->dest_addr:'' @ ip_to_str (rp_dest_addr r) @ '' rrep->dest_seqno='' @ sdec (sint (ntohl (rp_dest_seqno r))),
         ''rrep->orig_addr:'' @ ip_to_str (rp_orig_addr r) @ '' rrep->lifetime='' @ sdec (sint (ntohl (rp_lifetime r)))]
      else if b ! 0 = AODV_RERR then
        let r = get_RERR b in
        [''rerr->dest_count:'' @ dec (unat (re_dest_count r)) @ '' rerr->flags='' @ (if re_n r then ''N'' else ''-'')]
      else [])"

section \<open>Levels and buffers\<close>

lemma write_no_exit [simp]: "Log_exit \<notin> set (write_to_log_file m n L)" "Log_overrun \<notin> set (write_to_log_file m n L)"
  by (simp_all add: write_to_log_file_def)

lemma alog_exits:
  assumes "Log_overrun \<notin> set (alog type tm usec func msg err L)"
  shows "Log_exit \<in> set (alog type tm usec func msg err L) \<longleftrightarrow> type \<le> LOG_ERR"
  using assms by (auto simp: alog_def alog_lines_def Let_def split: if_splits)

lemma length_zero_left: "length (dec n) \<le> w \<Longrightarrow> length (zero_left w (dec n)) = w"
  by (simp add: zero_left_def)

lemma length_log_line:
  assumes "h < 24" "m < 60" "sec < 61" "usec < 1000000"
  shows "length (log_line (h, m, sec) usec func msg err) =
    16 + length func + length msg + (case err of None \<Rightarrow> 0 | Some e \<Rightarrow> 2 + length e)"
proof -
  have "length (dec h) \<le> 2" "length (dec m) \<le> 2" "length (dec sec) \<le> 2" "length (dec (usec div 1000)) \<le> 3"
    using assms by (intro length_dec; simp)+
  then show ?thesis by (simp add: log_line_def length_zero_left split: option.split)
qed

lemma length_dec_word: "length (dec (unat (w :: u8))) \<le> 3" "length (dec (unat (v :: u32))) \<le> 10"
  using unsigned_less [of w, where 'a = nat] unsigned_less [of v, where 'a = nat] by (intro length_dec; simp)+

lemma length_sdec: "length (sdec (sint (w :: u32))) \<le> 11"
proof -
  have "- (2 ^ 31) \<le> sint w" "sint w < 2 ^ 31" using sint_ge [of w] sint_lt [of w] by simp_all
  then have "length (dec (nat (sint w))) \<le> 10" "length (dec (nat (- sint w))) \<le> 10" by (intro length_dec; simp)+
  then show ?thesis by (simp add: sdec_def)
qed

text \<open>The static buffers of the three functions have 5, 3 and 50 bytes.\<close>

lemma flags_short: "length (rreq_flags_to_str q) < 5" "length (rrep_flags_to_str r) < 3" "length (packet_type ty) < 50"
  using length_sdec [of ty] by (simp_all add: rreq_flags_to_str_def rrep_flags_to_str_def packet_type_def)

lemma log_pkt_fields_short: "m \<in> set (log_pkt_fields b) \<Longrightarrow> length m < 80"
  using length_dec_word(1) [of "rq_hcnt (get_RREQ b)"] length_dec_word(1) [of "rp_hcnt (get_RREP b)"]
    length_dec_word(1) [of "re_dest_count (get_RERR b)"] length_dec_word(2) [of "ntohl (rq_rreq_id (get_RREQ b))"]
    length_dec_word(2) [of "ntohl (rq_dest_seqno (get_RREQ b))"] length_dec_word(2) [of "ntohl (rq_orig_seqno (get_RREQ b))"]
    length_sdec [of "ntohl (rp_dest_seqno (get_RREP b))"] length_sdec [of "ntohl (rp_lifetime (get_RREP b))"]
    flags_short(1) [of "get_RREQ b"] flags_short(2) [of "get_RREP b"]
    plain_ip(3) [of "rq_dest_addr (get_RREQ b)"] plain_ip(3) [of "rq_orig_addr (get_RREQ b)"]
    plain_ip(3) [of "rp_dest_addr (get_RREP b)"] plain_ip(3) [of "rp_orig_addr (get_RREP b)"]
  by (auto simp: log_pkt_fields_def Let_def simp del: plain_ip split: if_splits)

text \<open>Logging a protocol message overruns no buffer and does not end the program.\<close>

lemma log_pkt_fields_safe:
  assumes "m \<in> set (log_pkt_fields b)" "h < 24" "n < 60" "sec < 61" "usec < 1000000"
  shows "set (alog LOG_DEBUG (h, n, sec) usec ''log_pkt_fields'' m None L) \<inter> {Log_exit, Log_overrun} = {}"
  using log_pkt_fields_short [OF assms(1)] length_log_line [OF assms(2-5), of "''log_pkt_fields''" m None]
  by (auto simp: alog_def alog_lines_def Let_def LOG_DEBUG_def LOG_WARNING_def LOG_ERR_def LOG_NOTICE_def)

text \<open>A message of 256 characters is written behind its buffer.\<close>

lemma alog_overruns: "256 \<le> length msg \<Longrightarrow> alog type tm usec func msg err L = [Log_overrun]"
  by (simp add: alog_def)

text \<open>The descriptor is -1 until the file is opened, so that the test for 0 does not find a file that is not open.\<close>

lemma write_unopened: "lg_file_fd L = -1 \<Longrightarrow> msg \<noteq> [] \<Longrightarrow> write_to_log_file msg (int (length msg)) L = [Log_write (-1) msg]"
  by (simp add: write_to_log_file_def)

end
