(* ===== verification/Kernel_Expl.thy ===== *)
theory Kernel_Expl
  imports Messages
begin

text \<open>
  The kernel module, first part: its state and the list of routes it knows, \<open>kernel/kaodv-expl.c\<close>.
  The module is the predecessor of the netfilter queue in the daemon and is built separately.  It is
  modelled as its Makefile builds it for kernels from 2.6.24: without \<open>EXPL_TIMER\<close>, so that entries
  do not expire by themselves, and without \<open>CONFIG_QUAL_THRESHOLD\<close>.  Each operation is one step; of the
  locks, only \<open>kaodv_expl_add\<close> does not hold one throughout (it looks for the destination before it takes
  the write lock).

  The list is kept in the order of the expiry times.  Shown here: it implements a map from
  destinations to routes, except when its counter has reached the limit.
\<close>

section \<open>State\<close>

type_synonym u64 = "64 word"

record expl_entry =
  ex_expires :: u64
  ex_flags :: u16
  ex_daddr :: addr
  ex_nhop :: addr
  ex_ifindex :: u32

record if_info =
  ifi_ifindex :: u32
  if_addr :: addr
  bc_addr :: addr
  orig_mtu :: u32

record kaodv_queue_entry =
  qe_skb :: bytes
  qe_tos :: u8
  qe_daddr :: addr
  qe_saddr :: addr

text \<open>The message \<open>struct kaodv_rt_msg\<close>, and what the module does to the outside.\<close>

record kaodv_rt_msg =
  rm_type :: u8
  rm_msrc :: addr
  rm_dst :: addr
  rm_nhop :: addr
  rm_flags :: u8
  rm_ifindex :: u32
  rm_time :: u64

datatype kevent =
    K_msg nat kaodv_rt_msg
  | K_ack int
  | K_icmp bytes
  | K_free bytes
  | K_inject bytes
  | K_register nat
  | K_unregister nat
  | K_release
  | K_fault

text \<open>
  The variables of the module, and what it uses of the kernel: \<open>kmem\<close> says which of the coming allocations
  succeed and \<open>kjunk\<close> what fresh memory holds, \<open>ip_fast_csum\<close> computes the checksum of an IP header and
  \<open>ip_ident\<close> chooses its identification; \<open>jiffies\<close>, \<open>HZ\<close> and the MTU of each interface are the kernel's.
\<close>

record kstate =
  expl_head :: "expl_entry list"
  expl_len :: u32
  queue_list :: "kaodv_queue_entry list"
  queue_total :: u32
  active_timeout :: u32
  qual_th :: u32
  is_gateway :: u32
  peer_pid :: u32
  ifihead :: "if_info list"
  jiffies :: u64
  HZ :: u64
  kmem :: "nat \<Rightarrow> bool"
  kmem_pos :: nat
  kjunk :: addr
  dev_mtu :: "u32 \<Rightarrow> u32"
  ip_fast_csum :: "bytes \<Rightarrow> u16"
  ip_ident :: "bytes \<Rightarrow> u16"
  kout :: "kevent list"

definition kmalloc :: "kstate \<Rightarrow> bool \<times> kstate" where
  "kmalloc k = (kmem k (kmem_pos k), k\<lparr>kmem_pos := kmem_pos k + 1\<rparr>)"

definition kemit :: "kevent \<Rightarrow> kstate \<Rightarrow> kstate" where
  "kemit ev k = k\<lparr>kout := kout k @ [ev]\<rparr>"

section \<open>Operations\<close>

definition EXPL_MAX_LEN :: u32 where "EXPL_MAX_LEN = 1024"
definition ENOMEM :: int where "ENOMEM = 12"
definition EBUSY :: int where "EBUSY = 16"
definition EINVAL :: int where "EINVAL = 22"
definition ENOSPC :: int where "ENOSPC = 28"

definition kaodv_expl_find :: "addr \<Rightarrow> expl_entry list \<Rightarrow> expl_entry option" where
  "kaodv_expl_find daddr es = List.find (\<lambda>e. ex_daddr e = daddr) es"

text \<open>The place of an entry: before the first one that expires later.\<close>

fun expl_insert :: "expl_entry \<Rightarrow> expl_entry list \<Rightarrow> expl_entry list" where
  "expl_insert e [] = [e]"
| "expl_insert e (c # cs) = (if ex_expires c > ex_expires e then e # c # cs else c # expl_insert e cs)"

text \<open>\<open>__kaodv_expl_add\<close>, without the counter.\<close>

definition expl_add :: "expl_entry \<Rightarrow> kstate \<Rightarrow> int \<times> kstate" where
  "expl_add e k =
     (if expl_len k \<ge> EXPL_MAX_LEN then (- ENOSPC, k)
      else (1, k\<lparr>expl_head := expl_insert e (expl_head k)\<rparr>))"

definition kaodv_expl_del :: "addr \<Rightarrow> kstate \<Rightarrow> int \<times> kstate" where
  "kaodv_expl_del daddr k =
     (case kaodv_expl_find daddr (expl_head k) of
        None \<Rightarrow> (0, k)
      | Some e \<Rightarrow> (1, k\<lparr>expl_head := remove1 e (expl_head k), expl_len := expl_len k - 1\<rparr>))"

text \<open>The result of \<open>kaodv_expl_get\<close> with the entry it copies out.\<close>

definition kaodv_expl_get :: "addr \<Rightarrow> kstate \<Rightarrow> expl_entry option" where
  "kaodv_expl_get daddr k = kaodv_expl_find daddr (expl_head k)"

definition expl_expires :: "u64 \<Rightarrow> kstate \<Rightarrow> u64" where
  "expl_expires time k = jiffies k + (time * HZ k) div 1000"

definition kaodv_expl_add :: "addr \<Rightarrow> addr \<Rightarrow> u64 \<Rightarrow> u16 \<Rightarrow> u32 \<Rightarrow> kstate \<Rightarrow> int \<times> kstate" where
  "kaodv_expl_add daddr nhop time flags ifindex k =
     (if kaodv_expl_get daddr k \<noteq> None then (0, k)
      else
        case kmalloc k of
          (False, k1) \<Rightarrow> (- ENOMEM, k1)
        | (True, k1) \<Rightarrow>
            let e = \<lparr>ex_expires = expl_expires time k1, ex_flags = flags, ex_daddr = daddr, ex_nhop = nhop,
                     ex_ifindex = ifindex\<rparr>;
                (st, k2) = expl_add e k1
            in (st, if st \<noteq> 0 then k2\<lparr>expl_len := expl_len k2 + 1\<rparr> else k2))"

definition kaodv_expl_update :: "addr \<Rightarrow> addr \<Rightarrow> u64 \<Rightarrow> u16 \<Rightarrow> u32 \<Rightarrow> kstate \<Rightarrow> int \<times> kstate" where
  "kaodv_expl_update daddr nhop time flags ifindex k =
     (case kaodv_expl_find daddr (expl_head k) of
        None \<Rightarrow> (- 1, k)
      | Some e \<Rightarrow>
          let e' = e\<lparr>ex_nhop := nhop, ex_flags := flags, ex_ifindex := ifindex, ex_expires := expl_expires time k\<rparr>;
              k1 = k\<lparr>expl_head := remove1 e (expl_head k)\<rparr>
          in (0, snd (expl_add e' k1)))"

definition kaodv_expl_flush :: "kstate \<Rightarrow> kstate" where
  "kaodv_expl_flush k = k\<lparr>expl_head := [], expl_len := expl_len k - of_nat (length (expl_head k))\<rparr>"

definition kaodv_expl_init :: "kstate \<Rightarrow> kstate" where
  "kaodv_expl_init k = k\<lparr>expl_len := 0\<rparr>"

definition kaodv_expl_fini :: "kstate \<Rightarrow> kstate" where
  "kaodv_expl_fini k = kaodv_expl_flush k"

section \<open>The list as a map\<close>

definition expl_wf :: "kstate \<Rightarrow> bool" where
  "expl_wf k \<longleftrightarrow> distinct (map ex_daddr (expl_head k)) \<and> sorted (map ex_expires (expl_head k))"

definition expl_map :: "kstate \<Rightarrow> addr \<rightharpoonup> expl_entry" where
  "expl_map k d = kaodv_expl_get d k"

lemma find_expl_insert:
  "ex_daddr e \<notin> ex_daddr ` set es \<Longrightarrow>
     kaodv_expl_find d (expl_insert e es) = (if d = ex_daddr e then Some e else kaodv_expl_find d es)"
  by (induction es) (auto simp: kaodv_expl_find_def)

lemma find_remove1:
  "distinct (map ex_daddr es) \<Longrightarrow> kaodv_expl_find d' es = Some e \<Longrightarrow>
     kaodv_expl_find d (remove1 e es) = (if d = d' then None else kaodv_expl_find d es)"
proof (induction es)
  case (Cons a es)
  show ?case
  proof (cases "ex_daddr a = d'")
    case True
    then have "e = a" using Cons.prems(2) by (simp add: kaodv_expl_find_def)
    moreover have "kaodv_expl_find d' es = None"
      using Cons.prems(1) True by (auto simp: kaodv_expl_find_def find_None_iff image_iff)
    ultimately show ?thesis using True by (simp add: kaodv_expl_find_def)
  next
    case False
    then have e: "kaodv_expl_find d' es = Some e" using Cons.prems(2) by (simp add: kaodv_expl_find_def)
    then have "ex_daddr e = d'" by (auto simp: kaodv_expl_find_def find_Some_iff)
    then have "e \<noteq> a" using False by auto
    moreover have "kaodv_expl_find d (remove1 e es) = (if d = d' then None else kaodv_expl_find d es)"
      using Cons.IH Cons.prems(1) e by simp
    ultimately show ?thesis using False by (auto simp: kaodv_expl_find_def)
  qed
qed (simp add: kaodv_expl_find_def)

lemma expl_find_SomeD: "kaodv_expl_find d es = Some e \<Longrightarrow> e \<in> set es \<and> ex_daddr e = d"
  by (auto simp: kaodv_expl_find_def find_Some_iff)

lemma expl_find_NoneD: "kaodv_expl_find d es = None \<Longrightarrow> d \<notin> ex_daddr ` set es"
  by (auto simp: kaodv_expl_find_def find_None_iff)

lemma set_expl_insert [simp]: "set (expl_insert e es) = insert e (set es)"
  by (induction es) auto

lemma expl_insert_wf:
  "distinct (map ex_daddr es) \<Longrightarrow> ex_daddr e \<notin> ex_daddr ` set es \<Longrightarrow> distinct (map ex_daddr (expl_insert e es))"
  "sorted (map ex_expires es) \<Longrightarrow> sorted (map ex_expires (expl_insert e es))"
  by (induction es) (auto simp: not_less)

lemma remove1_wf:
  assumes "distinct (map ex_daddr es)" "sorted (map ex_expires es)" "e \<in> set es"
  shows "distinct (map ex_daddr (remove1 e es))" "sorted (map ex_expires (remove1 e es))"
    and "ex_daddr e \<notin> ex_daddr ` set (remove1 e es)"
proof -
  have "distinct es" using assms(1) by (simp add: distinct_map)
  then have set: "set (remove1 e es) = set es - {e}" by simp
  have "distinct (remove1 e es)" using \<open>distinct es\<close> by simp
  moreover have inj: "inj_on ex_daddr (set es)" using assms(1) by (simp add: distinct_map)
  ultimately show "distinct (map ex_daddr (remove1 e es))"
    unfolding distinct_map set by (auto intro: inj_on_subset)
  show "ex_daddr e \<notin> ex_daddr ` set (remove1 e es)" unfolding set using inj assms(3) by (auto simp: inj_on_def)
  show "sorted (map ex_expires (remove1 e es))" using sorted_map_remove1 [OF assms(2)] .
qed

lemma kaodv_expl_add_map:
  assumes "expl_wf k" "kaodv_expl_add d n t f i k = (st, k')"
  defines "skip \<equiv> expl_map k d \<noteq> None \<or> \<not> kmem k (kmem_pos k) \<or> EXPL_MAX_LEN \<le> expl_len k"
  shows "expl_wf k'"
    and "expl_map k' = (if skip then expl_map k
         else (expl_map k)(d \<mapsto> \<lparr>ex_expires = expl_expires t k, ex_flags = f, ex_daddr = d, ex_nhop = n,
           ex_ifindex = i\<rparr>))"
    and "0 < st \<longleftrightarrow> \<not> skip"
proof -
  let ?e = "\<lparr>ex_expires = expl_expires t k, ex_flags = f, ex_daddr = d, ex_nhop = n, ex_ifindex = i\<rparr>"
  have run: "expl_head k' = (if skip then expl_head k else expl_insert ?e (expl_head k))" "0 < st \<longleftrightarrow> \<not> skip"
    using assms(2)
    by (auto simp: kaodv_expl_add_def kmalloc_def expl_add_def Let_def expl_expires_def skip_def expl_map_def
        ENOMEM_def ENOSPC_def split: if_splits bool.splits)
  show "0 < st \<longleftrightarrow> \<not> skip" by (rule run(2))
  have "d \<notin> ex_daddr ` set (expl_head k)" if "\<not> skip"
    using that by (intro expl_find_NoneD) (simp add: skip_def expl_map_def kaodv_expl_get_def)
  with run(1) show "expl_wf k'"
    "expl_map k' = (if skip then expl_map k else (expl_map k)(d \<mapsto> ?e))"
    using assms(1) find_expl_insert [of ?e "expl_head k"] expl_insert_wf [of "expl_head k" ?e]
    by (auto simp: expl_wf_def expl_map_def kaodv_expl_get_def fun_eq_iff)
qed

lemma kaodv_expl_del_map:
  assumes "expl_wf k" "kaodv_expl_del d k = (st, k')"
  shows "expl_wf k'" "expl_map k' = (expl_map k)(d := None)" "st = 1 \<longleftrightarrow> expl_map k d \<noteq> None"
proof -
  have *: "expl_wf k' \<and> expl_map k' = (expl_map k)(d := None) \<and> (st = 1 \<longleftrightarrow> expl_map k d \<noteq> None)"
  proof (cases "kaodv_expl_find d (expl_head k)")
    case None
    then have "expl_map k d = None" by (simp add: expl_map_def kaodv_expl_get_def)
    then show ?thesis using assms None by (auto simp: kaodv_expl_del_def fun_eq_iff)
  next
    case (Some e)
    with remove1_wf [of "expl_head k" e] expl_find_SomeD [OF Some] assms find_remove1 [OF _ Some] show ?thesis
      by (auto simp: kaodv_expl_del_def expl_wf_def expl_map_def kaodv_expl_get_def fun_eq_iff)
  qed
  then show "expl_wf k'" "expl_map k' = (expl_map k)(d := None)" "st = 1 \<longleftrightarrow> expl_map k d \<noteq> None" by blast+
qed

lemma kaodv_expl_update_map:
  assumes "expl_wf k" "kaodv_expl_update d n t f i k = (st, k')"
  shows "expl_wf k'" "expl_map k' = (case expl_map k d of
           None \<Rightarrow> expl_map k
         | Some e \<Rightarrow>
             if EXPL_MAX_LEN \<le> expl_len k then (expl_map k)(d := None)
             else (expl_map k)(d \<mapsto> e\<lparr>ex_nhop := n, ex_flags := f, ex_ifindex := i,
               ex_expires := expl_expires t k\<rparr>))" (is "_ = ?m")
proof -
  have "expl_wf k' \<and> expl_map k' = ?m"
  proof (cases "kaodv_expl_find d (expl_head k)")
    case None
    then have "expl_map k d = None" by (simp add: expl_map_def kaodv_expl_get_def)
    then show ?thesis using assms None by (auto simp: kaodv_expl_update_def)
  next
    case (Some e)
    let ?e = "e\<lparr>ex_nhop := n, ex_flags := f, ex_ifindex := i, ex_expires := expl_expires t k\<rparr>"
    let ?es = "remove1 e (expl_head k)"
    note e = expl_find_SomeD [OF Some]
    have wf: "distinct (map ex_daddr ?es)" "sorted (map ex_expires ?es)" "ex_daddr ?e \<notin> ex_daddr ` set ?es"
      using remove1_wf [of "expl_head k" e] e assms(1) by (simp_all add: expl_wf_def)
    have find: "kaodv_expl_find x ?es = (if x = d then None else kaodv_expl_find x (expl_head k))" for x
      using assms(1) by (intro find_remove1 [OF _ Some]) (simp add: expl_wf_def)
    have "expl_head k' = (if EXPL_MAX_LEN \<le> expl_len k then ?es else expl_insert ?e ?es)"
      using assms(2) Some by (auto simp: kaodv_expl_update_def expl_add_def Let_def expl_expires_def)
    then show ?thesis
      using wf find find_expl_insert [OF wf(3)] expl_insert_wf(1) [OF wf(1,3)] expl_insert_wf(2) [OF wf(2)] e Some
      by (auto simp: expl_wf_def expl_map_def kaodv_expl_get_def fun_eq_iff)
  qed
  then show "expl_wf k'" "expl_map k' = ?m" by blast+
qed

section \<open>Properties\<close>

text \<open>
  C30. The list of routes in the kernel implements a map from destinations to routes and stays
  ordered by expiry.  Adding a known destination changes nothing.  A new one is added if there is
  memory and the counter is below its limit; deleting removes exactly the destination; an update
  replaces the route of a known destination, but loses it when the counter is at the limit.
\<close>

theorem expl_refines_map:
  assumes "expl_wf k" and "kaodv_expl_add d n t f i k = (a, ka)" and "kaodv_expl_del d k = (b, kb)"
    and "kaodv_expl_update d n t f i k = (c, kc)"
  shows "(\<forall>x \<in> {ka, kb, kc, kaodv_expl_flush k}. expl_wf x) \<and>
    expl_map ka =
      (if expl_map k d = None \<and> kmem k (kmem_pos k) \<and> expl_len k < EXPL_MAX_LEN
       then (expl_map k)(d \<mapsto> \<lparr>ex_expires = expl_expires t k, ex_flags = f, ex_daddr = d, ex_nhop = n,
         ex_ifindex = i\<rparr>)
       else expl_map k) \<and>
    (a \<le> 0 \<longrightarrow> expl_map ka = expl_map k) \<and>
    expl_map kb = (expl_map k)(d := None) \<and> (b = 1 \<longleftrightarrow> expl_map k d \<noteq> None) \<and>
    expl_map kc =
      (case expl_map k d of
         None \<Rightarrow> expl_map k
       | Some e \<Rightarrow>
           if EXPL_MAX_LEN \<le> expl_len k then (expl_map k)(d := None)
           else (expl_map k)(d \<mapsto> e\<lparr>ex_nhop := n, ex_flags := f, ex_ifindex := i, ex_expires := expl_expires t k\<rparr>)) \<and>
    expl_map (kaodv_expl_flush k) = Map.empty"
proof -
  note add = kaodv_expl_add_map [OF assms(1,2)] and del = kaodv_expl_del_map [OF assms(1,3)]
    and upd = kaodv_expl_update_map [OF assms(1,4)]
  have "expl_wf (kaodv_expl_flush k)" "expl_map (kaodv_expl_flush k) = Map.empty"
    by (simp_all add: kaodv_expl_flush_def expl_wf_def expl_map_def kaodv_expl_get_def kaodv_expl_find_def fun_eq_iff)
  moreover have "a \<le> 0 \<longrightarrow> expl_map ka = expl_map k" using add(2,3) by auto
  ultimately show ?thesis using add(1,2) del upd by (auto simp: not_le)
qed

definition demo_kernel :: kstate where
  "demo_kernel = \<lparr>expl_head = [\<lparr>ex_expires = 500, ex_flags = 0, ex_daddr = 0x0200000A, ex_nhop = 0x0200000A,
       ex_ifindex = 3\<rparr>], expl_len = 1, queue_list = [], queue_total = 0, active_timeout = 3000, qual_th = 0,
     is_gateway = 1, peer_pid = 0, ifihead = [\<lparr>ifi_ifindex = 3, if_addr = 0x0100000A, bc_addr = 0xFF00000A,
       orig_mtu = 1500\<rparr>], jiffies = 100, HZ = 250, kmem = (\<lambda>_. True), kmem_pos = 0, kjunk = 0,
     dev_mtu = (\<lambda>_. 1492), ip_fast_csum = (\<lambda>_. 0),
     ip_ident = (\<lambda>_. 0), kout = []\<rparr>"

theorem expl_refines_map_witness:
  "expl_map (snd (kaodv_expl_add 0x0300000A 0x0200000A 3000 0 3 demo_kernel)) 0x0300000A =
     Some \<lparr>ex_expires = 850, ex_flags = 0, ex_daddr = 0x0300000A, ex_nhop = 0x0200000A, ex_ifindex = 3\<rparr>"
proof -
  have "expl_wf demo_kernel" by (simp add: expl_wf_def demo_kernel_def)
  moreover have "expl_map demo_kernel 0x0300000A = None" "kmem demo_kernel 0" "kmem_pos demo_kernel = 0"
    "expl_len demo_kernel < EXPL_MAX_LEN" "expl_expires 3000 demo_kernel = 850"
    by (simp_all add: demo_kernel_def expl_map_def kaodv_expl_get_def kaodv_expl_find_def EXPL_MAX_LEN_def expl_expires_def)
  ultimately show ?thesis
    using expl_refines_map [OF _ surjective_pairing surjective_pairing surjective_pairing, of demo_kernel
        "0x0300000A" "0x0200000A" 3000 0 3] by simp
qed

text \<open>
  The counter drifts: \<open>kaodv_expl_add\<close> increments it for every result that is not zero, also for the
  error of a full list, so that it exceeds the number of entries and no route can be added again
  even after deletions.
\<close>

theorem expl_counter_drifts:
  assumes "kaodv_expl_get d k = None" and "kmem k (kmem_pos k)" and "EXPL_MAX_LEN \<le> expl_len k"
  shows "kaodv_expl_add d n t f i k = (- ENOSPC, k\<lparr>kmem_pos := kmem_pos k + 1, expl_len := expl_len k + 1\<rparr>)"
  using assms by (simp add: kaodv_expl_add_def kmalloc_def expl_add_def Let_def ENOSPC_def)

end
