(* ===== verification/Kernel_Packets.thy ===== *)
theory Kernel_Packets
  imports Kernel_Expl Packet_Input
begin

text \<open>
  The kernel module, second part: the queue of packets that wait for a route
  (\<open>kernel/kaodv-queue.c\<close>) and minimal IP encapsulation (\<open>kernel/kaodv-ipenc.c\<close>).  A packet is the list of
  its bytes from the IP header on.  \<open>ip_send_check\<close> and \<open>ip_select_ident\<close> are the kernel's; they store
  what \<open>ip_fast_csum\<close> and \<open>ip_ident\<close> of the state give.  Reading outside a packet is the event \<open>K_fault\<close>.

  Shown here: a packet that is encapsulated and decapsulated is the packet one started with, and a
  verdict takes exactly the packets for its destination out of the queue, oldest first.
\<close>

section \<open>Encapsulation\<close>

definition IPPROTO_MIPE :: u8 where "IPPROTO_MIPE = 55"
definition MIPE_SIZE :: nat where [simp]: "MIPE_SIZE = 8"

definition get16 :: "bytes \<Rightarrow> nat \<Rightarrow> u16" where
  "get16 b i = ucast (b ! i) OR push_bit 8 (ucast (b ! (i + 1)))"

definition put16 :: "u16 \<Rightarrow> bytes" where
  "put16 w = [ucast w, ucast (drop_bit 8 w)]"

text \<open>\<open>ip_csum\<close>: the folded sum of 16-bit words.\<close>

fun csum_add :: "bytes \<Rightarrow> u32 \<Rightarrow> u32" where
  "csum_add (a # b # bs) acc = csum_add bs (acc + ucast (get16 [a, b] 0))"
| "csum_add _ acc = acc"

definition ip_csum :: "bytes \<Rightarrow> u16" where
  "ip_csum bs =
     (let sum0 = csum_add bs 0;
          sum1 = drop_bit 16 sum0 + (sum0 AND 0xFFFF);
          sum2 = sum1 + drop_bit 16 sum1
      in ucast (NOT sum2))"

text \<open>\<open>ip_send_check\<close> of the kernel: the checksum field is zero while the sum is computed.\<close>

definition ip_send_check :: "(bytes \<Rightarrow> u16) \<Rightarrow> bytes \<Rightarrow> bytes" where
  "ip_send_check csum b =
     (let z = poke 10 [0, 0] b in poke 10 (put16 (csum (take (ip_hlen b) z))) z)"

text \<open>\<open>struct min_ipenc_hdr\<close> with the source address left out.\<close>

definition ipenc_hdr :: "u8 \<Rightarrow> u16 \<Rightarrow> addr \<Rightarrow> bytes" where
  "ipenc_hdr protocol check daddr = [protocol, 0] @ put16 check @ put32 daddr"

definition encapsulate :: "(bytes \<Rightarrow> u16) \<Rightarrow> (bytes \<Rightarrow> u16) \<Rightarrow> bytes \<Rightarrow> addr \<Rightarrow> bytes" where
  "encapsulate csum ident skb dest =
     (let hl = ip_hlen skb;
          ipe = ipenc_hdr (ip_protocol skb) 0 (ip_daddr skb);
          b0 = take hl skb @ ipe @ drop hl skb;
          b1 = poke 16 (put32 dest) b0;
          b2 = poke 9 [IPPROTO_MIPE] b1;
          b3 = poke 2 (put16 (htons (ntohs (get16 b2 2) + of_nat MIPE_SIZE))) b2;
          b4 = poke (hl + 2) (put16 (ip_csum ipe)) b3;
          b5 = ip_send_check csum b4
      in if get16 b5 4 = 0 then poke 4 (put16 (ident b5)) b5 else b5)"

text \<open>The result \<open>None\<close> is the null pointer; the packet given is freed in either case.\<close>

definition ip_pkt_encapsulate :: "bytes \<Rightarrow> addr \<Rightarrow> kstate \<Rightarrow> bytes option \<times> kstate" where
  "ip_pkt_encapsulate skb dest k =
     (case kmalloc k of
        (False, k1) \<Rightarrow> (None, kemit (K_free skb) k1)
      | (True, k1) \<Rightarrow>
          if length skb < max 20 (ip_hlen skb) then (None, kemit K_fault k1)
          else (Some (encapsulate (ip_fast_csum k1) (ip_ident k1) skb dest), kemit (K_free skb) k1))"

definition decapsulate :: "(bytes \<Rightarrow> u16) \<Rightarrow> bytes \<Rightarrow> bytes" where
  "decapsulate csum skb =
     (let hl = ip_hlen skb;
          b1 = poke 9 [skb ! hl] skb;
          b2 = poke 16 (put32 (get32 b1 (hl + 4))) b1;
          b3 = take hl b2 @ drop (hl + MIPE_SIZE) b2;
          b4 = poke 2 (put16 (htons (ntohs (get16 b3 2) - of_nat MIPE_SIZE))) b3
      in ip_send_check csum b4)"

definition ip_pkt_decapsulate :: "bytes \<Rightarrow> kstate \<Rightarrow> bytes \<times> kstate" where
  "ip_pkt_decapsulate skb k =
     (if length skb < max 20 (ip_hlen skb) + MIPE_SIZE then (skb, kemit K_fault k)
      else (decapsulate (ip_fast_csum k) skb, k))"

section \<open>The queue\<close>

definition KAODV_QUEUE_QMAX_DEFAULT :: u32 where "KAODV_QUEUE_QMAX_DEFAULT = 1024"
definition KAODV_RT_GW_ENCAP :: u16 where "KAODV_RT_GW_ENCAP = 1"
definition KAODV_RT_REPAIR :: u16 where "KAODV_RT_REPAIR = 2"

datatype kaodv_verdict = KAODV_QUEUE_DROP | KAODV_QUEUE_SEND

definition queue_enqueue_entry :: "kaodv_queue_entry \<Rightarrow> kstate \<Rightarrow> int \<times> kstate" where
  "queue_enqueue_entry e k =
     (if queue_total k \<ge> KAODV_QUEUE_QMAX_DEFAULT then (- ENOSPC, k)
      else (0, k\<lparr>queue_list := e # queue_list k, queue_total := queue_total k + 1\<rparr>))"

definition queue_find_entry :: "(kaodv_queue_entry \<Rightarrow> bool) \<Rightarrow> kstate \<Rightarrow> kaodv_queue_entry option" where
  "queue_find_entry P k = List.find P (rev (queue_list k))"

definition queue_find_dequeue_entry ::
  "(kaodv_queue_entry \<Rightarrow> bool) \<Rightarrow> kstate \<Rightarrow> (kaodv_queue_entry \<times> kstate) option" where
  "queue_find_dequeue_entry P k =
     (case queue_find_entry P k of
        None \<Rightarrow> None
      | Some e \<Rightarrow> Some (e, k\<lparr>queue_list := rev (remove1 e (rev (queue_list k))), queue_total := queue_total k - 1\<rparr>))"

definition kaodv_queue_enqueue_packet :: "bytes \<Rightarrow> kstate \<Rightarrow> int \<times> kstate" where
  "kaodv_queue_enqueue_packet skb k =
     (case kmalloc k of
        (False, k1) \<Rightarrow> (- ENOMEM, k1)
      | (True, k1) \<Rightarrow>
          queue_enqueue_entry \<lparr>qe_skb = skb, qe_tos = skb ! 1, qe_daddr = ip_daddr skb, qe_saddr = ip_saddr skb\<rparr> k1)"

definition dest_cmp :: "addr \<Rightarrow> kaodv_queue_entry \<Rightarrow> bool" where
  "dest_cmp daddr e \<longleftrightarrow> daddr = qe_daddr e"

definition kaodv_queue_find :: "addr \<Rightarrow> kstate \<Rightarrow> int" where
  "kaodv_queue_find daddr k = (if queue_find_entry (dest_cmp daddr) k \<noteq> None then 1 else 0)"

lemma queue_dequeue_length:
  "queue_find_dequeue_entry P k = Some (e, k') \<Longrightarrow> length (queue_list k') < length (queue_list k)"
  by (auto simp: queue_find_dequeue_entry_def queue_find_entry_def find_Some_iff length_remove1 set_conv_nth
      split: option.splits)

text \<open>The two loops of \<open>kaodv_queue_set_verdict\<close> and the one of \<open>kaodv_queue_flush\<close>.\<close>

function queue_drop :: "addr \<Rightarrow> int \<Rightarrow> kstate \<Rightarrow> int \<times> kstate" where
  "queue_drop daddr pkts k =
     (case queue_find_dequeue_entry (dest_cmp daddr) k of
        None \<Rightarrow> (pkts, k)
      | Some (e, k1) \<Rightarrow>
          let k2 = (if pkts = 0 then kemit (K_icmp (qe_skb e)) k1 else k1)
          in queue_drop daddr (pkts + 1) (kemit (K_free (qe_skb e)) k2))"
  by pat_completeness auto
termination
  by (relation "measure (\<lambda>(d, n, k). length (queue_list k))")
    (auto simp: kemit_def dest: queue_dequeue_length)

text \<open>One packet of the loop that sends: rerouted and handed on, or freed when no route is known.\<close>

definition queue_send_one :: "addr \<Rightarrow> kaodv_queue_entry \<Rightarrow> int \<times> kstate \<Rightarrow> int \<times> kstate" where
  "queue_send_one daddr e st =
     (case st of (pkts, k) \<Rightarrow>
        case kaodv_expl_get daddr k of
          None \<Rightarrow> (pkts, kemit (K_free (qe_skb e)) k)
        | Some x \<Rightarrow>
            if ex_flags x AND KAODV_RT_GW_ENCAP \<noteq> 0 then
              case ip_pkt_encapsulate (qe_skb e) (ex_nhop x) k of
                (None, k1) \<Rightarrow> (pkts, k1)
              | (Some skb, k1) \<Rightarrow> (pkts + 1, kemit (K_inject skb) k1)
            else (pkts + 1, kemit (K_inject (qe_skb e)) k))"

lemma ip_pkt_encapsulate_frame [simp]:
  "queue_list (snd (ip_pkt_encapsulate b d k)) = queue_list k"
  "expl_head (snd (ip_pkt_encapsulate b d k)) = expl_head k"
  "queue_total (snd (ip_pkt_encapsulate b d k)) = queue_total k"
  by (simp_all add: ip_pkt_encapsulate_def kmalloc_def kemit_def split: bool.split)

lemma queue_send_one_frame [simp]:
  "queue_list (snd (queue_send_one d e st)) = queue_list (snd st)"
  "expl_head (snd (queue_send_one d e st)) = expl_head (snd st)"
  "queue_total (snd (queue_send_one d e st)) = queue_total (snd st)"
  by (simp_all add: queue_send_one_def kemit_def case_prod_beta split: option.split)

function queue_send :: "addr \<Rightarrow> int \<Rightarrow> kstate \<Rightarrow> int \<times> kstate" where
  "queue_send daddr pkts k =
     (case queue_find_dequeue_entry (dest_cmp daddr) k of
        None \<Rightarrow> (pkts, k)
      | Some (e, k1) \<Rightarrow> let st = queue_send_one daddr e (pkts, k1) in queue_send daddr (fst st) (snd st))"
  by pat_completeness auto
termination
  by (relation "measure (\<lambda>x. length (queue_list (snd (snd x))))") (auto dest: queue_dequeue_length)

definition kaodv_queue_set_verdict :: "kaodv_verdict \<Rightarrow> addr \<Rightarrow> kstate \<Rightarrow> int \<times> kstate" where
  "kaodv_queue_set_verdict verdict daddr k =
     (case verdict of KAODV_QUEUE_DROP \<Rightarrow> queue_drop daddr 0 k | KAODV_QUEUE_SEND \<Rightarrow> queue_send daddr 0 k)"

function kaodv_queue_flush :: "kstate \<Rightarrow> kstate" where
  "kaodv_queue_flush k =
     (case queue_find_dequeue_entry (\<lambda>_. True) k of
        None \<Rightarrow> k
      | Some (e, k1) \<Rightarrow> kaodv_queue_flush (kemit (K_free (qe_skb e)) k1))"
  by pat_completeness auto
termination
  by (relation "measure (\<lambda>k. length (queue_list k))") (auto simp: kemit_def dest: queue_dequeue_length)

text \<open>\<open>init_or_cleanup\<close> for either argument; \<open>proc\<close> tells whether the entry in \<open>/proc\<close> can be created.\<close>

definition kaodv_queue_init :: "bool \<Rightarrow> kstate \<Rightarrow> int \<times> kstate" where
  "kaodv_queue_init proc k = (if proc then 1 else - 1, k\<lparr>queue_total := 0\<rparr>)"

definition kaodv_queue_fini :: "kstate \<Rightarrow> kstate" where
  "kaodv_queue_fini k = kaodv_queue_flush k"

declare queue_drop.simps [simp del] queue_send.simps [simp del] kaodv_queue_flush.simps [simp del]

section \<open>Verdicts\<close>

text \<open>The queue, oldest packet first.\<close>

definition fifo :: "kstate \<Rightarrow> kaodv_queue_entry list" where
  "fifo k = rev (queue_list k)"

lemma find_remove1_filter:
  assumes "List.find P xs = Some e"
  shows "filter P xs = e # filter P (remove1 e xs)" "filter (\<lambda>x. \<not> P x) (remove1 e xs) = filter (\<lambda>x. \<not> P x) xs"
proof -
  have "P e" using assms by (auto simp: find_Some_iff)
  with assms show "filter P xs = e # filter P (remove1 e xs)"
    "filter (\<lambda>x. \<not> P x) (remove1 e xs) = filter (\<lambda>x. \<not> P x) xs"
    by (induction xs) (auto split: if_splits)
qed

lemma dequeue_SomeD:
  assumes "queue_find_dequeue_entry P k = Some (e, k1)"
  shows "queue_total k1 = queue_total k - 1" "expl_head k1 = expl_head k" "kout k1 = kout k"
    and "filter P (fifo k) = e # filter P (fifo k1)"
    and "filter (\<lambda>x. \<not> P x) (fifo k1) = filter (\<lambda>x. \<not> P x) (fifo k)"
  using assms find_remove1_filter [of P "fifo k" e]
  by (auto simp: queue_find_dequeue_entry_def queue_find_entry_def fifo_def split: option.splits)

lemma dequeue_NoneD: "queue_find_dequeue_entry P k = None \<Longrightarrow> filter P (fifo k) = []"
  by (auto simp: queue_find_dequeue_entry_def queue_find_entry_def fifo_def find_None_iff filter_empty_conv
      split: option.splits)

lemma fifo_kemit [simp]: "fifo (kemit ev k) = fifo k" "queue_total (kemit ev k) = queue_total k"
  "expl_head (kemit ev k) = expl_head k" "kout (kemit ev k) = kout k @ [ev]"
  by (simp_all add: fifo_def kemit_def)

lemma filter_none: "filter P xs = [] \<Longrightarrow> filter (\<lambda>x. \<not> P x) xs = xs"
  by (simp add: filter_empty_conv filter_id_conv)

definition drop_events :: "int \<Rightarrow> kaodv_queue_entry list \<Rightarrow> kevent list" where
  "drop_events n es =
     (if n = 0 \<and> es \<noteq> [] then [K_icmp (qe_skb (hd es))] else []) @ map (\<lambda>e. K_free (qe_skb e)) es"

lemma queue_drop_run:
  assumes "queue_drop d n k = (n', k')" "0 \<le> n"
  shows "fifo k' = filter (\<lambda>e. \<not> dest_cmp d e) (fifo k) \<and> n' = n + int (length (filter (dest_cmp d) (fifo k))) \<and>
    queue_total k' = queue_total k - of_nat (length (filter (dest_cmp d) (fifo k))) \<and>
    kout k' = kout k @ drop_events n (filter (dest_cmp d) (fifo k)) \<and> expl_head k' = expl_head k"
  using assms
proof (induction d n k rule: queue_drop.induct)
  case (1 d n k)
  show ?case
  proof (cases "queue_find_dequeue_entry (dest_cmp d) k")
    case None
    then show ?thesis
      using 1(2) dequeue_NoneD [OF None] filter_none [OF dequeue_NoneD [OF None]]
      by (simp add: queue_drop.simps [of d n k] drop_events_def)
  next
    case (Some p)
    obtain e k1 where p: "p = (e, k1)" by fastforce
    note s = Some [unfolded p]
    define k2 where "k2 = kemit (K_free (qe_skb e)) (if n = 0 then kemit (K_icmp (qe_skb e)) k1 else k1)"
    have "queue_drop d (n + 1) k2 = (n', k')"
      using 1(2) by (simp add: queue_drop.simps [of d n k] s k2_def)
    note IH = 1(1) [OF s refl refl, folded k2_def, OF this]
    have k2: "fifo k2 = fifo k1" "queue_total k2 = queue_total k - 1" "expl_head k2 = expl_head k"
      "kout k2 = kout k @ (if n = 0 then [K_icmp (qe_skb e)] else []) @ [K_free (qe_skb e)]"
      by (simp_all add: k2_def dequeue_SomeD(1-3) [OF s])
    show ?thesis
      using IH 1(3) dequeue_SomeD(4,5) [OF s] by (simp add: k2 drop_events_def)
  qed
qed

text \<open>What happens to one packet for a destination whose entry is \<open>r\<close>, memory permitting.\<close>

definition send_one_events :: "kstate \<Rightarrow> expl_entry option \<Rightarrow> bytes \<Rightarrow> kevent list" where
  "send_one_events k r b =
     (case r of
        None \<Rightarrow> [K_free b]
      | Some x \<Rightarrow>
          if ex_flags x AND KAODV_RT_GW_ENCAP \<noteq> 0
          then [K_free b, K_inject (encapsulate (ip_fast_csum k) (ip_ident k) b (ex_nhop x))]
          else [K_inject b])"

definition sendable :: "kstate \<Rightarrow> bytes \<Rightarrow> bool" where
  "sendable k b \<longleftrightarrow> (\<forall>i. kmem k i) \<and> max 20 (ip_hlen b) \<le> length b"

lemma queue_send_one_run:
  assumes "sendable k (qe_skb e)" "kaodv_expl_get d k = r" "queue_send_one d e (n, k) = (n', k')"
  shows "kout k' = kout k @ send_one_events k r (qe_skb e)" "n' = n + (if r = None then 0 else 1)"
    "queue_list k' = queue_list k" "queue_total k' = queue_total k" "expl_head k' = expl_head k" "kmem k' = kmem k"
    "ip_fast_csum k' = ip_fast_csum k" "ip_ident k' = ip_ident k"
  using assms
  by (auto simp: queue_send_one_def ip_pkt_encapsulate_def kmalloc_def kemit_def send_one_events_def sendable_def
      split: option.splits if_splits)

lemma queue_send_run:
  assumes "queue_send d n k = (n', k')" "kaodv_expl_get d k = r"
    and "\<forall>e \<in> set (filter (dest_cmp d) (fifo k)). sendable k (qe_skb e)"
  shows "fifo k' = filter (\<lambda>e. \<not> dest_cmp d e) (fifo k) \<and>
    n' = n + (if r = None then 0 else int (length (filter (dest_cmp d) (fifo k)))) \<and>
    queue_total k' = queue_total k - of_nat (length (filter (dest_cmp d) (fifo k))) \<and>
    kout k' = kout k @ concat (map (\<lambda>e. send_one_events k r (qe_skb e)) (filter (dest_cmp d) (fifo k)))"
  using assms
proof (induction d n k rule: queue_send.induct)
  case (1 d n k)
  show ?case
  proof (cases "queue_find_dequeue_entry (dest_cmp d) k")
    case None
    then show ?thesis
      using 1(2) dequeue_NoneD [OF None] filter_none [OF dequeue_NoneD [OF None]]
      by (simp add: queue_send.simps [of d n k])
  next
    case (Some p)
    obtain e k1 where p: "p = (e, k1)" by fastforce
    note s = Some [unfolded p]
    obtain n2 k2 where o: "queue_send_one d e (n, k1) = (n2, k2)" by fastforce
    have k1: "kmem k1 = kmem k" "ip_fast_csum k1 = ip_fast_csum k" "ip_ident k1 = ip_ident k" "expl_head k1 = expl_head k"
      using s by (auto simp: queue_find_dequeue_entry_def split: option.splits)
    then have get: "kaodv_expl_get d k1 = r" using 1(3) by (simp add: kaodv_expl_get_def)
    have sendable: "sendable k1 b = sendable k b" for b by (simp add: sendable_def k1)
    have ev: "send_one_events k1 r b = send_one_events k r b" for b
      unfolding send_one_events_def k1 ..
    note q = dequeue_SomeD [OF s]
    have "sendable k1 (qe_skb e)" using 1(4) q(4) by (simp add: sendable)
    note one = queue_send_one_run [OF this get o]
    have "queue_send d n2 k2 = (n', k')" using 1(2) by (simp add: queue_send.simps [of d n k] s o)
    moreover have "fifo k2 = fifo k1" by (simp add: fifo_def one(3))
    moreover have "send_one_events k2 r b = send_one_events k r b" "sendable k2 b = sendable k b" for b
      unfolding send_one_events_def sendable_def one(6-8) k1 by (rule refl)+
    moreover have "kaodv_expl_get d k2 = r" using get by (simp add: kaodv_expl_get_def one(5))
    ultimately have "fifo k' = filter (\<lambda>e. \<not> dest_cmp d e) (fifo k1) \<and>
      n' = n2 + (if r = None then 0 else int (length (filter (dest_cmp d) (fifo k1)))) \<and>
      queue_total k' = queue_total k2 - of_nat (length (filter (dest_cmp d) (fifo k1))) \<and>
      kout k' = kout k2 @ concat (map (\<lambda>e. send_one_events k r (qe_skb e)) (filter (dest_cmp d) (fifo k1)))"
      using 1(1) [OF s refl o [symmetric]] 1(4) q(4) by (simp add: o)
    then show ?thesis using q one(1,2,4) by (simp add: ev)
  qed
qed

section \<open>Encapsulation and decapsulation\<close>

lemma nth_poke:
  assumes "i + length bs \<le> length b" "j < length b"
  shows "poke i bs b ! j = (if i \<le> j \<and> j < i + length bs then bs ! (j - i) else b ! j)"
  using assms by (auto simp: poke_def nth_append min_def)

lemma length_put16 [simp]: "length (put16 w) = 2"
  by (simp add: put16_def)

lemma put16_get16: "put16 (get16 b i) = [b ! i, b ! (i + 1)]"
proof -
  have "ucast (ucast x OR push_bit 8 (ucast y) :: u16) = x"
    "ucast (drop_bit 8 (ucast x OR push_bit 8 (ucast y) :: u16)) = y" for x y :: u8
    by (rule bit_word_eqI; auto simp: bit_simps)+
  then show ?thesis by (simp add: put16_def get16_def)
qed

lemma get16_put16: "b ! i = put16 w ! 0 \<Longrightarrow> b ! (i + 1) = put16 w ! 1 \<Longrightarrow> get16 b i = w"
proof -
  have "(ucast (ucast w :: u8) OR push_bit 8 (ucast (ucast (drop_bit 8 w) :: u8)) :: u16) = w"
  proof (rule bit_word_eqI)
    fix n :: nat
    assume "n < LENGTH(16)"
    then show "bit (ucast (ucast w :: u8) OR push_bit 8 (ucast (ucast (drop_bit 8 w) :: u8)) :: u16) n = bit w n"
      by (cases "n < 8") (auto simp: bit_simps)
  qed
  then show "b ! i = put16 w ! 0 \<Longrightarrow> b ! (i + 1) = put16 w ! 1 \<Longrightarrow> get16 b i = w"
    by (simp add: get16_def put16_def)
qed

lemma ip_send_check_nth:
  assumes "20 \<le> length b" "j < length b"
  shows "length (ip_send_check c b) = length b"
    "ip_send_check c b ! j = (if j = 10 \<or> j = 11 then put16 (c (take (ip_hlen b) (poke 10 [0, 0] b))) ! (j - 10) else b ! j)"
  using assms by (auto simp: ip_send_check_def Let_def nth_poke)

text \<open>The bytes of an encapsulated packet, the checksum of the IP header apart.\<close>

definition encap_byte :: "bytes \<Rightarrow> addr \<Rightarrow> nat \<Rightarrow> u8" where
  "encap_byte b dest j =
     (let hl = ip_hlen b in
      if j \<in> {2, 3} then put16 (htons (ntohs (get16 b 2) + 8)) ! (j - 2)
      else if j = 9 then IPPROTO_MIPE
      else if j \<in> {16..<20} then put32 dest ! (j - 16)
      else if j < hl then b ! j
      else if j < hl + 8
      then ipenc_hdr (ip_protocol b) (ip_csum (ipenc_hdr (ip_protocol b) 0 (ip_daddr b))) (ip_daddr b) ! (j - hl)
      else b ! (j - 8))"

lemma encapsulate_bytes:
  assumes "20 \<le> ip_hlen b" "ip_hlen b \<le> length b" "get16 b 4 \<noteq> 0" "e = encapsulate csum ident b dest"
  shows "length e = length b + 8"
    and "\<And>j. j < length b + 8 \<Longrightarrow> j \<notin> {10, 11} \<Longrightarrow> e ! j = encap_byte b dest j"
proof -
  let ?ipe = "ipenc_hdr (ip_protocol b) 0 (ip_daddr b)" and ?hl = "ip_hlen b"
  define b0 where "b0 = take ?hl b @ ?ipe @ drop ?hl b"
  have len: "length (ipenc_hdr p c d) = 8" for p c d by (simp add: ipenc_hdr_def)
  have b0: "length b0 = length b + 8"
    "\<And>j. j < length b + 8 \<Longrightarrow>
       b0 ! j = (if j < ?hl then b ! j else if j < ?hl + 8 then ?ipe ! (j - ?hl) else b ! (j - 8))"
    using assms(1,2) len by (auto simp: b0_def nth_append min_def)
  define b2 where "b2 = poke 9 [IPPROTO_MIPE] (poke 16 (put32 dest) b0)"
  have g: "get16 b2 2 = get16 b 2" using assms(1,2) by (simp add: b2_def get16_def nth_poke b0)
  define b4 where "b4 = poke (?hl + 2) (put16 (ip_csum ?ipe))
    (poke 2 (put16 (htons (ntohs (get16 b2 2) + of_nat MIPE_SIZE))) b2)"
  have hdr: "ipenc_hdr p c d ! i = (if i \<in> {2, 3} then put16 c ! (i - 2) else ipenc_hdr p 0 d ! i)" for p c d i
    by (auto simp: ipenc_hdr_def nth_append nth_Cons split: nat.split)
  have b4: "length b4 = length b + 8" "\<And>j. j < length b + 8 \<Longrightarrow> b4 ! j = encap_byte b dest j"
    using assms(1,2) g hdr [of "ip_protocol b" "ip_csum ?ipe" "ip_daddr b"]
    by (auto simp: b4_def b2_def nth_poke b0 encap_byte_def Let_def)
  have "get16 (ip_send_check csum b4) 4 = get16 b 4"
    using assms(1,2) by (simp add: get16_def ip_send_check_nth b4 encap_byte_def)
  then have e: "e = ip_send_check csum b4"
    using assms(3) unfolding assms(4) encapsulate_def Let_def b0_def [symmetric] b2_def [symmetric] b4_def [symmetric]
    by simp
  show "length e = length b + 8" using ip_send_check_nth(1) [of b4 0] b4(1) assms(1,2) by (simp add: e)
  show "e ! j = encap_byte b dest j" if "j < length b + 8" "j \<notin> {10, 11}" for j
    using that ip_send_check_nth(2) [of b4 j csum] b4 assms(1,2) by (simp add: e)
qed

lemma get32_of_bytes:
  assumes "\<And>i. i < 4 \<Longrightarrow> b ! (j + i) = put32 w ! i"
  shows "get32 b j = w"
  using assms [of 0] assms [of 1] assms [of 2] assms [of 3] word32_bytes [of w] by (simp add: get32_def put32_def)

text \<open>Packets that agree but for the checksum get the same checksum.\<close>

lemma ip_send_check_cong:
  assumes "length b' = length b" "20 \<le> length b" "\<And>j. j < length b \<Longrightarrow> j \<notin> {10, 11} \<Longrightarrow> b' ! j = b ! j"
  shows "ip_send_check c b' = ip_send_check c b"
proof -
  have "poke 10 [0, 0] b' = poke 10 [0, 0] b"
    by (rule nth_equalityI) (use assms in \<open>auto simp: nth_poke\<close>)
  moreover have "ip_hlen b' = ip_hlen b" using assms(3) [of 0] assms(2) by (cases b) (simp_all add: ip_hlen_def)
  ultimately show ?thesis by (simp add: ip_send_check_def)
qed

lemma decapsulate_encapsulate:
  assumes "20 \<le> ip_hlen b" "ip_hlen b \<le> length b" "get16 b 4 \<noteq> 0" "e = encapsulate csum ident b dest"
  shows "decapsulate csum' e = ip_send_check csum' b"
proof -
  let ?hl = "ip_hlen b"
  note e = encapsulate_bytes [OF assms]
  have hl: "ip_hlen e = ?hl" using e(2) [of 0] assms(1) by (simp add: ip_hlen_def encap_byte_def Let_def)
  have ipe: "e ! ?hl = b ! 9" "e ! (?hl + 4 + i) = put32 (ip_daddr b) ! i" if "i < 4" for i
    using that e(2) assms(1,2)
    by (simp_all add: encap_byte_def Let_def ipenc_hdr_def ip_protocol_def nth_append put16_def)
  define b2 where "b2 = poke 16 (put32 (get32 (poke 9 [e ! ?hl] e) (?hl + 4))) (poke 9 [e ! ?hl] e)"
  define b3 where "b3 = take ?hl b2 @ drop (?hl + MIPE_SIZE) b2"
  define b4 where "b4 = poke 2 (put16 (htons (ntohs (get16 b3 2) - of_nat MIPE_SIZE))) b3"
  have "get32 (poke 9 [e ! ?hl] e) (?hl + 4) = ip_daddr b"
    by (rule get32_of_bytes) (use e(1) assms(1,2) ipe(2) in \<open>simp add: nth_poke\<close>)
  moreover have "put32 (ip_daddr b) ! i = b ! (16 + i)" if "i < 4" for i
    using put32_get32 [of 16 b] that assms(1,2) by (simp add: ip_daddr_def)
  ultimately have b2: "length b2 = length b + 8" "\<And>j. j < length b + 8 \<Longrightarrow> b2 ! j =
      (if j = 9 \<or> j \<in> {16..<20} then b ! j else e ! j)"
    using e(1) assms(1,2) ipe(1) [of 0] by (auto simp: b2_def nth_poke)
  have b3: "length b3 = length b" "\<And>j. j < length b \<Longrightarrow> j \<notin> {10, 11} \<Longrightarrow> b3 ! j =
      (if j \<in> {2, 3} then put16 (htons (ntohs (get16 b 2) + 8)) ! (j - 2) else b ! j)"
    using b2 e(2) assms(1,2) by (auto simp: b3_def nth_append min_def encap_byte_def Let_def)
  have "get16 b3 2 = htons (ntohs (get16 b 2) + 8)"
    using b3(2) [of 2] b3(2) [of 3] assms(1,2) by (intro get16_put16) simp_all
  then have "b4 ! j = b ! j" if "j < length b" "j \<notin> {10, 11}" for j
    using b3 assms(1,2) that by (auto simp: b4_def nth_poke put16_get16 numeral_eq_Suc less_Suc_eq)
  moreover have "length b4 = length b" using b3(1) assms(1,2) by (simp add: b4_def)
  ultimately have "ip_send_check csum' b4 = ip_send_check csum' b"
    using assms(1,2) by (intro ip_send_check_cong) auto
  then show ?thesis
    unfolding decapsulate_def Let_def hl b2_def [symmetric] b3_def [symmetric] b4_def [symmetric] .
qed

text \<open>
  The checksum of the encapsulation header verifies: with it, the sum of the words is a multiple
  of 65535, as one's complement arithmetic demands.
\<close>

lemma ones_complement_fold:
  fixes S :: nat
  assumes "S < 2 ^ 18"
  defines "s1 \<equiv> S div 65536 + S mod 65536"
  shows "(S + (65535 - (s1 + s1 div 65536) mod 65536)) mod 65535 = 0"
proof -
  have q: "S div 65536 < 4" using assms(1) by simp
  define r where "r = S mod 65536"
  define q where "q = S div 65536"
  have S: "S = 65536 * q + r" "r < 65536" "q < 4" using q by (simp_all add: r_def q_def)
  show ?thesis
  proof (cases "q + r < 65536")
    case True
    then have "(s1 + s1 div 65536) mod 65536 = q + r" by (simp add: s1_def flip: q_def r_def)
    moreover have "S + (65535 - (q + r)) = 65535 * (q + 1)" using True S by simp
    ultimately show ?thesis by (metis mod_mult_self1_is_0)
  next
    case False
    then have "s1 div 65536 = 1" "s1 = q + r" using S by (simp_all add: s1_def flip: q_def r_def)
    then have "(s1 + s1 div 65536) mod 65536 = q + r + 1 - 65536" using S False by (simp add: mod_if)
    moreover have "S + (65535 - (q + r + 1 - 65536)) = 65535 * (q + 2)" using S False by simp
    ultimately show ?thesis by (metis mod_mult_self1_is_0)
  qed
qed

lemma unat_halves:
  fixes x :: u32
  shows "unat (drop_bit 16 x) = unat x div 65536" "unat (take_bit 16 x) = unat x mod 65536"
  using unsigned_less [of x, where 'a = nat]
  by (simp_all only: unsigned_take_bit_eq unsigned_drop_bit_eq) (simp_all add: drop_bit_eq_div take_bit_eq_mod)

lemma unat_ucast_NOT:
  fixes z :: u32
  shows "unat (ucast (NOT z) :: u16) = 65535 - unat z mod 65536"
proof -
  let ?y = "ucast z :: u16"
  have "(ucast (NOT z) :: u16) = NOT ?y" by (rule bit_word_eqI) (simp add: bit_simps)
  also have "\<dots> = - 1 - ?y" by (simp add: not_eq_complement)
  also have "unat \<dots> = unat (- 1 :: u16) - unat ?y" by (rule unat_sub) simp
  finally show ?thesis
    by (simp add: unsigned_minus_1_eq_mask mask_eq_exp_minus_1 unsigned_ucast_eq take_bit_eq_mod)
qed

lemma ip_csum_unat:
  assumes "unat (csum_add bs 0) < 2 ^ 18"
  defines "s1 \<equiv> unat (csum_add bs 0) div 65536 + unat (csum_add bs 0) mod 65536"
  shows "unat (ip_csum bs) = 65535 - (s1 + s1 div 65536) mod 65536"
proof -
  define y where "y = drop_bit 16 (csum_add bs 0) + (csum_add bs 0 AND 0xFFFF)"
  have "w AND 0xFFFF = take_bit 16 w" for w :: u32 by (simp add: take_bit_eq_mask mask_eq_exp_minus_1)
  then have y: "unat y = s1" using assms(1) by (simp add: y_def unat_word_ariths unat_halves s1_def)
  have "s1 < 65540" using assms(1) by (simp add: s1_def)
  then have "unat (y + drop_bit 16 y) = s1 + s1 div 65536" by (simp add: unat_word_ariths unat_halves y)
  then show ?thesis unfolding ip_csum_def Let_def y_def [symmetric] by (simp add: unat_ucast_NOT)
qed

lemma csum_ipenc_hdr:
  "csum_add (ipenc_hdr p c d) 0 = csum_add (ipenc_hdr p 0 d) 0 + ucast c"
  "unat (csum_add (ipenc_hdr p 0 d) 0) < 196606"
proof -
  define w where "w = (ucast (get16 [p, 0] 0) :: u32)"
  define x where "x = (ucast (get16 [ucast d, ucast (drop_bit 8 d)] 0) :: u32)"
  define y where "y = (ucast (get16 [ucast (drop_bit 16 d), ucast (drop_bit 24 d)] 0) :: u32)"
  have c: "get16 [ucast c, ucast (drop_bit 8 c)] 0 = c" for c by (rule get16_put16) (simp_all add: put16_def)
  have sum: "csum_add (ipenc_hdr p c d) 0 = w + ucast c + x + y" for c
    by (simp add: ipenc_hdr_def put16_def put32_def c w_def x_def y_def)
  from this [of c] this [of 0] show "csum_add (ipenc_hdr p c d) 0 = csum_add (ipenc_hdr p 0 d) 0 + ucast c" by simp
  have "unat (ucast (v :: u16) :: u32) < 65536" for v using unsigned_less [of v, where 'a = nat] by (simp add: unsigned_ucast_eq take_bit_eq_mod)
  then have "unat w < 65536" "unat x < 65536" "unat y < 65536" unfolding w_def x_def y_def by blast+
  then show "unat (csum_add (ipenc_hdr p 0 d) 0) < 196606" unfolding sum by (simp add: unat_word_ariths)
qed

lemma ipenc_hdr_verifies:
  "unat (csum_add (ipenc_hdr p (ip_csum (ipenc_hdr p 0 d)) d) 0) mod 65535 = 0"
proof -
  let ?S = "unat (csum_add (ipenc_hdr p 0 d) 0)" and ?c = "ip_csum (ipenc_hdr p 0 d)"
  have S: "?S < 196606" by (rule csum_ipenc_hdr(2))
  have "unat ?c < 65536" using unsigned_less [of ?c, where 'a = nat] by simp
  then have "unat (csum_add (ipenc_hdr p ?c d) 0) = ?S + unat ?c"
    unfolding csum_ipenc_hdr(1) [of p ?c] using S by (simp add: unat_word_ariths unsigned_ucast_eq take_bit_eq_mod)
  moreover have "?S < 2 ^ 18" using S by simp
  ultimately show ?thesis
    using ones_complement_fold [of ?S] ip_csum_unat [of "ipenc_hdr p 0 d"] by (simp only: simp_thms)
qed

section \<open>What the queue operations keep\<close>

lemma queue_send_queue:
  assumes "queue_send d n k = (n', k')"
  shows "fifo k' = filter (\<lambda>e. \<not> dest_cmp d e) (fifo k) \<and>
    queue_total k' = queue_total k - of_nat (length (filter (dest_cmp d) (fifo k))) \<and> expl_head k' = expl_head k"
  using assms
proof (induction d n k rule: queue_send.induct)
  case (1 d n k)
  show ?case
  proof (cases "queue_find_dequeue_entry (dest_cmp d) k")
    case None
    then show ?thesis
      using 1(2) dequeue_NoneD [OF None] filter_none [OF dequeue_NoneD [OF None]] by (simp add: queue_send.simps [of d n k])
  next
    case (Some p)
    obtain e k1 where p: "p = (e, k1)" by fastforce
    note s = Some [unfolded p]
    have "queue_send d (fst (queue_send_one d e (n, k1))) (snd (queue_send_one d e (n, k1))) = (n', k')"
      using 1(2) by (simp add: queue_send.simps [of d n k] s Let_def)
    from 1(1) [OF s refl refl this] dequeue_SomeD [OF s] show ?thesis by (simp add: fifo_def)
  qed
qed

lemma queue_flush_queue:
  "queue_list (kaodv_queue_flush k) = [] \<and>
   queue_total (kaodv_queue_flush k) = queue_total k - of_nat (length (queue_list k)) \<and>
   expl_head (kaodv_queue_flush k) = expl_head k"
proof (induction k rule: kaodv_queue_flush.induct)
  case (1 k)
  show ?case
  proof (cases "queue_find_dequeue_entry (\<lambda>_. True) k")
    case None
    then show ?thesis using dequeue_NoneD [OF None] by (simp add: kaodv_queue_flush.simps [of k] fifo_def)
  next
    case (Some p)
    obtain e k1 where p: "p = (e, k1)" by fastforce
    note s = Some [unfolded p]
    have "length (queue_list k) = Suc (length (queue_list k1))"
      using arg_cong [OF dequeue_SomeD(4) [OF s], of length] by (simp add: fifo_def)
    then show ?thesis
      using 1 [OF s refl] dequeue_SomeD(1,2) [OF s]
      by (simp add: kaodv_queue_flush.simps [of k] s) (simp add: kemit_def)
  qed
qed

text \<open>
  A view of the state that depends neither on the queue nor on the allocations and that the events
  of the queue do not change is the same after each of the three loops.
\<close>

definition queue_event :: "kevent \<Rightarrow> bool" where
  "queue_event ev \<longleftrightarrow> (case ev of K_icmp _ \<Rightarrow> True | K_free _ \<Rightarrow> True | K_inject _ \<Rightarrow> True | K_fault \<Rightarrow> True | _ \<Rightarrow> False)"

definition off_queue :: "(kstate \<Rightarrow> 'a) \<Rightarrow> bool" where
  "off_queue f \<longleftrightarrow> (\<forall>k ev. queue_event ev \<longrightarrow> f (kemit ev k) = f k) \<and>
     (\<forall>k q n. f (k\<lparr>queue_list := q, queue_total := n\<rparr>) = f k) \<and> (\<forall>k p. f (k\<lparr>kmem_pos := p\<rparr>) = f k)"

lemma off_queueD:
  assumes "off_queue f"
  shows "f (kemit (K_icmp b) k) = f k" "f (kemit (K_free b) k) = f k" "f (kemit (K_inject b) k) = f k"
    "f (kemit K_fault k) = f k" "f (k\<lparr>queue_list := q, queue_total := n\<rparr>) = f k" "f (k\<lparr>kmem_pos := p\<rparr>) = f k"
  using assms by (simp_all add: off_queue_def queue_event_def)

lemma off_queue_encapsulate: "off_queue f \<Longrightarrow> f (snd (ip_pkt_encapsulate b d k)) = f k"
  by (simp add: ip_pkt_encapsulate_def kmalloc_def off_queueD split: bool.split)

lemma off_queue_dequeue: "off_queue f \<Longrightarrow> queue_find_dequeue_entry P k = Some (e, k1) \<Longrightarrow> f k1 = f k"
  by (auto simp: queue_find_dequeue_entry_def off_queueD split: option.splits)

lemma off_queue_send_one: "off_queue f \<Longrightarrow> f (snd (queue_send_one d e st)) = f (snd st)"
  using off_queue_encapsulate [of f "qe_skb e"]
  by (auto simp: queue_send_one_def off_queueD case_prod_beta split: option.split)

lemma off_queue_drop: "off_queue f \<Longrightarrow> f (snd (queue_drop d n k)) = f k"
proof (induction d n k rule: queue_drop.induct)
  case (1 d n k)
  then show ?case
    using off_queue_dequeue [OF 1(2)]
    by (simp add: queue_drop.simps [of d n k] off_queueD Let_def split: option.split prod.split)
qed

lemma off_queue_send: "off_queue f \<Longrightarrow> f (snd (queue_send d n k)) = f k"
proof (induction d n k rule: queue_send.induct)
  case (1 d n k)
  then show ?case
    using off_queue_dequeue [OF 1(2)] off_queue_send_one [OF 1(2)]
    by (simp add: queue_send.simps [of d n k] Let_def split: option.split prod.split)
qed

lemma off_queue_set_verdict: "off_queue f \<Longrightarrow> f (snd (kaodv_queue_set_verdict v d k)) = f k"
  by (simp add: kaodv_queue_set_verdict_def off_queue_drop off_queue_send split: kaodv_verdict.split)

lemma off_queue_flush: "off_queue f \<Longrightarrow> f (kaodv_queue_flush k) = f k"
proof (induction k rule: kaodv_queue_flush.induct)
  case (1 k)
  then show ?case
    using off_queue_dequeue [OF 1(2)]
    by (simp add: kaodv_queue_flush.simps [of k] off_queueD split: option.split prod.split)
qed

lemma off_queue_enqueue: "off_queue f \<Longrightarrow> f (snd (kaodv_queue_enqueue_packet b k)) = f k"
  by (simp add: kaodv_queue_enqueue_packet_def queue_enqueue_entry_def kmalloc_def off_queueD split: bool.split)

section \<open>Properties\<close>

text \<open>
  A verdict on the packets that wait in the kernel for a route to a destination takes exactly
  the packets for this destination out of the queue, oldest first, and keeps the order and the
  number of the others.  Dropping frees each of them and reports the first one as unreachable to
  its sender; sending hands each of them on, encapsulated if the route says so and there is
  memory, or frees them if there is no route.  The result is the number of packets concerned.
\<close>

theorem kaodv_queue_set_verdict_correct:
  assumes "kaodv_queue_set_verdict v d k = (n, k')" and "es = filter (dest_cmp d) (fifo k)"
    and "v = KAODV_QUEUE_SEND \<longrightarrow> (\<forall>e \<in> set es. sendable k (qe_skb e))"
  shows "fifo k' = filter (\<lambda>e. \<not> dest_cmp d e) (fifo k) \<and>
    queue_total k' = queue_total k - of_nat (length es) \<and>
    (case v of
       KAODV_QUEUE_DROP \<Rightarrow> n = int (length es) \<and> kout k' = kout k @ drop_events 0 es
     | KAODV_QUEUE_SEND \<Rightarrow>
         n = (if kaodv_expl_get d k = None then 0 else int (length es)) \<and>
         kout k' = kout k @ concat (map (\<lambda>e. send_one_events k (kaodv_expl_get d k) (qe_skb e)) es))"
proof (cases v)
  case KAODV_QUEUE_DROP
  then show ?thesis using queue_drop_run [of d 0 k n k'] assms(1,2) by (simp add: kaodv_queue_set_verdict_def)
next
  case KAODV_QUEUE_SEND
  then show ?thesis
    using queue_send_run [of d 0 k n k'] assms by (simp add: kaodv_queue_set_verdict_def)
qed

text \<open>
  C31. Encapsulating a packet for a gateway and decapsulating it there gives the packet back: every
  byte of it, provided its header checksum was right and it has an identification.  In between
  the packet is addressed to the gateway, marked as encapsulated and eight bytes longer, and the
  checksum of the encapsulation header verifies.
\<close>

theorem encapsulation_roundtrip:
  assumes "20 \<le> ip_hlen b" and "ip_hlen b \<le> length b" and "get16 b 4 \<noteq> 0" and "ip_send_check csum b = b"
    and "e = encapsulate csum ident b dest"
  shows "decapsulate csum e = b \<and> ip_daddr e = dest \<and> ip_protocol e = IPPROTO_MIPE \<and> length e = length b + 8 \<and>
    unat (csum_add (take 8 (drop (ip_hlen e) e)) 0) mod 65535 = 0"
proof -
  note e = encapsulate_bytes [OF assms(1-3,5)]
  have hl: "ip_hlen e = ip_hlen b" using e(2) [of 0] assms(1) by (simp add: ip_hlen_def encap_byte_def Let_def)
  have "ip_daddr e = dest" unfolding ip_daddr_def
    by (rule get32_of_bytes) (use e(2) assms(1,2) in \<open>simp add: encap_byte_def Let_def\<close>)
  moreover have "ip_protocol e = IPPROTO_MIPE" using e(2) [of 9] assms(1,2) by (simp add: ip_protocol_def encap_byte_def Let_def)
  moreover have "take 8 (drop (ip_hlen b) e) =
      ipenc_hdr (ip_protocol b) (ip_csum (ipenc_hdr (ip_protocol b) 0 (ip_daddr b))) (ip_daddr b)"
    by (rule nth_equalityI) (use e assms(1,2) in \<open>auto simp: ipenc_hdr_def encap_byte_def Let_def\<close>)
  ultimately show ?thesis
    using decapsulate_encapsulate [OF assms(1-3,5), of csum] assms(4) e(1) ipenc_hdr_verifies by (simp add: hl)
qed

theorem encapsulation_roundtrip_witness:
  "decapsulate (\<lambda>_. 0) (encapsulate (\<lambda>_. 0) (\<lambda>_. 1) [0x45, 0, 0, 21, 0, 9, 0, 0, 64, 17, 0, 0, 10, 0, 0, 1, 10, 0, 0, 3, 7]
     0x0500000A) = [0x45, 0, 0, 21, 0, 9, 0, 0, 64, 17, 0, 0, 10, 0, 0, 1, 10, 0, 0, 3, 7]"
proof -
  let ?b = "[0x45, 0, 0, 21, 0, 9, 0, 0, 64, 17, 0, 0, 10, 0, 0, 1, 10, 0, 0, 3, 7] :: bytes"
  have "ip_hlen ?b = 20" "get16 ?b 4 \<noteq> 0" "ip_send_check (\<lambda>_. 0) ?b = ?b"
    by (simp_all add: ip_hlen_def get16_def ip_send_check_def poke_def put16_def Let_def)
  with encapsulation_roundtrip [of ?b "\<lambda>_. 0" _ "\<lambda>_. 1" "0x0500000A"] show ?thesis by simp
qed

theorem kaodv_queue_set_verdict_correct_witness:
  "fst (kaodv_queue_set_verdict KAODV_QUEUE_DROP 0x0300000A
     (demo_kernel\<lparr>queue_list := [\<lparr>qe_skb = [1], qe_tos = 0, qe_daddr = 0x0300000A, qe_saddr = 0\<rparr>,
        \<lparr>qe_skb = [2], qe_tos = 0, qe_daddr = 0x0200000A, qe_saddr = 0\<rparr>,
        \<lparr>qe_skb = [3], qe_tos = 0, qe_daddr = 0x0300000A, qe_saddr = 0\<rparr>]\<rparr>)) = 2"
proof -
  let ?k = "demo_kernel\<lparr>queue_list := [\<lparr>qe_skb = [1], qe_tos = 0, qe_daddr = 0x0300000A, qe_saddr = 0\<rparr>,
        \<lparr>qe_skb = [2], qe_tos = 0, qe_daddr = 0x0200000A, qe_saddr = 0\<rparr>,
        \<lparr>qe_skb = [3], qe_tos = 0, qe_daddr = 0x0300000A, qe_saddr = 0\<rparr>]\<rparr>"
  have "length (filter (dest_cmp 0x0300000A) (fifo ?k)) = 2" by (simp add: fifo_def dest_cmp_def)
  with kaodv_queue_set_verdict_correct [OF surjective_pairing refl, of KAODV_QUEUE_DROP "0x0300000A" ?k]
  show ?thesis by simp
qed

end
