(* ===== verification/Kernel_Module.thy ===== *)
theory Kernel_Module
  imports Kernel_Packets
begin

text \<open>
  The kernel module, third part: the netfilter hook that decides on packets
  (\<open>kernel/kaodv-mod.c\<close>), the messages exchanged with the daemon (\<open>kernel/kaodv-netlink.c\<close>), and loading and unloading.
  A message is a list of bytes that starts with the netlink header.  An access through a null pointer
  or outside a packet is the event \<open>K_fault\<close>; what the functions return then has no meaning.
  Devices are given by their index.

  Shown here: which packets the hook lets pass, that a route from the daemon releases the packets
  that wait for it, that every sequence of hooks and messages keeps the two lists well formed, and that
  unloading undoes loading.
\<close>

section \<open>Messages to the daemon\<close>

definition KAODVM_ADDROUTE :: nat where "KAODVM_ADDROUTE = 101"
definition KAODVM_DELROUTE :: nat where "KAODVM_DELROUTE = 102"
definition KAODVM_ROUTE_REQ :: nat where "KAODVM_ROUTE_REQ = 104"
definition KAODVM_REPAIR :: nat where "KAODVM_REPAIR = 105"
definition KAODVM_NOROUTE_FOUND :: nat where "KAODVM_NOROUTE_FOUND = 106"
definition KAODVM_ROUTE_UPDATE :: nat where "KAODVM_ROUTE_UPDATE = 107"
definition KAODVM_SEND_RERR :: nat where "KAODVM_SEND_RERR = 108"
definition KAODVM_CONFIG :: nat where "KAODVM_CONFIG = 109"
definition PKT_INBOUND :: u8 where "PKT_INBOUND = 1"
definition PKT_OUTBOUND :: u8 where "PKT_OUTBOUND = 2"

definition zero_rt_msg :: kaodv_rt_msg where
  "zero_rt_msg = \<lparr>rm_type = 0, rm_msrc = 0, rm_dst = 0, rm_nhop = 0, rm_flags = 0, rm_ifindex = 0, rm_time = 0\<rparr>"

text \<open>\<open>kaodv_netlink_build_msg\<close> and the broadcast to the daemon; nothing is sent without memory.\<close>

definition netlink_send :: "nat \<Rightarrow> kaodv_rt_msg \<Rightarrow> kstate \<Rightarrow> kstate" where
  "netlink_send type m k = (case kmalloc k of (True, k1) \<Rightarrow> kemit (K_msg type m) k1 | (False, k1) \<Rightarrow> k1)"

definition kaodv_netlink_send_rt_msg :: "nat \<Rightarrow> addr \<Rightarrow> addr \<Rightarrow> kstate \<Rightarrow> kstate" where
  "kaodv_netlink_send_rt_msg type src dest = netlink_send type (zero_rt_msg\<lparr>rm_msrc := src, rm_dst := dest\<rparr>)"

definition kaodv_netlink_send_rt_update_msg :: "u8 \<Rightarrow> addr \<Rightarrow> addr \<Rightarrow> u32 \<Rightarrow> kstate \<Rightarrow> kstate" where
  "kaodv_netlink_send_rt_update_msg type src dest ifindex =
     netlink_send KAODVM_ROUTE_UPDATE
       (zero_rt_msg\<lparr>rm_type := type, rm_msrc := src, rm_dst := dest, rm_ifindex := ifindex\<rparr>)"

definition kaodv_netlink_send_rerr_msg :: "u8 \<Rightarrow> addr \<Rightarrow> addr \<Rightarrow> u32 \<Rightarrow> kstate \<Rightarrow> kstate" where
  "kaodv_netlink_send_rerr_msg type src dest ifindex =
     netlink_send KAODVM_SEND_RERR
       (zero_rt_msg\<lparr>rm_type := type, rm_msrc := src, rm_dst := dest, rm_ifindex := ifindex\<rparr>)"

section \<open>Interfaces\<close>

text \<open>A device with the addresses its name is bound to, if any; \<open>dev_set_mtu\<close> of the kernel.\<close>

record net_device =
  nd_ifindex :: u32
  nd_addr :: "(addr \<times> addr) option"

definition dev_set_mtu :: "u32 \<Rightarrow> u32 \<Rightarrow> kstate \<Rightarrow> kstate" where
  "dev_set_mtu ifindex mtu k = k\<lparr>dev_mtu := (dev_mtu k)(ifindex := mtu)\<rparr>"

definition if_info_add :: "net_device \<Rightarrow> kstate \<Rightarrow> int \<times> kstate" where
  "if_info_add dev k =
     (case kmalloc k of
        (False, k1) \<Rightarrow> (- 1, k1)
      | (True, k1) \<Rightarrow>
          let i = nd_ifindex dev; mtu = dev_mtu k1 i;
              k2 = dev_set_mtu i (mtu - of_nat MIPE_SIZE) k1;
              (ifa, bc) = (case nd_addr dev of Some a \<Rightarrow> a | None \<Rightarrow> (kjunk k2, kjunk k2))
          in (0, k2\<lparr>ifihead := \<lparr>ifi_ifindex = i, if_addr = ifa, bc_addr = bc, orig_mtu = mtu\<rparr> # ifihead k2\<rparr>))"

definition if_info_purge :: "kstate \<Rightarrow> kstate" where
  "if_info_purge k =
     fold (\<lambda>ifi k. dev_set_mtu (ifi_ifindex ifi) (orig_mtu ifi) (k\<lparr>ifihead := remove1 ifi (ifihead k)\<rparr>)) (ifihead k) k"

text \<open>The addresses it stores through its pointers, or the result -1.\<close>

definition if_info_from_ifindex :: "u32 \<Rightarrow> kstate \<Rightarrow> (addr \<times> addr) option" where
  "if_info_from_ifindex ifindex k =
     map_option (\<lambda>ifi. (if_addr ifi, bc_addr ifi)) (List.find (\<lambda>ifi. ifi_ifindex ifi = ifindex) (ifihead k))"

section \<open>The hook\<close>

definition NF_INET_PRE_ROUTING :: u32 where "NF_INET_PRE_ROUTING = 0"
definition NF_INET_LOCAL_OUT :: u32 where "NF_INET_LOCAL_OUT = 3"
definition NF_INET_POST_ROUTING :: u32 where "NF_INET_POST_ROUTING = 4"
definition NF_STOLEN :: u32 where "NF_STOLEN = 2"

definition IN_MULTICAST :: "u32 \<Rightarrow> bool" where
  "IN_MULTICAST a \<longleftrightarrow> a AND 0xF0000000 = 0xE0000000"

text \<open>A route and its next hop get a new lifetime, as \<open>kaodv_update_route_timeouts\<close> does for either end.\<close>

definition expl_refresh :: "addr \<Rightarrow> u32 \<Rightarrow> kstate \<Rightarrow> kstate" where
  "expl_refresh a ifindex k =
     (case kaodv_expl_get a k of
        None \<Rightarrow> k
      | Some e \<Rightarrow>
          let k1 = snd (kaodv_expl_update (ex_daddr e) (ex_nhop e) (scast (active_timeout k)) (ex_flags e) ifindex k)
          in if ex_nhop e = ex_daddr e then k1
             else case kaodv_expl_get (ex_nhop e) k1 of
               None \<Rightarrow> k1
             | Some n \<Rightarrow>
                 snd (kaodv_expl_update (ex_daddr n) (ex_nhop n) (scast (active_timeout k1)) (ex_flags n) ifindex k1))"

definition kaodv_update_route_timeouts :: "u32 \<Rightarrow> u32 \<Rightarrow> bytes \<Rightarrow> kstate \<Rightarrow> kstate" where
  "kaodv_update_route_timeouts hooknum dev iph k =
     (case if_info_from_ifindex dev k of
        None \<Rightarrow> k
      | Some (_, bc) \<Rightarrow>
          let k1 = (if hooknum = NF_INET_PRE_ROUTING
                    then kaodv_netlink_send_rt_update_msg PKT_INBOUND (ip_saddr iph) (ip_daddr iph) dev k
                    else if ip_daddr iph \<noteq> AODV_BROADCAST \<and> ip_daddr iph \<noteq> bc
                    then kaodv_netlink_send_rt_update_msg PKT_OUTBOUND (ip_saddr iph) (ip_daddr iph) dev k
                    else k)
          in expl_refresh (ip_saddr iph) dev (expl_refresh (ip_daddr iph) dev k1))"

text \<open>The three cases of the \<open>switch\<close> for a data packet that is neither broadcast nor multicast.\<close>

definition hook_pre_routing :: "bytes \<Rightarrow> u32 \<Rightarrow> addr \<Rightarrow> kstate \<Rightarrow> u32 \<times> bytes \<times> kstate" where
  "hook_pre_routing skb indev ifaddr k =
     (let k1 = kaodv_update_route_timeouts NF_INET_PRE_ROUTING indev skb k in
      if is_gateway k1 \<noteq> 0 \<and> ip_protocol skb = IPPROTO_MIPE \<and> ip_daddr skb = ifaddr then
        case ip_pkt_decapsulate skb k1 of (skb', k2) \<Rightarrow> (NF_ACCEPT, skb', k2)
      else if ip_saddr skb = ifaddr \<or> ip_daddr skb = ifaddr then (NF_ACCEPT, skb, k1)
      else case kaodv_expl_get (ip_daddr skb) k1 of
        None \<Rightarrow> (NF_DROP, skb, kaodv_netlink_send_rerr_msg PKT_INBOUND (ip_saddr skb) (ip_daddr skb) indev k1)
      | Some e \<Rightarrow>
          if ex_flags e AND KAODV_RT_REPAIR \<noteq> 0 then
            (NF_STOLEN, skb, snd (kaodv_queue_enqueue_packet skb
               (kaodv_netlink_send_rt_msg KAODVM_REPAIR (ip_saddr skb) (ip_daddr skb) k1)))
          else (NF_ACCEPT, skb, k1))"

text \<open>
  The hook gets its packet as a pointer by value: when the packet is encapsulated, the caller goes on
  with the old packet, which has been freed.
\<close>

definition hook_local_out :: "bytes \<Rightarrow> u32 \<Rightarrow> kstate \<Rightarrow> u32 \<times> bytes \<times> kstate" where
  "hook_local_out skb outdev k =
     (let e = kaodv_expl_get (ip_daddr skb) k in
      if e = None \<or> ex_flags (the e) AND KAODV_RT_REPAIR \<noteq> 0 then
        let k1 = (if kaodv_queue_find (ip_daddr skb) k = 0
                  then kaodv_netlink_send_rt_msg KAODVM_ROUTE_REQ 0 (ip_daddr skb) k else k)
        in (NF_STOLEN, skb, snd (kaodv_queue_enqueue_packet skb k1))
      else if ex_flags (the e) AND KAODV_RT_GW_ENCAP \<noteq> 0 then
        let k1 = kaodv_update_route_timeouts NF_INET_LOCAL_OUT outdev skb k in
        case ip_pkt_encapsulate skb (ex_nhop (the e)) k1 of
          (None, k2) \<Rightarrow> (NF_STOLEN, skb, k2)
        | (Some _, k2) \<Rightarrow> (NF_ACCEPT, skb, k2)
      else (NF_ACCEPT, skb, k))"

definition udp_aodv :: "bytes \<Rightarrow> bool" where
  "udp_aodv b \<longleftrightarrow> port_at b (ip_hlen b + 2) = AODV_PORT \<or> port_at b (ip_hlen b) = AODV_PORT"

definition hook_data :: "u32 \<Rightarrow> bytes \<Rightarrow> u32 option \<Rightarrow> u32 option \<Rightarrow> kstate \<Rightarrow> u32 \<times> bytes \<times> kstate" where
  "hook_data hooknum skb indev outdev k =
     (case if hooknum = NF_INET_PRE_ROUTING then indev else outdev of
        None \<Rightarrow> (NF_DROP, skb, kemit K_fault k)
      | Some dev \<Rightarrow>
          case if_info_from_ifindex dev k of
            None \<Rightarrow> (NF_ACCEPT, skb, k)
          | Some (ifaddr, bc) \<Rightarrow>
              if ip_daddr skb = AODV_BROADCAST \<or> IN_MULTICAST (ntohl (ip_daddr skb)) \<or> ip_daddr skb = bc
              then (NF_ACCEPT, skb, k)
              else if hooknum = NF_INET_PRE_ROUTING then hook_pre_routing skb dev ifaddr k
              else if hooknum = NF_INET_LOCAL_OUT then hook_local_out skb dev k
              else if hooknum = NF_INET_POST_ROUTING
              then (NF_ACCEPT, skb, kaodv_update_route_timeouts hooknum dev skb k)
              else (NF_ACCEPT, skb, k))"

text \<open>The packet is \<open>None\<close> when it has no network header.\<close>

definition kaodv_hook ::
  "u32 \<Rightarrow> bytes option \<Rightarrow> u32 option \<Rightarrow> u32 option \<Rightarrow> kstate \<Rightarrow> u32 \<times> bytes \<times> kstate" where
  "kaodv_hook hooknum iph indev outdev k =
     (let skb = (case iph of Some b \<Rightarrow> b | None \<Rightarrow> []) in
      if iph = None then (NF_ACCEPT, skb, k)
      else if length skb < 20 \<or> ip_protocol skb = IPPROTO_UDP \<and> length skb < ip_hlen skb + 4
      then (NF_DROP, skb, kemit K_fault k)
      else if ip_protocol skb = IPPROTO_UDP \<and> udp_aodv skb then
        (NF_ACCEPT, skb,
         if hooknum = NF_INET_PRE_ROUTING \<and> indev \<noteq> None
         then kaodv_update_route_timeouts hooknum (the indev) skb k else k)
      else hook_data hooknum skb indev outdev k)"

section \<open>Messages from the daemon\<close>

definition get64 :: "bytes \<Rightarrow> nat \<Rightarrow> u64" where
  "get64 b i = ucast (get32 b i) OR push_bit 32 (ucast (get32 b (i + 4)))"

text \<open>\<open>struct kaodv_rt_msg\<close> (32 bytes) and \<open>struct kaodv_conf_msg\<close> (12 bytes) at offset \<open>i\<close>.\<close>

definition get_rt_msg :: "bytes \<Rightarrow> nat \<Rightarrow> kaodv_rt_msg" where
  "get_rt_msg b i =
     \<lparr>rm_type = b ! i, rm_msrc = get32 b (i + 4), rm_dst = get32 b (i + 8), rm_nhop = get32 b (i + 12),
      rm_flags = b ! (i + 16), rm_ifindex = get32 b (i + 20), rm_time = get64 b (i + 24)\<rparr>"

definition kaodv_netlink_receive_peer :: "u8 \<Rightarrow> bytes \<Rightarrow> kstate \<Rightarrow> int \<times> kstate" where
  "kaodv_netlink_receive_peer type msg k =
     (let m = get_rt_msg msg 0; short = length msg < 32 in
      if unat type = KAODVM_ADDROUTE then
        if short then (- EINVAL, k)
        else
          let ret = (if kaodv_expl_get (rm_dst m) k = None then 0 else 1 :: int);
              (ret', k1) =
                (if ret < 0
                 then kaodv_expl_update (rm_dst m) (rm_nhop m) (rm_time m) (ucast (rm_flags m)) (rm_ifindex m) k
                 else kaodv_expl_add (rm_dst m) (rm_nhop m) (rm_time m) (ucast (rm_flags m)) (rm_ifindex m) k)
          in (ret', snd (kaodv_queue_set_verdict KAODV_QUEUE_SEND (rm_dst m) k1))
      else if unat type = KAODVM_DELROUTE then
        if short then (- EINVAL, k)
        else (0, snd (kaodv_queue_set_verdict KAODV_QUEUE_DROP (rm_dst m) (snd (kaodv_expl_del (rm_dst m) k))))
      else if unat type = KAODVM_NOROUTE_FOUND then
        if short then (- EINVAL, k)
        else (0, snd (kaodv_queue_set_verdict KAODV_QUEUE_DROP (rm_dst m) k))
      else if unat type = KAODVM_CONFIG then
        if length msg < 12 then (- EINVAL, k)
        else (0, k\<lparr>active_timeout := get32 msg 0, qual_th := get32 msg 4, is_gateway := get32 msg 8\<rparr>)
      else (- EINVAL, k))"

definition NETLINK_URELEASE :: nat where "NETLINK_URELEASE = 1"
definition NETLINK_AODV :: nat where "NETLINK_AODV = 31"

definition kaodv_netlink_rcv_nl_event :: "nat \<Rightarrow> nat \<Rightarrow> u32 \<Rightarrow> kstate \<Rightarrow> kstate" where
  "kaodv_netlink_rcv_nl_event event protocol pid k =
     (if event = NETLINK_URELEASE \<and> protocol = NETLINK_AODV \<and> pid \<noteq> 0 \<and> pid = peer_pid k
      then kaodv_queue_flush (kaodv_expl_flush (k\<lparr>peer_pid := 0\<rparr>)) else k)"

definition EPERM :: int where "EPERM = 1"
definition ECOMM :: int where "ECOMM = 70"
definition NLMSG_HDRLEN :: nat where [simp]: "NLMSG_HDRLEN = 16"
definition NLM_F_MULTI :: nat where "NLM_F_MULTI = 2"
definition MSG_TRUNC :: nat where "MSG_TRUNC = 0x20"

text \<open>
  The fields of \<open>struct nlmsghdr\<close>: length, type, flags, sequence number, process.  The length is an \<open>int\<close>;
  it is compared with \<open>sizeof\<close> as an unsigned and with the length of the buffer as a signed number.
\<close>

definition kaodv_netlink_rcv_skb :: "bool \<Rightarrow> bytes \<Rightarrow> kstate \<Rightarrow> kstate" where
  "kaodv_netlink_rcv_skb permitted skb k =
     (let nlmsglen = get32 skb 0; flags = unat (get16 skb 6); pid = get32 skb 12 in
      if length skb < NLMSG_HDRLEN then k
      else if (scast nlmsglen :: u64) < of_nat NLMSG_HDRLEN \<or> int (length skb) < sint nlmsglen then k
      else if sint pid \<le> 0 \<or> flags AND NLM_F_REQUEST = 0 \<or> flags AND NLM_F_MULTI \<noteq> 0
      then kemit (K_ack (- EINVAL)) k
      else if flags AND MSG_TRUNC \<noteq> 0 then kemit (K_ack (- ECOMM)) k
      else if \<not> permitted then kemit (K_ack (- EPERM)) k
      else if peer_pid k \<noteq> 0 \<and> peer_pid k \<noteq> pid then kemit (K_ack (- EBUSY)) k
      else
        case kaodv_netlink_receive_peer (ucast (get16 skb 4)) (drop NLMSG_HDRLEN skb)
               (if peer_pid k \<noteq> 0 then k else k\<lparr>peer_pid := pid\<rparr>) of
          (st, k1) \<Rightarrow>
            if st < 0 then kemit (K_ack st) k1
            else if flags AND NLM_F_ACK \<noteq> 0 then kemit (K_ack 0) k1
            else k1)"

section \<open>Loading and unloading\<close>

text \<open>
  What the kernel answers while the module is loaded: whether the entry in \<open>/proc\<close> and the netlink
  socket can be created, what \<open>nf_register_hook\<close> returns for each hook, and the device of a name.
\<close>

record kenv =
  ke_proc :: bool
  ke_netlink :: bool
  ke_hook :: "nat \<Rightarrow> int"
  ke_dev :: "string \<Rightarrow> net_device option"

definition MAX_INTERFACES :: nat where "MAX_INTERFACES = 10"

definition nf_register_hook :: "kenv \<Rightarrow> nat \<Rightarrow> kstate \<Rightarrow> int \<times> kstate" where
  "nf_register_hook E i k = (ke_hook E i, if ke_hook E i < 0 then k else kemit (K_register i) k)"

definition nf_unregister_hook :: "nat \<Rightarrow> kstate \<Rightarrow> kstate" where
  "nf_unregister_hook i k = kemit (K_unregister i) k"

definition kaodv_netlink_init :: "kenv \<Rightarrow> int" where
  "kaodv_netlink_init E = (if ke_netlink E then 0 else - 1)"

definition kaodv_netlink_fini :: "kstate \<Rightarrow> kstate" where
  "kaodv_netlink_fini k = kemit K_release k"

definition kaodv_init_dev :: "kenv \<Rightarrow> string \<Rightarrow> kstate \<Rightarrow> kstate" where
  "kaodv_init_dev E name k = (case ke_dev E name of None \<Rightarrow> k | Some dev \<Rightarrow> snd (if_info_add dev k))"

text \<open>The labels at the end of \<open>kaodv_init\<close> that undo what has been done.\<close>

definition cleanup_netlink :: "kstate \<Rightarrow> kstate" where
  "cleanup_netlink k = kaodv_queue_fini (kaodv_netlink_fini k)"

definition cleanup_hook0 :: "kstate \<Rightarrow> kstate" where
  "cleanup_hook0 k = cleanup_netlink (nf_unregister_hook 0 k)"

definition cleanup_hook1 :: "kstate \<Rightarrow> kstate" where
  "cleanup_hook1 k = cleanup_hook0 (nf_unregister_hook 1 k)"

definition kaodv_init :: "kenv \<Rightarrow> string list \<Rightarrow> kstate \<Rightarrow> int \<times> kstate" where
  "kaodv_init E names k =
     (let (ret, k1) = kaodv_queue_init (ke_proc E) (kaodv_expl_init k) in
      if ret < 0 then (ret, k1)
      else let ret = kaodv_netlink_init E in
        if ret < 0 then (ret, kaodv_queue_fini k1)
        else let (ret, k2) = nf_register_hook E 0 k1 in
          if ret < 0 then (ret, cleanup_netlink k2)
          else let (ret, k3) = nf_register_hook E 1 k2 in
            if ret < 0 then (ret, cleanup_hook0 k3)
            else let (ret, k4) = nf_register_hook E 2 k3 in
              if ret < 0 then (ret, cleanup_hook1 k4)
              else (ret, fold (kaodv_init_dev E) (take MAX_INTERFACES names) k4))"

definition kaodv_exit :: "kstate \<Rightarrow> kstate" where
  "kaodv_exit k =
     (let k1 = fold nf_unregister_hook [0, 1, 2] (if_info_purge k)
      in kaodv_netlink_fini (kaodv_expl_fini (kaodv_queue_fini k1)))"

section \<open>What each operation keeps\<close>

text \<open>The routes as the packets see them, and the hooks that are registered.\<close>

definition route :: "kstate \<Rightarrow> addr \<Rightarrow> (addr \<times> u16) option" where
  "route k d = map_option (\<lambda>e. (ex_nhop e, ex_flags e)) (expl_map k d)"

definition registered :: "kstate \<Rightarrow> nat set" where
  "registered k =
     fold (\<lambda>ev R. case ev of K_register i \<Rightarrow> insert i R | K_unregister i \<Rightarrow> R - {i} | _ \<Rightarrow> R) (kout k) {}"

text \<open>The messages to the daemon other than notices of traffic.\<close>

definition requests :: "kstate \<Rightarrow> (nat \<times> kaodv_rt_msg) list" where
  "requests k = List.map_filter (\<lambda>ev. case ev of K_msg ty m \<Rightarrow> if ty = KAODVM_ROUTE_UPDATE then None else Some (ty, m)
     | _ \<Rightarrow> None) (kout k)"

text \<open>What no hook and no message changes, and what no notice of traffic changes.\<close>

definition fixed :: "kstate \<Rightarrow> if_info list \<times> (u32 \<Rightarrow> u32) \<times> nat set" where
  "fixed k = (ifihead k, dev_mtu k, registered k)"

definition traffic_frame :: "kstate \<Rightarrow> kstate \<Rightarrow> bool" where
  "traffic_frame k k' \<longleftrightarrow> queue_list k' = queue_list k \<and> queue_total k' = queue_total k \<and> expl_len k' = expl_len k \<and>
     kmem k' = kmem k \<and> is_gateway k' = is_gateway k \<and> fixed k' = fixed k \<and> requests k' = requests k \<and>
     ip_fast_csum k' = ip_fast_csum k \<and> ip_ident k' = ip_ident k \<and> peer_pid k' = peer_pid k"

lemma registered_kemit:
  "registered (kemit ev k) =
     (case ev of K_register i \<Rightarrow> insert i (registered k) | K_unregister i \<Rightarrow> registered k - {i} | _ \<Rightarrow> registered k)"
  by (simp add: registered_def kemit_def split: kevent.split)

lemma requests_kemit:
  "requests (kemit ev k) = requests k @ (case ev of K_msg ty m \<Rightarrow> if ty = KAODVM_ROUTE_UPDATE then [] else [(ty, m)] | _ \<Rightarrow> [])"
  by (simp add: requests_def kemit_def map_filter_append map_filter_simps split: kevent.split)

lemma kemit_fields [simp]:
  "expl_len (kemit ev k) = expl_len k" "queue_list (kemit ev k) = queue_list k" "kmem (kemit ev k) = kmem k"
  "is_gateway (kemit ev k) = is_gateway k" "ifihead (kemit ev k) = ifihead k" "dev_mtu (kemit ev k) = dev_mtu k"
  "ip_fast_csum (kemit ev k) = ip_fast_csum k" "ip_ident (kemit ev k) = ip_ident k" "peer_pid (kemit ev k) = peer_pid k"
  by (simp_all add: kemit_def)

lemma kmalloc_fields [simp]:
  "expl_head (snd (kmalloc k)) = expl_head k" "expl_len (snd (kmalloc k)) = expl_len k"
  "queue_list (snd (kmalloc k)) = queue_list k" "queue_total (snd (kmalloc k)) = queue_total k"
  "kmem (snd (kmalloc k)) = kmem k" "is_gateway (snd (kmalloc k)) = is_gateway k" "ifihead (snd (kmalloc k)) = ifihead k"
  "dev_mtu (snd (kmalloc k)) = dev_mtu k" "registered (snd (kmalloc k)) = registered k"
  "requests (snd (kmalloc k)) = requests k" "fst (kmalloc k) = kmem k (kmem_pos k)"
  "ip_fast_csum (snd (kmalloc k)) = ip_fast_csum k" "ip_ident (snd (kmalloc k)) = ip_ident k"
  "peer_pid (snd (kmalloc k)) = peer_pid k" "fifo (snd (kmalloc k)) = fifo k"
  by (simp_all add: kmalloc_def registered_def requests_def fifo_def)

lemma netlink_send_eq:
  "netlink_send ty m k = (if kmem k (kmem_pos k) then kemit (K_msg ty m) (snd (kmalloc k)) else snd (kmalloc k))"
  by (simp add: netlink_send_def kmalloc_def)

lemma expl_cong: "expl_head k' = expl_head k \<Longrightarrow> expl_wf k' = expl_wf k \<and> expl_map k' = expl_map k \<and> route k' = route k"
  by (simp add: expl_wf_def expl_map_def kaodv_expl_get_def route_def fun_eq_iff)

lemma traffic_frame_refl [simp]: "traffic_frame k k"
  by (simp add: traffic_frame_def)

lemma traffic_frame_trans: "traffic_frame a b \<Longrightarrow> traffic_frame b c \<Longrightarrow> traffic_frame a c"
  by (simp add: traffic_frame_def)

lemma update_msg_frame:
  "traffic_frame k (kaodv_netlink_send_rt_update_msg ty a b i k)"
  "expl_head (kaodv_netlink_send_rt_update_msg ty a b i k) = expl_head k"
  by (simp_all add: kaodv_netlink_send_rt_update_msg_def netlink_send_eq traffic_frame_def fixed_def registered_kemit
      requests_kemit)

lemma expl_update_only: "\<exists>es. snd (kaodv_expl_update d n t f i k) = k\<lparr>expl_head := es\<rparr>"
proof -
  have "\<exists>es. k = k\<lparr>expl_head := es\<rparr>" by (rule exI [of _ "expl_head k"]) simp
  then show ?thesis by (auto simp: kaodv_expl_update_def expl_add_def Let_def split: option.split)
qed

lemma expl_update_frame: "traffic_frame k (snd (kaodv_expl_update d n t f i k))"
proof -
  obtain es where "snd (kaodv_expl_update d n t f i k) = k\<lparr>expl_head := es\<rparr>" using expl_update_only by blast
  then show ?thesis by (simp add: traffic_frame_def fixed_def registered_def requests_def)
qed

text \<open>An update with the values an entry has only changes when it expires and its interface.\<close>

lemma expl_update_same:
  assumes "expl_wf k" "kaodv_expl_get d k = Some e"
  shows "expl_wf (snd (kaodv_expl_update (ex_daddr e) (ex_nhop e) t (ex_flags e) i k))"
    and "expl_len k < EXPL_MAX_LEN \<Longrightarrow> route (snd (kaodv_expl_update (ex_daddr e) (ex_nhop e) t (ex_flags e) i k)) = route k"
proof -
  obtain st k' where u: "kaodv_expl_update (ex_daddr e) (ex_nhop e) t (ex_flags e) i k = (st, k')" by fastforce
  have d: "ex_daddr e = d" using assms(2) expl_find_SomeD by (auto simp: kaodv_expl_get_def)
  note upd = kaodv_expl_update_map [OF assms(1) u]
  show "expl_wf (snd (kaodv_expl_update (ex_daddr e) (ex_nhop e) t (ex_flags e) i k))" using upd(1) by (simp add: u)
  show "route (snd (kaodv_expl_update (ex_daddr e) (ex_nhop e) t (ex_flags e) i k)) = route k" if "expl_len k < EXPL_MAX_LEN"
    unfolding u snd_conv route_def fun_eq_iff using upd(2) that assms(2) by (simp add: d expl_map_def)
qed

lemma expl_refresh_keeps:
  assumes "expl_wf k"
  shows "expl_wf (expl_refresh a i k) \<and> traffic_frame k (expl_refresh a i k) \<and>
    (expl_len k < EXPL_MAX_LEN \<longrightarrow> route (expl_refresh a i k) = route k)"
proof (cases "kaodv_expl_get a k")
  case None
  then show ?thesis using assms by (simp add: expl_refresh_def)
next
  case (Some e)
  define k1 where "k1 = snd (kaodv_expl_update (ex_daddr e) (ex_nhop e) (scast (active_timeout k)) (ex_flags e) i k)"
  have 1: "expl_wf k1" "traffic_frame k k1" "expl_len k < EXPL_MAX_LEN \<longrightarrow> route k1 = route k"
    unfolding k1_def using expl_update_same [OF assms Some] expl_update_frame by blast+
  show ?thesis
  proof (cases "ex_nhop e = ex_daddr e \<or> kaodv_expl_get (ex_nhop e) k1 = None")
    case True
    then have "expl_refresh a i k = k1" using Some by (auto simp: expl_refresh_def k1_def [symmetric] Let_def)
    then show ?thesis using 1 by simp
  next
    case False
    then obtain n where n: "kaodv_expl_get (ex_nhop e) k1 = Some n" by blast
    have "expl_refresh a i k = snd (kaodv_expl_update (ex_daddr n) (ex_nhop n) (scast (active_timeout k1)) (ex_flags n) i k1)"
      using Some n False by (simp add: expl_refresh_def k1_def [symmetric] Let_def)
    moreover have "expl_len k1 = expl_len k" using 1(2) by (simp add: traffic_frame_def)
    ultimately show ?thesis
      using 1 expl_update_same [OF 1(1) n] traffic_frame_trans [OF 1(2) expl_update_frame] by simp
  qed
qed

lemma update_route_timeouts_keeps:
  assumes "expl_wf k" and "k' = kaodv_update_route_timeouts h dev b k"
  shows "expl_wf k' \<and> traffic_frame k k' \<and> (expl_len k < EXPL_MAX_LEN \<longrightarrow> route k' = route k)"
proof (cases "if_info_from_ifindex dev k")
  case None
  then show ?thesis using assms by (simp add: kaodv_update_route_timeouts_def)
next
  case (Some p)
  obtain ifa bc where p: "p = (ifa, bc)" by fastforce
  define k1 where "k1 = (if h = NF_INET_PRE_ROUTING
      then kaodv_netlink_send_rt_update_msg PKT_INBOUND (ip_saddr b) (ip_daddr b) dev k
      else if ip_daddr b \<noteq> AODV_BROADCAST \<and> ip_daddr b \<noteq> bc
      then kaodv_netlink_send_rt_update_msg PKT_OUTBOUND (ip_saddr b) (ip_daddr b) dev k else k)"
  have eh: "expl_head k1 = expl_head k" and tf: "traffic_frame k k1" by (simp_all add: k1_def update_msg_frame)
  have wf: "expl_wf k1" "route k1 = route k" "expl_len k1 = expl_len k"
    using expl_cong [OF eh] assms(1) tf by (simp_all add: traffic_frame_def)
  define k2 where "k2 = expl_refresh (ip_daddr b) dev k1"
  have k': "k' = expl_refresh (ip_saddr b) dev k2"
    unfolding assms(2) kaodv_update_route_timeouts_def Some p k2_def k1_def by (simp add: Let_def)
  have 2: "expl_wf k2 \<and> traffic_frame k1 k2 \<and> (expl_len k1 < EXPL_MAX_LEN \<longrightarrow> route k2 = route k1)"
    unfolding k2_def by (rule expl_refresh_keeps [OF wf(1)])
  moreover have "expl_wf k' \<and> traffic_frame k2 k' \<and> (expl_len k2 < EXPL_MAX_LEN \<longrightarrow> route k' = route k2)"
    unfolding k' by (rule expl_refresh_keeps [OF conjunct1 [OF 2]])
  ultimately show ?thesis
    using wf traffic_frame_trans [OF tf] by (metis traffic_frame_def traffic_frame_trans)
qed

section \<open>The invariant\<close>

text \<open>The list of routes and the queue with its counter.\<close>

definition kwf :: "kstate \<Rightarrow> bool" where
  "kwf k \<longleftrightarrow> expl_wf k \<and> queue_total k = of_nat (length (queue_list k)) \<and>
     length (queue_list k) \<le> unat KAODV_QUEUE_QMAX_DEFAULT"

lemma kwf_cong:
  "expl_wf k' \<Longrightarrow> queue_list k' = queue_list k \<Longrightarrow> queue_total k' = queue_total k \<Longrightarrow> kwf k \<Longrightarrow> kwf k'"
  by (simp add: kwf_def)

lemma kwf_frame:
  "expl_head k' = expl_head k \<Longrightarrow> queue_list k' = queue_list k \<Longrightarrow> queue_total k' = queue_total k \<Longrightarrow> kwf k' = kwf k"
  by (simp add: kwf_def expl_wf_def)

lemma kwf_kemit [simp]: "kwf (kemit ev k) = kwf k"
  by (rule kwf_frame) simp_all

lemma off_queue_fixed: "off_queue fixed"
  by (auto simp: off_queue_def fixed_def registered_kemit queue_event_def registered_def split: kevent.splits)

lemma kwf_filter:
  assumes "kwf k" "fifo k' = filter (\<lambda>e. \<not> P e) (fifo k)" "expl_head k' = expl_head k"
    and "queue_total k' = queue_total k - of_nat (length (filter P (fifo k)))"
  shows "kwf k'"
proof -
  have "length (queue_list k) = length (filter P (fifo k)) + length (queue_list k')"
    using sum_length_filter_compl [of P "fifo k"] arg_cong [OF assms(2), of length] by (simp add: fifo_def)
  with assms show ?thesis by (simp add: kwf_def expl_wf_def)
qed

lemma set_verdict_keeps:
  assumes "kwf k"
  shows "kwf (snd (kaodv_queue_set_verdict v d k)) \<and> fixed (snd (kaodv_queue_set_verdict v d k)) = fixed k"
proof
  obtain n k' where r: "kaodv_queue_set_verdict v d k = (n, k')" by fastforce
  have "fifo k' = filter (\<lambda>e. \<not> dest_cmp d e) (fifo k)" "expl_head k' = expl_head k"
    "queue_total k' = queue_total k - of_nat (length (filter (dest_cmp d) (fifo k)))"
    using r queue_drop_run [of d 0 k n k'] queue_send_queue [of d 0 k n k']
    by (cases v; simp add: kaodv_queue_set_verdict_def)+
  then show "kwf (snd (kaodv_queue_set_verdict v d k))" using kwf_filter [OF assms] by (simp add: r)
qed (rule off_queue_set_verdict [OF off_queue_fixed])

lemma enqueue_keeps:
  assumes "kwf k"
  shows "kwf (snd (kaodv_queue_enqueue_packet b k)) \<and> fixed (snd (kaodv_queue_enqueue_packet b k)) = fixed k"
proof
  have "unat (queue_total k) = length (queue_list k)"
    using assms by (simp add: kwf_def KAODV_QUEUE_QMAX_DEFAULT_def unat_of_nat)
  then show "kwf (snd (kaodv_queue_enqueue_packet b k))"
    using assms
    by (simp add: kaodv_queue_enqueue_packet_def queue_enqueue_entry_def kmalloc_def kwf_def expl_wf_def word_le_nat_alt
        split: bool.split)
qed (rule off_queue_enqueue [OF off_queue_fixed])

lemma flush_keeps: "kwf k \<Longrightarrow> kwf (kaodv_queue_flush k) \<and> fixed (kaodv_queue_flush k) = fixed k"
  using queue_flush_queue [of k] off_queue_flush [OF off_queue_fixed, of k] by (simp add: kwf_def expl_wf_def)

lemma netlink_send_keeps:
  "kwf (netlink_send ty m k) = kwf k" "fixed (netlink_send ty m k) = fixed k"
  "queue_list (netlink_send ty m k) = queue_list k" "queue_total (netlink_send ty m k) = queue_total k"
  "expl_head (netlink_send ty m k) = expl_head k" "kmem (netlink_send ty m k) = kmem k"
  using kwf_frame [of "snd (kmalloc k)" k] by (simp_all add: netlink_send_eq fixed_def registered_kemit)

lemmas send_defs = kaodv_netlink_send_rt_msg_def kaodv_netlink_send_rerr_msg_def

lemma timeouts_keep:
  assumes "kwf k" and "k' = kaodv_update_route_timeouts h dev b k"
  shows "kwf k' \<and> fixed k' = fixed k"
  using update_route_timeouts_keeps [OF _ assms(2)] assms(1) by (auto simp: kwf_def traffic_frame_def)

lemma encapsulate_keeps:
  "kwf k \<Longrightarrow> kwf (snd (ip_pkt_encapsulate b d k)) \<and> fixed (snd (ip_pkt_encapsulate b d k)) = fixed k"
  using off_queue_encapsulate [OF off_queue_fixed, of b d k] kwf_frame [of "snd (ip_pkt_encapsulate b d k)" k] by simp

lemma decapsulate_keeps:
  "kwf k \<Longrightarrow> kwf (snd (ip_pkt_decapsulate b k)) \<and> fixed (snd (ip_pkt_decapsulate b k)) = fixed k"
  by (simp add: ip_pkt_decapsulate_def fixed_def registered_kemit)

lemma hook_pre_routing_keeps:
  assumes "kwf k" "hook_pre_routing b dev a k = (v, b', k')"
  shows "kwf k' \<and> fixed k' = fixed k"
proof -
  define k1 where "k1 = kaodv_update_route_timeouts NF_INET_PRE_ROUTING dev b k"
  have 1: "kwf k1" "fixed k1 = fixed k" using timeouts_keep [OF assms(1) k1_def] by auto
  have 2: "kwf (kaodv_netlink_send_rt_msg ty x y k1)" "fixed (kaodv_netlink_send_rt_msg ty x y k1) = fixed k" for ty x y
    using 1 by (simp_all add: send_defs netlink_send_keeps)
  show ?thesis
    using assms(2) 1 decapsulate_keeps [OF 1(1), of b] enqueue_keeps [OF 2(1)] 2
    by (auto simp: hook_pre_routing_def k1_def [symmetric] Let_def send_defs(2) netlink_send_keeps
        split: if_splits option.splits prod.splits)
qed

lemma hook_local_out_keeps:
  assumes "kwf k" "hook_local_out b dev k = (v, b', k')"
  shows "kwf k' \<and> fixed k' = fixed k"
proof -
  define k1 where "k1 = kaodv_update_route_timeouts NF_INET_LOCAL_OUT dev b k"
  have 1: "kwf k1" "fixed k1 = fixed k" using timeouts_keep [OF assms(1) k1_def] by auto
  have 2: "kwf (kaodv_netlink_send_rt_msg ty x y k)" "fixed (kaodv_netlink_send_rt_msg ty x y k) = fixed k" for ty x y
    using assms(1) by (simp_all add: send_defs netlink_send_keeps)
  show ?thesis
    using assms 1 2 enqueue_keeps [OF 2(1)] enqueue_keeps [OF assms(1)]
      encapsulate_keeps [OF 1(1), of b "ex_nhop (the (kaodv_expl_get (ip_daddr b) k))"]
    by (auto simp: hook_local_out_def k1_def [symmetric] Let_def split: if_splits option.splits prod.splits)
qed

lemma kaodv_hook_keeps:
  assumes "kwf k" "kaodv_hook h p i o' k = (v, b', k')"
  shows "kwf k' \<and> fixed k' = fixed k"
proof -
  have t: "kwf (kaodv_update_route_timeouts h d b k)" "fixed (kaodv_update_route_timeouts h d b k) = fixed k" for h d b
    using timeouts_keep [OF assms(1) refl] by blast+
  have f: "fixed (kemit K_fault k) = fixed k" by (simp add: fixed_def registered_kemit)
  have "kwf k'' \<and> fixed k'' = fixed k" if "hook_data h b i o' k = (v, b', k'')" for b k''
    using that assms(1) t f hook_pre_routing_keeps [OF assms(1)] hook_local_out_keeps [OF assms(1)]
    by (auto simp: hook_data_def split: if_splits option.splits)
  then show ?thesis
    using assms t f by (auto simp: kaodv_hook_def Let_def split: if_splits)
qed

lemma expl_add_keeps:
  assumes "kwf k"
  shows "kwf (snd (kaodv_expl_add d n t f i k)) \<and> fixed (snd (kaodv_expl_add d n t f i k)) = fixed k"
proof -
  obtain st k' where r: "kaodv_expl_add d n t f i k = (st, k')" by fastforce
  have "queue_list k' = queue_list k" "queue_total k' = queue_total k" "fixed k' = fixed k"
    using r by (auto simp: kaodv_expl_add_def kmalloc_def expl_add_def Let_def fixed_def registered_def
        split: if_splits bool.splits)
  moreover have "expl_wf k'" using kaodv_expl_add_map(1) [OF _ r] assms by (simp add: kwf_def)
  ultimately show ?thesis using assms by (simp add: r kwf_def)
qed

lemma expl_del_keeps:
  assumes "kwf k"
  shows "kwf (snd (kaodv_expl_del d k)) \<and> fixed (snd (kaodv_expl_del d k)) = fixed k"
proof -
  obtain st k' where r: "kaodv_expl_del d k = (st, k')" by fastforce
  have "queue_list k' = queue_list k" "queue_total k' = queue_total k" "fixed k' = fixed k"
    using r by (auto simp: kaodv_expl_del_def fixed_def registered_def split: option.splits)
  moreover have "expl_wf k'" using kaodv_expl_del_map(1) [OF _ r] assms by (simp add: kwf_def)
  ultimately show ?thesis using assms by (simp add: r kwf_def)
qed

lemma receive_peer_keeps:
  assumes "kwf k" "kaodv_netlink_receive_peer ty msg k = (st, k')"
  shows "kwf k' \<and> fixed k' = fixed k"
proof -
  have "kwf (k\<lparr>active_timeout := a, qual_th := b, is_gateway := c\<rparr>)"
    "fixed (k\<lparr>active_timeout := a, qual_th := b, is_gateway := c\<rparr>) = fixed k" for a b c
    using assms(1) by (simp_all add: kwf_def expl_wf_def fixed_def registered_def)
  then show ?thesis
    using assms(2) assms(1) set_verdict_keeps [OF assms(1)] expl_add_keeps [OF assms(1)] expl_del_keeps [OF assms(1)]
      set_verdict_keeps [OF conjunct1 [OF expl_add_keeps [OF assms(1)]]]
      set_verdict_keeps [OF conjunct1 [OF expl_del_keeps [OF assms(1)]]]
    by (auto simp: kaodv_netlink_receive_peer_def Let_def case_prod_beta split: if_splits)
qed

lemma rcv_skb_keeps:
  assumes "kwf k"
  shows "kwf (kaodv_netlink_rcv_skb perm skb k) \<and> fixed (kaodv_netlink_rcv_skb perm skb k) = fixed k"
proof -
  have "kwf (k\<lparr>peer_pid := pid\<rparr>)" "fixed (k\<lparr>peer_pid := pid\<rparr>) = fixed k" for pid
    using assms by (simp_all add: kwf_def expl_wf_def fixed_def registered_def)
  note p = receive_peer_keeps [OF this(1) surjective_pairing] receive_peer_keeps [OF assms surjective_pairing] this(2)
  have f: "fixed (kemit (K_ack x) k') = fixed k'" for x k' by (simp add: fixed_def registered_kemit)
  show ?thesis using assms p by (simp add: kaodv_netlink_rcv_skb_def Let_def f case_prod_beta)
qed

lemma nl_event_keeps:
  assumes "kwf k"
  shows "kwf (kaodv_netlink_rcv_nl_event e p pid k) \<and> fixed (kaodv_netlink_rcv_nl_event e p pid k) = fixed k"
proof -
  have "kwf (kaodv_expl_flush (k\<lparr>peer_pid := 0\<rparr>))" "fixed (kaodv_expl_flush (k\<lparr>peer_pid := 0\<rparr>)) = fixed k"
    using assms by (simp_all add: kaodv_expl_flush_def kwf_def expl_wf_def fixed_def registered_def)
  then show ?thesis using assms flush_keeps by (simp add: kaodv_netlink_rcv_nl_event_def)
qed

section \<open>Loading, unloading, and what happens in between\<close>

text \<open>The inputs of the module: packets, messages, the end of the daemon, and time.\<close>

inductive kstep :: "kstate \<Rightarrow> kstate \<Rightarrow> bool" where
  k_hook: "kaodv_hook h p i o' k = (v, b, k') \<Longrightarrow> kstep k k'"
| k_msg: "kstep k (kaodv_netlink_rcv_skb permitted skb k)"
| k_event: "kstep k (kaodv_netlink_rcv_nl_event event protocol pid k)"
| k_time: "kstep k (k\<lparr>jiffies := j\<rparr>)"

inductive ksteps :: "kstate \<Rightarrow> kstate \<Rightarrow> bool" where
  k_done: "ksteps k k"
| k_more: "ksteps k k' \<Longrightarrow> kstep k' k'' \<Longrightarrow> ksteps k k''"

lemma kstep_keeps: "kstep k k' \<Longrightarrow> kwf k \<Longrightarrow> kwf k' \<and> fixed k' = fixed k"
proof (induction rule: kstep.induct)
  case (k_time k j)
  then show ?case by (simp add: kwf_def expl_wf_def fixed_def registered_def)
qed (use kaodv_hook_keeps rcv_skb_keeps nl_event_keeps in blast)+

lemma ksteps_keeps: "ksteps k k' \<Longrightarrow> kwf k \<Longrightarrow> kwf k' \<and> fixed k' = fixed k"
  by (induction rule: ksteps.induct) (auto dest: kstep_keeps)

text \<open>A module that has not been loaded yet.\<close>

definition unloaded :: "kstate \<Rightarrow> bool" where
  "unloaded k \<longleftrightarrow> expl_head k = [] \<and> queue_list k = [] \<and> ifihead k = [] \<and> registered k = {}"

lemma purge_fold:
  "ifihead k = ifis \<Longrightarrow>
     k' = fold (\<lambda>ifi k. dev_set_mtu (ifi_ifindex ifi) (orig_mtu ifi) (k\<lparr>ifihead := remove1 ifi (ifihead k)\<rparr>)) ifis k \<Longrightarrow>
     ifihead k' = [] \<and> dev_mtu k' = fold (\<lambda>ifi m. m(ifi_ifindex ifi := orig_mtu ifi)) ifis (dev_mtu k) \<and>
     registered k' = registered k \<and> queue_list k' = queue_list k \<and> queue_total k' = queue_total k \<and> expl_head k' = expl_head k"
  by (induction ifis arbitrary: k) (auto simp: dev_set_mtu_def registered_def)

lemmas if_info_purge_eq = purge_fold [OF refl if_info_purge_def]

definition restored_mtu :: "kstate \<Rightarrow> u32 \<Rightarrow> u32" where
  "restored_mtu k = fold (\<lambda>ifi m. m(ifi_ifindex ifi := orig_mtu ifi)) (ifihead k) (dev_mtu k)"

lemma if_info_add_keeps:
  "restored_mtu (snd (if_info_add d k)) = restored_mtu k"
  "kwf (snd (if_info_add d k)) = kwf k" "registered (snd (if_info_add d k)) = registered k"
  by (auto simp: if_info_add_def kmalloc_def dev_set_mtu_def Let_def restored_mtu_def kwf_def expl_wf_def
      registered_def split: bool.split prod.split)

lemma init_devs_keep:
  "restored_mtu (fold (kaodv_init_dev E) names k) = restored_mtu k \<and> kwf (fold (kaodv_init_dev E) names k) = kwf k \<and>
   registered (fold (kaodv_init_dev E) names k) = registered k"
  by (induction names arbitrary: k) (simp_all add: kaodv_init_dev_def if_info_add_keeps split: option.split)

lemma fixed_queue_fini: "fixed (kaodv_queue_fini k) = fixed k"
  by (simp add: kaodv_queue_fini_def off_queue_flush [OF off_queue_fixed])

lemma kaodv_init_run:
  assumes "unloaded k" "kaodv_init E names k = (ret, k')"
  shows "if ret < 0 then registered k' = {} \<and> ifihead k' = [] \<and> dev_mtu k' = dev_mtu k
    else kwf k' \<and> registered k' = {0, 1, 2} \<and> restored_mtu k' = dev_mtu k"
proof -
  define k1 where "k1 = k\<lparr>expl_len := 0, queue_total := 0\<rparr>"
  have k1: "kwf k1" "fixed k1 = ([], dev_mtu k, {})" "restored_mtu k1 = dev_mtu k" "registered k1 = {}"
    using assms(1) by (simp_all add: k1_def unloaded_def kwf_def expl_wf_def fixed_def registered_def restored_mtu_def)
  have fx: "registered k' = {} \<and> ifihead k' = [] \<and> dev_mtu k' = dev_mtu k" if "fixed k' = ([], dev_mtu k, {})" for k'
    using that by (simp add: fixed_def)
  have em: "fixed (kemit ev k) = (ifihead k, dev_mtu k, registered (kemit ev k))" for ev k by (simp add: fixed_def)
  have "fixed k' = ([], dev_mtu k, {})" if "ret < 0"
    using that assms(2) k1(2)
    by (auto simp: kaodv_init_def kaodv_queue_init_def kaodv_expl_init_def kaodv_netlink_init_def nf_register_hook_def
        cleanup_hook1_def cleanup_hook0_def cleanup_netlink_def nf_unregister_hook_def kaodv_netlink_fini_def k1_def [symmetric]
        fixed_queue_fini em registered_kemit Let_def split: if_splits)
      (auto simp: fixed_def)
  moreover have "kwf k' \<and> registered k' = {0, 1, 2} \<and> restored_mtu k' = dev_mtu k" if "\<not> ret < 0"
  proof -
    have "k' = fold (kaodv_init_dev E) (take MAX_INTERFACES names)
        (kemit (K_register 2) (kemit (K_register 1) (kemit (K_register 0) k1)))"
      using that assms(2)
      by (auto simp: kaodv_init_def kaodv_queue_init_def kaodv_expl_init_def kaodv_netlink_init_def nf_register_hook_def
          k1_def [symmetric] Let_def split: if_splits)
    moreover have "restored_mtu (kemit ev k) = restored_mtu k" for ev k by (simp add: restored_mtu_def)
    ultimately show ?thesis
      using init_devs_keep [of E] k1 by (simp add: registered_kemit insert_commute)
  qed
  ultimately show ?thesis using fx by auto
qed

lemma kaodv_exit_run:
  "expl_head (kaodv_exit k) = [] \<and> queue_list (kaodv_exit k) = [] \<and> ifihead (kaodv_exit k) = [] \<and>
   registered (kaodv_exit k) = registered k - {0, 1, 2} \<and> dev_mtu (kaodv_exit k) = restored_mtu k"
proof -
  define k1 where "k1 = fold nf_unregister_hook [0, 1, 2] (if_info_purge k)"
  have 1: "ifihead k1 = []" "dev_mtu k1 = restored_mtu k" "registered k1 = registered k - {0, 1, 2}"
    using if_info_purge_eq [of k] by (auto simp: k1_def nf_unregister_hook_def registered_kemit restored_mtu_def)
  moreover have "fixed (kaodv_queue_fini k1) = fixed k1" "queue_list (kaodv_queue_fini k1) = []"
    using fixed_queue_fini queue_flush_queue by (simp_all add: kaodv_queue_fini_def)
  moreover have "fixed (kaodv_expl_fini k) = fixed k" "queue_list (kaodv_expl_fini k) = queue_list k"
    "expl_head (kaodv_expl_fini k) = []" for k
    by (simp_all add: kaodv_expl_fini_def kaodv_expl_flush_def fixed_def registered_def)
  ultimately show ?thesis
    unfolding kaodv_exit_def Let_def k1_def [symmetric] kaodv_netlink_fini_def
    by (simp add: registered_kemit) (simp add: fixed_def)
qed

section \<open>Decisions of the hook\<close>

definition queue_packet :: "bytes \<Rightarrow> kaodv_queue_entry" where
  "queue_packet b = \<lparr>qe_skb = b, qe_tos = b ! 1, qe_daddr = ip_daddr b, qe_saddr = ip_saddr b\<rparr>"

lemma enqueue_packet_run:
  assumes "\<forall>i. kmem k i" "queue_total k < KAODV_QUEUE_QMAX_DEFAULT" "k' = snd (kaodv_queue_enqueue_packet b k)"
  shows "fifo k' = fifo k @ [queue_packet b]" "requests k' = requests k" "expl_head k' = expl_head k"
  using assms
  by (simp_all add: kaodv_queue_enqueue_packet_def queue_enqueue_entry_def kmalloc_def fifo_def queue_packet_def requests_def)

lemma netlink_send_run:
  assumes "\<forall>i. kmem k i" "k' = netlink_send ty m k" "ty \<noteq> KAODVM_ROUTE_UPDATE"
  shows "requests k' = requests k @ [(ty, m)]" "fifo k' = fifo k"
  using assms by (simp_all add: netlink_send_eq requests_kemit)

lemma off_queue_requests: "off_queue requests"
  by (auto simp: off_queue_def requests_kemit queue_event_def split: kevent.splits) (simp_all add: requests_def)

lemma route_get: "route k d = map_option (\<lambda>e. (ex_nhop e, ex_flags e)) (kaodv_expl_get d k)"
  by (simp add: route_def expl_map_def)

lemma queue_find_iff: "kaodv_queue_find d k = 0 \<longleftrightarrow> d \<notin> qe_daddr ` set (fifo k)"
  by (auto simp: kaodv_queue_find_def queue_find_entry_def fifo_def find_None_iff dest_cmp_def)

lemmas kaodvm_defs = KAODVM_SEND_RERR_def KAODVM_ROUTE_UPDATE_def KAODVM_REPAIR_def KAODVM_ROUTE_REQ_def

text \<open>What becomes of the packet, what is told to the daemon, and the routes, for both hooks.\<close>

definition decides :: "u32 \<Rightarrow> bytes \<Rightarrow> u32 \<Rightarrow> kstate \<Rightarrow> u32 \<Rightarrow> kstate \<Rightarrow> bool" where
  "decides h b dev k v k' \<longleftrightarrow>
     (let d = ip_daddr b; queued = (v = NF_STOLEN \<and> fifo k' = fifo k @ [queue_packet b]);
          asks = (\<lambda>ms. requests k' = requests k @ ms);
          search = (if d \<in> qe_daddr ` set (fifo k) then [] else [(KAODVM_ROUTE_REQ, zero_rt_msg\<lparr>rm_dst := d\<rparr>)])
      in case route k d of
           None \<Rightarrow>
             if h = NF_INET_PRE_ROUTING
             then v = NF_DROP \<and> fifo k' = fifo k \<and>
               asks [(KAODVM_SEND_RERR, zero_rt_msg\<lparr>rm_type := PKT_INBOUND, rm_msrc := ip_saddr b, rm_dst := d, rm_ifindex := dev\<rparr>)]
             else queued \<and> asks search
         | Some (nhop, flags) \<Rightarrow>
             if flags AND KAODV_RT_REPAIR = 0 then v = NF_ACCEPT \<and> fifo k' = fifo k \<and> asks []
             else queued \<and> asks (if h = NF_INET_PRE_ROUTING
               then [(KAODVM_REPAIR, zero_rt_msg\<lparr>rm_msrc := ip_saddr b, rm_dst := d\<rparr>)] else search))"

lemma hook_pre_routing_run:
  assumes "expl_wf k" "expl_len k < EXPL_MAX_LEN" "\<forall>i. kmem k i" "queue_total k < KAODV_QUEUE_QMAX_DEFAULT"
    and "a \<notin> {ip_saddr b, ip_daddr b}" "hook_pre_routing b dev a k = (v, b', k')"
  shows "route k' = route k \<and> decides NF_INET_PRE_ROUTING b dev k v k'"
proof -
  define k1 where "k1 = kaodv_update_route_timeouts NF_INET_PRE_ROUTING dev b k"
  have 1: "route k1 = route k" "kmem k1 = kmem k" "queue_total k1 = queue_total k" "requests k1 = requests k" "fifo k1 = fifo k"
    using update_route_timeouts_keeps [OF assms(1) k1_def] assms(2) by (auto simp: traffic_frame_def fifo_def)
  have mem: "\<forall>i. kmem k1 i" using 1(2) assms(3) by simp
  show ?thesis
  proof (cases "kaodv_expl_get (ip_daddr b) k1")
    case None
    define m where "m = zero_rt_msg\<lparr>rm_type := PKT_INBOUND, rm_msrc := ip_saddr b, rm_dst := ip_daddr b, rm_ifindex := dev\<rparr>"
    have "v = NF_DROP" "k' = netlink_send KAODVM_SEND_RERR m k1"
      using assms(5,6) None
      by (auto simp: hook_pre_routing_def k1_def [symmetric] Let_def m_def kaodv_netlink_send_rerr_msg_def)
    moreover have "route k (ip_daddr b) = None" using None 1(1) by (metis option.map(1) route_get)
    ultimately show ?thesis
      using netlink_send_run [OF mem, of k' KAODVM_SEND_RERR m] expl_cong [of k' k1] 1
      by (simp add: decides_def m_def kaodvm_defs netlink_send_keeps)
  next
    case (Some e)
    have r: "route k (ip_daddr b) = Some (ex_nhop e, ex_flags e)" using Some 1(1) by (metis option.map(2) route_get)
    define m where "m = zero_rt_msg\<lparr>rm_msrc := ip_saddr b, rm_dst := ip_daddr b\<rparr>"
    define k2 where "k2 = netlink_send KAODVM_REPAIR m k1"
    show ?thesis
    proof (cases "ex_flags e AND KAODV_RT_REPAIR = 0")
      case True
      then have "v = NF_ACCEPT" "k' = k1"
        using assms(5,6) Some by (auto simp: hook_pre_routing_def k1_def [symmetric] Let_def)
      then show ?thesis using r True 1 by (simp add: decides_def)
    next
      case False
      then have k': "v = NF_STOLEN" "k' = snd (kaodv_queue_enqueue_packet b k2)"
        using assms(5,6) Some
        by (auto simp: hook_pre_routing_def k1_def [symmetric] Let_def kaodv_netlink_send_rt_msg_def m_def k2_def)
      have "\<forall>i. kmem k2 i" "queue_total k2 < KAODV_QUEUE_QMAX_DEFAULT"
        using mem assms(4) 1(3) by (simp_all add: k2_def netlink_send_keeps)
      note q = enqueue_packet_run [OF this k'(2)]
      have "requests k2 = requests k1 @ [(KAODVM_REPAIR, m)]" "fifo k2 = fifo k1" "expl_head k2 = expl_head k1"
        using netlink_send_run [OF mem k2_def] by (simp_all add: kaodvm_defs netlink_send_keeps k2_def)
      with q show ?thesis using r False 1 k'(1) expl_cong [of k' k1] by (simp add: decides_def m_def)
    qed
  qed
qed

lemma hook_local_out_run:
  assumes "expl_wf k" "expl_len k < EXPL_MAX_LEN" "\<forall>i. kmem k i" "queue_total k < KAODV_QUEUE_QMAX_DEFAULT"
    and "max 20 (ip_hlen b) \<le> length b" "hook_local_out b dev k = (v, b', k')"
  shows "route k' = route k \<and> decides NF_INET_LOCAL_OUT b dev k v k'"
proof (cases "kaodv_expl_get (ip_daddr b) k = None \<or> ex_flags (the (kaodv_expl_get (ip_daddr b) k)) AND KAODV_RT_REPAIR \<noteq> 0")
  case True
  define m where "m = zero_rt_msg\<lparr>rm_msrc := 0, rm_dst := ip_daddr b\<rparr>"
  define k1 where "k1 = (if kaodv_queue_find (ip_daddr b) k = 0 then netlink_send KAODVM_ROUTE_REQ m k else k)"
  have k': "v = NF_STOLEN" "k' = snd (kaodv_queue_enqueue_packet b k1)"
    using assms(6) True
    by (auto simp: hook_local_out_def Let_def kaodv_netlink_send_rt_msg_def m_def k1_def)
  have 1: "\<forall>i. kmem k1 i" "queue_total k1 < KAODV_QUEUE_QMAX_DEFAULT" "expl_head k1 = expl_head k" "fifo k1 = fifo k"
    "requests k1 = requests k @ (if ip_daddr b \<in> qe_daddr ` set (fifo k) then [] else [(KAODVM_ROUTE_REQ, m)])"
    using assms(3,4) netlink_send_run [OF assms(3) refl, of KAODVM_ROUTE_REQ m] queue_find_iff
    by (auto simp: k1_def netlink_send_keeps kaodvm_defs)
  note q = enqueue_packet_run [OF 1(1,2) k'(2)]
  have "m = zero_rt_msg\<lparr>rm_dst := ip_daddr b\<rparr>" by (simp add: m_def zero_rt_msg_def)
  then show ?thesis
    using q 1 k'(1) True expl_cong [of k' k]
    by (auto simp: decides_def route_get NF_INET_LOCAL_OUT_def NF_INET_PRE_ROUTING_def split: option.split)
next
  case False
  then obtain e where e: "kaodv_expl_get (ip_daddr b) k = Some e" "ex_flags e AND KAODV_RT_REPAIR = 0" by auto
  define k1 where "k1 = (if ex_flags e AND KAODV_RT_GW_ENCAP = 0 then k else kaodv_update_route_timeouts NF_INET_LOCAL_OUT dev b k)"
  have 1: "route k1 = route k" "kmem k1 = kmem k" "requests k1 = requests k" "fifo k1 = fifo k"
    using update_route_timeouts_keeps [OF assms(1) refl, of NF_INET_LOCAL_OUT dev b] assms(2)
    by (auto simp: k1_def traffic_frame_def fifo_def)
  have "v = NF_ACCEPT" "k' = (if ex_flags e AND KAODV_RT_GW_ENCAP = 0 then k1 else snd (ip_pkt_encapsulate b (ex_nhop e) k1))"
    using assms(3,5,6) e 1(2)
    by (auto simp: hook_local_out_def Let_def k1_def ip_pkt_encapsulate_def kmalloc_def split: if_splits)
  moreover have "route (snd (ip_pkt_encapsulate b (ex_nhop e) k1)) = route k1"
    using expl_cong [of "snd (ip_pkt_encapsulate b (ex_nhop e) k1)" k1] by simp
  ultimately show ?thesis
    using e 1 off_queue_encapsulate [OF off_queue_requests, of b "ex_nhop e" k1]
    by (auto simp: decides_def route_get fifo_def)
qed

lemma rcv_header_ok:
  fixes w :: u32
  assumes "48 \<le> n" "sint w = int n"
  shows "\<not> (scast w :: u64) < of_nat NLMSG_HDRLEN"
proof -
  have "scast w = (of_nat n :: u64)" unfolding scast_eq assms(2) by simp
  moreover have "n < 2 ^ 31" using sint_lt [of w] assms(2) by simp
  ultimately show ?thesis using assms(1) by (simp add: word_less_nat_alt unat_of_nat)
qed

section \<open>Properties\<close>


lemma demo_kernel_expl:
  "expl_wf demo_kernel" "expl_len demo_kernel < EXPL_MAX_LEN" "kaodv_expl_get 0x0700A8C0 demo_kernel = None"
  by (simp_all add: demo_kernel_def expl_wf_def EXPL_MAX_LEN_def kaodv_expl_get_def kaodv_expl_find_def)


text \<open>
  C33. A route from the daemon releases the packets that wait for it: the message adds the route, takes
  exactly the packets for its destination out of the queue and hands them on, oldest first,
  encapsulated when the route leads to a gateway.
\<close>

theorem kaodv_addroute_releases:
  assumes "kwf k" and "expl_len k < EXPL_MAX_LEN" and "\<forall>i. kmem k i"
    and "48 \<le> length skb" and "sint (get32 skb 0) = int (length skb)" and "get16 skb 4 = of_nat KAODVM_ADDROUTE"
    and "get16 skb 6 = 1" and "0 < sint (get32 skb 12)" and "peer_pid k \<in> {0, get32 skb 12}"
    and "m = get_rt_msg (drop 16 skb) 0" and "expl_map k (rm_dst m) = None"
    and "es = filter (dest_cmp (rm_dst m)) (fifo k)" and "\<forall>e \<in> set es. max 20 (ip_hlen (qe_skb e)) \<le> length (qe_skb e)"
    and "k' = kaodv_netlink_rcv_skb True skb k"
  shows "route k' = (route k)(rm_dst m \<mapsto> (rm_nhop m, ucast (rm_flags m))) \<and>
    fifo k' = filter (\<lambda>e. \<not> dest_cmp (rm_dst m) e) (fifo k) \<and>
    kout k' = kout k @ concat (map (\<lambda>e. send_one_events k (expl_map k' (rm_dst m)) (qe_skb e)) es)"
proof -
  define k0 where "k0 = (if peer_pid k \<noteq> 0 then k else k\<lparr>peer_pid := get32 skb 12\<rparr>)"
  have 0: "expl_head k0 = expl_head k" "expl_len k0 = expl_len k" "kmem k0 = kmem k" "fifo k0 = fifo k" "kout k0 = kout k"
    "ip_fast_csum k0 = ip_fast_csum k" "ip_ident k0 = ip_ident k"
    by (simp_all add: k0_def fifo_def)
  obtain st k1 where add: "kaodv_expl_add (rm_dst m) (rm_nhop m) (rm_time m) (ucast (rm_flags m)) (rm_ifindex m) k0 = (st, k1)"
    by fastforce
  have wf0: "expl_wf k0" "expl_map k0 = expl_map k" "route k0 = route k"
    using expl_cong [OF 0(1)] assms(1) by (simp_all add: kwf_def)
  note map = kaodv_expl_add_map [OF wf0(1) add]
  have 1: "kmem k1 = kmem k" "fifo k1 = fifo k" "kout k1 = kout k" "ip_fast_csum k1 = ip_fast_csum k" "ip_ident k1 = ip_ident k"
    using add 0 by (auto simp: kaodv_expl_add_def kmalloc_def expl_add_def Let_def fifo_def split: if_splits bool.splits)
  have st: "0 < st" and route1: "route k1 = (route k)(rm_dst m \<mapsto> (rm_nhop m, ucast (rm_flags m)))"
    using map(2,3) assms(2,3,11) 0(2,3) wf0(2,3) by (auto simp: route_def fun_eq_iff)
  obtain n k2 where send: "queue_send (rm_dst m) 0 k1 = (n, k2)" by fastforce
  have "kaodv_netlink_receive_peer (ucast (get16 skb 4)) (drop 16 skb) k0 = (st, k2)"
    using assms(6) diff_le_mono [OF assms(4), of 16]
    by (simp add: not_less kaodv_netlink_receive_peer_def assms(10) [symmetric] Let_def add send
        kaodv_queue_set_verdict_def KAODVM_ADDROUTE_def)
  then have "k' = k2"
    using assms(4,5,7,8,9) st rcv_header_ok [OF assms(4,5)]
    by (auto simp: assms(14) kaodv_netlink_rcv_skb_def k0_def [symmetric] Let_def NLM_F_REQUEST_def NLM_F_ACK_def
        NLM_F_MULTI_def MSG_TRUNC_def)
  moreover have "\<forall>e \<in> set es. sendable k1 (qe_skb e)" using assms(3,13) 1(1) by (simp add: sendable_def)
  ultimately have "fifo k' = filter (\<lambda>e. \<not> dest_cmp (rm_dst m) e) (fifo k)"
    "kout k' = kout k @ concat (map (\<lambda>e. send_one_events k1 (expl_map k1 (rm_dst m)) (qe_skb e)) es)"
    using queue_send_run [OF send refl] 1 assms(12) by (simp_all add: expl_map_def)
  moreover have "send_one_events k1 r b = send_one_events k r b" for r b
    unfolding send_one_events_def 1 ..
  moreover have "expl_map k' = expl_map k1" "route k' = route k1"
    using expl_cong [of k2 k1] queue_send_queue [OF send] \<open>k' = k2\<close> by simp_all
  ultimately show ?thesis using route1 by simp
qed

text \<open>An unsolicited message with the route to 192.168.0.7 through 10.0.0.2, while one packet waits for it.\<close>

definition demo_addroute :: bytes where
  "demo_addroute =
     [48, 0, 0, 0, 101, 0, 1, 0, 0, 0, 0, 0, 7, 0, 0, 0] @
     [0, 0, 0, 0, 0, 0, 0, 0, 192, 168, 0, 7, 10, 0, 0, 2, 0, 0, 0, 0, 3, 0, 0, 0, 0xB8, 0x0B, 0, 0, 0, 0, 0, 0]"

lemma demo_addroute_fields:
  "length demo_addroute = 48" "get32 demo_addroute 0 = 48" "get16 demo_addroute 4 = 101" "get16 demo_addroute 6 = 1"
  "get32 demo_addroute 12 = 7" "rm_dst (get_rt_msg (drop 16 demo_addroute) 0) = 0x0700A8C0"
  "rm_nhop (get_rt_msg (drop 16 demo_addroute) 0) = 0x0200000A" "rm_flags (get_rt_msg (drop 16 demo_addroute) 0) = 0"
  by (simp_all add: demo_addroute_def get32_def get16_def get_rt_msg_def)

theorem kaodv_addroute_releases_witness:
  "route (kaodv_netlink_rcv_skb True demo_addroute (demo_kernel\<lparr>queue_list := [queue_packet demo_packet], queue_total := 1\<rparr>))
     0x0700A8C0 = Some (0x0200000A, 0)"
proof -
  let ?k = "demo_kernel\<lparr>queue_list := [queue_packet demo_packet], queue_total := 1\<rparr>"
  have "kwf ?k" "expl_len ?k < EXPL_MAX_LEN" "\<forall>i. kmem ?k i" "peer_pid ?k = 0" "expl_map ?k 0x0700A8C0 = None"
    "\<forall>e \<in> set (fifo ?k). max 20 (ip_hlen (qe_skb e)) \<le> length (qe_skb e)"
    by (simp_all add: kwf_def expl_wf_def demo_kernel_def EXPL_MAX_LEN_def KAODV_QUEUE_QMAX_DEFAULT_def expl_map_def
        kaodv_expl_get_def kaodv_expl_find_def fifo_def queue_packet_def demo_packet_simps)
      (simp add: demo_packet_def)
  with kaodv_addroute_releases [of ?k demo_addroute, OF _ _ _ _ _ _ _ _ _ refl _ refl _ refl] show ?thesis
    by (simp add: demo_addroute_fields KAODVM_ADDROUTE_def)
qed

text \<open>
  C34. Once the module is loaded, every sequence of packets, messages, exits of the daemon and changes of the
  time leads to a well-formed state: the routes have distinct destinations and are ordered by expiry, the
  counter of the queue is its length and stays within the limit, and hooks and interfaces are as loaded.
\<close>

theorem kernel_state_wf:
  assumes "unloaded k0" and "kaodv_init E names k0 = (ret, k)" and "0 \<le> ret" and "ksteps k k'"
  shows "kwf k' \<and> registered k' = {0, 1, 2} \<and> ifihead k' = ifihead k \<and> dev_mtu k' = dev_mtu k"
  using kaodv_init_run [OF assms(1,2)] assms(3) ksteps_keeps [OF assms(4)] by (simp add: fixed_def)

definition demo_kenv :: kenv where
  "demo_kenv = \<lparr>ke_proc = True, ke_netlink = True, ke_hook = (\<lambda>_. 0),
     ke_dev = (\<lambda>name. if name = ''eth0'' then Some \<lparr>nd_ifindex = 3, nd_addr = Some (0x0100000A, 0xFF00000A)\<rparr> else None)\<rparr>"

definition demo_unloaded :: kstate where
  "demo_unloaded = demo_kernel\<lparr>expl_head := [], ifihead := [], dev_mtu := (\<lambda>_. 1500)\<rparr>"

lemma demo_unloaded_simps: "unloaded demo_unloaded" "fst (kaodv_init demo_kenv [''eth0''] demo_unloaded) = 0"
  by (simp_all add: unloaded_def demo_unloaded_def demo_kernel_def registered_def demo_kenv_def kaodv_init_def kaodv_queue_init_def
      kaodv_netlink_init_def nf_register_hook_def Let_def)

theorem kernel_state_wf_witness:
  "kwf (kaodv_netlink_rcv_skb True demo_addroute (snd (kaodv_init demo_kenv [''eth0''] demo_unloaded)))"
proof -
  let ?k = "snd (kaodv_init demo_kenv [''eth0''] demo_unloaded)"
  have "ksteps ?k (kaodv_netlink_rcv_skb True demo_addroute ?k)" by (rule k_more [OF k_done k_msg])
  from kernel_state_wf [OF demo_unloaded_simps(1) surjective_pairing _ this] show ?thesis
    by (simp add: demo_unloaded_simps)
qed

text \<open>
  C35. Unloading undoes loading.  A module that cannot be loaded leaves no hook registered and no MTU changed.
  One that has been loaded, whatever it was used for, leaves on exit no hook, no route, no
  waiting packet and no interface, and every MTU as it was, also when an interface was named twice.
\<close>

theorem kaodv_load_unload:
  assumes "unloaded k0" and "kaodv_init E names k0 = (ret, k)"
  shows "if ret < 0 then registered k = {} \<and> ifihead k = [] \<and> dev_mtu k = dev_mtu k0
    else \<forall>k'. ksteps k k' \<longrightarrow> unloaded (kaodv_exit k') \<and> dev_mtu (kaodv_exit k') = dev_mtu k0"
proof (cases "ret < 0")
  case False
  then have k: "kwf k" "registered k = {0, 1, 2}" "restored_mtu k = dev_mtu k0" using kaodv_init_run [OF assms] by auto
  have "unloaded (kaodv_exit k') \<and> dev_mtu (kaodv_exit k') = dev_mtu k0" if "ksteps k k'" for k'
    using ksteps_keeps [OF that k(1)] k(2,3) kaodv_exit_run [of k'] by (simp add: unloaded_def fixed_def restored_mtu_def)
  then show ?thesis using False by simp
qed (use kaodv_init_run [OF assms] in simp)

theorem kaodv_load_unload_witness:
  "dev_mtu (kaodv_exit (snd (kaodv_init demo_kenv [''eth0'', ''eth0''] demo_unloaded))) = dev_mtu demo_unloaded"
proof -
  have "fst (kaodv_init demo_kenv [''eth0'', ''eth0''] demo_unloaded) = 0"
    by (simp add: demo_kenv_def kaodv_init_def kaodv_queue_init_def kaodv_netlink_init_def nf_register_hook_def Let_def)
  with kaodv_load_unload [OF demo_unloaded_simps(1) surjective_pairing, of demo_kenv "[''eth0'', ''eth0'']"] k_done
  show ?thesis by auto
qed

text \<open>
  Two defects of the hook.  A packet that is encapsulated for a gateway is freed, and it is this freed
  packet that the caller goes on with, since the new one is only assigned to the parameter.  A packet
  that finds the queue full is reported as taken over but neither queued nor freed.
\<close>

theorem hook_accepts_freed_packet:
  assumes "kaodv_expl_get (ip_daddr b) k = Some e" and "ex_flags e AND KAODV_RT_REPAIR = 0"
    and "ex_flags e AND KAODV_RT_GW_ENCAP \<noteq> 0" and "\<forall>i. kmem k i" and "expl_wf k" and "max 20 (ip_hlen b) \<le> length b"
  shows "\<exists>k'. hook_local_out b dev k = (NF_ACCEPT, b, k') \<and> last (kout k') = K_free b"
proof -
  define k1 where "k1 = kaodv_update_route_timeouts NF_INET_LOCAL_OUT dev b k"
  have "kmem k1 = kmem k" using update_route_timeouts_keeps [OF assms(5) k1_def] by (simp add: traffic_frame_def)
  then have "hook_local_out b dev k = (NF_ACCEPT, b, kemit (K_free b) (snd (kmalloc k1)))"
    using assms
    by (simp add: hook_local_out_def k1_def [symmetric] Let_def ip_pkt_encapsulate_def kmalloc_def not_less [symmetric])
  then show ?thesis by (auto simp: kemit_def)
qed

theorem hook_leaks_packet:
  assumes "kaodv_expl_get (ip_daddr b) k = None" and "KAODV_QUEUE_QMAX_DEFAULT \<le> queue_total k"
  shows "\<exists>k' evs. hook_local_out b dev k = (NF_STOLEN, b, k') \<and> queue_list k' = queue_list k \<and>
    kout k' = kout k @ evs \<and> K_free b \<notin> set evs"
proof -
  define k1 where "k1 = (if kaodv_queue_find (ip_daddr b) k = 0
    then kaodv_netlink_send_rt_msg KAODVM_ROUTE_REQ 0 (ip_daddr b) k else k)"
  have 1: "queue_list k1 = queue_list k" "queue_total k1 = queue_total k" "\<exists>evs. kout k1 = kout k @ evs \<and> K_free b \<notin> set evs"
    by (auto simp: k1_def kaodv_netlink_send_rt_msg_def netlink_send_keeps) (auto simp: netlink_send_eq kmalloc_def)
  have "snd (kaodv_queue_enqueue_packet b k1) = snd (kmalloc k1)"
    using assms(2) 1(2) by (auto simp: kaodv_queue_enqueue_packet_def queue_enqueue_entry_def kmalloc_def split: bool.split)
  then have "hook_local_out b dev k = (NF_STOLEN, b, snd (kmalloc k1))"
    using assms(1) by (simp add: hook_local_out_def k1_def [symmetric] Let_def)
  then show ?thesis using 1 by (auto simp: kmalloc_def)
qed

end
