(* ===== verification/Kernel_Proc.thy ===== *)
theory Kernel_Proc
  imports Gui_Log Kernel_Module
begin

text \<open>
  What the kernel module shows of itself: its three files below \<open>/proc/net\<close> (\<open>kaodv_expl_print\<close> and
  \<open>kaodv_expl_proc_info\<close> of \<open>kaodv-expl.c\<close>, \<open>kaodv_queue_get_info\<close> of \<open>kaodv-queue.c\<close>, \<open>kaodv_read_proc\<close> of \<open>kaodv-mod.c\<close>) and the
  debug message of \<open>kaodv-debug.c\<close>, character by character.  The names of interfaces are the kernel's and an argument.

  Shown here: reading a file piece by piece gives its text; the list of routes needs more than the page it is
  printed to as soon as 85 routes have an interface; and a long debug message is sent with the memory behind its buffer.
\<close>

section \<open>Reading\<close>

text \<open>
  The reply to a request for \<open>count\<close> bytes from position \<open>off\<close>: \<open>*start\<close> points behind the first \<open>off\<close> bytes, and
  \<open>len\<close> bytes are taken from there.
\<close>

definition proc_len :: "int \<Rightarrow> int \<Rightarrow> int \<Rightarrow> int" where
  "proc_len len off cnt = (let l = len - off in if l > cnt then cnt else if l < 0 then 0 else l)"

definition proc_reply :: "string \<Rightarrow> nat \<Rightarrow> nat \<Rightarrow> string" where
  "proc_reply page off cnt = take (nat (proc_len (int (length page)) (int off) (int cnt))) (drop off page)"

lemma proc_reply_eq: "proc_reply page off cnt = take cnt (drop off page)"
proof -
  have "nat (proc_len (int (length page)) (int off) (int cnt)) = min cnt (length page - off)"
    by (auto simp: proc_len_def Let_def min_def)
  then show ?thesis by (simp add: proc_reply_def min_def)
qed

text \<open>A reader that asks for pieces of \<open>n\<close> bytes until it gets none.\<close>

function proc_read :: "string \<Rightarrow> nat \<Rightarrow> nat \<Rightarrow> string" where
  "proc_read page n off =
     (let r = proc_reply page off n in if r = [] then [] else r @ proc_read page n (off + length r))"
  by pat_completeness auto
termination
  by (relation "measure (\<lambda>(page, n, off). length page - off)") (auto simp: proc_reply_eq)

declare proc_read.simps [simp del]

lemma proc_read_all: "0 < n \<Longrightarrow> proc_read page n off = drop off page"
proof (induction page n off rule: proc_read.induct)
  case (1 page n off)
  show ?case
  proof (cases "proc_reply page off n = []")
    case True
    then show ?thesis using "1.prems" by (subst proc_read.simps) (auto simp: proc_reply_eq)
  next
    case False
    let ?r = "take n (drop off page)"
    have "proc_read page n (off + length ?r) = drop (off + length ?r) page"
      using "1.IH" [OF refl False "1.prems"] by (simp add: proc_reply_eq)
    then have "proc_read page n off = ?r @ drop (off + length ?r) page"
      using False by (subst proc_read.simps) (simp add: proc_reply_eq Let_def)
    then show ?thesis by (metis add.commute append_take_drop_id drop_drop length_take min_def nle_le take_all drop_all append_Nil2)
  qed
qed

section \<open>The list of routes\<close>

definition expl_flags_str :: "u16 \<Rightarrow> string" where
  "expl_flags_str f =
     (if f AND KAODV_RT_GW_ENCAP \<noteq> 0 then ''E'' else []) @ (if f AND KAODV_RT_REPAIR \<noteq> 0 then ''R'' else [])"

text \<open>One line; entries whose interface is gone are skipped.\<close>

definition expl_line :: "(u32 \<Rightarrow> string option) \<Rightarrow> kstate \<Rightarrow> expl_entry \<Rightarrow> string" where
  "expl_line dev_get_by_index k e =
     (case dev_get_by_index (ex_ifindex e) of
        None \<Rightarrow> []
      | Some name \<Rightarrow>
          ''  '' @ pad_right 15 (ip_to_str (ex_daddr e)) @ '' '' @ pad_right 15 (ip_to_str (ex_nhop e)) @ '' '' @
          pad_right 5 (expl_flags_str (ex_flags e)) @ '' '' @ pad_right 5 name @ '' '' @
          dec (unat ((ex_expires e - jiffies k) * 1000 div HZ k)) @ [NL])"

definition kaodv_expl_print :: "(u32 \<Rightarrow> string option) \<Rightarrow> kstate \<Rightarrow> string" where
  "kaodv_expl_print dev_get_by_index k =
     ''# Total entries: '' @ dec (unat (expl_len k)) @ [NL] @
     ''# '' @ pad_right 15 ''Addr'' @ '' '' @ pad_right 15 ''Nhop'' @ '' '' @ pad_right 5 ''Flags'' @ '' '' @
     pad_right 5 ''Iface'' @ '' Expires'' @ [NL] @
     concat (map (expl_line dev_get_by_index k) (expl_head k))"

definition kaodv_expl_proc_info :: "(u32 \<Rightarrow> string option) \<Rightarrow> kstate \<Rightarrow> nat \<Rightarrow> nat \<Rightarrow> string" where
  "kaodv_expl_proc_info dev_get_by_index k off cnt = proc_reply (kaodv_expl_print dev_get_by_index k) off cnt"

section \<open>Queue, settings and debug messages\<close>

definition kaodv_queue_text :: "kstate \<Rightarrow> string" where
  "kaodv_queue_text k =
     ''Queue length      : '' @ dec (unat (queue_total k)) @ [NL] @
     ''Queue max. length : '' @ dec (unat KAODV_QUEUE_QMAX_DEFAULT) @ [NL]"

definition kaodv_queue_get_info :: "kstate \<Rightarrow> nat \<Rightarrow> nat \<Rightarrow> string" where
  "kaodv_queue_get_info k off cnt = proc_reply (kaodv_queue_text k) off cnt"

text \<open>\<open>pkts_dropped\<close> and \<open>qual\<close> change only with \<open>CONFIG_QUAL_THRESHOLD\<close> and stay 0.\<close>

definition kaodv_text :: "kstate \<Rightarrow> string" where
  "kaodv_text k =
     ''qual threshold='' @ sdec (sint (qual_th k)) @ [NL] @ ''pkts dropped='' @ dec 0 @ [NL] @ ''last qual='' @ sdec 0 @ [NL] @
     ''gateway_mode='' @ sdec (sint (is_gateway k)) @ [NL]"

definition kaodv_read_proc :: "kstate \<Rightarrow> nat \<Rightarrow> nat \<Rightarrow> string" where
  "kaodv_read_proc k off cnt = proc_reply (kaodv_text k) off cnt"

definition NUL :: char where
  "NUL = CHR 0x00"

text \<open>
  \<open>trace\<close>: the formatted text is cut to 511 characters and a zero byte, but as many bytes are sent as the whole text has,
  and one more.  \<open>stack\<close> is the memory behind the buffer.
\<close>

definition kaodv_trace :: "string \<Rightarrow> string \<Rightarrow> string" where
  "kaodv_trace formatted stack =
     take (length formatted + 1) (take 511 formatted @ [NUL] @ drop (length (take 511 formatted) + 1) (replicate 512 NUL) @ stack)"

section \<open>Properties of the listings\<close>

definition PROC_PAGE :: nat where "PROC_PAGE = 4096"

lemma length_pad: "w \<le> length (pad_right w s)"
  by (simp add: pad_right_def)

lemma length_expl_line: "dev (ex_ifindex e) \<noteq> None \<Longrightarrow> 48 \<le> length (expl_line dev k e)"
proof -
  assume "dev (ex_ifindex e) \<noteq> None"
  then obtain n where n: "dev (ex_ifindex e) = Some n" by auto
  have "0 < length (dec (unat ((ex_expires e - jiffies k) * 1000 div HZ k)))" by simp
  then show ?thesis
    using length_pad [of 15 "ip_to_str (ex_daddr e)"] length_pad [of 15 "ip_to_str (ex_nhop e)"]
      length_pad [of 5 "expl_flags_str (ex_flags e)"] length_pad [of 5 n]
    unfolding expl_line_def n option.case length_append list.size by linarith
qed

lemma length_expl_lines:
  "48 * length (filter (\<lambda>e. dev (ex_ifindex e) \<noteq> None) es) \<le> length (concat (map (expl_line dev k) es))"
proof (induction es)
  case (Cons e es)
  then show ?case using length_expl_line [of dev e k] by (cases "dev (ex_ifindex e) = None") simp_all
qed simp

text \<open>The text of the two small files fits the page, so reading it in pieces of any size gives all of it.\<close>

lemma length_dec_u32: "length (dec (unat (w :: u32))) \<le> 10"
  using unsigned_less [of w, where 'a = nat] by (intro length_dec) simp_all

lemma queue_info_fits: "length (kaodv_queue_text k) \<le> PROC_PAGE"
  using length_dec_u32 [of "queue_total k"] length_dec_u32 [of KAODV_QUEUE_QMAX_DEFAULT]
  by (simp add: kaodv_queue_text_def PROC_PAGE_def)

lemma expl_print_overruns:
  assumes "85 \<le> length (filter (\<lambda>e. dev (ex_ifindex e) \<noteq> None) (expl_head k))"
  shows "PROC_PAGE < length (kaodv_expl_print dev k)"
  using length_expl_lines [of dev "expl_head k" k] assms by (simp add: kaodv_expl_print_def PROC_PAGE_def)

lemma queue_info_read: "0 < n \<Longrightarrow> proc_read (kaodv_queue_text k) n 0 = kaodv_queue_text k"
  by (simp add: proc_read_all)

lemma trace_sends_stack:
  assumes "length s = 512 + j" "j < length stack"
  shows "kaodv_trace s stack = take 511 s @ [NUL] @ take (Suc j) stack"
  using assms by (simp add: kaodv_trace_def)

end
