(* ===== verification/Llf.thy ===== *)
theory Llf
  imports Gui_Log Kernel_Packets
begin

text \<open>
  Link layer feedback, \<open>src/network/llf.c\<close>: compiled with \<open>LLFEEDBACK\<close>, the daemon listens to wireless events on a
  netlink socket.  When a driver reports a packet it could not transmit, the hardware address is looked up in
  \<open>/proc/net/arp\<close> and the link to that neighbour is broken.  The rest of the daemon is the same in both builds.

  The functions of the wireless library, the answers of the system and the bytes a received datagram leaves untouched in the
  buffer are arguments of the model (record \<open>wireless\<close>); they do not change while the callback runs.

  Shown here: the callback returns and keeps the node well formed, whatever it receives, provided the library makes
  progress; a reported failure breaks exactly the link to the neighbour with that hardware address.
\<close>

section \<open>The C library\<close>

definition c_space :: "char \<Rightarrow> bool" where
  "c_space c \<longleftrightarrow> c = CHR '' '' \<or> (let n = of_char c :: nat in 9 \<le> n \<and> n \<le> 13)"

definition hex_digit :: "char \<Rightarrow> bool" where
  "hex_digit c \<longleftrightarrow> isdigit c \<or> (let n = of_char c :: nat in 65 \<le> n \<and> n \<le> 70 \<or> 97 \<le> n \<and> n \<le> 102)"

definition digit_value :: "char \<Rightarrow> nat" where
  "digit_value c = (let n = of_char c in if n \<le> 57 then n - 48 else if n \<le> 70 then n - 55 else n - 87)"

definition digits_value :: "nat \<Rightarrow> string \<Rightarrow> nat" where
  "digits_value base s = foldl (\<lambda>v c. base * v + digit_value c) 0 s"

text \<open>\<open>strtoul\<close> with base 0, for a string that starts with a digit: the value and the rest.\<close>

definition strtoul0 :: "string \<Rightarrow> nat \<times> string" where
  "strtoul0 s =
     (let (base, p, t) =
        (if (startswith s ''0x'' \<or> startswith s ''0X'') \<and> 2 < length s \<and> hex_digit (s ! 2) then (16, hex_digit, drop 2 s)
         else if startswith s ''0'' then (8, \<lambda>c. isdigit c \<and> digit_value c < 8, s)
         else (10, isdigit, s))
      in (digits_value base (takeWhile p t), dropWhile p t))"

text \<open>\<open>inet_aton\<close>: the parts before the last one, the last one, and what follows.\<close>

function inet_parts :: "nat list \<Rightarrow> string \<Rightarrow> (nat list \<times> nat \<times> string) option" where
  "inet_parts ps s =
     (if s = [] \<or> \<not> isdigit (hd s) then None
      else case strtoul0 s of (v, r) \<Rightarrow>
        if v > 0xFFFFFFFF then None
        else if r \<noteq> [] \<and> hd r = CHR ''.'' then
          if length ps > 2 \<or> v > 0xFF then None else inet_parts (ps @ [v]) (tl r)
        else Some (ps, v, r))"
  by pat_completeness auto
termination
  by (relation "measure (\<lambda>(ps, s). 3 - length ps)") auto

declare inet_parts.simps [simp del]

definition inet_aton :: "string \<Rightarrow> addr option" where
  "inet_aton s =
     (case inet_parts [] s of
        None \<Rightarrow> None
      | Some (ps, v, r) \<Rightarrow>
          if (r \<noteq> [] \<and> \<not> c_space (hd r)) \<or> v \<ge> 256 ^ (4 - length ps) then None
          else Some (get32 (map of_nat ps @ map (\<lambda>i. of_nat (v div 256 ^ i)) (rev [0..<4 - length ps])) 0))"

text \<open>\<open>fgets\<close> with a buffer of \<open>n + 1\<close> bytes, until the end of the file.\<close>

function fgets_lines :: "nat \<Rightarrow> string \<Rightarrow> string list" where
  "fgets_lines n s =
     (if s = [] \<or> n = 0 then []
      else let k = min n (length (takeWhile (\<lambda>c. c \<noteq> NL) s) + 1) in take k s # fgets_lines n (drop k s))"
  by pat_completeness auto
termination
  by (relation "measure (\<lambda>(n, s). length s)") (auto simp: Let_def)

declare fgets_lines.simps [simp del]

text \<open>The conversions of \<open>sscanf\<close>: \<open>%s\<close> with an optional width, and \<open>0x%x\<close>, each after white space.\<close>

definition scan_word :: "nat option \<Rightarrow> string \<Rightarrow> (string \<times> string) option" where
  "scan_word width s =
     (let t = dropWhile c_space s; w = takeWhile (\<lambda>c. \<not> c_space c) t;
          v = (case width of Some n \<Rightarrow> take n w | None \<Rightarrow> w)
      in if v = [] then None else Some (v, drop (length v) t))"

definition scan_hex :: "string \<Rightarrow> string option" where
  "scan_hex s =
     (let t = dropWhile c_space s in
      if \<not> startswith t ''0x'' then None
      else
        let u = dropWhile c_space (drop 2 t);
            u1 = (if u \<noteq> [] \<and> (hd u = CHR ''+'' \<or> hd u = CHR ''-'') then tl u else u);
            u2 = (if startswith u1 ''0x'' \<or> startswith u1 ''0X'' then drop 2 u1 else u1)
        in if u2 = [] \<or> \<not> hex_digit (hd u2) then None else Some (dropWhile hex_digit u2))"

section \<open>From hardware to network addresses\<close>

text \<open>
  One line of the ARP table: the address and the hardware address, if there are at least four fields, and whether a field
  was written behind its 100 bytes.
\<close>

definition arp_scan :: "string \<Rightarrow> (string \<times> string) option \<times> bool" where
  "arp_scan line =
     (case scan_word None line of
        None \<Rightarrow> (None, False)
      | Some (ip, r) \<Rightarrow>
          (case Option.bind (scan_hex r) scan_hex of
             None \<Rightarrow> (None, 100 \<le> length ip)
           | Some r \<Rightarrow>
               (case scan_word (Some 100) r of
                  None \<Rightarrow> (None, 100 \<le> length ip)
                | Some (hwa, r) \<Rightarrow>
                    (let long = (100 \<le> length ip \<or> 100 \<le> length hwa) in
                     case scan_word (Some 100) r of
                       None \<Rightarrow> (Some (ip, hwa), long)
                     | Some (msk, r) \<Rightarrow>
                         (Some (ip, hwa), long \<or> 100 \<le> length msk \<or>
                            (case scan_word (Some 100) r of Some (dev, _) \<Rightarrow> 100 \<le> length dev | None \<Rightarrow> False))))))"

definition ETH_ALEN :: nat where "ETH_ALEN = 6"

text \<open>The result, the value of \<open>ip_addr\<close> (which is \<open>junk\<close> if it is not set), and whether a buffer overflowed.\<close>

fun arp_lookup :: "(string \<Rightarrow> bytes) \<Rightarrow> bytes \<Rightarrow> addr \<Rightarrow> string list \<Rightarrow> int \<times> addr \<times> bool" where
  "arp_lookup ether_aton hw junk [] = (-1, junk, False)"
| "arp_lookup ether_aton hw junk (l # ls) =
     (case arp_scan l of
        (_, True) \<Rightarrow> (-1, junk, True)
      | (None, False) \<Rightarrow> (-1, junk, False)
      | (Some (ip, hwa), False) \<Rightarrow>
          if take ETH_ALEN (ether_aton hwa) = take ETH_ALEN hw
          then (0, case inet_aton ip of Some a \<Rightarrow> a | None \<Rightarrow> junk, False)
          else arp_lookup ether_aton hw junk ls)"

definition mac_to_ip :: "(string \<Rightarrow> bytes) \<Rightarrow> string option \<Rightarrow> bytes \<Rightarrow> addr \<Rightarrow> int \<times> addr \<times> bool" where
  "mac_to_ip ether_aton arp hw junk =
     (case arp of
        None \<Rightarrow> (-1, junk, False)
      | Some text \<Rightarrow> (case fgets_lines 199 text of [] \<Rightarrow> (-1, junk, False) | _ # ls \<Rightarrow> arp_lookup ether_aton hw junk ls))"

section \<open>Wireless interfaces and events\<close>

record wireless_iface =
  wi_ifindex :: int
  wi_ifname :: string
  wi_we_version :: nat
  wi_has_range :: bool

record iw_event =
  ev_cmd :: u16
  ev_addr :: bytes

text \<open>
  The wireless library: event streams (of a type \<open>'st\<close> of its own), hardware addresses, sockets, ranges; the ARP table; the
  name of an interface; the uninitialised variable \<open>ip\<close>.
\<close>

record 'st wireless =
  iw_init_event_stream :: "bytes \<Rightarrow> 'st"
  iw_extract_event_stream :: "nat \<Rightarrow> 'st \<Rightarrow> int \<times> iw_event \<times> 'st"
  iw_ether_aton :: "string \<Rightarrow> bytes"
  iw_sockets_open :: int
  iw_get_range_info :: "string \<Rightarrow> int \<times> nat"
  sys_calloc :: bool
  sys_ifname :: "int \<Rightarrow> string option"
  sys_arp :: "string option"
  stack_ip :: addr

text \<open>The name is cut to the size of the buffer.\<close>

definition index2name :: "'st wireless \<Rightarrow> int \<Rightarrow> string option" where
  "index2name W ifindex = map_option (take IFNAMSIZ) (sys_ifname W ifindex)"

definition iw_get_interface_data ::
  "'st wireless \<Rightarrow> int \<Rightarrow> wireless_iface list \<Rightarrow> wireless_iface option \<times> wireless_iface list" where
  "iw_get_interface_data W ifindex cache =
     (case List.find (\<lambda>w. wi_ifindex w = ifindex) cache of
        Some w \<Rightarrow> (Some w, cache)
      | None \<Rightarrow>
          if iw_sockets_open W < 0 \<or> \<not> sys_calloc W then (None, cache)
          else case index2name W ifindex of
            None \<Rightarrow> (None, cache)
          | Some n \<Rightarrow>
              (case iw_get_range_info W n of (rc, v) \<Rightarrow>
                 let w = \<lparr>wi_ifindex = ifindex, wi_ifname = n, wi_we_version = (if rc \<ge> 0 then v else 0), wi_has_range = (rc \<ge> 0)\<rparr>
                 in (Some w, w # cache)))"

definition IWEVTXDROP :: u16 where "IWEVTXDROP = 0x8C00"

definition llf_print_event :: "'st wireless \<Rightarrow> iw_event \<Rightarrow> node \<Rightarrow> node" where
  "llf_print_event W ev s =
     (if ev_cmd ev \<noteq> IWEVTXDROP then s
      else case mac_to_ip (iw_ether_aton W) (sys_arp W) (ev_addr ev) (stack_ip W) of
        (rc, ip, overflow) \<Rightarrow>
          if overflow then abort Overrun s
          else if rc \<noteq> 0 then s
          else case rt_table_find ip s of Some p \<Rightarrow> neighbor_link_break p s | None \<Rightarrow> s)"

partial_function (option) llf_events :: "'st wireless \<Rightarrow> nat \<Rightarrow> 'st \<Rightarrow> node \<Rightarrow> node option" where
  "llf_events W v st s =
     (case iw_extract_event_stream W v st of (ret, ev, st1) \<Rightarrow>
        if 0 < ret then llf_events W v st1 (llf_print_event W ev s) else Some s)"

section \<open>Netlink messages\<close>

definition IFLA_WIRELESS :: u16 where "IFLA_WIRELESS = 11"
definition RTM_NEWLINK :: u16 where "RTM_NEWLINK = 16"
definition sizeof_nlmsghdr :: int where "sizeof_nlmsghdr = 16"
definition sizeof_ifinfomsg :: int where "sizeof_ifinfomsg = 16"
definition LLF_BUF_SIZE :: nat where "LLF_BUF_SIZE = 8192"

text \<open>\<open>RTA_ALIGN\<close> and \<open>NLMSG_ALIGN\<close>.\<close>

definition align4 :: "int \<Rightarrow> int" where
  "align4 n = (n + 3) div 4 * 4"

lemma align4_bounds: "n \<le> align4 n" "align4 n < n + 4"
  unfolding align4_def by linarith+

lemma rlen_align: "\<not> unat (w :: u16) < 4 \<Longrightarrow> 4 \<le> align4 (uint w)"
proof -
  assume "\<not> unat w < 4"
  then have "4 \<le> int (unat w)" by linarith
  then show ?thesis using align4_bounds(1) [of "uint w"] by simp
qed

lemma nlmsg_len_min:
  fixes w :: u32
  assumes "\<not> sint (w - 16) < 0" "\<not> sint w < 0"
  shows "16 \<le> sint w"
proof (rule ccontr)
  assume "\<not> 16 \<le> sint w"
  then have k: "-16 \<le> sint w - 16" "sint w - 16 < 0" using assms(2) by simp_all
  have "w - 16 = of_int (sint w - 16)" by simp
  moreover have "sint (of_int (sint w - 16) :: u32) = sint w - 16"
    using k by (simp only: signed_of_int) (simp add: signed_take_bit_int_eq_self)
  ultimately show False using k(2) assms(1) by metis
qed

text \<open>The result of a part of the callback: whether it returns at once, the cache, and the node.\<close>

type_synonym llf_result = "bool \<times> wireless_iface list \<times> node"

text \<open>One attribute at \<open>off\<close>, of length \<open>rlen\<close>.\<close>

definition llf_wireless :: "'st wireless \<Rightarrow> bytes \<Rightarrow> int \<Rightarrow> nat \<Rightarrow> nat \<Rightarrow> wireless_iface list \<Rightarrow> node \<Rightarrow> llf_result option" where
  "llf_wireless W buf ifi_index off rlen cache s =
     (case iw_get_interface_data W ifi_index cache of
        (None, c) \<Rightarrow> Some (True, c, s)
      | (Some w, c) \<Rightarrow>
          if length buf < off + rlen then Some (True, c, abort Overrun s)
          else map_option (\<lambda>s1. (False, c, s1))
            (llf_events W (wi_we_version w) (iw_init_event_stream W (take (rlen - 4) (drop (off + 4) buf))) s))"

function llf_attrs :: "'st wireless \<Rightarrow> bytes \<Rightarrow> int \<Rightarrow> nat \<Rightarrow> int \<Rightarrow> wireless_iface list \<Rightarrow> node \<Rightarrow> llf_result option" where
  "llf_attrs W buf ifi_index off attrlen cache s =
     (if attrlen < 4 then Some (False, cache, s)
      else if length buf < off + 4 then Some (True, cache, abort Overrun s)
      else
        let rlen = unat (get16 buf off) in
        if rlen < 4 \<or> int rlen > attrlen then Some (False, cache, s)
        else case (if get16 buf (off + 2) = IFLA_WIRELESS then llf_wireless W buf ifi_index off rlen cache s
                   else Some (False, cache, s)) of
          None \<Rightarrow> None
        | Some (True, c, s1) \<Rightarrow> Some (True, c, s1)
        | Some (False, c, s1) \<Rightarrow>
            llf_attrs W buf ifi_index (off + nat (align4 (int rlen))) (attrlen - align4 (int rlen)) c s1)"
  by pat_completeness auto
termination
  by (relation "measure (\<lambda>(W, buf, ifi, off, attrlen, c, s). nat attrlen)") (auto dest: rlen_align)

declare llf_attrs.simps [simp del]

text \<open>
  One message.  The attributes are taken to extend up to \<open>nlmsg_len - 16\<close> bytes after the fixed part, although only
  \<open>nlmsg_len - 32\<close> bytes are left of the message there.
\<close>

definition llf_newlink :: "'st wireless \<Rightarrow> bytes \<Rightarrow> nat \<Rightarrow> int \<Rightarrow> wireless_iface list \<Rightarrow> node \<Rightarrow> llf_result option" where
  "llf_newlink W buf off len cache s =
     (if get16 buf (off + 4) = RTM_NEWLINK \<and> len > sizeof_ifinfomsg
      then llf_attrs W buf (sint (get32 buf (off + 20))) (off + 32) (len - sizeof_ifinfomsg) cache s
      else Some (False, cache, s))"

text \<open>
  The messages of a datagram, of which \<open>amt\<close> bytes are left.  \<open>len - 16\<close> is computed without sign and then converted, so
  that a length of \<open>2 ^ 31\<close> or a little more passes the test; the loop then leaves the buffer.
\<close>

function llf_messages :: "'st wireless \<Rightarrow> bytes \<Rightarrow> nat \<Rightarrow> int \<Rightarrow> wireless_iface list \<Rightarrow> node \<Rightarrow> llf_result option" where
  "llf_messages W buf off amt cache s =
     (if amt < sizeof_nlmsghdr then Some (False, cache, s)
      else
        let w = get32 buf off; len = sint w; l = sint (w - 16) in
        if l < 0 \<or> len > amt then Some (False, cache, s)
        else if len < 0 then Some (True, cache, abort Overrun s)
        else case llf_newlink W buf off len cache s of
          None \<Rightarrow> None
        | Some (True, c, s1) \<Rightarrow> Some (True, c, s1)
        | Some (False, c, s1) \<Rightarrow> llf_messages W buf (off + nat (align4 len)) (amt - align4 len) c s1)"
  by pat_completeness auto

termination
proof (relation "measure (\<lambda>(W, buf, off, amt, c, s). nat amt)", goal_cases)
  case (2 W buf off amt cache s w len l)
  then have "16 \<le> sint (get32 buf off)" using nlmsg_len_min [of "get32 buf off"] by simp
  then show ?case using 2 align4_bounds(1) [of len] by (simp add: sizeof_nlmsghdr_def)
qed simp

declare llf_messages.simps [simp del]

text \<open>
  What \<open>recvfrom\<close> gives: an error, or a datagram together with the bytes that the buffer held before.  The list
  is what the non-blocking socket has; its end is \<open>EAGAIN\<close>.
\<close>

datatype received = Recv_error | Received bytes bytes

definition llf_buffer :: "bytes \<Rightarrow> bytes \<Rightarrow> bytes" where
  "llf_buffer d stale = take LLF_BUF_SIZE (d @ drop (length d) (stale @ replicate LLF_BUF_SIZE 0))"

fun llf_handle_netlink_events ::
  "'st wireless \<Rightarrow> received list \<Rightarrow> wireless_iface list \<Rightarrow> node \<Rightarrow> (wireless_iface list \<times> node) option" where
  "llf_handle_netlink_events W [] cache s = Some (cache, s)"
| "llf_handle_netlink_events W (Recv_error # ds) cache s = Some (cache, s)"
| "llf_handle_netlink_events W (Received d stale # ds) cache s =
     (if d = [] then Some (cache, s)
      else case llf_messages W (llf_buffer d stale) 0 (int (min LLF_BUF_SIZE (length d))) cache s of
        None \<Rightarrow> None
      | Some (True, c, s1) \<Rightarrow> Some (c, s1)
      | Some (False, c, s1) \<Rightarrow> llf_handle_netlink_events W ds c s1)"

text \<open>Opening the socket: the answers to \<open>socket\<close>, \<open>bind\<close>, \<open>getsockname\<close> with length and family.\<close>

record rtnl_answers =
  ra_socket :: int
  ra_bind :: int
  ra_getsockname :: int
  ra_addr_len :: int
  ra_family :: int

definition AF_NETLINK :: int where "AF_NETLINK = 16"
definition sizeof_sockaddr_nl :: int where "sizeof_sockaddr_nl = 12"

definition llf_rtnl_open :: "rtnl_answers \<Rightarrow> int" where
  "llf_rtnl_open r =
     (if ra_socket r < 0 then -1
      else if ra_bind r < 0 then -1
      else if ra_getsockname r < 0 then -1
      else if ra_addr_len r \<noteq> sizeof_sockaddr_nl then -1
      else if ra_family r \<noteq> AF_NETLINK then -1
      else 0)"

text \<open>The descriptor that gets the callback, when \<open>n\<close> callbacks are registered already.  A message of level \<open>LOG_ERR\<close> ends the program.\<close>

definition llf_init :: "rtnl_answers \<Rightarrow> nat \<Rightarrow> node \<Rightarrow> int option \<times> node" where
  "llf_init r n s =
     (if llf_rtnl_open r < 0 then (None, abort Exited s)
      else if CALLBACK_FUNCS \<le> n then (None, abort Exited s)
      else (Some (ra_socket r), s))"

section \<open>The callback keeps the node in order\<close>

lemma llf_print_event_ok: "wf_node s \<Longrightarrow> ok s (llf_print_event W ev s)"
  using rts.find_alive [of s] neighbor_link_break_ok [of s]
  by (auto simp: llf_print_event_def ok_refl abort_overrun_ok split: prod.split option.split)

text \<open>The library consumes the stream: every event extracted makes it smaller.\<close>

definition progresses :: "'st wireless \<Rightarrow> ('st \<Rightarrow> nat) \<Rightarrow> bool" where
  "progresses W size_of \<longleftrightarrow>
     (\<forall>v st ret ev st1. iw_extract_event_stream W v st = (ret, ev, st1) \<longrightarrow> 0 < ret \<longrightarrow> size_of st1 < size_of st)"

lemma llf_events_returns:
  assumes "progresses W f" "wf_node s"
  shows "\<exists>s1. llf_events W v st s = Some s1 \<and> ok s s1"
  using assms(2)
proof (induction "f st" arbitrary: st s rule: less_induct)
  case less
  obtain ret ev st1 where e: "iw_extract_event_stream W v st = (ret, ev, st1)" by (metis prod.exhaust)
  have o1: "ok s (llf_print_event W ev s)" by (rule llf_print_event_ok [OF less.prems])
  show ?case
  proof (cases "0 < ret")
    case True
    then have "f st1 < f st" using assms(1) e unfolding progresses_def by blast
    from less.hyps [OF this ok_inv [OF o1]] show ?thesis
      using True ok_trans [OF o1] by (subst llf_events.simps) (auto simp: e)
  next
    case False
    then show ?thesis using ok_refl [OF less.prems] by (subst llf_events.simps) (simp add: e)
  qed
qed

text \<open>Returning, with the node in order: the form shared by the loops.\<close>

definition returns_ok :: "node \<Rightarrow> llf_result option \<Rightarrow> bool" where
  "returns_ok s r \<longleftrightarrow> (\<exists>b c s1. r = Some (b, c, s1) \<and> ok s s1)"

lemma returns_okI: "ok s s1 \<Longrightarrow> returns_ok s (Some (b, c, s1))"
  by (simp add: returns_ok_def)

lemma returns_okE:
  assumes "returns_ok s r"
  obtains b c s1 where "r = Some (b, c, s1)" "ok s s1"
  using assms by (auto simp: returns_ok_def)

lemma returns_ok_trans: "ok s s1 \<Longrightarrow> returns_ok s1 r \<Longrightarrow> returns_ok s r"
  by (auto simp: returns_ok_def intro: ok_trans)

lemma llf_wireless_returns:
  assumes "progresses W f" "wf_node s"
  shows "returns_ok s (llf_wireless W buf i off rlen cache s)"
proof -
  obtain g where "\<And>v st. llf_events W v st s = Some (g v st)" "\<And>v st. ok s (g v st)"
    using llf_events_returns [OF assms] by metis
  then show ?thesis using assms(2)
    by (auto simp: llf_wireless_def ok_refl abort_overrun_ok intro: returns_okI split: prod.split option.split)
qed

lemma llf_attrs_returns:
  assumes "progresses W f" "wf_node s"
  shows "returns_ok s (llf_attrs W buf i off attrlen cache s)"
  using assms
proof (induction W buf i off attrlen cache s rule: llf_attrs.induct)
  case (1 W buf i off attrlen cache s)
  let ?rlen = "unat (get16 buf off)"
  let ?r = "if get16 buf (off + 2) = IFLA_WIRELESS then llf_wireless W buf i off ?rlen cache s else Some (False, cache, s)"
  have "returns_ok s ?r" using llf_wireless_returns [OF 1(2,3)] ok_refl [OF 1(3)] by (simp add: returns_okI)
  then obtain b c s1 where r: "?r = Some (b, c, s1)" "ok s s1" by (rule returns_okE)
  show ?case
  proof (cases "attrlen < 4 \<or> length buf < off + 4 \<or> ?rlen < 4 \<or> int ?rlen > attrlen \<or> b")
    case True
    then show ?thesis
      using r ok_refl [OF 1(3)] abort_overrun_ok [OF 1(3)]
      by (subst llf_attrs.simps) (auto simp: Let_def intro: returns_okI split: bool.split)
  next
    case False
    then have nb: "b = False" by simp
    have "returns_ok s1 (llf_attrs W buf i (off + nat (align4 (int ?rlen))) (attrlen - align4 (int ?rlen)) c s1)"
      using False by (intro 1(1) [OF _ _ refl _ r(1) refl nb refl 1(2) ok_inv [OF r(2)]]) auto
    then show ?thesis using returns_ok_trans [OF r(2)] False r(1)
      by (subst llf_attrs.simps) (simp add: Let_def)
  qed
qed

lemma llf_newlink_returns:
  assumes "progresses W f" "wf_node s"
  shows "returns_ok s (llf_newlink W buf off len cache s)"
  using llf_attrs_returns [OF assms] ok_refl [OF assms(2)] by (simp add: llf_newlink_def returns_okI)

lemma llf_messages_returns:
  assumes "progresses W f" "wf_node s"
  shows "returns_ok s (llf_messages W buf off amt cache s)"
  using assms
proof (induction W buf off amt cache s rule: llf_messages.induct)
  case (1 W buf off amt cache s)
  let ?w = "get32 buf off" and ?r = "llf_newlink W buf off (sint (get32 buf off)) cache s"
  obtain b c s1 where r: "?r = Some (b, c, s1)" "ok s s1" by (rule returns_okE [OF llf_newlink_returns [OF 1(2,3)]])
  show ?case
  proof (cases "amt < sizeof_nlmsghdr \<or> sint (?w - 16) < 0 \<or> sint ?w > amt \<or> sint ?w < 0 \<or> b")
    case True
    then show ?thesis
      using r ok_refl [OF 1(3)] abort_overrun_ok [OF 1(3)]
      by (subst llf_messages.simps) (auto simp: Let_def intro: returns_okI split: bool.split)
  next
    case False
    then have nb: "b = False" by simp
    have "returns_ok s1 (llf_messages W buf (off + nat (align4 (sint ?w))) (amt - align4 (sint ?w)) c s1)"
      using False by (intro 1(1) [OF _ refl refl refl _ _ r(1) refl nb refl 1(2) ok_inv [OF r(2)]]) auto
    then show ?thesis using returns_ok_trans [OF r(2)] False r(1)
      by (subst llf_messages.simps) (simp add: Let_def)
  qed
qed

lemma llf_handle_returns:
  assumes "progresses W f" "wf_node s"
  shows "\<exists>c s1. llf_handle_netlink_events W ds cache s = Some (c, s1) \<and> ok s s1"
  using assms
proof (induction W ds cache s rule: llf_handle_netlink_events.induct)
  case (3 W d stale ds cache s)
  let ?r = "llf_messages W (llf_buffer d stale) 0 (int (min LLF_BUF_SIZE (length d))) cache s"
  obtain b c s1 where r: "?r = Some (b, c, s1)" "ok s s1" by (rule returns_okE [OF llf_messages_returns [OF 3(2,3)]])
  show ?case
  proof (cases "d = [] \<or> b")
    case False
    then have nb: "b = False" by simp
    have "\<exists>c' s2. llf_handle_netlink_events W ds c s1 = Some (c', s2) \<and> ok s1 s2"
      using False by (intro 3(1) [OF _ r(1) refl nb refl 3(2) ok_inv [OF r(2)]]) auto
    then show ?thesis using ok_trans [OF r(2)] False r(1) by auto
  qed (use r ok_refl [OF 3(3)] in auto)
qed (auto simp: ok_refl)

section \<open>The ARP table\<close>

text \<open>The table as the kernel prints it: a header, then a line for each address, hardware address and device.\<close>

definition arp_line :: "addr \<times> string \<times> string \<Rightarrow> string" where
  "arp_line e =
     (case e of (a, hwa, dev) \<Rightarrow>
        pad_right 16 (ip_to_str a) @ '' 0x'' @ pad_right 10 ''1'' @ ''0x'' @ pad_right 10 ''2'' @ hwa @
        ''     *        '' @ dev @ [NL])"

definition arp_entry_ok :: "addr \<times> string \<times> string \<Rightarrow> bool" where
  "arp_entry_ok e \<longleftrightarrow>
     (case e of (a, hwa, dev) \<Rightarrow> hwa \<noteq> [] \<and> dev \<noteq> [] \<and> length hwa \<le> 64 \<and> length dev \<le> 16 \<and>
        list_all (\<lambda>c. \<not> c_space c) (hwa @ dev))"

lemma dec_head: "0 < n \<Longrightarrow> hd (dec n) \<noteq> CHR ''0''"
proof (induction n rule: dec.induct)
  case (1 n)
  have z: "(of_char (CHR ''0'') :: nat) = 48" by simp
  have "digit_char d \<noteq> CHR ''0''" if "0 < d" "d < 10" for d
    using isdigit_digit_char(2) [OF that(2)] that(1) z by (metis add_cancel_right_right less_irrefl)
  then show ?case using 1 by (simp add: dec.simps [of n] hd_append)
qed

lemma digit_value_digit: "isdigit c \<Longrightarrow> digit_value c = of_char c - 48"
  by (simp add: isdigit_def digit_value_def Let_def)

lemma digits_value_dec: "digits_value 10 (dec n) = n"
proof -
  have "foldl (\<lambda>v c. 10 * v + digit_value c) 0 (dec n) = foldl (\<lambda>v c. 10 * v + (of_char c - 48)) 0 (dec n)"
    using dec_digits [of n] by (intro foldl_cong) (auto simp: list_all_iff digit_value_digit)
  then show ?thesis by (simp add: digits_value_def foldl_dec)
qed

lemma dec_zero: "dec 0 = ''0''"
  by code_simp

lemma strtoul0_dec:
  assumes "r = [] \<or> \<not> isdigit (hd r) \<and> hd r \<noteq> CHR ''x'' \<and> hd r \<noteq> CHR ''X''"
  shows "strtoul0 (dec n @ r) = (n, r)"
proof (cases "n = 0")
  case True
  have "isdigit (CHR ''0'') \<and> digit_value (CHR ''0'') = 0" by code_simp
  then show ?thesis using assms unfolding True dec_zero
    by (cases r) (auto simp: strtoul0_def startswith_def digits_value_def)
next
  case False
  obtain c cs where c: "dec n = c # cs" by (cases "dec n") auto
  then have "c \<noteq> CHR ''0''" using dec_head [of n] False by simp
  then have "\<not> startswith (dec n @ r) ''0''" "\<not> startswith (dec n @ r) ''0x''" "\<not> startswith (dec n @ r) ''0X''"
    by (simp_all add: startswith_def c)
  moreover have r: "r = [] \<or> \<not> isdigit (hd r)" using assms by auto
  ultimately show ?thesis
    by (simp add: strtoul0_def takeWhile_digits [OF dec_digits r] digits_value_dec)
qed

lemma inet_parts_last: "n < 2 ^ 32 \<Longrightarrow> inet_parts ps (dec n) = Some (ps, n, [])"
  using strtoul0_dec [of "[]" n] dec_digits [of n] by (subst inet_parts.simps) (cases "dec n", auto)

lemma inet_parts_dot:
  assumes "n < 256" "length ps \<le> 2"
  shows "inet_parts ps (dec n @ CHR ''.'' # r) = inet_parts (ps @ [n]) r"
proof -
  have "strtoul0 (dec n @ CHR ''.'' # r) = (n, CHR ''.'' # r)" by (rule strtoul0_dec) (simp add: char_classes)
  moreover have "isdigit (hd (dec n))" using dec_digits [of n] by (cases "dec n") auto
  ultimately show ?thesis using assms by (subst inet_parts.simps) (simp add: hd_append)
qed

text \<open>\<open>inet_aton\<close> undoes the printing of addresses.\<close>

lemma inet_aton_ip: "inet_aton (ip_to_str a) = Some a"
proof -
  define o' where "o' i = unat (put32 a ! i)" for i
  have b: "o' i < 256" for i using unsigned_less [of "put32 a ! i", where 'a = nat] by (simp add: o'_def)
  have "ip_to_str a = dec (o' 0) @ CHR ''.'' # dec (o' 1) @ CHR ''.'' # dec (o' 2) @ CHR ''.'' # dec (o' 3)"
    by (simp add: ip_to_str_def o'_def Let_def)
  moreover have "o' 3 < 2 ^ 32" using b [of 3] by simp
  ultimately have "inet_parts [] (ip_to_str a) = Some ([o' 0, o' 1, o' 2], o' 3, [])"
    by (simp add: inet_parts_dot b inet_parts_last)
  moreover have "map of_nat [o' 0, o' 1, o' 2] @ [of_nat (o' 3)] = put32 a" by (simp add: o'_def put32_def)
  ultimately show ?thesis using b [of 3] get32_put32 [of a "[]"] by (simp add: inet_aton_def)
qed

lemma scan_word_at:
  assumes "list_all c_space pre" "w \<noteq> []" "list_all (\<lambda>c. \<not> c_space c) w" "post = [] \<or> c_space (hd post)"
    "\<forall>n. width = Some n \<longrightarrow> length w \<le> n"
  shows "scan_word width (pre @ w @ post) = Some (w, post)"
proof -
  have "dropWhile c_space (pre @ w @ post) = w @ post"
    using assms(1-3) by (cases w) (auto simp: dropWhile_append2 list_all_iff)
  moreover have "takeWhile (\<lambda>c. \<not> c_space c) (w @ post) = w"
    using assms(3,4) by (cases post) (auto simp: takeWhile_append2 list_all_iff)
  ultimately show ?thesis using assms(2,5) by (auto simp: scan_word_def Let_def split: option.split)
qed

lemma spaces: "list_all c_space (replicate n (CHR '' ''))"
  by (simp add: list_all_iff c_space_def)

lemma c_space_simps [simp]: "c_space (CHR '' '')" "c_space NL" "\<not> c_space (CHR ''0'')" "\<not> c_space (CHR ''1'')" "\<not> c_space (CHR ''2'')"
  "\<not> c_space (CHR ''*'')" "isdigit c \<Longrightarrow> \<not> c_space c" "\<not> c_space (CHR ''.'')"
  by (auto simp: c_space_def NL_def isdigit_def Let_def)

lemma c_space_ip: "list_all (\<lambda>c. \<not> c_space c) (ip_to_str a)"
proof -
  have d: "list_all (\<lambda>c. \<not> c_space c) (dec n)" for n using dec_digits [of n] by (auto simp: list_all_iff)
  show ?thesis by (simp add: ip_to_str_def Let_def d)
qed

lemma drop_spaces: "\<not> c_space c \<Longrightarrow> dropWhile c_space (replicate n (CHR '' '') @ c # ts) = c # ts"
  by (induction n) simp_all

lemma scan_hex_at:
  assumes "hex_digit c" "\<not> c_space c" "c \<notin> {CHR ''+'', CHR ''-'', CHR ''0''}"
  shows "scan_hex (replicate n (CHR '' '') @ CHR ''0'' # CHR ''x'' # c # CHR '' '' # r) = Some (CHR '' '' # r)"
proof -
  have "\<not> hex_digit (CHR '' '')" by code_simp
  then show ?thesis using assms by (simp add: scan_hex_def startswith_def Let_def drop_spaces)
qed

lemma arp_scan_line:
  assumes "arp_entry_ok (a, hwa, dev)"
  shows "arp_scan (arp_line (a, hwa, dev)) = (Some (ip_to_str a, hwa), False)"
proof -
  let ?sp = "\<lambda>n. replicate n (CHR '' '')" and ?l = "length (ip_to_str a)"
  have ok: "hwa \<noteq> []" "dev \<noteq> []" "length hwa \<le> 64" "length dev \<le> 16" "list_all (\<lambda>c. \<not> c_space c) hwa" "list_all (\<lambda>c. \<not> c_space c) dev"
    using assms by (simp_all add: arp_entry_ok_def)
  define r4 where "r4 = ?sp 8 @ dev @ [NL]"
  define r3 where "r3 = ?sp 5 @ ''*'' @ r4"
  define r2 where "r2 = ?sp 8 @ hwa @ r3"
  define r1 where "r1 = ?sp (Suc (16 - ?l)) @ CHR ''0'' # CHR ''x'' # CHR ''1'' # CHR '' '' # ?sp 8 @ CHR ''0'' # CHR ''x'' # CHR ''2'' # CHR '' '' # r2"
  have hex: "hex_digit (CHR ''1'')" "hex_digit (CHR ''2'')" by code_simp+
  have "arp_line (a, hwa, dev) = [] @ ip_to_str a @ r1"
    by (simp add: arp_line_def r1_def r2_def r3_def r4_def pad_right_def numeral_eq_Suc replicate_app_Cons_same)
  moreover have "hd r1 = CHR '' ''" by (simp add: r1_def)
  ultimately have 1: "scan_word None (arp_line (a, hwa, dev)) = Some (ip_to_str a, r1)"
    using scan_word_at [of "[]" "ip_to_str a" r1 None] c_space_ip by simp
  have 2: "Option.bind (scan_hex r1) scan_hex = Some (?sp 9 @ hwa @ r3)"
    using scan_hex_at [OF hex(1), of "Suc (16 - ?l)"] scan_hex_at [OF hex(2), of 9 r2] unfolding r1_def r2_def
    by (simp add: numeral_eq_Suc)
  have "hd r3 = CHR '' ''" "hd r4 = CHR '' ''" by (simp_all add: r3_def r4_def)
  then have 3: "scan_word (Some 100) (?sp 9 @ hwa @ r3) = Some (hwa, r3)"
    "scan_word (Some 100) r3 = Some (''*'', r4)" "scan_word (Some 100) r4 = Some (dev, [NL])"
    using ok scan_word_at [OF spaces, of hwa r3] scan_word_at [OF spaces, of "''*''" r4 "Some 100" 5]
      scan_word_at [OF spaces, of dev "[NL]" "Some 100" 8] by (simp_all add: r3_def r4_def)
  have "?l < 100" using plain_ip(3) [of a] by linarith
  then show ?thesis using ok(3,4) by (simp add: arp_scan_def 1 2 3)
qed

definition arp_text :: "string \<Rightarrow> (addr \<times> string \<times> string) list \<Rightarrow> string" where
  "arp_text hdr es = hdr @ NL # concat (map arp_line es)"

lemma fgets_line:
  assumes "NL \<notin> set l" "length l < n"
  shows "fgets_lines n (l @ NL # r) = (l @ [NL]) # fgets_lines n r"
proof -
  have "takeWhile (\<lambda>c. c \<noteq> NL) (l @ NL # r) = l" using assms(1) by (induction l) auto
  then show ?thesis using assms(2) by (subst fgets_lines.simps) (simp add: Let_def min_absorb2 Suc_leI)
qed

lemma fgets_arp:
  assumes "list_all arp_entry_ok es"
  shows "fgets_lines 199 (concat (map arp_line es)) = map arp_line es"
  using assms
proof (induction es)
  case Nil
  then show ?case by (simp add: fgets_lines.simps)
next
  case (Cons e es)
  obtain a hwa dev where e: "e = (a, hwa, dev)" by (metis prod.exhaust)
  define l where "l = butlast (arp_line e)"
  have l: "arp_line e = l @ [NL]" by (simp add: l_def e arp_line_def butlast_append)
  have nl: "NL \<notin> set (ip_to_str a)" using c_space_ip [of a] by (auto simp: list_all_iff)
  have ok: "list_all (\<lambda>c. \<not> c_space c) (hwa @ dev)" "length hwa \<le> 64" "length dev \<le> 16"
    using Cons.prems by (simp_all add: e arp_entry_ok_def)
  then have "NL \<notin> set hwa" "NL \<notin> set dev" using c_space_simps(2) by (auto simp only: list_all_iff set_append)
  then have "NL \<notin> set l" using nl by (simp add: l_def e arp_line_def butlast_append pad_right_def NL_def)
  moreover have "length (pad_right 16 (ip_to_str a)) = 16"
    using plain_ip(3) [of a] unfolding pad_right_def length_append length_replicate by linarith
  then have "length l < 199" using ok(2,3) by (simp add: l_def e arp_line_def) (simp add: pad_right_def)
  ultimately show ?case using fgets_line [of l 199 "concat (map arp_line es)"] Cons by (simp add: l)
qed

text \<open>The neighbour with a hardware address: the first one in the table.\<close>

definition arp_neighbour :: "(string \<Rightarrow> bytes) \<Rightarrow> bytes \<Rightarrow> (addr \<times> string \<times> string) list \<Rightarrow> addr option" where
  "arp_neighbour ether_aton hw es =
     map_option fst (List.find (\<lambda>(a, hwa, dev). take ETH_ALEN (ether_aton hwa) = take ETH_ALEN hw) es)"

lemma arp_lookup_lines:
  "list_all arp_entry_ok es \<Longrightarrow> arp_lookup eth hw junk (map arp_line es) =
     (case arp_neighbour eth hw es of Some a \<Rightarrow> (0, a, False) | None \<Rightarrow> (-1, junk, False))"
proof (induction es)
  case (Cons e es)
  obtain a hwa dev where e: "e = (a, hwa, dev)" by (metis prod.exhaust)
  then have "arp_scan (arp_line e) = (Some (ip_to_str a, hwa), False)" using arp_scan_line Cons.prems by simp
  then show ?case using Cons by (simp add: e arp_neighbour_def inet_aton_ip)
qed (simp add: arp_neighbour_def)

lemma mac_to_ip_arp:
  assumes "list_all arp_entry_ok es" "NL \<notin> set hdr" "length hdr < 199"
  shows "mac_to_ip eth (Some (arp_text hdr es)) hw junk =
     (case arp_neighbour eth hw es of Some a \<Rightarrow> (0, a, False) | None \<Rightarrow> (-1, junk, False))"
  using fgets_line [OF assms(2,3)] fgets_arp [OF assms(1)] arp_lookup_lines [OF assms(1)]
  by (simp add: mac_to_ip_def arp_text_def)

section \<open>A report of a failed transmission\<close>

text \<open>A message of type \<open>RTM_NEWLINK\<close> for interface \<open>i\<close> whose only attribute carries the wireless events \<open>evs\<close>.\<close>

definition newlink_msg :: "u32 \<Rightarrow> bytes \<Rightarrow> bytes \<Rightarrow> bytes" where
  "newlink_msg i rest evs =
     put32 (of_nat (36 + length evs)) @ put16 RTM_NEWLINK @ take 10 rest @
     take 4 (drop 10 rest) @ put32 i @ take 8 (drop 14 rest) @
     put16 (of_nat (4 + length evs)) @ put16 IFLA_WIRELESS @ evs"

lemma get16_skip: "length xs \<le> i \<Longrightarrow> get16 (xs @ ys) i = get16 ys (i - length xs)"
  by (simp add: get16_def nth_append Suc_diff_le)

lemma get16_front: "get16 (put16 w @ ys) 0 = w"
  by (rule get16_put16) (simp_all add: put16_def)

lemma newlink_fields:
  assumes "length rest = 22"
  shows "get32 (newlink_msg i rest evs @ ys) 0 = of_nat (36 + length evs)"
    "get16 (newlink_msg i rest evs @ ys) 4 = RTM_NEWLINK"
    "get32 (newlink_msg i rest evs @ ys) 20 = i"
    "get16 (newlink_msg i rest evs @ ys) 32 = of_nat (4 + length evs)"
    "get16 (newlink_msg i rest evs @ ys) 34 = IFLA_WIRELESS"
    "drop 36 (newlink_msg i rest evs @ ys) = evs @ ys"
    "length (newlink_msg i rest evs) = 36 + length evs"
  using assms by (simp_all add: newlink_msg_def get32_skip get16_skip get16_front)

text \<open>The events of the attribute, when the first one is a failed transmission and nothing follows.\<close>

definition reports_drop :: "'st wireless \<Rightarrow> nat \<Rightarrow> bytes \<Rightarrow> bytes \<Rightarrow> bool" where
  "reports_drop W v evs hw \<longleftrightarrow>
     (case iw_extract_event_stream W v (iw_init_event_stream W evs) of
        (ret, ev, st) \<Rightarrow> 0 < ret \<and> ev_cmd ev = IWEVTXDROP \<and> ev_addr ev = hw \<and> fst (iw_extract_event_stream W v st) \<le> 0)"

lemma llf_events_drop:
  assumes "reports_drop W v evs hw"
  shows "\<exists>ev. ev_cmd ev = IWEVTXDROP \<and> ev_addr ev = hw \<and>
     llf_events W v (iw_init_event_stream W evs) s = Some (llf_print_event W ev s)"
proof -
  obtain ret ev st where e: "iw_extract_event_stream W v (iw_init_event_stream W evs) = (ret, ev, st)" by (metis prod.exhaust)
  obtain ret' ev' st' where e': "iw_extract_event_stream W v st = (ret', ev', st')" by (metis prod.exhaust)
  show ?thesis using assms
    by (subst llf_events.simps, subst llf_events.simps) (auto simp: reports_drop_def e e')
qed

lemma llf_attrs_end:
  assumes "attrlen < 4 \<or> off + 4 \<le> length buf \<and> (unat (get16 buf off) < 4 \<or> int (unat (get16 buf off)) > attrlen)"
  shows "llf_attrs W buf i off attrlen cache s = Some (False, cache, s)"
  using assms by (subst llf_attrs.simps) (auto simp: Let_def)

lemma llf_attrs_wireless:
  assumes "off + 4 \<le> length buf" "unat (get16 buf off) = rlen" "4 \<le> rlen" "int rlen \<le> attrlen" "get16 buf (off + 2) = IFLA_WIRELESS"
    "llf_wireless W buf i off rlen cache s = Some (False, c, s1)" "align4 (int rlen) = int rlen"
  shows "llf_attrs W buf i off attrlen cache s = llf_attrs W buf i (off + rlen) (attrlen - int rlen) c s1"
  using assms(1,3-7) by (subst llf_attrs.simps) (simp add: Let_def assms(2))

lemma llf_messages_end: "amt < 16 \<Longrightarrow> llf_messages W buf off amt cache s = Some (False, cache, s)"
  by (subst llf_messages.simps) (simp add: sizeof_nlmsghdr_def)

text \<open>The attribute loop goes on behind the message: nothing happens there if the bytes do not look like an attribute.\<close>

lemma llf_newlink_drop:
  assumes d: "d = newlink_msg i rest evs" "length rest = 22" "length evs mod 4 = 0" "length evs \<le> 8152"
    and buf: "buf = d @ ys" "length buf = LLF_BUF_SIZE"
    and behind: "unat (get16 buf (length d)) < 4 \<or> 16 < unat (get16 buf (length d))"
    and w: "iw_get_interface_data W (sint i) cache = (Some w, c)"
    and drop: "reports_drop W (wi_we_version w) evs hw"
  shows "\<exists>ev. ev_cmd ev = IWEVTXDROP \<and> ev_addr ev = hw \<and>
     llf_newlink W buf 0 (int (length d)) cache s = Some (False, c, llf_print_event W ev s)"
proof -
  have f: "get16 buf 4 = RTM_NEWLINK" "get32 buf 20 = i" "get16 buf 32 = of_nat (4 + length evs)" "get16 buf 34 = IFLA_WIRELESS"
    "drop 36 buf = evs @ ys"
    by (simp_all only: buf(1) d(1) newlink_fields [OF d(2)])
  let ?n = "length evs"
  have len: "length d = 36 + ?n" by (simp add: d(1) newlink_fields(7) [OF d(2)])
  have r: "unat (of_nat (4 + ?n) :: u16) = 4 + ?n" using d(4) by (simp add: unat_of_nat take_bit_eq_mod del: of_nat_add)
  have al: "align4 (int (4 + ?n)) = int (4 + ?n)" using d(3) unfolding align4_def by presburger
  have "take ?n (drop 36 buf) = evs" by (simp add: f(5))
  then obtain ev where ev: "ev_cmd ev = IWEVTXDROP" "ev_addr ev = hw"
    "llf_events W (wi_we_version w) (iw_init_event_stream W (take ?n (drop 36 buf))) s = Some (llf_print_event W ev s)"
    using llf_events_drop [OF drop] by metis
  have "llf_attrs W buf (sint i) (length d) 16 c (llf_print_event W ev s) = Some (False, c, llf_print_event W ev s)"
  proof (rule llf_attrs_end)
    have "int (unat (get16 buf (length d))) > 16" if "unat (get16 buf (length d)) > 16" using that by linarith
    then show "(16 :: int) < 4 \<or> length d + 4 \<le> length buf \<and>
        (unat (get16 buf (length d)) < 4 \<or> int (unat (get16 buf (length d))) > 16)"
      using behind d(4) len buf(2) unfolding LLF_BUF_SIZE_def by linarith
  qed
  moreover have "llf_wireless W buf (sint i) 32 (4 + ?n) cache s = Some (False, c, llf_print_event W ev s)"
    using ev(3) d(4) buf(2) by (simp add: llf_wireless_def w LLF_BUF_SIZE_def)
  then have "llf_attrs W buf (sint i) 32 (int (20 + ?n)) cache s =
      llf_attrs W buf (sint i) (32 + (4 + ?n)) (int (20 + ?n) - int (4 + ?n)) c (llf_print_event W ev s)"
    using buf(2) f(4) by (intro llf_attrs_wireless [OF _ _ _ _ _ _ al]) (simp_all add: f(3) r LLF_BUF_SIZE_def del: of_nat_add)
  ultimately have "llf_attrs W buf (sint i) 32 (int (20 + ?n)) cache s = Some (False, c, llf_print_event W ev s)"
    by (simp add: len)
  then show ?thesis using ev(1,2) by (auto simp: llf_newlink_def f(1,2) len sizeof_ifinfomsg_def)
qed

lemma llf_buffer_short: "length d \<le> LLF_BUF_SIZE \<Longrightarrow>
    \<exists>ys. llf_buffer d stale = d @ ys \<and> length (llf_buffer d stale) = LLF_BUF_SIZE"
  by (auto simp: llf_buffer_def)

section \<open>Properties\<close>

text \<open>
  C39. The callback for wireless events returns, whatever datagrams it finds and whatever the
  wireless library makes of them, as long as extracting an event uses up a part of the stream; the node stays well formed.
\<close>

theorem llf_callback_returns:
  assumes "progresses W size_of" and "wf_node s"
  shows "\<exists>cache' s'. llf_handle_netlink_events W ds cache s = Some (cache', s') \<and> ok s s'"
  using assms by (rule llf_handle_returns)

text \<open>A library that finds one failed transmission in every stream, and the table with neighbour 10.0.0.2.\<close>

definition demo_mac :: bytes where
  "demo_mac = [0, 0x16, 0x3E, 0, 0, 2]"

definition demo_wireless :: "bool wireless" where
  "demo_wireless =
     \<lparr>iw_init_event_stream = (\<lambda>_. True),
      iw_extract_event_stream = (\<lambda>_ st. (if st then 1 else 0, \<lparr>ev_cmd = IWEVTXDROP, ev_addr = demo_mac\<rparr>, False)),
      iw_ether_aton = (\<lambda>s. if s = ''00:16:3E:00:00:02'' then demo_mac else []),
      iw_sockets_open = 4, iw_get_range_info = (\<lambda>_. (0, 17)), sys_calloc = True, sys_ifname = (\<lambda>_. Some ''wlan0''),
      sys_arp = Some (arp_text ''IP address'' [(0x0200000A, ''00:16:3E:00:00:02'', ''wlan0'')]), stack_ip = 0\<rparr>"

theorem llf_callback_returns_witness:
  "\<exists>cache' s'. llf_handle_netlink_events demo_wireless [Received [1, 2, 3] [], Recv_error] [] demo_routes = Some (cache', s') \<and>
     ok demo_routes s'"
proof -
  have "progresses demo_wireless (\<lambda>st. if st then 1 else 0)" by (simp add: progresses_def demo_wireless_def)
  from llf_callback_returns [OF this demo_routes_wf] show ?thesis by blast
qed

text \<open>
  C38. When a driver reports that a packet to a hardware address was not transmitted, and the ARP table of the
  kernel has that address, the callback does exactly what \<open>neighbor_link_break\<close> does to the route to this neighbour, and
  nothing without an ARP entry or route.  The report is a \<open>RTM_NEWLINK\<close> message with one wireless attribute; the two bytes
  behind it in the buffer must not be the length of an attribute of up to 16 bytes.
\<close>

theorem llf_breaks_link:
  assumes "d = newlink_msg i rest evs" and "length rest = 22" and "length evs mod 4 = 0" and "length evs \<le> 8152"
    and "unat (get16 (llf_buffer d stale) (length d)) \<notin> {4..16}"
    and "iw_get_interface_data W (sint i) cache = (Some w, c)" and "reports_drop W (wi_we_version w) evs hw"
    and "sys_arp W = Some (arp_text hdr es)" and "list_all arp_entry_ok es" and "NL \<notin> set hdr" and "length hdr < 199"
  shows "llf_handle_netlink_events W [Received d stale] cache s =
     Some (c, case Option.bind (arp_neighbour (iw_ether_aton W) hw es) (\<lambda>ip. rt_table_find ip s) of
                Some p \<Rightarrow> neighbor_link_break p s | None \<Rightarrow> s)"
proof -
  have len: "length d = 36 + length evs" by (simp add: assms(1) newlink_fields(7) [OF assms(2)])
  then obtain ys where buf: "llf_buffer d stale = d @ ys" "length (llf_buffer d stale) = LLF_BUF_SIZE"
    using llf_buffer_short [of d stale] assms(4) by (auto simp: LLF_BUF_SIZE_def)
  have behind: "unat (get16 (llf_buffer d stale) (length d)) < 4 \<or> 16 < unat (get16 (llf_buffer d stale) (length d))"
    using assms(5) by auto
  obtain ev where ev: "ev_cmd ev = IWEVTXDROP" "ev_addr ev = hw"
    "llf_newlink W (llf_buffer d stale) 0 (int (length d)) cache s = Some (False, c, llf_print_event W ev s)"
    using llf_newlink_drop [OF assms(1-4) buf behind assms(6,7)] by blast
  have w: "get32 (llf_buffer d stale) 0 = of_nat (length d)"
    by (simp only: buf(1)) (simp only: assms(1) newlink_fields [OF assms(2)])
  have sk: "sint (of_nat k :: u32) = int k" if "k < 2 ^ 31" for k
    using that by (simp add: signed_of_nat signed_take_bit_int_eq_self)
  have "of_nat (length d) - 16 = (of_nat (length d - 16) :: u32)" using len by (simp add: of_nat_diff)
  then have si: "sint (of_nat (length d) :: u32) = int (length d)" "sint (of_nat (length d) - 16 :: u32) = int (length d - 16)"
    using len assms(4) by (simp_all only:) (rule sk; simp)+
  have al: "align4 (int (length d)) = int (length d)" using assms(3) unfolding align4_def len by presburger
  have "llf_messages W (llf_buffer d stale) 0 (int (length d)) cache s = Some (False, c, llf_print_event W ev s)"
    by (subst llf_messages.simps) (simp add: w si ev(3) al Let_def sizeof_nlmsghdr_def llf_messages_end, simp add: len)
  moreover have "min LLF_BUF_SIZE (length d) = length d" "d \<noteq> []" using len assms(4) by (auto simp: LLF_BUF_SIZE_def)
  ultimately have "llf_handle_netlink_events W [Received d stale] cache s = Some (c, llf_print_event W ev s)" by simp
  then show ?thesis
    by (simp add: llf_print_event_def ev(1,2) assms(8) mac_to_ip_arp [OF assms(9-11)] split: option.split)
qed

theorem llf_breaks_link_witness:
  "\<exists>c. llf_handle_netlink_events demo_wireless [Received (newlink_msg 3 (replicate 22 0) [1, 2, 3, 4]) []] [] demo_routes =
     Some (c, neighbor_link_break 0 demo_routes)"
proof -
  let ?d = "newlink_msg 3 (replicate 22 0) [1, 2, 3, 4]"
  define w where "w = \<lparr>wi_ifindex = 3, wi_ifname = ''wlan0'', wi_we_version = 17, wi_has_range = True\<rparr>"
  have len: "length ?d = 40" by (simp add: newlink_fields(7))
  have "llf_buffer ?d [] = ?d @ replicate (LLF_BUF_SIZE - 40) 0"
    using len by (simp add: llf_buffer_def LLF_BUF_SIZE_def drop_replicate)
  then have b: "get16 (llf_buffer ?d []) (length ?d) = 0"
    using len by (simp add: get16_def nth_append LLF_BUF_SIZE_def)
  have i: "iw_get_interface_data demo_wireless (sint (3 :: u32)) [] = (Some w, [w])"
    by (simp add: iw_get_interface_data_def index2name_def demo_wireless_def w_def IFNAMSIZ_def Let_def)
  have r: "reports_drop demo_wireless (wi_we_version w) [1, 2, 3, 4] demo_mac"
    by (simp add: reports_drop_def demo_wireless_def)
  have e: "list_all arp_entry_ok [(0x0200000A, ''00:16:3E:00:00:02'', ''wlan0'')]" "NL \<notin> set ''IP address''"
    by (simp_all add: arp_entry_ok_def c_space_def NL_def)
  have f: "rt_table_find 0x0200000A demo_routes = Some 0"
    unfolding rts.find_iff [OF demo_routes_wf]
    by (simp add: demo_routes_def entries_demo_table) (simp add: demo_table_def neighbour_route_def)
  show ?thesis
    using llf_breaks_link [OF refl _ _ _ _ i r _ e, where stale = "[]" and s = demo_routes and rest = "replicate 22 0"] b f
    by (simp add: demo_wireless_def arp_neighbour_def)
qed

section \<open>What the callback reads besides the message\<close>

text \<open>
  A message without attributes makes the loop over attributes look at the 16 bytes behind the message, which an earlier
  datagram may have left there; and a length of \<open>2 ^ 31\<close> passes the test for malformed messages.
\<close>

lemma llf_reads_behind:
  "get16 buf 4 = RTM_NEWLINK \<Longrightarrow>
     llf_newlink W buf 0 32 cache s = llf_attrs W buf (sint (get32 buf 20)) 32 16 cache s"
  by (simp add: llf_newlink_def sizeof_ifinfomsg_def)

lemma llf_negative_length:
  "get32 buf 0 = 0x80000000 \<Longrightarrow> llf_messages W buf 0 16 cache s = Some (True, cache, abort Overrun s)"
  by (subst llf_messages.simps) (simp add: sizeof_nlmsghdr_def)

end
