(* ===== verification/Host_Probe.thy ===== *)
theory Host_Probe
  imports Llf
begin

text \<open>
  What the daemon asks its host outside the protocol: the search for a wireless interface when none is named and for a default route
  (\<open>src/core/main.c\<close>), the answers of the kernel on the routing socket (\<open>nl_rt_callback\<close> of \<open>src/network/nl.c\<close>), and whether an
  address belongs to the ad hoc network (\<open>src/routing/locality.c\<close>, compiled with \<open>CONFIG_GATEWAY\<close>).  Answers of the system, and what
  uninitialised variables hold, are arguments.

  Shown here: the search takes the first wireless interface, and what the uninitialised buffer holds if there is none; the callback of
  the routing socket leaves the node alone for messages as the kernel writes them, and writes behind a variable for longer addresses.
\<close>

section \<open>The first wireless interface\<close>

text \<open>
  The loop runs from the number of interfaces down to 0 and so looks at one entry more than \<open>SIOCGIFCONF\<close> returned, \<open>behind\<close>.
  \<open>tmp_ifname\<close> is not initialised.  \<open>None\<close> is \<open>exit\<close>.
\<close>

definition search_wireless ::
  "string list option \<Rightarrow> string \<Rightarrow> string \<Rightarrow> (string \<Rightarrow> bool) \<Rightarrow> (string \<Rightarrow> bool) \<Rightarrow> string option" where
  "search_wireless ifconf behind tmp_ifname is_wireless has_index =
     (case ifconf of
        None \<Rightarrow> None
      | Some names \<Rightarrow>
          let n = (case List.find is_wireless (names @ [behind]) of Some n \<Rightarrow> n | None \<Rightarrow> tmp_ifname)
          in if n = [] then None else if has_index n then Some n else None)"

definition host_init_search ::
  "os \<Rightarrow> string list option \<Rightarrow> string \<Rightarrow> string \<Rightarrow> (string \<Rightarrow> bool) \<Rightarrow> node \<Rightarrow> node" where
  "host_init_search E ifconf behind tmp_ifname is_wireless s =
     (case search_wireless ifconf behind tmp_ifname is_wireless (\<lambda>n. os_ifindex E n \<noteq> None) of
        None \<Rightarrow> abort Exited s
      | Some n \<Rightarrow> host_init E n s)"

lemma find_append_Some: "List.find p xs = Some x \<Longrightarrow> List.find p (xs @ ys) = Some x"
  by (induction xs) auto

lemma search_wireless_first:
  assumes "List.find is_wireless names = Some n" "n \<noteq> []" "os_ifindex E n \<noteq> None"
  shows "host_init_search E (Some names) behind tmp is_wireless s = host_init E n s"
  using assms by (simp add: host_init_search_def search_wireless_def find_append_Some Let_def)

text \<open>Without a wireless interface the daemon attaches to whatever name the stack holds.\<close>

lemma search_wireless_junk:
  assumes "\<forall>n \<in> set (names @ [behind]). \<not> is_wireless n" "tmp \<noteq> []" "os_ifindex E tmp \<noteq> None"
  shows "host_init_search E (Some names) behind tmp is_wireless s = host_init E tmp s"
proof -
  have "List.find is_wireless (names @ [behind]) = None" using assms(1) by (auto simp: find_None_iff)
  then show ?thesis using assms(2,3) by (simp add: host_init_search_def search_wireless_def)
qed

section \<open>The default route\<close>

text \<open>\<open>strtok\<close> with blanks and tabs as delimiters.\<close>

fun strtok_blank :: "string \<Rightarrow> string \<Rightarrow> string list" where
  "strtok_blank acc [] = (if acc = [] then [] else [acc])"
| "strtok_blank acc (c # cs) =
     (if c = CHR '' '' \<or> c = CHR 0x09 then (if acc = [] then strtok_blank [] cs else acc # strtok_blank [] cs)
      else strtok_blank (acc @ [c]) cs)"

datatype gw_result = Gw_found | Gw_none | Gw_exit | Gw_null

fun gw_lines :: "string list \<Rightarrow> gw_result" where
  "gw_lines [] = Gw_none"
| "gw_lines (l # ls) =
     (case strtok_blank [] l of
        _ # d # rest \<Rightarrow>
          if d = ''00000000'' then
            (case rest of _ # f # _ \<Rightarrow> if f = ''0003'' then Gw_found else gw_lines ls | _ \<Rightarrow> Gw_null)
          else gw_lines ls
      | _ \<Rightarrow> gw_lines ls)"

definition find_default_gw :: "string option \<Rightarrow> gw_result" where
  "find_default_gw proc_net_route =
     (case proc_net_route of None \<Rightarrow> Gw_exit | Some text \<Rightarrow> gw_lines (fgets_lines 99 text))"

text \<open>A line with the default destination that ends early is passed to \<open>strcmp\<close> as a null pointer.\<close>

lemma gw_short_line: "find_default_gw (Some (''eth0 00000000'' @ [NL])) \<noteq> Gw_null"
  "find_default_gw (Some ''eth0 00000000'') = Gw_null"
  by code_simp+

section \<open>Answers on the routing socket\<close>

definition NLMSG_ERROR :: u16 where "NLMSG_ERROR = 2"
definition RTM_NEWADDR :: u16 where "RTM_NEWADDR = 20"
definition IFA_ADDRESS :: u16 where "IFA_ADDRESS = 1"
definition NL_BUF_SIZE :: nat where "NL_BUF_SIZE = 256"

text \<open>
  The attributes of a new address.  The payload of \<open>IFA_ADDRESS\<close> is copied to a variable of four bytes; a copy of more than that, and a
  read behind the buffer, is an overrun.
\<close>

function addr_attrs :: "bytes \<Rightarrow> nat \<Rightarrow> int \<Rightarrow> node \<Rightarrow> node" where
  "addr_attrs buf off attrlen s =
     (if attrlen < 4 then s
      else if length buf < off + 4 then abort Overrun s
      else
        let rlen = unat (get16 buf off) in
        if rlen < 4 \<or> int rlen > attrlen then s
        else if get16 buf (off + 2) = IFA_ADDRESS \<and> (rlen > 8 \<or> length buf < off + rlen) then abort Overrun s
        else addr_attrs buf (off + nat (align4 (int rlen))) (attrlen - align4 (int rlen)) s)"
  by pat_completeness auto
termination
  by (relation "measure (\<lambda>(buf, off, attrlen, s). nat attrlen)") (auto dest: rlen_align)

declare addr_attrs.simps [simp del]

text \<open>\<open>nlmsg_len\<close> is not compared with the number of bytes received; the difference is computed without sign.\<close>

definition nl_rt_callback :: "bytes \<Rightarrow> node \<Rightarrow> node" where
  "nl_rt_callback buf s =
     (if get16 buf 4 = RTM_NEWADDR then addr_attrs buf 24 (sint (get32 buf 0 - 24)) s else s)"

lemma addr_attrs_cases: "addr_attrs buf off attrlen s = s \<or> addr_attrs buf off attrlen s = abort Overrun s"
proof (induction buf off attrlen s rule: addr_attrs.induct)
  case (1 buf off attrlen s)
  then show ?case by (subst (1 2) addr_attrs.simps) (auto simp: Let_def)
qed

text \<open>Attributes as the kernel writes them: proper lengths, addresses of four bytes, all within the buffer.\<close>

function attrs_ok :: "bytes \<Rightarrow> nat \<Rightarrow> int \<Rightarrow> bool" where
  "attrs_ok buf off attrlen =
     (if attrlen \<le> 0 then True
      else if attrlen < 4 \<or> int (length buf) < int off + attrlen then False
      else
        let rlen = unat (get16 buf off) in
        if rlen < 4 \<or> int rlen > attrlen \<or> (get16 buf (off + 2) = IFA_ADDRESS \<and> rlen \<noteq> 8) then False
        else attrs_ok buf (off + nat (align4 (int rlen))) (attrlen - align4 (int rlen)))"
  by pat_completeness auto
termination
  by (relation "measure (\<lambda>(buf, off, attrlen). nat attrlen)") (auto dest: rlen_align)

declare attrs_ok.simps [simp del]

lemma addr_attrs_ok: "attrs_ok buf off attrlen \<Longrightarrow> addr_attrs buf off attrlen s = s"
proof (induction buf off attrlen s rule: addr_attrs.induct)
  case (1 buf off attrlen s)
  show ?case
  proof (cases "attrlen < 4")
    case False
    let ?rlen = "unat (get16 buf off)"
    have ok: "int off + attrlen \<le> int (length buf)" "4 \<le> ?rlen" "int ?rlen \<le> attrlen" "get16 buf (off + 2) = IFA_ADDRESS \<longrightarrow> ?rlen = 8"
      "attrs_ok buf (off + nat (align4 (int ?rlen))) (attrlen - align4 (int ?rlen))"
      using "1.prems" False unfolding attrs_ok.simps [of buf off] by (simp_all add: Let_def split: if_splits)
    have b: "\<not> length buf < off + 4" "\<not> length buf < off + ?rlen" using ok(1-3) False by linarith+
    have n: "\<not> (?rlen < 4 \<or> int ?rlen > attrlen)" "\<not> (get16 buf (off + 2) = IFA_ADDRESS \<and> (?rlen > 8 \<or> length buf < off + ?rlen))"
      using ok b by linarith+
    show ?thesis
      using "1.IH" [OF False b(1) refl n ok(5)] False b(1) n by (subst addr_attrs.simps) (simp only: Let_def if_False)
  qed (simp add: addr_attrs.simps)
qed

lemma nl_rt_callback_quiet:
  assumes "get16 buf 4 = RTM_NEWADDR \<longrightarrow> attrs_ok buf 24 (sint (get32 buf 0 - 24))"
  shows "nl_rt_callback buf s = s"
  using assms by (simp add: nl_rt_callback_def addr_attrs_ok)

lemma nl_rt_callback_ok: "wf_node s \<Longrightarrow> ok s (nl_rt_callback buf s)"
  using addr_attrs_cases [of buf 24 "sint (get32 buf 0 - 24)" s] ok_refl [of s] abort_overrun_ok [of s]
  by (cases "get16 buf 4 = RTM_NEWADDR") (auto simp: nl_rt_callback_def)

section \<open>Ad hoc network or Internet\<close>

datatype locality_result = HOST_ADHOC | HOST_INET | HOST_UNKNOWN

text \<open>\<open>gethostbyaddr\<close> finds the host or not.  Any other error ends in \<open>HOST_UNKNOWN\<close> too.\<close>

definition locality :: "bool \<Rightarrow> (addr \<Rightarrow> bool) \<Rightarrow> addr \<Rightarrow> u32 \<Rightarrow> node \<Rightarrow> locality_result" where
  "locality gw_prefix gethostbyaddr dest i s =
     (if gw_prefix then
        let dev = DEV_IFINDEX s i in
        if dest AND netmask dev = ipaddr dev AND netmask dev then HOST_ADHOC else HOST_INET
      else if gethostbyaddr dest then HOST_INET else HOST_UNKNOWN)"

lemma locality_prefix:
  "locality True h (ipaddr (DEV_IFINDEX s i)) i s = HOST_ADHOC"
  "locality True h d i s \<noteq> HOST_UNKNOWN"
  by (simp_all add: locality_def Let_def)

end
