(* ===== verification/Sim_Queue.thy ===== *)
theory Sim_Queue
  imports Prelude
begin

text \<open>
  The interface queue of the ns-2 simulator with the changes for AODV-UU, \<open>sim/ns-2.32/queue/priqueue.cc\<close>: routing messages overtake
  data packets, and the routing agent takes packets out by next hop or by a condition.

  The list of packets (\<open>PacketQueue\<close>), \<open>Queue::recv\<close> and \<open>deque\<close> belong to the simulator and are arguments of the model, the record
  \<open>pq_ops\<close>; what the code relies on is \<open>queue_laws\<close>: the queue is a list of packets, and each operation does
  to that list what its name says (removal behind a given packet where the packets are distinct).

  Shown here: under these laws both filters return, take out exactly the packets they should and keep the order of the others.
\<close>

section \<open>The simulator's queue\<close>

record ('q, 'p) pq_ops =
  enqueHead :: "'p \<Rightarrow> 'q \<Rightarrow> 'q"
  q_length :: "'q \<Rightarrow> nat"
  q_lookup :: "nat \<Rightarrow> 'q \<Rightarrow> 'p"
  q_remove :: "'p \<Rightarrow> 'q \<Rightarrow> 'q"
  q_remove_after :: "'p \<Rightarrow> 'p \<Rightarrow> 'q \<Rightarrow> 'q"
  q_chain :: "'q \<Rightarrow> 'p list"
  q_deque :: "'q \<Rightarrow> 'p option \<times> 'q"

text \<open>\<open>q_chain\<close> is what following \<open>head()\<close> and \<open>next_\<close> visits.  \<open>pkts q\<close> are the packets of the queue.\<close>

definition queue_laws :: "('q, 'p) pq_ops \<Rightarrow> ('q \<Rightarrow> 'p list) \<Rightarrow> bool" where
  "queue_laws Q pkts \<longleftrightarrow>
     (\<forall>p q. pkts (enqueHead Q p q) = p # pkts q) \<and>
     (\<forall>q. q_length Q q = length (pkts q)) \<and>
     (\<forall>i q. i < length (pkts q) \<longrightarrow> q_lookup Q i q = pkts q ! i) \<and>
     (\<forall>p q. p \<in> set (pkts q) \<longrightarrow> pkts (q_remove Q p q) = remove1 p (pkts q)) \<and>
     (\<forall>p pp q xs ys. distinct (pkts q) \<and> pkts q = xs @ pp # p # ys \<longrightarrow> pkts (q_remove_after Q p pp q) = xs @ pp # ys) \<and>
     (\<forall>q. q_chain Q q = pkts q) \<and>
     (\<forall>q. pkts q = [] \<longrightarrow> fst (q_deque Q q) = None) \<and>
     (\<forall>q p ps. pkts q = p # ps \<longrightarrow> fst (q_deque Q q) = Some p \<and> pkts (snd (q_deque Q q)) = ps)"

lemma queue_lawsD:
  assumes "queue_laws Q pkts"
  shows "pkts (enqueHead Q p q) = p # pkts q" "q_length Q q = length (pkts q)"
    "i < length (pkts q) \<Longrightarrow> q_lookup Q i q = pkts q ! i"
    "p \<in> set (pkts q) \<Longrightarrow> pkts (q_remove Q p q) = remove1 p (pkts q)"
    "distinct (pkts q) \<Longrightarrow> pkts q = xs @ pp # p # ys \<Longrightarrow> pkts (q_remove_after Q p pp q) = xs @ pp # ys"
    "q_chain Q q = pkts q" "pkts q = [] \<Longrightarrow> fst (q_deque Q q) = None"
    "pkts q = p # ps \<Longrightarrow> q_deque Q q = (Some p, snd (q_deque Q q))"
    "pkts q = p # ps \<Longrightarrow> pkts (snd (q_deque Q q)) = ps"
  using assms unfolding queue_laws_def by (metis prod.collapse)+

section \<open>Taking packets out\<close>

text \<open>\<open>filter\<close> with a function: the loop stays at an index when it removes a packet.\<close>

partial_function (option) pri_filter_loop :: "('q, 'p) pq_ops \<Rightarrow> ('p \<Rightarrow> bool) \<Rightarrow> nat \<Rightarrow> 'q \<Rightarrow> 'q option" where
  "pri_filter_loop Q f i q =
     (if i < q_length Q q then
        if f (q_lookup Q i q) then pri_filter_loop Q f i (q_remove Q (q_lookup Q i q) q)
        else pri_filter_loop Q f (i + 1) q
      else Some q)"

definition pri_filter :: "('q, 'p) pq_ops \<Rightarrow> ('p \<Rightarrow> bool) \<Rightarrow> 'q \<Rightarrow> 'q option" where
  "pri_filter Q f q = pri_filter_loop Q f 0 q"

text \<open>\<open>filter\<close> with a next hop: the first such packet and the one before it.\<close>

fun chain_search :: "('p \<Rightarrow> bool) \<Rightarrow> 'p option \<Rightarrow> 'p list \<Rightarrow> ('p \<times> 'p option) option" where
  "chain_search f pp [] = None"
| "chain_search f pp (p # ps) = (if f p then Some (p, pp) else chain_search f (Some p) ps)"

definition pri_filter_hop :: "('q, 'p) pq_ops \<Rightarrow> ('p \<Rightarrow> addr) \<Rightarrow> addr \<Rightarrow> 'q \<Rightarrow> 'p option \<times> 'q" where
  "pri_filter_hop Q next_hop hop q =
     (case chain_search (\<lambda>p. next_hop p = hop) None (q_chain Q q) of
        None \<Rightarrow> (None, q)
      | Some (p, None) \<Rightarrow> (Some p, q_remove Q p q)
      | Some (p, Some pp) \<Rightarrow> (Some p, q_remove_after Q p pp q))"

section \<open>Receiving and the end of the simulation\<close>

datatype ptype = PT_DSR | PT_MESSAGE | PT_TORA | PT_AODV | PT_AODVUU | PT_ENCAPSULATED | PT_TCP | PT_PING | PT_other nat

datatype 'p queue_event = Q_drop 'p | Q_drop_end 'p | Q_target 'p

record 'q priqueue =
  pri_q :: 'q
  pri_qlim :: nat
  pri_blocked :: bool
  pri_prefer :: bool

text \<open>A routing message goes to the head; then the last packet is dropped if the queue is full, and one is sent unless the
  interface is busy.\<close>

definition recvHighPriority :: "('q, 'p) pq_ops \<Rightarrow> 'p \<Rightarrow> 'q priqueue \<Rightarrow> 'p queue_event list \<times> 'q priqueue" where
  "recvHighPriority Q p s =
     (let q1 = enqueHead Q p (pri_q s);
          (ev1, q2) = (if pri_qlim s \<le> q_length Q q1
                       then let d = q_lookup Q (q_length Q q1 - 1) q1 in ([Q_drop d], q_remove Q d q1)
                       else ([], q1))
      in if pri_blocked s then (ev1, s\<lparr>pri_q := q2\<rparr>)
         else case q_deque Q q2 of
           (None, q3) \<Rightarrow> (ev1, s\<lparr>pri_q := q3\<rparr>)
         | (Some p1, q3) \<Rightarrow> (ev1 @ [Q_target p1], s\<lparr>pri_q := q3, pri_blocked := True\<rparr>))"

text \<open>\<open>queue_recv\<close> is \<open>Queue::recv\<close>.\<close>

definition pri_recv ::
  "('q, 'p) pq_ops \<Rightarrow> ('p \<Rightarrow> 'q priqueue \<Rightarrow> 'p queue_event list \<times> 'q priqueue) \<Rightarrow> ('p \<Rightarrow> ptype) \<Rightarrow> 'p \<Rightarrow> 'q priqueue \<Rightarrow>
     'p queue_event list \<times> 'q priqueue" where
  "pri_recv Q queue_recv type_of p s =
     (if pri_prefer s \<and> type_of p \<in> {PT_DSR, PT_MESSAGE, PT_TORA, PT_AODV, PT_AODVUU}
      then recvHighPriority Q p s else queue_recv p s)"

partial_function (option) pri_terminate :: "('q, 'p) pq_ops \<Rightarrow> 'q \<Rightarrow> 'p queue_event list \<Rightarrow> ('p queue_event list \<times> 'q) option" where
  "pri_terminate Q q evs =
     (case q_deque Q q of (None, q1) \<Rightarrow> Some (evs, q1) | (Some p, q1) \<Rightarrow> pri_terminate Q q1 (evs @ [Q_drop_end p]))"

section \<open>Correctness\<close>

lemma remove1_nth: "distinct xs \<Longrightarrow> i < length xs \<Longrightarrow> remove1 (xs ! i) xs = take i xs @ drop (Suc i) xs"
  by (induction xs arbitrary: i) (auto simp: nth_Cons' less_Suc_eq_0_disj split: nat.split)

lemma pri_filter_loop_correct:
  assumes "queue_laws Q pkts" "distinct (pkts q)" "i \<le> length (pkts q)"
  shows "\<exists>q'. pri_filter_loop Q f i q = Some q' \<and>
     pkts q' = take i (pkts q) @ filter (\<lambda>p. \<not> f p) (drop i (pkts q))"
  using assms(2,3)
proof (induction "length (pkts q) - i" arbitrary: i q rule: less_induct)
  case less
  note L = queue_lawsD [OF assms(1)]
  show ?case
  proof (cases "i < length (pkts q)")
    case False
    then show ?thesis using less.prems by (subst pri_filter_loop.simps) (simp add: L(2))
  next
    case True
    let ?p = "pkts q ! i"
    have drop: "drop i (pkts q) = ?p # drop (Suc i) (pkts q)" using True by (simp add: Cons_nth_drop_Suc)
    show ?thesis
    proof (cases "f ?p")
      case fp: True
      let ?q = "q_remove Q ?p q"
      have a: "pkts ?q = take i (pkts q) @ drop (Suc i) (pkts q)" using L(4) remove1_nth [OF less.prems(1) True] True by simp
      have "length (pkts ?q) = length (pkts q) - 1" using a True by simp
      then have l: "length (pkts ?q) - i < length (pkts q) - i" "i \<le> length (pkts ?q)" using True by simp_all
      have "distinct (pkts ?q)" using less.prems(1) L(4) True by (metis distinct_remove1 nth_mem)
      then obtain q' where "pri_filter_loop Q f i ?q = Some q'"
        "pkts q' = take i (pkts ?q) @ filter (\<lambda>p. \<not> f p) (drop i (pkts ?q))"
        using less.hyps [OF l(1) _ l(2)] by auto
      then show ?thesis using fp True by (subst pri_filter_loop.simps) (simp add: L(2,3) a drop min_def)
    next
      case fp: False
      have "length (pkts q) - (i + 1) < length (pkts q) - i" "i + 1 \<le> length (pkts q)" using True by simp_all
      then obtain q' where "pri_filter_loop Q f (i + 1) q = Some q'"
        "pkts q' = take (i + 1) (pkts q) @ filter (\<lambda>p. \<not> f p) (drop (i + 1) (pkts q))"
        using less.hyps [OF _ less.prems(1)] by blast
      then show ?thesis using fp True by (subst pri_filter_loop.simps) (simp add: L(2,3) drop take_Suc_conv_app_nth)
    qed
  qed
qed

lemma chain_search_None: "chain_search f pp ps = None \<longleftrightarrow> (\<forall>p \<in> set ps. \<not> f p)"
  by (induction ps arbitrary: pp) auto

lemma chain_search_Some:
  "chain_search f pp ps = Some (p, r) \<Longrightarrow>
     \<exists>xs ys. ps = xs @ p # ys \<and> f p \<and> (\<forall>x \<in> set xs. \<not> f x) \<and> r = (if xs = [] then pp else Some (last xs))"
proof (induction ps arbitrary: pp)
  case (Cons a ps)
  show ?case
  proof (cases "f a")
    case True
    then show ?thesis using Cons.prems by (intro exI [of _ "[]"] exI [of _ ps]) auto
  next
    case False
    then obtain xs ys where "ps = xs @ p # ys" "f p" "\<forall>x \<in> set xs. \<not> f x" "r = (if xs = [] then Some a else Some (last xs))"
      using Cons.IH [of "Some a"] Cons.prems by auto
    then show ?thesis using False by (intro exI [of _ "a # xs"] exI [of _ ys]) auto
  qed
qed simp

lemma pri_filter_hop_correct:
  assumes "queue_laws Q pkts" "distinct (pkts q)"
  shows "if \<forall>p \<in> set (pkts q). nh p \<noteq> hop then pri_filter_hop Q nh hop q = (None, q)
    else \<exists>xs p ys. pkts q = xs @ p # ys \<and> nh p = hop \<and> (\<forall>x \<in> set xs. nh x \<noteq> hop) \<and>
      fst (pri_filter_hop Q nh hop q) = Some p \<and> pkts (snd (pri_filter_hop Q nh hop q)) = xs @ ys"
proof (cases "chain_search (\<lambda>p. nh p = hop) None (pkts q)")
  case None
  then have "\<forall>p \<in> set (pkts q). nh p \<noteq> hop" by (simp only: chain_search_None)
  with None show ?thesis by (simp add: pri_filter_hop_def queue_lawsD(6) [OF assms(1)])
next
  case (Some r)
  obtain p pp where r: "r = (p, pp)" by (metis prod.exhaust)
  obtain xs ys where x: "pkts q = xs @ p # ys" "nh p = hop" "\<forall>x \<in> set xs. nh x \<noteq> hop" "pp = (if xs = [] then None else Some (last xs))"
    using chain_search_Some [OF Some [unfolded r]] by blast
  have "pkts (snd (pri_filter_hop Q nh hop q)) = xs @ ys"
  proof (cases "xs = []")
    case True
    then show ?thesis using x Some queue_lawsD(4) [OF assms(1), of p q]
      by (simp add: pri_filter_hop_def queue_lawsD(6) [OF assms(1)] r)
  next
    case False
    then have "pkts q = butlast xs @ last xs # p # ys" using x(1) by simp
    from queue_lawsD(5) [OF assms this] show ?thesis using False x Some
      by (simp add: pri_filter_hop_def queue_lawsD(6) [OF assms(1)] r)
  qed
  moreover have "fst (pri_filter_hop Q nh hop q) = Some p"
    using Some by (simp add: pri_filter_hop_def queue_lawsD(6) [OF assms(1)] r split: option.split)
  ultimately show ?thesis using x(1-3) by auto
qed

lemma pri_terminate_drops:
  assumes "queue_laws Q pkts"
  shows "\<exists>q'. pri_terminate Q q evs = Some (evs @ map Q_drop_end (pkts q), q')"
proof (induction "pkts q" arbitrary: q evs)
  case Nil
  then have "fst (q_deque Q q) = None" using queue_lawsD(7) [OF assms] by metis
  then show ?case using Nil by (subst pri_terminate.simps) (cases "q_deque Q q", auto)
next
  case (Cons p ps)
  note d = queue_lawsD(8,9) [OF assms, OF Cons.hyps(2) [symmetric]]
  from Cons.hyps(1) [OF d(2) [symmetric], of "evs @ [Q_drop_end p]"] show ?case
    using d(1) by (subst pri_terminate.simps) (auto simp: d(2) Cons.hyps(2) [symmetric] split: prod.split)
qed

section \<open>A queue of the simulator\<close>

text \<open>A list obeys the laws.\<close>

definition list_pq :: "('p list, 'p) pq_ops" where
  "list_pq = \<lparr>enqueHead = (#), q_length = length, q_lookup = (\<lambda>i q. q ! i), q_remove = remove1, q_remove_after = (\<lambda>p pp q. remove1 p q),
     q_chain = (\<lambda>q. q), q_deque = (\<lambda>q. case q of [] \<Rightarrow> (None, []) | p # ps \<Rightarrow> (Some p, ps))\<rparr>"

lemma list_pq_laws: "queue_laws list_pq (\<lambda>q. q)"
  by (auto simp: queue_laws_def list_pq_def remove1_append)

end
