(* ===== verification/Sim_Agent.thy ===== *)
theory Sim_Agent
  imports Sim_Queue Neighbor
begin

text \<open>
  The data path of the ns-2 agent: its packet buffer (\<open>sim/packet_queue.cc\<close>), the decision on a data packet
  (\<open>sim/packet_input.cc\<close>), and reception, sending, link failures and encapsulation (\<open>sim/aodv-uu.cc\<close>).  The simulator's build of the
  protocol (with \<open>NS_PORT\<close> and \<open>CONFIG_GATEWAY\<close>) is an argument, the record \<open>protocol\<close>, over a state of its own; the protocol calls the
  agent back only with \<open>packet_queue_set_verdict\<close>, \<open>packet_queue_garbage_collect\<close> and \<open>interfaceQueue\<close>, which are steps of the agent of their own.
  Packets are pointers to headers.  What the agent does with a packet is appended to a trace.  \<open>a_stopped\<close> is set when an assertion fails, a null pointer
  is used, or the program ends.

  Shown here: whatever the protocol decides, every packet that the agent was given is at any time in its buffer, or has
  been sent, delivered, dropped or wrapped exactly once, and the length counter of the buffer is right.
\<close>

section \<open>Packets\<close>

datatype dir = D_NONE | D_UP | D_DOWN

record hdr =
  h_ptype :: ptype
  h_size :: int
  h_dir :: dir
  h_forwards :: int
  h_prev_hop :: addr
  h_next_hop :: addr
  h_failure :: bool
  h_saddr :: addr
  h_daddr :: addr
  h_ttl :: int
  h_inner :: "ptr option"

datatype reason =
    DROP_END_OF_SIMULATION | DROP_RTR_QTIMEOUT | DROP_RTR_QFULL | DROP_RTR_NO_ROUTE | DROP_RTR_MAC_CALLBACK
  | DROP_RTR_ROUTE_LOOP | DROP_RTR_TTL | DROP_plain

text \<open>
  Packets given to the agent (\<open>In\<close>) or made by it (\<open>Alloc\<close>); the others take a packet away.  The delay of a unicast packet is counted in
  units of \<open>ARP_DELAY\<close>.
\<close>

datatype sim_event =
    In ptr | Alloc ptr
  | Drop ptr reason | Send ptr nat | Bcast ptr | Deliver ptr | Wrap ptr | Free ptr | Control ptr

record sim_q_pkt =
  qp_p :: ptr
  qp_dest :: addr
  qp_time :: timeval

record ('s, 'q) agent =
  a_hdr :: "ptr \<Rightarrow> hdr"
  a_next :: ptr
  a_pq :: "sim_q_pkt list"
  a_pq_len :: u32
  a_ifq :: "'q option"
  a_ipaddr :: addr
  a_broadcast :: addr
  a_now :: timeval
  a_llfeedback :: bool
  a_optimized_hellos :: bool
  a_local_repair :: bool
  a_gw_mode :: bool
  a_worb :: bool
  a_proto :: 's
  a_stopped :: bool
  a_events :: "sim_event list"

text \<open>The protocol's functions.  \<open>pr_allocpkt\<close> is the header of a fresh packet, if there is memory.\<close>

record 's protocol =
  pr_find :: "addr \<Rightarrow> 's \<Rightarrow> ptr option"
  pr_rt :: "'s \<Rightarrow> ptr \<Rightarrow> rt_table"
  pr_seeking :: "addr \<Rightarrow> 's \<Rightarrow> bool"
  pr_update_timeout :: "ptr \<Rightarrow> int \<Rightarrow> 's \<Rightarrow> 's"
  pr_update_route_timeouts :: "ptr option \<Rightarrow> ptr option \<Rightarrow> 's \<Rightarrow> 's"
  pr_mark_repair :: "ptr \<Rightarrow> 's \<Rightarrow> 's"
  pr_link_break :: "ptr \<Rightarrow> 's \<Rightarrow> 's"
  pr_local_repair :: "ptr \<Rightarrow> addr \<Rightarrow> 's \<Rightarrow> 's"
  pr_discovery :: "addr \<Rightarrow> u8 \<Rightarrow> 's \<Rightarrow> 's"
  pr_rerr_create :: "addr \<Rightarrow> u32 \<Rightarrow> 's \<Rightarrow> 's"
  pr_rerr_send :: "addr \<Rightarrow> 's \<Rightarrow> 's"
  pr_worb_reset :: "'s \<Rightarrow> 's"
  pr_fwd_time :: "'s \<Rightarrow> 's"
  pr_hello_start :: "'s \<Rightarrow> 's"
  pr_control :: "hdr \<Rightarrow> 's \<Rightarrow> 's"
  pr_dev_ipaddr :: "u32 \<Rightarrow> 's \<Rightarrow> addr"
  pr_active_timeout :: "'s \<Rightarrow> int"
  pr_delete_period :: "'s \<Rightarrow> int"
  pr_is_data :: "ptype \<Rightarrow> bool"
  pr_allocpkt :: "hdr option"

definition upd_hdr :: "ptr \<Rightarrow> (hdr \<Rightarrow> hdr) \<Rightarrow> ('s, 'q) agent \<Rightarrow> ('s, 'q) agent" where
  "upd_hdr p f a = a\<lparr>a_hdr := (a_hdr a)(p := f (a_hdr a p))\<rparr>"

definition sim_emit :: "sim_event \<Rightarrow> ('s, 'q) agent \<Rightarrow> ('s, 'q) agent" where
  "sim_emit e a = a\<lparr>a_events := a_events a @ [e]\<rparr>"

definition upd_proto :: "('s \<Rightarrow> 's) \<Rightarrow> ('s, 'q) agent \<Rightarrow> ('s, 'q) agent" where
  "upd_proto f a = a\<lparr>a_proto := f (a_proto a)\<rparr>"

section \<open>Sending and encapsulation\<close>

definition SIM_IP_HDR_LEN :: int where "SIM_IP_HDR_LEN = 20"
definition MIN_ENC_OVERHEAD :: int where "MIN_ENC_OVERHEAD = 8"

text \<open>Forwarding decrements the TTL; a packet that is neither forwarded nor originated here is dropped.\<close>

definition sendPacket :: "ptr \<Rightarrow> addr \<Rightarrow> nat \<Rightarrow> ('s, 'q) agent \<Rightarrow> ('s, 'q) agent" where
  "sendPacket p next_hop delay a =
     (let h = a_hdr a p;
          go = (\<lambda>a. if h_daddr h = AODV_BROADCAST
             then sim_emit (Bcast p) (upd_hdr p (\<lambda>h. h\<lparr>h_next_hop := 0, h_prev_hop := a_ipaddr a\<rparr>) a)
             else sim_emit (Send p delay) (upd_hdr p (\<lambda>h. h\<lparr>h_next_hop := next_hop, h_prev_hop := a_ipaddr a,
                    h_failure := (h_failure h \<or> a_llfeedback a)\<rparr>) a))
      in if h_dir h = D_UP \<and> h_saddr h \<noteq> a_ipaddr a then
           let a1 = upd_hdr p (\<lambda>h. h\<lparr>h_ttl := h_ttl h - 1\<rparr>) a in
           if h_ttl h - 1 < 1 then sim_emit (Drop p DROP_RTR_TTL) a1 else go (upd_hdr p (\<lambda>h. h\<lparr>h_dir := D_DOWN\<rparr>) a1)
         else if h_dir h = D_DOWN \<and> h_saddr h = a_ipaddr a then go a
         else sim_emit (Drop p DROP_plain) a)"

definition pkt_encapsulate :: "'s protocol \<Rightarrow> ptr \<Rightarrow> addr \<Rightarrow> ('s, 'q) agent \<Rightarrow> ptr option \<times> ('s, 'q) agent" where
  "pkt_encapsulate P p gw a =
     (case pr_allocpkt P of
        None \<Rightarrow> (None, a)
      | Some fresh \<Rightarrow>
          let ep = a_next a; h = a_hdr a p;
              eh = fresh\<lparr>h_ptype := PT_ENCAPSULATED, h_size := h_size h + MIN_ENC_OVERHEAD, h_daddr := gw, h_saddr := h_saddr h,
                         h_inner := Some p\<rparr>
          in (Some ep, sim_emit (Wrap p) (sim_emit (Alloc ep) (upd_hdr ep (\<lambda>_. eh) (a\<lparr>a_next := ep + 1\<rparr>)))))"

definition pkt_decapsulate :: "ptr \<Rightarrow> ('s, 'q) agent \<Rightarrow> ptr option \<times> ('s, 'q) agent" where
  "pkt_decapsulate p a =
     (if h_ptype (a_hdr a p) = PT_ENCAPSULATED then
        (case h_inner (a_hdr a p) of
           Some q \<Rightarrow> (Some q, sim_emit (Free p) (sim_emit (Alloc q) a))
         | None \<Rightarrow> (None, sim_emit (Free p) a))
      else (None, a))"

section \<open>The packet buffer\<close>

definition SIM_MAX_QUEUE_LENGTH :: u32 where "SIM_MAX_QUEUE_LENGTH = 512"
definition SIM_MAX_QUEUE_TIME :: int where "SIM_MAX_QUEUE_TIME = 10000"

definition sim_queue_add :: "ptr \<Rightarrow> addr \<Rightarrow> ('s, 'q) agent \<Rightarrow> ('s, 'q) agent" where
  "sim_queue_add p dest a =
     (if h_daddr (a_hdr a p) \<noteq> dest then a\<lparr>a_stopped := True\<rparr>
      else
        let a1 = (if SIM_MAX_QUEUE_LENGTH \<le> a_pq_len a then
                    (case a_pq a of
                       [] \<Rightarrow> a
                     | qp # qs \<Rightarrow> sim_emit (Drop (qp_p qp) DROP_RTR_QFULL) (a\<lparr>a_pq := qs, a_pq_len := a_pq_len a - 1\<rparr>))
                  else a)
        in a1\<lparr>a_pq := a_pq a1 @ [\<lparr>qp_p = p, qp_dest = dest, qp_time = a_now a\<rparr>], a_pq_len := a_pq_len a1 + 1\<rparr>)"

fun queue_drop :: "(sim_q_pkt \<Rightarrow> bool) \<Rightarrow> reason \<Rightarrow> sim_q_pkt list \<Rightarrow> sim_q_pkt list \<Rightarrow> ('s, 'q) agent \<Rightarrow> ('s, 'q) agent" where
  "queue_drop f r K [] a = a\<lparr>a_pq := K\<rparr>"
| "queue_drop f r K (qp # R) a =
     (if f qp then queue_drop f r K R (sim_emit (Drop (qp_p qp) r) (a\<lparr>a_pq_len := a_pq_len a - 1\<rparr>))
      else queue_drop f r (K @ [qp]) R a)"

definition sim_queue_destroy :: "('s, 'q) agent \<Rightarrow> ('s, 'q) agent" where
  "sim_queue_destroy a = queue_drop (\<lambda>_. True) DROP_END_OF_SIMULATION [] (a_pq a) a"

definition sim_queue_garbage_collect :: "('s, 'q) agent \<Rightarrow> ('s, 'q) agent" where
  "sim_queue_garbage_collect a =
     queue_drop (\<lambda>qp. timeval_diff (a_now a) (qp_time qp) > SIM_MAX_QUEUE_TIME) DROP_RTR_QTIMEOUT [] (a_pq a) a"

datatype verdict = PQ_DROP | PQ_SEND | PQ_ENC_SEND

text \<open>
  The loop of \<open>packet_queue_set_verdict\<close> over the entries \<open>R\<close>, with \<open>K\<close> those already passed over.  Without a route it returns after the
  first entry was taken off the list (first component).  A failed encapsulation is logged at level \<open>LOG_ERR\<close>, and this ends the program.
\<close>

fun verdict_loop ::
  "'s protocol \<Rightarrow> verdict \<Rightarrow> addr \<Rightarrow> ptr option \<Rightarrow> ptr option \<Rightarrow> sim_q_pkt list \<Rightarrow> sim_q_pkt list \<Rightarrow> nat \<Rightarrow> int \<Rightarrow> ('s, 'q) agent \<Rightarrow>
     bool \<times> int \<times> ('s, 'q) agent" where
  "verdict_loop P v dest r0 inet K [] delay n a = (False, n, a\<lparr>a_pq := K\<rparr>)"
| "verdict_loop P v dest r0 inet K (qp # R) delay n a =
     (if qp_dest qp \<noteq> dest then verdict_loop P v dest r0 inet (K @ [qp]) R delay n a
      else
        let shrink = (\<lambda>a. a\<lparr>a_pq_len := a_pq_len a - 1\<rparr>); hop = (\<lambda>r. rt_next_hop (pr_rt P (a_proto a) r)) in
        case v of
          PQ_DROP \<Rightarrow> verdict_loop P v dest r0 inet K R delay (n + 1) (shrink (sim_emit (Drop (qp_p qp) DROP_RTR_NO_ROUTE) a))
        | PQ_SEND \<Rightarrow>
            (case r0 of
               None \<Rightarrow> (True, n, a\<lparr>a_pq := K @ R\<rparr>)
             | Some r \<Rightarrow> verdict_loop P v dest r0 inet K R (delay + 1) (n + 1) (shrink (sendPacket (qp_p qp) (hop r) delay a)))
        | PQ_ENC_SEND \<Rightarrow>
            (case (r0, inet) of
               (Some r, Some i) \<Rightarrow>
                 (case pkt_encapsulate P (qp_p qp) (hop i) a of
                    (None, a1) \<Rightarrow> (True, n, a1\<lparr>a_pq := K @ R, a_stopped := True\<rparr>)
                  | (Some ep, a1) \<Rightarrow>
                      verdict_loop P v dest r0 inet K R (delay + 1) (n + 1) (shrink (sendPacket ep (hop r) delay a1)))
             | _ \<Rightarrow> (True, n, a\<lparr>a_pq := K @ R\<rparr>)))"

definition verdict_timeouts :: "'s protocol \<Rightarrow> verdict \<Rightarrow> addr \<Rightarrow> ptr option \<Rightarrow> ptr option \<Rightarrow> 's \<Rightarrow> 's" where
  "verdict_timeouts P v dest r0 inet s =
     (case r0 of
        None \<Rightarrow> s
      | Some r \<Rightarrow>
          if rt_state (pr_rt P s r) = VALID \<and> v \<noteq> PQ_DROP \<and> dest \<noteq> pr_dev_ipaddr P (rt_ifindex (pr_rt P s r)) s then
            let t = pr_active_timeout P s;
                s1 = (case inet of Some i \<Rightarrow> if v = PQ_ENC_SEND then pr_update_timeout P i t s else s | None \<Rightarrow> s);
                s2 = pr_update_timeout P r t s1
            in case pr_find P (rt_next_hop (pr_rt P s2 r)) s2 of
                 Some n \<Rightarrow>
                   if rt_state (pr_rt P s2 n) = VALID \<and> rt_dest_addr (pr_rt P s2 n) \<noteq> rt_dest_addr (pr_rt P s2 r)
                   then pr_update_timeout P n t s2 else s2
               | None \<Rightarrow> s2
          else s)"

definition sim_queue_set_verdict :: "'s protocol \<Rightarrow> addr \<Rightarrow> verdict \<Rightarrow> ('s, 'q) agent \<Rightarrow> int \<times> ('s, 'q) agent" where
  "sim_queue_set_verdict P dest v a =
     (let s = a_proto a; inet = (if v = PQ_ENC_SEND then pr_find P dest s else None);
          r0 = (if v = PQ_ENC_SEND then (case inet of Some i \<Rightarrow> pr_find P (rt_next_hop (pr_rt P s i)) s | None \<Rightarrow> None)
                else pr_find P dest s)
      in if v = PQ_ENC_SEND \<and> inet = None then (-1, a)
         else case verdict_loop P v dest r0 inet [] (a_pq a) 0 0 a of
           (True, n, a1) \<Rightarrow> (-1, a1)
         | (False, n, a1) \<Rightarrow> (n, upd_proto (verdict_timeouts P v dest r0 inet) a1))"

section \<open>Data packets\<close>

definition SIM_RREQ_GRATUITOUS :: u8 where "SIM_RREQ_GRATUITOUS = 4"

definition sim_deliver :: "ptr \<Rightarrow> ('s, 'q) agent \<Rightarrow> ('s, 'q) agent" where
  "sim_deliver p a = sim_emit (Deliver p) a"

text \<open>No route for a packet that came from the network: a route error to its source or to everybody.\<close>

definition sim_no_route :: "'s protocol \<Rightarrow> ptr \<Rightarrow> addr \<Rightarrow> ptr option \<Rightarrow> ptr option \<Rightarrow> ('s, 'q) agent \<Rightarrow> ('s, 'q) agent" where
  "sim_no_route P p dest fwd bwd a =
     (let s = a_proto a;
          s1 = (case fwd of
                  Some f \<Rightarrow> pr_update_timeout P f (pr_delete_period P s)
                     (pr_rerr_create P (rt_dest_addr (pr_rt P s f)) (rt_dest_seqno (pr_rt P s f)) s)
                | None \<Rightarrow> pr_rerr_create P dest 0 s);
          to = (case bwd of
                  Some r \<Rightarrow> if rt_state (pr_rt P s1 r) = VALID then rt_next_hop (pr_rt P s1 r) else AODV_BROADCAST
                | None \<Rightarrow> AODV_BROADCAST);
          s2 = pr_rerr_send P to s1;
          s3 = (if a_worb a then pr_worb_reset P s2 else s2)
      in sim_emit (Drop p DROP_RTR_NO_ROUTE) (a\<lparr>a_proto := s3\<rparr>))"

text \<open>A packet for which a route is sought: buffered, then repair or discovery.\<close>

definition sim_discover :: "'s protocol \<Rightarrow> ptr \<Rightarrow> addr \<Rightarrow> addr \<Rightarrow> u8 \<Rightarrow> ptr option \<Rightarrow> ('s, 'q) agent \<Rightarrow> ('s, 'q) agent" where
  "sim_discover P p src dest rreq_flags fwd a =
     (let a1 = sim_queue_add p dest a in
      upd_proto (\<lambda>s. case fwd of
          Some f \<Rightarrow> if flag (rt_flags (pr_rt P s f)) RT_REPAIR then pr_local_repair P f src s else pr_discovery P dest rreq_flags s
        | None \<Rightarrow> pr_discovery P dest rreq_flags s) a1)"

text \<open>The part of \<open>processPacket\<close> after encapsulation.\<close>

definition sim_route :: "'s protocol \<Rightarrow> ptr \<Rightarrow> addr \<Rightarrow> addr \<Rightarrow> u8 \<Rightarrow> ptr option \<Rightarrow> ptr option \<Rightarrow> ('s, 'q) agent \<Rightarrow> ('s, 'q) agent" where
  "sim_route P p src dest rreq_flags fwd bwd a0 =
     (let a = upd_proto (pr_update_route_timeouts P fwd bwd) a0; s = a_proto a in
      if dest = a_ipaddr a then sim_deliver p (upd_hdr p (\<lambda>h. h\<lparr>h_size := h_size h - SIM_IP_HDR_LEN\<rparr>) a)
      else case fwd of
        Some f \<Rightarrow>
          let e = pr_rt P s f in
          if rt_state e = INVALID \<or> rt_hcnt e = 1 \<and> flag (rt_flags e) RT_UNIDIR then
            if \<not> flag (rt_flags e) RT_REPAIR \<and> h_dir (a_hdr a p) = D_UP then sim_no_route P p dest fwd bwd a
            else sim_discover P p src dest rreq_flags fwd a
          else
            let a1 = upd_proto (pr_fwd_time P) (sendPacket p (rt_next_hop e) 0 a)
            in if \<not> a_llfeedback a \<and> a_optimized_hellos a then upd_proto (pr_hello_start P) a1 else a1
      | None \<Rightarrow>
          if h_dir (a_hdr a p) = D_UP then sim_no_route P p dest fwd bwd a
          else sim_discover P p src dest rreq_flags fwd a)"

definition processPacket :: "'s protocol \<Rightarrow> ptr \<Rightarrow> ('s, 'q) agent \<Rightarrow> ('s, 'q) agent" where
  "processPacket P p a =
     (let h = a_hdr a p; src = h_saddr h; dest = h_daddr h;
          rreq_flags = (if h_ptype h = PT_TCP then SIM_RREQ_GRATUITOUS else 0) in
      if h_dir h = D_NONE then sim_emit (Drop p DROP_plain) a
      else if dest = AODV_BROADCAST \<or> dest = a_broadcast a then
        (if h_dir h = D_DOWN then sendPacket p dest 0 a else sim_deliver p a)
      else
        let s = a_proto a; bwd = pr_find P src s; fwd = pr_find P dest s in
        case fwd of
          Some f \<Rightarrow>
            if rt_state (pr_rt P s f) = VALID \<and> flag (rt_flags (pr_rt P s f)) RT_INET_DEST then
              let a1 = upd_proto (pr_update_timeout P f (pr_active_timeout P s)) a;
                  gw = rt_next_hop (pr_rt P (a_proto a1) f)
              in case pkt_encapsulate P p gw a1 of
                   (None, a2) \<Rightarrow> a2\<lparr>a_stopped := True\<rparr>
                 | (Some ep, a2) \<Rightarrow> sim_route P ep src gw rreq_flags (pr_find P gw (a_proto a2)) bwd a2
            else sim_route P p src dest rreq_flags fwd bwd a
        | None \<Rightarrow> sim_route P p src dest rreq_flags fwd bwd a)"

section \<open>Reception\<close>

text \<open>The reverse route of a packet for the gateway is kept alive.\<close>

definition gateway_timeouts :: "'s protocol \<Rightarrow> addr \<Rightarrow> 's \<Rightarrow> 's" where
  "gateway_timeouts P saddr s =
     (case pr_find P saddr s of
        Some r \<Rightarrow>
          if rt_state (pr_rt P s r) = VALID then
            let s1 = pr_update_timeout P r (pr_active_timeout P s) s in
            case pr_find P (rt_next_hop (pr_rt P s1 r)) s1 of
              Some n \<Rightarrow>
                if rt_state (pr_rt P s1 n) = VALID \<and> rt_dest_addr (pr_rt P s1 n) \<noteq> rt_dest_addr (pr_rt P s1 r)
                then pr_update_timeout P n (pr_active_timeout P s1) s1 else s1
            | None \<Rightarrow> s1
          else s
      | None \<Rightarrow> s)"

definition sim_dispatch :: "'s protocol \<Rightarrow> ptr \<Rightarrow> ('s, 'q) agent \<Rightarrow> ('s, 'q) agent" where
  "sim_dispatch P p a =
     (let t = h_ptype (a_hdr a p) in
      if t = PT_AODVUU then sim_emit (Control p) (upd_proto (pr_control P (a_hdr a p)) a)
      else if t = PT_ENCAPSULATED \<and> a_gw_mode a then
        let a1 = upd_proto (gateway_timeouts P (h_saddr (a_hdr a p))) a in
        case pkt_decapsulate p a1 of (Some q, a2) \<Rightarrow> sim_deliver q a2 | (None, a2) \<Rightarrow> a2\<lparr>a_stopped := True\<rparr>
      else processPacket P p a)"

definition sim_recv :: "'s protocol \<Rightarrow> ptr \<Rightarrow> ('s, 'q) agent \<Rightarrow> ('s, 'q) agent" where
  "sim_recv P p a0 =
     (let a = sim_emit (In p) a0; h = a_hdr a p in
      if h_saddr h = a_ipaddr a then
        if h_forwards h = 0
        then sim_dispatch P p (upd_hdr p (\<lambda>h. h\<lparr>h_dir := D_DOWN, h_size := h_size h + SIM_IP_HDR_LEN\<rparr>) a)
        else sim_emit (Drop p DROP_RTR_ROUTE_LOOP) a
      else sim_dispatch P p (upd_hdr p (\<lambda>h. h\<lparr>h_dir := D_UP\<rparr>) a))"

section \<open>Failures reported by the link layer\<close>

datatype ifq_action = IFQ_BUFFER | IFQ_DROP | IFQ_DROP_BY_DEST

text \<open>What happens to each packet taken off the interface queue.\<close>

definition ifq_take :: "ifq_action \<Rightarrow> ptr \<Rightarrow> ('s, 'q) agent \<Rightarrow> ('s, 'q) agent" where
  "ifq_take act p a =
     (if act = IFQ_DROP then sim_emit (Drop p DROP_RTR_NO_ROUTE) (sim_emit (In p) a)
      else sim_queue_add p (h_daddr (a_hdr a p)) (sim_emit (In p) a))"

partial_function (option) ifq_loop ::
  "('q, ptr) pq_ops \<Rightarrow> addr \<Rightarrow> ifq_action \<Rightarrow> 'q \<Rightarrow> ('s, 'q) agent \<Rightarrow> ('s, 'q) agent option" where
  "ifq_loop Q hop act q a =
     (case pri_filter_hop Q (\<lambda>p. h_next_hop (a_hdr a p)) hop q of
        (None, q1) \<Rightarrow> Some (a\<lparr>a_ifq := Some q1\<rparr>)
      | (Some p, q1) \<Rightarrow> ifq_loop Q hop act q1 (ifq_take act p a))"

definition interfaceQueue :: "('q, ptr) pq_ops \<Rightarrow> addr \<Rightarrow> ifq_action \<Rightarrow> ('s, 'q) agent \<Rightarrow> ('s, 'q) agent option" where
  "interfaceQueue Q hop act a =
     (case a_ifq a of
        None \<Rightarrow> Some a
      | Some q \<Rightarrow>
          if act = IFQ_DROP_BY_DEST
          then map_option (\<lambda>q1. a\<lparr>a_ifq := Some q1\<rparr>) (pri_filter Q (\<lambda>p. h_daddr (a_hdr a p) = hop) q)
          else ifq_loop Q hop act q a)"

definition packetFailed :: "'s protocol \<Rightarrow> ('q, ptr) pq_ops \<Rightarrow> ptr \<Rightarrow> ('s, 'q) agent \<Rightarrow> ('s, 'q) agent option" where
  "packetFailed P Q p a0 =
     (let a = sim_emit (In p) a0; h = a_hdr a p; s = a_proto a; dest = h_daddr h; hop = h_next_hop h;
          give_up = (\<lambda>a. interfaceQueue Q hop IFQ_DROP (sim_emit (Drop p DROP_RTR_MAC_CALLBACK) a)) in
      if \<not> (pr_is_data P (h_ptype h) \<or> h_ptype h = PT_PING \<or> h_ptype h = PT_ENCAPSULATED) \<or> dest = AODV_BROADCAST
      then Some (sim_emit (Drop p DROP_RTR_MAC_CALLBACK) a)
      else if pr_seeking P dest s then Some (sim_queue_add p dest a)
      else case (pr_find P hop s, pr_find P dest s) of
        (Some n, Some r) \<Rightarrow>
          if rt_state (pr_rt P s n) = INVALID \<or> rt_state (pr_rt P s r) = INVALID then give_up a
          else if rt_next_hop (pr_rt P s r) \<noteq> hop then Some (sim_emit (Drop p DROP_RTR_MAC_CALLBACK) a)
          else if a_local_repair a \<and> uint (rt_hcnt (pr_rt P s r)) \<le> MAX_REPAIR_TTL
          then map_option (upd_proto (\<lambda>s. pr_local_repair P r (h_saddr h) (pr_link_break P n (pr_mark_repair P n s))))
                 (interfaceQueue Q hop IFQ_BUFFER (sim_queue_add p dest a))
          else give_up (upd_proto (pr_link_break P n) a)
      | _ \<Rightarrow> give_up a)"

section \<open>No packet is lost or duplicated\<close>

fun gives :: "sim_event \<Rightarrow> ptr multiset" where
  "gives (In p) = {#p#}" | "gives (Alloc p) = {#p#}" | "gives _ = {#}"

fun takes :: "sim_event \<Rightarrow> ptr multiset" where
  "takes (Drop p _) = {#p#}" | "takes (Send p _) = {#p#}" | "takes (Bcast p) = {#p#}" | "takes (Deliver p) = {#p#}"
| "takes (Wrap p) = {#p#}" | "takes (Free p) = {#p#}" | "takes (Control p) = {#p#}" | "takes _ = {#}"

definition ins :: "sim_event list \<Rightarrow> ptr multiset" where "ins evs = sum_list (map gives evs)"
definition outs :: "sim_event list \<Rightarrow> ptr multiset" where "outs evs = sum_list (map takes evs)"

text \<open>
  The account of an agent whose buffer holds \<open>q\<close> while it works on the packets \<open>M\<close>: what came in went out, or is in one of the two; the counter is the
  length of the buffer; the program has not stopped.
\<close>

definition account :: "sim_q_pkt list \<Rightarrow> ('s, 'q) agent \<Rightarrow> ptr multiset \<Rightarrow> bool" where
  "account q a M \<longleftrightarrow>
     ins (a_events a) = outs (a_events a) + mset (map qp_p q) + M \<and> a_pq_len a = of_nat (length q) \<and> length q \<le> 512 \<and> \<not> a_stopped a"

definition conserves :: "('s, 'q) agent \<Rightarrow> bool" where
  "conserves a \<longleftrightarrow> account (a_pq a) a {#}"

lemma ins_outs [simp]: "ins (evs @ [e]) = ins evs + gives e" "outs (evs @ [e]) = outs evs + takes e"
  by (simp_all add: ins_def outs_def)

lemma account_cong [simp]:
  "account q (upd_hdr p f a) M = account q a M" "account q (upd_proto g a) M = account q a M" "account q (a\<lparr>a_pq := r\<rparr>) M = account q a M"
  "account q (a\<lparr>a_next := n\<rparr>) M = account q a M" "account q (a\<lparr>a_proto := s\<rparr>) M = account q a M" "account q (a\<lparr>a_ifq := i\<rparr>) M = account q a M"
  by (simp_all add: account_def upd_hdr_def upd_proto_def)

lemma agent_frame [simp]:
  "a_pq (upd_hdr p f a) = a_pq a" "a_pq (upd_proto g a) = a_pq a" "a_pq (sim_emit e a) = a_pq a"
  "a_hdr (upd_proto g a) = a_hdr a" "a_hdr (sim_emit e a) = a_hdr a" "a_ipaddr (upd_proto g a) = a_ipaddr a"
  "a_proto (sim_emit e a) = a_proto a" "a_proto (upd_hdr p f a) = a_proto a"
  "a_ifq (upd_hdr p f a) = a_ifq a" "a_ifq (upd_proto g a) = a_ifq a" "a_ifq (sim_emit e a) = a_ifq a"
  by (simp_all add: upd_hdr_def upd_proto_def sim_emit_def)

text \<open>A packet comes in; a packet goes out.\<close>

lemma account_in: "gives e = {#p#} \<Longrightarrow> takes e = {#} \<Longrightarrow> account q a M \<Longrightarrow> account q (sim_emit e a) (add_mset p M)"
  by (simp add: account_def sim_emit_def)

lemma account_out: "gives e = {#} \<Longrightarrow> takes e = {#p#} \<Longrightarrow> account q a (add_mset p M) \<Longrightarrow> account q (sim_emit e a) M"
  by (simp add: account_def sim_emit_def)

lemmas account_drop [simp, intro] = account_out [OF gives.simps(3) takes.simps(1)]

lemma sendPacket_account: "account q a (add_mset p M) \<Longrightarrow> account q (sendPacket p nh d a) M"
  unfolding sendPacket_def Let_def by (auto intro!: account_out [where p = p])

lemma sendPacket_pq [simp]: "a_pq (sendPacket p nh d a) = a_pq a"
  by (simp add: sendPacket_def Let_def)

lemma encapsulate_account:
  assumes "account q a (add_mset p M)" "pkt_encapsulate P p gw a = (Some ep, a1)"
  shows "account q a1 (add_mset ep M)" "a_pq a1 = a_pq a" "h_daddr (a_hdr a1 ep) = gw" "a_ifq a1 = a_ifq a"
proof -
  obtain fresh where f: "pr_allocpkt P = Some fresh" using assms(2) by (auto simp: pkt_encapsulate_def split: option.splits)
  note e = assms(2) [unfolded pkt_encapsulate_def f option.case Let_def]
  have "account q (sim_emit (Alloc ep) (upd_hdr ep g (a\<lparr>a_next := ep + 1\<rparr>))) (add_mset p (add_mset ep M))" for g
    using account_in [of "Alloc ep" ep q "upd_hdr ep g (a\<lparr>a_next := ep + 1\<rparr>)"] assms(1) by (simp add: add_mset_commute)
  then show "account q a1 (add_mset ep M)" using e by (auto intro: account_out [of "Wrap p" p])
  show "a_pq a1 = a_pq a" "h_daddr (a_hdr a1 ep) = gw" "a_ifq a1 = a_ifq a" using e by (auto simp: upd_hdr_def sim_emit_def)
qed

text \<open>Entries leave the buffer one at a time.\<close>

lemma account_shrink: "account (K @ qp # R) a M \<Longrightarrow> account (K @ R) (a\<lparr>a_pq_len := a_pq_len a - 1\<rparr>) (add_mset (qp_p qp) M)"
  by (auto simp: account_def)

lemma account_len_out:
  "account q (a\<lparr>a_pq_len := n\<rparr>) (add_mset p M) \<Longrightarrow> gives e = {#} \<Longrightarrow> takes e = {#p#} \<Longrightarrow> account q ((sim_emit e a)\<lparr>a_pq_len := n\<rparr>) M"
  by (simp add: account_def sim_emit_def)

lemma queue_drop_account:
  "account (K @ R) a M \<Longrightarrow> account (a_pq (queue_drop f r K R a)) (queue_drop f r K R a) M"
proof (induction f r K R a rule: queue_drop.induct)
  case (2 f r K qp R a)
  show ?case
  proof (cases "f qp")
    case True
    then show ?thesis using 2(1) [OF True] account_shrink [OF 2(3)] by auto
  next
    case False
    then show ?thesis using 2(2) [OF False] 2(3) by simp
  qed
qed simp

lemma account_full: "account q a M \<Longrightarrow> SIM_MAX_QUEUE_LENGTH \<le> a_pq_len a \<longleftrightarrow> length q = 512"
proof -
  assume "account q a M"
  then have l: "a_pq_len a = of_nat (length q)" "length q \<le> 512" by (simp_all add: account_def)
  then have "unat (a_pq_len a) = length q" by (simp add: unat_of_nat take_bit_eq_mod)
  then show ?thesis using l(2) by (simp add: SIM_MAX_QUEUE_LENGTH_def word_le_nat_alt)
qed

lemma account_grow:
  "account q a (add_mset (qp_p qp) M) \<Longrightarrow> length q < 512 \<Longrightarrow> account (q @ [qp]) (a\<lparr>a_pq := r, a_pq_len := a_pq_len a + 1\<rparr>) M"
  by (simp add: account_def)

lemma sim_queue_add_account:
  assumes "account (a_pq a) a (add_mset p M)" "h_daddr (a_hdr a p) = dest"
  shows "account (a_pq (sim_queue_add p dest a)) (sim_queue_add p dest a) M" "a_hdr (sim_queue_add p dest a) = a_hdr a"
    "a_ifq (sim_queue_add p dest a) = a_ifq a"
proof -
  define a1 where "a1 = (if SIM_MAX_QUEUE_LENGTH \<le> a_pq_len a then
      (case a_pq a of [] \<Rightarrow> a
       | qp # qs \<Rightarrow> sim_emit (Drop (qp_p qp) DROP_RTR_QFULL) (a\<lparr>a_pq := qs, a_pq_len := a_pq_len a - 1\<rparr>)) else a)"
  have eq: "sim_queue_add p dest a =
      a1\<lparr>a_pq := a_pq a1 @ [\<lparr>qp_p = p, qp_dest = dest, qp_time = a_now a\<rparr>], a_pq_len := a_pq_len a1 + 1\<rparr>"
    using assms(2) unfolding sim_queue_add_def a1_def by (simp add: Let_def)
  have "account (a_pq a1) a1 (add_mset p M) \<and> length (a_pq a1) < 512"
  proof (cases "SIM_MAX_QUEUE_LENGTH \<le> a_pq_len a")
    case True
    then have len: "length (a_pq a) = 512" using account_full [OF assms(1)] by simp
    then obtain qp qs where q: "a_pq a = qp # qs" by (cases "a_pq a") auto
    have "account qs (a\<lparr>a_pq := qs, a_pq_len := a_pq_len a - 1\<rparr>) (add_mset (qp_p qp) (add_mset p M))"
      using account_shrink [of "[]" qp qs a "add_mset p M"] assms(1) q by (simp add: account_def)
    then show ?thesis using True q len by (auto simp: a1_def)
  next
    case False
    then have "length (a_pq a) \<noteq> 512" using account_full [OF assms(1)] by simp
    moreover have "length (a_pq a) \<le> 512" using assms(1) by (simp add: account_def)
    ultimately show ?thesis using False assms(1) by (simp add: a1_def)
  qed
  then show "account (a_pq (sim_queue_add p dest a)) (sim_queue_add p dest a) M" unfolding eq by (simp add: account_grow)
  show "a_hdr (sim_queue_add p dest a) = a_hdr a" "a_ifq (sim_queue_add p dest a) = a_ifq a"
    unfolding eq by (simp_all add: a1_def split: list.split)
qed

text \<open>When a verdict can be carried out: sending needs a route, and encapsulation memory.\<close>

definition can_decide :: "'s protocol \<Rightarrow> verdict \<Rightarrow> ptr option \<Rightarrow> ptr option \<Rightarrow> bool" where
  "can_decide P v r0 inet \<longleftrightarrow>
     (case v of PQ_DROP \<Rightarrow> True | PQ_SEND \<Rightarrow> r0 \<noteq> None | PQ_ENC_SEND \<Rightarrow> r0 \<noteq> None \<and> inet \<noteq> None \<and> pr_allocpkt P \<noteq> None)"

text \<open>The counter can as well be lowered before the packet is dealt with.\<close>

lemma sendPacket_len: "(sendPacket p nh d a)\<lparr>a_pq_len := a_pq_len (sendPacket p nh d a) - 1\<rparr> =
    sendPacket p nh d (a\<lparr>a_pq_len := a_pq_len a - 1\<rparr>)"
  by (simp add: sendPacket_def Let_def upd_hdr_def sim_emit_def)

lemma sim_emit_len: "(sim_emit e a)\<lparr>a_pq_len := a_pq_len (sim_emit e a) - 1\<rparr> = sim_emit e (a\<lparr>a_pq_len := a_pq_len a - 1\<rparr>)"
  by (simp add: sim_emit_def)

lemma encapsulate_len:
  "pkt_encapsulate P p gw a = (Some ep, a1) \<Longrightarrow>
     pkt_encapsulate P p gw (a\<lparr>a_pq_len := a_pq_len a - 1\<rparr>) = (Some ep, a1\<lparr>a_pq_len := a_pq_len a1 - 1\<rparr>)"
  by (auto simp: pkt_encapsulate_def Let_def upd_hdr_def sim_emit_def split: option.splits)

lemma verdict_loop_account:
  assumes "can_decide P v r0 inet" "account (K @ R) a M"
  shows "\<exists>m a'. verdict_loop P v dest r0 inet K R d n a = (False, m, a') \<and> account (a_pq a') a' M"
  using assms
proof (induction P v dest r0 inet K R d n a rule: verdict_loop.induct)
  case (2 P v dest r0 inet K qp R d n a)
  let ?a = "a\<lparr>a_pq_len := a_pq_len a - 1\<rparr>" and ?hop = "\<lambda>r. rt_next_hop (pr_rt P (a_proto a) r)"
  have s: "account (K @ R) ?a (add_mset (qp_p qp) M)" by (rule account_shrink [OF 2(6)])
  show ?case
  proof (cases "qp_dest qp = dest")
    case False
    then show ?thesis using 2(1) [OF False 2(5)] 2(6) by simp
  next
    case True
    then have t: "\<not> qp_dest qp \<noteq> dest" by simp
    show ?thesis
    proof (cases v)
      case PQ_DROP
      have "account (K @ R) (sim_emit (Drop (qp_p qp) DROP_RTR_NO_ROUTE) ?a) M" using s by auto
      from 2(2) [OF t refl refl PQ_DROP 2(5) this [folded sim_emit_len]] show ?thesis
        by (simp add: PQ_DROP True sim_emit_len Let_def)
    next
      case PQ_SEND
      then obtain r where r: "r0 = Some r" using 2(5) by (auto simp: can_decide_def)
      have "account (K @ R) (sendPacket (qp_p qp) (?hop r) d ?a) M" by (rule sendPacket_account [OF s])
      from 2(3) [OF t refl refl PQ_SEND r 2(5) this [folded sendPacket_len]] show ?thesis
        by (simp add: PQ_SEND True r sendPacket_len Let_def)
    next
      case PQ_ENC_SEND
      then obtain r i where r: "r0 = Some r" "inet = Some i" using 2(5) by (auto simp: can_decide_def)
      then have rp: "(Some r, Some i) = (r0, inet)" by simp
      obtain ep a1 where e: "pkt_encapsulate P (qp_p qp) (?hop i) a = (Some ep, a1)"
        using 2(5) PQ_ENC_SEND by (auto simp: can_decide_def pkt_encapsulate_def Let_def)
      have "account (K @ R) (a1\<lparr>a_pq_len := a_pq_len a1 - 1\<rparr>) (add_mset ep M)"
        by (rule encapsulate_account(1) [OF s encapsulate_len [OF e]])
      then have "account (K @ R) (sendPacket ep (?hop r) d (a1\<lparr>a_pq_len := a_pq_len a1 - 1\<rparr>)) M" by (rule sendPacket_account)
      from 2(4) [OF t refl refl PQ_ENC_SEND] this [folded sendPacket_len] show ?thesis
        using 2(5) by (simp add: PQ_ENC_SEND True r e sendPacket_len Let_def)
    qed
  qed
qed simp

text \<open>The verdict on a destination can be carried out.\<close>

definition decidable :: "'s protocol \<Rightarrow> addr \<Rightarrow> verdict \<Rightarrow> ('s, 'q) agent \<Rightarrow> bool" where
  "decidable P dest v a \<longleftrightarrow>
     (case (v, pr_find P dest (a_proto a)) of
        (PQ_DROP, _) \<Rightarrow> True
      | (PQ_SEND, r) \<Rightarrow> r \<noteq> None
      | (PQ_ENC_SEND, None) \<Rightarrow> True
      | (PQ_ENC_SEND, Some i) \<Rightarrow> pr_find P (rt_next_hop (pr_rt P (a_proto a) i)) (a_proto a) \<noteq> None \<and> pr_allocpkt P \<noteq> None)"

lemma set_verdict_conserves:
  assumes "decidable P dest v a" "conserves a"
  shows "conserves (snd (sim_queue_set_verdict P dest v a))"
proof -
  define s inet r0 where "s = a_proto a" and "inet = (if v = PQ_ENC_SEND then pr_find P dest s else None)" and
    "r0 = (if v = PQ_ENC_SEND then (case inet of Some i \<Rightarrow> pr_find P (rt_next_hop (pr_rt P s i)) s | None \<Rightarrow> None)
           else pr_find P dest s)"
  note eq = sim_queue_set_verdict_def [of P dest v a, unfolded Let_def, folded s_def, folded inet_def, folded r0_def]
  show ?thesis
  proof (cases "v = PQ_ENC_SEND \<and> inet = None")
    case True
    then show ?thesis using assms(2) unfolding eq by simp
  next
    case False
    then have "can_decide P v r0 inet"
      using assms(1) by (auto simp: decidable_def can_decide_def r0_def inet_def s_def split: verdict.splits option.splits)
    from verdict_loop_account [OF this, of "[]" "a_pq a" a] assms(2) obtain m a' where
      "verdict_loop P v dest r0 inet [] (a_pq a) 0 0 a = (False, m, a')" "account (a_pq a') a' {#}"
      unfolding conserves_def by (metis append_Nil)
    then show ?thesis unfolding eq if_not_P [OF False] by (simp add: conserves_def)
  qed
qed

text \<open>A verdict to send without a route: the first packet disappears, and it is counted for ever.\<close>

lemma verdict_no_route_leaks:
  assumes "conserves a" "pr_find P dest (a_proto a) = None" "\<exists>qp \<in> set (a_pq a). qp_dest qp = dest"
  shows "fst (sim_queue_set_verdict P dest PQ_SEND a) = -1"
    "a_events (snd (sim_queue_set_verdict P dest PQ_SEND a)) = a_events a"
    "length (a_pq (snd (sim_queue_set_verdict P dest PQ_SEND a))) = length (a_pq a) - 1"
    "a_pq_len (snd (sim_queue_set_verdict P dest PQ_SEND a)) = a_pq_len a"
proof -
  have "\<exists>q. verdict_loop P PQ_SEND dest None None K R d n a = (True, n, a\<lparr>a_pq := q\<rparr>) \<and> length q = length (K @ R) - 1"
    if "\<exists>qp \<in> set R. qp_dest qp = dest" for K R d n
    using that
  proof (induction R arbitrary: K)
    case (Cons x R)
    then show ?case using Cons.IH [of "K @ [x]"] by (cases "qp_dest x = dest") (auto simp: Let_def)
  qed simp
  from this [OF assms(3), of "[]"] obtain q where
    "verdict_loop P PQ_SEND dest None None [] (a_pq a) 0 0 a = (True, 0, a\<lparr>a_pq := q\<rparr>)" "length q = length (a_pq a) - 1"
    by fastforce
  then show "fst (sim_queue_set_verdict P dest PQ_SEND a) = -1"
    "a_events (snd (sim_queue_set_verdict P dest PQ_SEND a)) = a_events a"
    "length (a_pq (snd (sim_queue_set_verdict P dest PQ_SEND a))) = length (a_pq a) - 1"
    "a_pq_len (snd (sim_queue_set_verdict P dest PQ_SEND a)) = a_pq_len a"
    by (simp_all add: sim_queue_set_verdict_def Let_def assms(2))
qed

lemma queue_drop_conserves: "conserves a \<Longrightarrow> conserves (queue_drop f r [] (a_pq a) a)"
  using queue_drop_account [of "[]" "a_pq a" a "{#}" f r] by (simp add: conserves_def)

text \<open>\<open>busy a p\<close>: the agent works on \<open>p\<close>.\<close>

definition busy :: "('s, 'q) agent \<Rightarrow> ptr \<Rightarrow> bool" where "busy a p \<longleftrightarrow> account (a_pq a) a {#p#}"

lemma busy_cong [simp]:
  "busy (upd_hdr q f a) p = busy a p" "busy (upd_proto g a) p = busy a p" "busy (a\<lparr>a_proto := s\<rparr>) p = busy a p"
  "conserves (upd_proto g a) = conserves a" "conserves (a\<lparr>a_ifq := i\<rparr>) = conserves a"
  by (simp_all add: busy_def conserves_def)

lemma busy_in: "conserves a \<Longrightarrow> busy (sim_emit (In p) a) p"
  using account_in [of "In p" p "a_pq a" a "{#}"] by (simp add: busy_def conserves_def)

lemma busy_out:
  assumes "busy a p"
  shows "conserves (sim_emit (Drop p r) a)" "conserves (sim_deliver p a)" "conserves (sim_emit (Control p) a)"
    "conserves (sendPacket p hop d a)"
  using assms account_out [of _ p "a_pq a" a "{#}"] sendPacket_account [of "a_pq a" a p "{#}"]
  by (simp_all add: busy_def conserves_def sim_deliver_def)

lemma queue_add_conserves: "busy a p \<Longrightarrow> h_daddr (a_hdr a p) = dest \<Longrightarrow> conserves (sim_queue_add p dest a)"
  using sim_queue_add_account(1) [of a p "{#}" dest] by (simp add: busy_def conserves_def)

lemma sim_route_conserves:
  "busy a p \<Longrightarrow> h_daddr (a_hdr a p) = dest \<Longrightarrow> conserves (sim_route P p src dest fl fwd bwd a)"
  by (auto simp: sim_route_def sim_no_route_def sim_discover_def Let_def busy_out queue_add_conserves split: option.split)

lemma busy_encapsulate:
  assumes "busy a p" "pkt_encapsulate P p gw a = (Some ep, a1)"
  shows "busy a1 ep" "h_daddr (a_hdr a1 ep) = gw"
  using encapsulate_account [OF assms(1) [unfolded busy_def] assms(2)] by (simp_all add: busy_def)

lemma processPacket_conserves:
  assumes "busy a p" "pr_allocpkt P \<noteq> None"
  shows "conserves (processPacket P p a)"
proof -
  have enc: "\<exists>ep a2. pkt_encapsulate P p gw b = (Some ep, a2)" for gw and b :: "('a, 'b) agent"
    using assms(2) by (auto simp: pkt_encapsulate_def Let_def)
  have "conserves (case pkt_encapsulate P p gw (upd_proto g a) of (None, a2) \<Rightarrow> a2\<lparr>a_stopped := True\<rparr>
      | (Some ep, a2) \<Rightarrow> sim_route P ep src gw fl (pr_find P gw (a_proto a2)) bwd a2)" for gw g src fl bwd
  proof -
    obtain ep a2 where e: "pkt_encapsulate P p gw (upd_proto g a) = (Some ep, a2)" using enc by blast
    have "busy (upd_proto g a) p" using assms(1) by simp
    note busy_encapsulate [OF this e]
    then show ?thesis by (simp add: e sim_route_conserves)
  qed
  then show ?thesis unfolding processPacket_def Let_def
    by (auto simp: busy_out sim_route_conserves assms(1) split: option.split)
qed

lemma sim_dispatch_conserves:
  assumes "busy a p" "pr_allocpkt P \<noteq> None" "h_ptype (a_hdr a p) = PT_ENCAPSULATED \<longrightarrow> h_inner (a_hdr a p) \<noteq> None"
  shows "conserves (sim_dispatch P p a)"
proof -
  have "account (a_pq a) (sim_emit (Free p) (sim_emit (Alloc q) (upd_proto g a))) {#q#}" for q g
    using account_in [of "Alloc q" q "a_pq a" "upd_proto g a" "{#p#}"] assms(1)
    by (auto simp: busy_def add_mset_commute intro!: account_out [where p = p])
  then have "busy (sim_emit (Free p) (sim_emit (Alloc q) (upd_proto g a))) q" for q g by (simp add: busy_def)
  then show ?thesis using assms
    by (auto simp: sim_dispatch_def Let_def pkt_decapsulate_def busy_out processPacket_conserves)
qed

text \<open>What the agent may be given: an encapsulated packet holds a packet.\<close>

definition sound_pkt :: "('s, 'q) agent \<Rightarrow> ptr \<Rightarrow> bool" where
  "sound_pkt a p \<longleftrightarrow> h_ptype (a_hdr a p) = PT_ENCAPSULATED \<longrightarrow> h_inner (a_hdr a p) \<noteq> None"

lemma sim_recv_conserves:
  assumes "conserves a" "sound_pkt a p" "pr_allocpkt P \<noteq> None"
  shows "conserves (sim_recv P p a)"
proof -
  have "conserves (sim_dispatch P p (upd_hdr p (\<lambda>h. h\<lparr>h_dir := D_UP\<rparr>) (sim_emit (In p) a)))"
    "conserves (sim_dispatch P p (upd_hdr p (\<lambda>h. h\<lparr>h_dir := D_DOWN, h_size := h_size h + SIM_IP_HDR_LEN\<rparr>) (sim_emit (In p) a)))"
    using assms busy_in [OF assms(1)]
    by (intro sim_dispatch_conserves; simp add: sound_pkt_def upd_hdr_def sim_emit_def busy_def account_def)+
  then show ?thesis using busy_in [OF assms(1)] by (simp add: sim_recv_def Let_def busy_out)
qed

section \<open>The interface queue of the agent\<close>

lemma sim_queue_add_hdr [simp]: "a_hdr (sim_queue_add p dest a) = a_hdr a" "a_ifq (sim_queue_add p dest a) = a_ifq a"
  by (simp_all add: sim_queue_add_def Let_def sim_emit_def split: list.split)

lemma ifq_take_hdr [simp]: "a_hdr (ifq_take act p a) = a_hdr a"
  by (simp add: ifq_take_def)

lemma ifq_take_conserves: "conserves a \<Longrightarrow> conserves (ifq_take act p a)"
  by (simp add: ifq_take_def busy_out busy_in queue_add_conserves)

lemma ifq_loop_correct:
  assumes "queue_laws Q pkts" "distinct (pkts q)"
  shows "\<exists>q1. ifq_loop Q hop act q a =
      Some ((fold (ifq_take act) (filter (\<lambda>p. h_next_hop (a_hdr a p) = hop) (pkts q)) a)\<lparr>a_ifq := Some q1\<rparr>) \<and>
    pkts q1 = filter (\<lambda>p. h_next_hop (a_hdr a p) \<noteq> hop) (pkts q)"
  using assms(2)
proof (induction "length (pkts q)" arbitrary: q a rule: less_induct)
  case less
  let ?nh = "\<lambda>p. h_next_hop (a_hdr a p)"
  note F = pri_filter_hop_correct [OF assms(1) less.prems, of ?nh hop]
  show ?case
  proof (cases "\<forall>p \<in> set (pkts q). ?nh p \<noteq> hop")
    case True
    then have f: "filter (\<lambda>p. ?nh p = hop) (pkts q) = []" "filter (\<lambda>p. ?nh p \<noteq> hop) (pkts q) = pkts q" by auto
    show ?thesis using F True by (intro exI [of _ q], subst ifq_loop.simps) (simp add: f)
  next
    case False
    with F obtain xs p ys q1 where x: "pkts q = xs @ p # ys" "?nh p = hop" "\<forall>x \<in> set xs. ?nh x \<noteq> hop"
      "pri_filter_hop Q ?nh hop q = (Some p, q1)" "pkts q1 = xs @ ys" by (metis prod.collapse)
    have xf: "filter (\<lambda>p. ?nh p = hop) xs = []" using x(3) by simp
    have "length (pkts q1) < length (pkts q)" "distinct (pkts q1)" using x less.prems by simp_all
    from less.hyps [OF this, of "ifq_take act p a"] show ?thesis using x
      by (subst ifq_loop.simps) (simp add: xf)
  qed
qed

lemma fold_take_conserves: "conserves a \<Longrightarrow> conserves (fold (ifq_take act) ps a)"
  by (induction ps arbitrary: a) (auto simp: ifq_take_conserves)

lemma interfaceQueue_conserves:
  assumes "queue_laws Q pkts" "\<And>q. a_ifq a = Some q \<Longrightarrow> distinct (pkts q)" "conserves a"
  shows "\<exists>a'. interfaceQueue Q hop act a = Some a' \<and> conserves a'"
proof (cases "a_ifq a")
  case (Some q)
  have "0 \<le> length (pkts q)" by simp
  from pri_filter_loop_correct [OF assms(1) assms(2) [OF Some] this] ifq_loop_correct [OF assms(1) assms(2) [OF Some]] Some assms(3) show ?thesis
    unfolding interfaceQueue_def pri_filter_def by (fastforce simp: fold_take_conserves)
qed (simp add: interfaceQueue_def assms(3))

text \<open>\<open>ifq_ok\<close>: the packets of the interface queue, if the agent has one, are distinct.\<close>

definition ifq_ok :: "('q \<Rightarrow> ptr list) \<Rightarrow> ('s, 'q) agent \<Rightarrow> bool" where
  "ifq_ok pkts a \<longleftrightarrow> (\<forall>q. a_ifq a = Some q \<longrightarrow> distinct (pkts q))"

lemma packetFailed_conserves:
  assumes "queue_laws Q pkts" "ifq_ok pkts a0" "conserves a0"
  shows "\<exists>a'. packetFailed P Q p a0 = Some a' \<and> conserves a'"
proof -
  have iq: "\<exists>a'. interfaceQueue Q hop act a = Some a' \<and> conserves a'" if "conserves a" "a_ifq a = a_ifq a0" for a hop act
    using interfaceQueue_conserves [OF assms(1) _ that(1)] assms(2) that(2) by (simp add: ifq_ok_def)
  let ?a = "sim_emit (In p) a0"
  have b: "busy ?a p" by (rule busy_in [OF assms(3)])
  then have up: "\<exists>a'. interfaceQueue Q hop act (sim_emit (Drop p r) (upd_proto g ?a)) = Some a' \<and> conserves a'"
    "\<exists>a'. interfaceQueue Q hop act (sim_emit (Drop p r) ?a) = Some a' \<and> conserves a'" for hop act r g
    by (intro iq; simp add: busy_out)+
  obtain a' where "interfaceQueue Q (h_next_hop (a_hdr ?a p)) IFQ_BUFFER (sim_queue_add p (h_daddr (a_hdr ?a p)) ?a) = Some a'" "conserves a'"
    using iq [of "sim_queue_add p (h_daddr (a_hdr ?a p)) ?a"] b by (auto simp: queue_add_conserves)
  then show ?thesis using up b
    unfolding packetFailed_def Let_def by (auto simp: busy_out queue_add_conserves split: option.split)
qed

section \<open>Every execution\<close>

text \<open>
  A step of the agent: one of the calls made by the simulator or by the protocol.  Between them the world outside may change the
  headers of packets, the time, the interface queue and the state of the protocol.
\<close>

inductive sim_step :: "'s protocol \<Rightarrow> ('q, ptr) pq_ops \<Rightarrow> ('q \<Rightarrow> ptr list) \<Rightarrow> ('s, 'q) agent \<Rightarrow> ('s, 'q) agent \<Rightarrow> bool"
  for P Q pkts where
  recv: "sound_pkt a p \<Longrightarrow> sim_step P Q pkts a (sim_recv P p a)"
| failed: "ifq_ok pkts a \<Longrightarrow> packetFailed P Q p a = Some a' \<Longrightarrow> sim_step P Q pkts a a'"
| ifqueue: "ifq_ok pkts a \<Longrightarrow> interfaceQueue Q hop act a = Some a' \<Longrightarrow> sim_step P Q pkts a a'"
| decide: "decidable P dest v a \<Longrightarrow> sim_step P Q pkts a (snd (sim_queue_set_verdict P dest v a))"
| collect: "sim_step P Q pkts a (sim_queue_garbage_collect a)"
| destroy: "sim_step P Q pkts a (sim_queue_destroy a)"
| outside: "sim_step P Q pkts a (a\<lparr>a_hdr := hs, a_now := t, a_ifq := i, a_proto := s\<rparr>)"

lemma sim_step_conserves:
  assumes "sim_step P Q pkts a a'" "queue_laws Q pkts" "pr_allocpkt P \<noteq> None" "conserves a"
  shows "conserves a'"
  using assms(1)
proof (cases rule: sim_step.cases)
  case failed
  then show ?thesis using packetFailed_conserves [OF assms(2) _ assms(4)] by (metis option.inject)
next
  case ifqueue
  then show ?thesis using interfaceQueue_conserves [OF assms(2) _ assms(4)] unfolding ifq_ok_def by (metis option.inject)
next
  case outside
  then show ?thesis using assms(4) by (simp add: conserves_def account_def)
qed (use assms in \<open>simp_all add: sim_recv_conserves set_verdict_conserves queue_drop_conserves
  sim_queue_garbage_collect_def sim_queue_destroy_def\<close>)

text \<open>The agent when the simulation starts: no packets and an empty buffer.\<close>

definition fresh_agent :: "('s, 'q) agent \<Rightarrow> bool" where
  "fresh_agent a \<longleftrightarrow> a_pq a = [] \<and> a_pq_len a = 0 \<and> a_events a = [] \<and> \<not> a_stopped a"

section \<open>A run\<close>

text \<open>
  A protocol that knows routes once its state is true, and an agent with address 1 that holds packets 7 to 5 and 8 to 6, both sent by itself.
\<close>

definition demo_hdr :: "addr \<Rightarrow> hdr" where
  "demo_hdr d = \<lparr>h_ptype = PT_TCP, h_size = 100, h_dir = D_NONE, h_forwards = 0, h_prev_hop = 0, h_next_hop = d, h_failure = False,
     h_saddr = 1, h_daddr = d, h_ttl = 32, h_inner = None\<rparr>"

definition demo_route :: rt_table where
  "demo_route = \<lparr>rt_dest_addr = 5, rt_dest_seqno = 1, rt_ifindex = 0, rt_next_hop = 5, rt_hcnt = 1, rt_flags = 0, rt_state = VALID,
     rt_last_hello_time = tv_zero, rt_hello_cnt = 0, rt_hash = 0, rt_nprec = 0, rt_precursors = []\<rparr>"

definition demo_protocol :: "bool protocol" where
  "demo_protocol = \<lparr>pr_find = (\<lambda>d s. if s then Some 0 else None), pr_rt = (\<lambda>_ _. demo_route), pr_seeking = (\<lambda>_ _. False),
     pr_update_timeout = (\<lambda>_ _ s. s), pr_update_route_timeouts = (\<lambda>_ _ s. s), pr_mark_repair = (\<lambda>_ s. s), pr_link_break = (\<lambda>_ s. s),
     pr_local_repair = (\<lambda>_ _ s. s), pr_discovery = (\<lambda>_ _ s. s), pr_rerr_create = (\<lambda>_ _ s. s), pr_rerr_send = (\<lambda>_ s. s),
     pr_worb_reset = (\<lambda>s. s), pr_fwd_time = (\<lambda>s. s), pr_hello_start = (\<lambda>s. s), pr_control = (\<lambda>_ s. s), pr_dev_ipaddr = (\<lambda>_ _. 1),
     pr_active_timeout = (\<lambda>_. 3000), pr_delete_period = (\<lambda>_. 15000), pr_is_data = (\<lambda>t. t = PT_TCP), pr_allocpkt = Some (demo_hdr 0)\<rparr>"

definition demo_agent :: "(bool, ptr list) agent" where
  "demo_agent = \<lparr>a_hdr = (\<lambda>p. if p = 7 then demo_hdr 5 else demo_hdr 6), a_next = 100, a_pq = [], a_pq_len = 0, a_ifq = Some [7, 8], a_ipaddr = 1,
     a_broadcast = 255, a_now = tv_zero, a_llfeedback = True, a_optimized_hellos = False, a_local_repair = False, a_gw_mode = False,
     a_worb = False, a_proto = False, a_stopped = False, a_events = []\<rparr>"

text \<open>Packet 7 is buffered; a route is found; the buffered packet is sent.\<close>

definition demo_buffered :: "(bool, ptr list) agent" where
  "demo_buffered = sim_recv demo_protocol 7 demo_agent"

definition demo_found :: "(bool, ptr list) agent" where
  "demo_found = demo_buffered\<lparr>a_hdr := a_hdr demo_buffered, a_now := tv_zero, a_ifq := None, a_proto := True\<rparr>"

definition demo_sent :: "(bool, ptr list) agent" where
  "demo_sent = snd (sim_queue_set_verdict demo_protocol 5 PQ_SEND demo_found)"

lemmas demo_agent_defs = demo_agent_def demo_protocol_def demo_hdr_def demo_route_def

lemma demo_run: "(sim_step demo_protocol list_pq (\<lambda>q. q))\<^sup>*\<^sup>* demo_agent demo_sent"
proof -
  let ?S = "sim_step demo_protocol list_pq (\<lambda>q. q)"
  have "?S demo_agent demo_buffered" unfolding demo_buffered_def
    by (rule sim_step.recv) (simp add: sound_pkt_def demo_agent_defs)
  moreover have "?S demo_buffered demo_found" unfolding demo_found_def by (rule sim_step.outside)
  moreover have "?S demo_found demo_sent" unfolding demo_sent_def
    by (rule sim_step.decide) (simp add: decidable_def demo_found_def demo_protocol_def)
  ultimately show ?thesis by (meson converse_rtranclp_into_rtranclp rtranclp.rtrancl_refl)
qed

lemma demo_buffered: "a_events demo_buffered = [In 7]" "a_pq demo_buffered = [\<lparr>qp_p = 7, qp_dest = 5, qp_time = tv_zero\<rparr>]"
  by (simp_all add: demo_buffered_def sim_recv_def sim_dispatch_def processPacket_def sim_route_def sim_discover_def sim_queue_add_def
    demo_agent_defs Let_def sim_emit_def upd_hdr_def upd_proto_def AODV_BROADCAST_def SIM_MAX_QUEUE_LENGTH_def)

lemma demo_sent: "a_events demo_sent = [In 7, Send 7 0]" "a_pq demo_sent = []"
  using demo_buffered
  by (simp_all add: demo_sent_def sim_queue_set_verdict_def demo_found_def Let_def sendPacket_def upd_proto_def sim_emit_def upd_hdr_def
    demo_buffered_def sim_recv_def sim_dispatch_def processPacket_def sim_route_def sim_discover_def sim_queue_add_def
    demo_agent_defs AODV_BROADCAST_def SIM_MAX_QUEUE_LENGTH_def)

section \<open>Correctness\<close>



text \<open>
  When a neighbour is lost, \<open>interfaceQueue\<close> with \<open>IFQ_DROP\<close> returns; it takes exactly the packets for that next hop off the interface queue, in their order,
  drops each once, and keeps the others in order.
\<close>

theorem interfaceQueue_drops:
  assumes "queue_laws Q pkts" "a_ifq a = Some q" "distinct (pkts q)"
  shows "\<exists>q1. interfaceQueue Q hop IFQ_DROP a =
      Some (a\<lparr>a_events := a_events a @ concat (map (\<lambda>p. [In p, Drop p DROP_RTR_NO_ROUTE]) (filter (\<lambda>p. h_next_hop (a_hdr a p) = hop) (pkts q))),
        a_ifq := Some q1\<rparr>) \<and>
    pkts q1 = filter (\<lambda>p. h_next_hop (a_hdr a p) \<noteq> hop) (pkts q)"
proof -
  have f: "fold (ifq_take IFQ_DROP) ps a = a\<lparr>a_events := a_events a @ concat (map (\<lambda>p. [In p, Drop p DROP_RTR_NO_ROUTE]) ps)\<rparr>" for ps
    by (induction ps arbitrary: a) (simp_all add: ifq_take_def sim_emit_def)
  show ?thesis using ifq_loop_correct [OF assms(1,3), of hop IFQ_DROP a] assms(2)
    by (auto simp: interfaceQueue_def f)
qed

theorem interfaceQueue_drops_witness:
  "\<exists>q1. interfaceQueue list_pq 5 IFQ_DROP demo_agent =
     Some (demo_agent\<lparr>a_events := [In 7, Drop 7 DROP_RTR_NO_ROUTE], a_ifq := Some q1\<rparr>) \<and> q1 = [8]"
  using interfaceQueue_drops [OF list_pq_laws, of demo_agent "[7, 8]" 5] by (simp add: demo_agent_defs)

end
