(* ===== verification/Spec2Isabelle.thy ===== *)
theory Spec2Isabelle
  imports Linked_List Extensions Gui_Topology Debug_Log Kernel_Proc Host_Probe Sim_Agent
begin

text \<open>
  A verification development for AODV-UU, an implementation of the AODV routing protocol
  (RFC 3561).  It models the routing daemon \<open>aodvd\<close> as the Makefile builds it by default: without
  \<open>CONFIG_GATEWAY\<close>, \<open>LLFEEDBACK\<close> and \<open>NS_PORT\<close>, on a little-endian machine with 64-bit \<open>long\<close>; the
  kernel module that earlier versions of the daemon used; the web interface that runs daemons in network namespaces; and, of other
  builds, link layer feedback and the data path of the ns-2 agent.
  File names are relative to the repository's \<open>src\<close> directory, e.g. \<open>src/core/main.c\<close>.

  \<^bold>\<open>The program.\<close>  The daemon waits in \<open>main\<close> for three kinds of input and serves them one after the
  other.  Messages of other nodes (route requests RREQ, replies RREP, errors RERR, and hellos) come
  from one UDP socket per interface and go through \<open>aodv_socket_read\<close> to one handler per type.
  Data packets come from the netfilter queue and are accepted, dropped, or kept in the packet
  queue while a route is sought.  Timers expire, and \<open>timer_age_queue\<close> calls their handlers.  All
  handlers work on the routing table, the list of searches, the records of requests seen and the
  timer queue, and have three kinds of effect: a message on a socket, a request to the kernel's
  routing table, and a verdict on a data packet.

  The kernel module \<open>kernel/\<close> does the work of the netfilter queue inside the kernel: it keeps a list of routes that the daemon
  announces over a netlink socket, and a hook decides on each data packet, keeps it while a route is
  sought, or wraps it for a gateway.  The web interface \<open>gui/app.py\<close> keeps nodes and links in memory, creates
  them with system commands, starts a daemon per node, and shows the routing tables it reads from the log files
  the daemons write.  With \<open>LLFEEDBACK\<close> the daemon learns of broken links from wireless drivers (\<open>network/llf.c\<close>).  In the simulator \<open>sim/\<close>, an agent of
  the simulator takes the place of sockets and netfilter: it has its own packet buffer and moves packets between the application, the
  protocol and the interface queue.

  \<^bold>\<open>The model.\<close>  The state is the record \<open>node\<close>: every global and static variable the protocol uses.
  Each C function is an Isabelle function from node to node with the same name; a part of a long
  function that is a definition of its own is named after what it does.  Integers keep their
  width (\<open>u8\<close>, \<open>u16\<close>, \<open>u32\<close>), so that sequence numbers, hop counts and lifetimes wrap as they do in C;
  addresses are kept in network byte order; \<open>long\<close> and \<open>int\<close> values that hold times and TTLs are
  mathematical integers.  Messages are written to and read from byte buffers at the offsets of the C structures,
  bit fields included.  Effects are appended to the trace \<open>out\<close>.  A call of \<open>exit\<close>, a null
  pointer, an access behind a message buffer and exhausted memory set \<open>status\<close>.

  \<^item> \<open>Prelude\<close>: machine types, byte order, time values, protocol constants (\<open>core/params.h\<close>,
    \<open>core/defs.h\<close>).
  \<^item> \<open>Linked_List\<close>: the circular lists of \<open>utils/list.c\<close> in a pointer heap, shown to implement
    sequences; this is why the other theories use Isabelle lists where the code uses \<open>list_t\<close>.
  \<^item> \<open>Timer_Queue\<close>: \<open>utils/timer_queue.c\<close>, the ordered queue and its contract; the loop over expired
    timers is the partial function \<open>timer_fire_loop\<close>, shown to end for every
    program whose handlers set no expired timer (locale \<open>timer_host\<close>).
  \<^item> \<open>Messages\<close>: message formats of \<open>protocol/aodv_rreq.h\<close>, \<open>aodv_rrep.h\<close>, \<open>aodv_rerr.h\<close>.
  \<^item> \<open>Node_State\<close>, \<open>Invariant\<close>: the state, the invariant \<open>wf_node\<close> and the relation \<open>ok\<close> between the
    state before and after an operation.  The invariant ties the routing table, its counters and
    hash chains, every timer and the object it is embedded in, the queue lengths and the buffer
    sizes together.  Every operation below has a lemma \<open>..._ok\<close>.
  \<^item> \<open>Netlink\<close>, \<open>Socket\<close>: \<open>network/nl.c\<close> and sending with its rate limit (\<open>network/aodv_socket.c\<close>).
  \<^item> \<open>Routing_Table\<close>, \<open>Route_Update\<close>: \<open>routing/routing_table.c\<close>.  Lookup is shown to be a search through
    all entries; this is the contract \<open>keyed_store\<close>, which the other lists with a key satisfy too.
  \<^item> \<open>Seek_List\<close>: \<open>routing/seek_list.c\<close> and the request records and blacklist of \<open>aodv_rreq.c\<close>.
  \<^item> \<open>Packet_Queue\<close>: \<open>network/packet_queue.c\<close>.
  \<^item> \<open>Rerr\<close>, \<open>Neighbor\<close>: building route errors, link breaks (\<open>protocol/aodv_neighbor.c\<close>).
  \<^item> \<open>Hello\<close>, \<open>Rrep\<close>, \<open>Rreq\<close>, \<open>Rerr_Process\<close>: the four protocol handlers (\<open>protocol/\<close>).  \<open>Extensions\<close>
    has the loop over message extensions and the functions that append them.
  \<^item> \<open>Timeouts\<close>: the timer handlers (\<open>protocol/aodv_timeout.c\<close>) and the running of timers.
  \<^item> \<open>Packet_Input\<close>: data packets (\<open>network/packet_input.c\<close>, \<open>network/nfqueue.c\<close>).
  \<^item> \<open>Daemon\<close>: receiving messages, initialisation, the main loop (\<open>core/main.c\<close>).  \<open>Lifecycle\<close>: options, set-up of the
    host, whole runs of the program, shutdown.
  \<^item> \<open>Kernel_Expl\<close>, \<open>Kernel_Packets\<close>, \<open>Kernel_Module\<close>: the kernel module with a state of its own, the record
    \<open>kstate\<close>: the ordered list of routes (\<open>kaodv-expl.c\<close>), packet queue and encapsulation
    (\<open>kaodv-queue.c\<close>, \<open>kaodv-ipenc.c\<close>), netlink messages, hook, loading and unloading (\<open>kaodv-netlink.c\<close>, \<open>kaodv-mod.c\<close>).
  \<^item> \<open>Table_Log\<close>, \<open>Gui_Log\<close>: the text of the table log (\<open>utils/debug.c\<close>) and the function of the web interface
    that reads it, with the parts of Python's strings and regular expressions it uses.
  \<^item> \<open>Debug_Log\<close>: log messages (\<open>utils/debug.c\<close>): files, levels, buffers, the text about protocol messages.
  \<^item> \<open>Gui_Topology\<close>: the requests of the web interface as steps on the record \<open>gui\<close>; operations that only run
    commands satisfy the contract \<open>command\<close>.
  \<^item> \<open>Llf\<close>: link layer feedback, with the text of the ARP table, netlink messages and their attributes at byte level;
    the library of the wireless tools is the record \<open>wireless\<close>, an argument.
  \<^item> \<open>Kernel_Proc\<close>: the listings of the kernel module in \<open>/proc\<close> and its debug messages.
  \<^item> \<open>Host_Probe\<close>: what the daemon finds out about its host: the search for a wireless interface, the default route (\<open>core/main.c\<close>), address
    changes (\<open>nl_rt_callback\<close>), and whether a destination is local (\<open>routing/locality.c\<close>).
  \<^item> \<open>Sim_Queue\<close>, \<open>Sim_Agent\<close>: the interface queue (\<open>sim/ns-2.32/queue/priqueue.cc\<close>) and the agent (\<open>sim/packet_queue.cc\<close>, \<open>sim/packet_input.cc\<close>,
    \<open>sim/aodv-uu.cc\<close>) with the record \<open>agent\<close> as its state.  The simulator's list of packets and its build of the protocol are arguments, the
    records \<open>pq_ops\<close> (with the laws \<open>queue_laws\<close>) and \<open>protocol\<close>.
  \<^item> \<open>Demo\<close>: the node the examples run on, with a neighbour 10.0.0.2 and a route to 10.0.0.3.

  \<^bold>\<open>What is shown.\<close>  Whatever the daemon receives, its state stays well formed, no timer refers to a
  freed object, no null pointer is dereferenced, and every turn of the main loop ends
  (\<open>Daemon\<close>, \<open>Timeouts\<close>).  What each handler does to the routing table and which messages it sends is
  stated for every branch; routes never get older sequence numbers from requests and replies; a
  broken link leaves no valid route through the lost neighbour; a request is processed once; a
  search without answer ends; no data packet is lost or decided twice.  A statement that a message
  is sent carries the condition \<open>can_send\<close>: an interface is up and the rate limit has room.

  For the kernel module: the list of routes implements a map; decapsulation undoes encapsulation;
  the hook decides by the route known for a packet (specification \<open>decides\<close>); a new route releases exactly the packets that wait for it;
  every reachable state is well formed; and unloading leaves nothing behind.  For the web interface: reading the
  log gives back the routes the daemon printed, for tables whose fields fit their columns and with at most one precursor;
  and the topology stays consistent under all requests and all failures of commands.

  Link layer feedback returns whatever it reads, and a reported failure breaks exactly the link to the neighbour that the ARP table names.
  A log message of level \<open>LOG_ERR\<close> ends the program, and the models of the functions that log one say so; the text about a protocol message
  fits the buffers.  A listing in \<open>/proc\<close> read in parts is the whole listing.  In the simulator no packet is lost or handed on twice, whatever the protocol decides,
  provided that it orders packets to be sent only when there is a route (the agent loses one otherwise, \<open>verdict_no_route_leaks\<close>).

  \<^bold>\<open>Bounds.\<close>  The loop of \<open>timer_timeout\<close> is a \<open>partial_function\<close>, shown to return.  The walk over
  message extensions has fuel; enough of it is proved for well-encoded messages.  The loops over wireless events and over the
  simulator's queue call code outside the repository; they are partial functions too, shown to return when each event uses up a part of its stream and when
  the queue obeys its laws.  All other loops
  are structural or have a termination proof.  The number of routes is below \<open>rt_heap_limit\<close>, an
  arbitrary number below \<open>2 ^ 32\<close> that stands for the memory of the machine.

  \<^bold>\<open>Assumptions.\<close>  Addresses of objects are not reused while the daemon runs; \<open>gettimeofday\<close> is constant while one
  callback or one pass over the timers runs; \<open>sendto\<close> and \<open>sendmsg\<close> succeed.  What the operating
  system and libnetfilter_queue return is an argument of the definitions.  Functions of the kernel module run
  one after the other, as its locks and the softirq make them; whether an allocation succeeds is an argument, and
  \<open>dev_set_mtu\<close> succeeds.  Requests to the web interface are served one after the other.

  \<^bold>\<open>Not modelled.\<close>  Which messages below level \<open>LOG_ERR\<close> a function logs, since they change no state.  The parts of the protocol
  compiled with \<open>CONFIG_GATEWAY\<close> only.  Of the simulator port: the binding to Tcl, construction and start of the agent and the
  replacements for clock and interface names, which wrap classes of the simulator that are not part of the repository; the
  protocol as built with \<open>NS_PORT\<close>, whose code differs from the daemon's in sending and timers; and the copies of the simulator's own files other than the
  interface queue.  Of the web interface: what only passes text to the browser, ping included.  Scripts.
\<close>

end
